(* ===== verification/Prelude.thy ===== *)
theory Prelude
  imports Main "HOL-Library.Word" "HOL-Library.Code_Target_Numeral"
begin

text \<open>
  Shared vocabulary of the development: Python's \<open>bytes\<close> as lists of 8-bit words, the
  integers a byte string denotes (\<open>int.from_bytes\<close>, \<open>int.to_bytes\<close>, \<open>struct\<close>), results
  of code that may raise as sums, and code that also keeps state as functions from a
  state to a result and the next state. The collections \<open>pybits\<close> and \<open>exec\<close> hold the
  facts the component proofs rewrite with.
\<close>

unbundle bit_operations_syntax

type_synonym byte = "8 word"
type_synonym bytes = "8 word list"

named_theorems pybits "bit operations of the source as arithmetic"
named_theorems exec "evaluation rules for results and stateful code"

section \<open>Bit operations as arithmetic\<close>

text \<open>A mask of low bits is a remainder, a shift is a product or a quotient.\<close>

lemma and_masks [pybits]:
  fixes n :: nat and i :: int
  shows "n AND 255 = n mod 256" "n AND 127 = n mod 128" "n AND 31 = n mod 32" "n AND 7 = n mod 8"
    "n AND 65535 = n mod 65536" "n AND 4294967295 = n mod 4294967296"
    "i AND 255 = i mod 256" "i AND 127 = i mod 128" "i AND 31 = i mod 32" "i AND 7 = i mod 8"
    "i AND 65535 = i mod 65536" "i AND 4294967295 = i mod 4294967296"
proof -
  have m: "x AND mask k = x mod 2 ^ k" for x :: nat and k
    by (simp flip: take_bit_eq_mask add: take_bit_eq_mod)
  have mi: "x AND mask k = x mod 2 ^ k" for x :: int and k
    by (simp flip: take_bit_eq_mask add: take_bit_eq_mod)
  show "n AND 255 = n mod 256" "n AND 127 = n mod 128" "n AND 31 = n mod 32" "n AND 7 = n mod 8"
    "n AND 65535 = n mod 65536" "n AND 4294967295 = n mod 4294967296"
    using m [of n 8] m [of n 7] m [of n 5] m [of n 3] m [of n 16] m [of n 32]
    by (simp_all add: mask_eq_exp_minus_1)
  show "i AND 255 = i mod 256" "i AND 127 = i mod 128" "i AND 31 = i mod 32" "i AND 7 = i mod 8"
    "i AND 65535 = i mod 65536" "i AND 4294967295 = i mod 4294967296"
    using mi [of i 8] mi [of i 7] mi [of i 5] mi [of i 3] mi [of i 16] mi [of i 32]
    by (simp_all add: mask_eq_exp_minus_1)
qed

lemma shifts [pybits]:
  fixes n :: nat and i :: int
  shows "drop_bit k n = n div 2 ^ k" "push_bit k n = n * 2 ^ k"
    "drop_bit k i = i div 2 ^ k" "push_bit k i = i * 2 ^ k"
  by (simp_all add: drop_bit_eq_div push_bit_eq_mult)

text \<open>Or-ing a value into bits that are zero adds it.\<close>

lemma or_disjoint_nat:
  fixes a b :: nat
  assumes "b < 2 ^ k"
  shows "(a * 2 ^ k) OR b = a * 2 ^ k + b"
proof -
  have "take_bit k b = b"
    using assms by (simp add: take_bit_nat_eq_self_iff)
  then have "push_bit k a AND b = push_bit k a AND take_bit k b" by simp
  also have "\<dots> = 0"
    by (rule bit_eqI) (simp add: bit_simps)
  finally show ?thesis
    by (simp add: disjunctive_add_eq_or push_bit_eq_mult)
qed

lemma or_low [pybits]:
  fixes a b :: nat
  shows "b < 256 \<Longrightarrow> (a * 256) OR b = a * 256 + b"
    and "b < 128 \<Longrightarrow> (a * 128) OR b = a * 128 + b"
    and "b < 32 \<Longrightarrow> (a * 32) OR b = a * 32 + b"
  using or_disjoint_nat [of b 8 a] or_disjoint_nat [of b 7 a] or_disjoint_nat [of b 5 a]
  by simp_all

lemma or_disjoint_int:
  fixes a b :: int
  assumes "0 \<le> b" "b < 2 ^ k"
  shows "(a * 2 ^ k) OR b = a * 2 ^ k + b"
proof -
  have "take_bit k b = b" using assms by (simp add: take_bit_int_eq_self_iff)
  then have "push_bit k a AND b = push_bit k a AND take_bit k b" by simp
  also have "\<dots> = 0" by (rule bit_eqI) (auto simp: bit_simps)
  finally show ?thesis by (simp add: disjunctive_add_eq_or push_bit_eq_mult)
qed

text \<open>Octets: their values, and the top bit as the source tests it.\<close>

lemma byte_less [simp]: "unat (c :: byte) < 256"
  using unsigned_less [of c] by simp

lemma uint_byte_less [simp]: "uint (c :: byte) < 256"
  using unsigned_less [of c] by simp

lemma unat_of_int_byte: "unat (of_int i :: byte) = nat (i mod 256)"
  by (simp add: unsigned_of_int take_bit_eq_mod nat_mod_distrib)

lemma unat_of_nat_byte [simp]: "unat (of_nat n :: byte) = n mod 256"
  by (simp add: unat_of_nat)

lemma and_128_eq_0 [pybits]:
  fixes c :: byte
  shows "unat c AND 128 = 0 \<longleftrightarrow> unat c < 128"
proof -
  have "unat c div 128 = (if unat c < 128 then 0 else 1)"
    using byte_less [of c] by (auto intro: div_nat_eqI)
  then have "bit (unat c) 7 \<longleftrightarrow> \<not> unat c < 128"
    by (simp add: bit_iff_odd)
  then show ?thesis
    using and_exp_eq_0_iff_not_bit [of "unat c" 7] by simp
qed

lemma or_128:
  fixes n :: nat
  assumes "n < 128"
  shows "n OR 128 = 128 + n"
  using or_disjoint_nat [of n 7 1] assms by (simp add: or.commute)

section \<open>Integers and byte strings\<close>

text \<open>\<open>int.from_bytes(s, "big")\<close>, unsigned and signed; \<open>v.to_bytes(n, "big")\<close> for
  values that fit; the little-endian forms.\<close>

definition from_be :: "bytes \<Rightarrow> nat" where
  "from_be bs = foldl (\<lambda>a c. a * 256 + unat c) 0 bs"

definition from_be_signed :: "bytes \<Rightarrow> int" where
  "from_be_signed bs =
     (if bs \<noteq> [] \<and> 128 \<le> unat (hd bs) then int (from_be bs) - 256 ^ length bs
      else int (from_be bs))"

primrec to_be :: "nat \<Rightarrow> nat \<Rightarrow> bytes" where
  "to_be 0 v = []"
| "to_be (Suc n) v = to_be n (v div 256) @ [of_nat (v mod 256)]"

definition from_le :: "bytes \<Rightarrow> nat" where
  "from_le bs = from_be (rev bs)"

definition to_le :: "nat \<Rightarrow> nat \<Rightarrow> bytes" where
  "to_le n v = rev (to_be n v)"

lemma from_be_Nil [simp]: "from_be [] = 0"
  by (simp add: from_be_def)

lemma from_be_snoc [simp]: "from_be (bs @ [c]) = from_be bs * 256 + unat c"
  by (simp add: from_be_def)

lemma from_be_append: "from_be (xs @ ys) = from_be xs * 256 ^ length ys + from_be ys"
  by (induction ys rule: rev_induct)
    (simp_all add: algebra_simps flip: append_assoc del: append_assoc)

lemma from_be_Cons: "from_be (c # bs) = unat c * 256 ^ length bs + from_be bs"
  using from_be_append [of "[c]" bs] by (simp add: from_be_def)

lemma from_be_less: "from_be bs < 256 ^ length bs"
proof (induction bs)
  case (Cons c bs)
  have "unat c \<le> 255"
    using byte_less [of c] by linarith
  then have "unat c * 256 ^ length bs \<le> 255 * 256 ^ length bs"
    by (rule mult_le_mono1)
  with Cons.IH show ?case
    unfolding from_be_Cons length_Cons power_Suc by linarith
qed simp

lemma length_to_be [simp]: "length (to_be n v) = n"
  by (induction n arbitrary: v) auto

lemma from_be_to_be [simp]: "v < 256 ^ n \<Longrightarrow> from_be (to_be n v) = v"
  by (induction n arbitrary: v) (auto simp: less_mult_imp_div_less mult.commute)

lemma to_be_from_be [simp]: "length bs = n \<Longrightarrow> to_be n (from_be bs) = bs"
proof (induction n arbitrary: bs)
  case (Suc n)
  then obtain cs c where "bs = cs @ [c]" "length cs = n"
    by (metis length_Suc_conv_rev)
  with Suc.IH [of cs] show ?case by simp
qed simp

lemma length_to_le [simp]: "length (to_le n v) = n"
  by (simp add: to_le_def)

lemma from_le_to_le [simp]: "v < 256 ^ n \<Longrightarrow> from_le (to_le n v) = v"
  by (simp add: from_le_def to_le_def)

lemma to_le_from_le [simp]: "length bs = n \<Longrightarrow> to_le n (from_le bs) = bs"
  by (simp add: from_le_def to_le_def)

lemma from_le_less: "from_le bs < 256 ^ length bs"
  using from_be_less [of "rev bs"] by (simp add: from_le_def)

text \<open>Bitwise operations act octet by octet.\<close>

lemma bitop_256:
  fixes a b :: nat and c d :: byte
  shows "(a * 256 + unat c) AND (b * 256 + unat d) = (a AND b) * 256 + unat (c AND d)"
    "(a * 256 + unat c) OR (b * 256 + unat d) = (a OR b) * 256 + unat (c OR d)"
    "(a * 256 + unat c) XOR (b * 256 + unat d) = (a XOR b) * 256 + unat (c XOR d)"
proof -
  have s: "x = y" if "drop_bit 8 x = drop_bit 8 y" "take_bit 8 x = take_bit 8 y" for x y :: nat
    by (metis bits_ident that)
  have d: "drop_bit 8 (a * 256 + unat c) = a" "take_bit 8 (a * 256 + unat c) = unat c" for a and c :: byte
    by (simp_all add: drop_bit_eq_div take_bit_eq_mod)
  show "(a * 256 + unat c) AND (b * 256 + unat d) = (a AND b) * 256 + unat (c AND d)"
    by (rule s) (simp_all only: drop_bit_and take_bit_and d, simp add: unsigned_and_eq)
  show "(a * 256 + unat c) OR (b * 256 + unat d) = (a OR b) * 256 + unat (c OR d)"
    by (rule s) (simp_all only: drop_bit_or take_bit_or d, simp add: unsigned_or_eq)
  show "(a * 256 + unat c) XOR (b * 256 + unat d) = (a XOR b) * 256 + unat (c XOR d)"
    by (rule s) (simp_all only: drop_bit_xor take_bit_xor d, simp add: unsigned_xor_eq)
qed

lemma from_be_bitops:
  assumes "length a = length b"
  shows "from_be (map2 (AND) a b) = from_be a AND from_be b"
    "from_be (map2 (OR) a b) = from_be a OR from_be b"
    "from_be (map2 (XOR) a b) = from_be a XOR from_be b"
  using assms by (induction a b rule: rev_induct2) (simp_all add: bitop_256)

section \<open>Code that may raise\<close>

text \<open>A result is an error on the left or a value on the right. \<open>rbind\<close> runs the rest
  of a function on the value, as the statements after a call that may raise.\<close>

definition rbind :: "'e + 'a \<Rightarrow> ('a \<Rightarrow> 'e + 'b) \<Rightarrow> 'e + 'b" where
  "rbind r f = (case r of Inl e \<Rightarrow> Inl e | Inr x \<Rightarrow> f x)"

lemma rbind_simps [simp, exec]:
  "rbind (Inl e) f = Inl e"
  "rbind (Inr x) f = f x"
  by (simp_all add: rbind_def)

lemma rbind_Inr_iff: "rbind r f = Inr y \<longleftrightarrow> (\<exists>x. r = Inr x \<and> f x = Inr y)"
  by (cases r) auto

lemma rbind_Inl_iff: "rbind r f = Inl e \<longleftrightarrow> r = Inl e \<or> (\<exists>x. r = Inr x \<and> f x = Inl e)"
  by (cases r) auto

text \<open>The exceptions of Python and of the program that the components outside the BER codec
  raise, without their messages.\<close>

datatype py_exn =
    OSError | Value_Error | Index_Error | Key_Error | Type_Error | Struct_Error
  | Scapy_Exception | Zero_Division | EOF_Error | Assertion_Error | Attribute_Error

type_synonym 'a res = "py_exn + 'a"

text \<open>\<open>[f(x) for x in xs]\<close> where \<open>f\<close> may raise: the first error ends the loop.\<close>

fun rmap :: "('a \<Rightarrow> 'e + 'b) \<Rightarrow> 'a list \<Rightarrow> 'e + 'b list" where
  "rmap f [] = Inr []"
| "rmap f (x # xs) = rbind (f x) (\<lambda>y. rbind (rmap f xs) (\<lambda>ys. Inr (y # ys)))"

lemma rmap_Inr: "(\<And>x. x \<in> set xs \<Longrightarrow> f x = Inr (g x)) \<Longrightarrow> rmap f xs = Inr (map g xs)"
  by (induction xs) auto

lemma rmap_Inr_iff: "rmap f xs = Inr ys \<longleftrightarrow> list_all2 (\<lambda>x y. f x = Inr y) xs ys"
  by (induction xs arbitrary: ys) (auto simp: rbind_Inr_iff list_all2_Cons1)

lemma rmap_cong [fundef_cong]:
  "xs = ys \<Longrightarrow> (\<And>x. x \<in> set ys \<Longrightarrow> f x = g x) \<Longrightarrow> rmap f xs = rmap g ys"
  by (induction ys arbitrary: xs) auto

section \<open>Code that keeps state and may raise\<close>

text \<open>A stateful computation maps a state to a result and the state it leaves; a raise
  keeps what was changed before it.\<close>

type_synonym ('s, 'e, 'a) comp = "'s \<Rightarrow> ('e + 'a) \<times> 's"

definition ret :: "'a \<Rightarrow> ('s, 'e, 'a) comp" where
  "ret x = (\<lambda>s. (Inr x, s))"

definition raise :: "'e \<Rightarrow> ('s, 'e, 'a) comp" where
  "raise e = (\<lambda>s. (Inl e, s))"

definition lift :: "'e + 'a \<Rightarrow> ('s, 'e, 'a) comp" where
  "lift r = (\<lambda>s. (r, s))"

definition sbind :: "('s, 'e, 'a) comp \<Rightarrow> ('a \<Rightarrow> ('s, 'e, 'b) comp) \<Rightarrow> ('s, 'e, 'b) comp" where
  "sbind m f = (\<lambda>s. case m s of (Inl e, s') \<Rightarrow> (Inl e, s') | (Inr x, s') \<Rightarrow> f x s')"

text \<open>\<open>try: m\<close> with a handler for every error; a handler that does not apply raises again.\<close>

definition try_with :: "('s, 'e, 'a) comp \<Rightarrow> ('e \<Rightarrow> ('s, 'e, 'a) comp) \<Rightarrow> ('s, 'e, 'a) comp" where
  "try_with m h = (\<lambda>s. case m s of (Inl e, s') \<Rightarrow> h e s' | (Inr x, s') \<Rightarrow> (Inr x, s'))"

lemma comp_apply [simp, exec]:
  "ret x s = (Inr x, s)" "raise e s = (Inl e, s)" "lift r s = (r, s)"
  by (simp_all add: ret_def raise_def lift_def)

lemma sbind_apply [exec]:
  "sbind m f s = (case m s of (Inl e, s') \<Rightarrow> (Inl e, s') | (Inr x, s') \<Rightarrow> f x s')"
  by (simp add: sbind_def)

lemma sbind_eq [exec]:
  "m s = (Inr x, s') \<Longrightarrow> sbind m f s = f x s'"
  "m s = (Inl e, s') \<Longrightarrow> sbind m f s = (Inl e, s')"
  by (simp_all add: sbind_def)

lemma sbind_Inr_iff:
  "sbind m f s = (Inr y, t) \<longleftrightarrow> (\<exists>x u. m s = (Inr x, u) \<and> f x u = (Inr y, t))"
  by (auto simp: sbind_def split: prod.splits sum.splits)

lemma sbind_lift [simp]: "sbind (lift (Inr x)) f = f x" "sbind (lift (Inl e)) f = raise e"
  by (auto simp: sbind_def lift_def raise_def)

section \<open>Lists\<close>

lemma take_drop_append:
  "length xs = n \<Longrightarrow> take n (xs @ ys) = xs" "length xs = n \<Longrightarrow> drop n (xs @ ys) = ys"
  by simp_all

lemma length_4_conv: "length xs = 4 \<longleftrightarrow> (\<exists>a b c d. xs = [a, b, c, d])"
  by (auto simp: numeral_eq_Suc length_Suc_conv)

lemma length_ge_3E:
  assumes "3 \<le> length xs"
  obtains x y z r where "xs = x # y # z # r"
  using assms by (auto simp: Suc_le_length_iff numeral_3_eq_3)

lemma concat_length_replicate: "\<forall>x\<in>set xs. length x = n \<Longrightarrow> length (concat xs) = n * length xs"
  by (induction xs) auto

end
