(* ===== verification/Ber_Prim.thy ===== *)
theory Ber_Prim
  imports Prelude
begin

text \<open>
  The primitive layer of \<open>asn1/ber.py\<close>: the budget every decode is charged to, the
  length, base-128 and identifier octets, tagging, and the walk over the elements of a
  constructed value. Lengths and sizes are natural numbers: the code passes \<open>len(s)\<close>.
  Errors carry what the exceptions carry (the octets left over and what was decoded so
  far), not their messages. \<open>NoReturn\<close> is the result of a call whose loop never ends.
\<close>

section \<open>Errors and the budget\<close>

datatype 'o decoded = DObj 'o | DList "'o decoded list"

datatype 'o ber_err =
    BER_Exception
  | BER_Encoding_Error
  | BER_Decoding_Error "'o decoded list option" bytes
  | BER_BadTag_Decoding_Error "'o decoded list option" bytes
  | ASN1_Error
  | IndexError
  | ValueError
  | NoReturn

definition MAX_BER_DEPTH :: nat where
  "MAX_BER_DEPTH = 32"

definition MAX_BER_ELEMENTS :: nat where
  "MAX_BER_ELEMENTS = push_bit 18 1"

record ber_state =
  left :: "nat option"
  nesting :: nat

type_synonym ('o, 'a) ber = "(ber_state, 'o ber_err, 'a) comp"

definition ber_budget :: "('o, 'a) ber \<Rightarrow> ('o, 'a) ber" where
  "ber_budget body = (\<lambda>st.
     let outer = (left st \<noteq> None);
         st1 = (if outer then st else st\<lparr>left := Some MAX_BER_ELEMENTS, nesting := 0\<rparr>);
         st2 = st1\<lparr>nesting := nesting st1 + 1\<rparr>;
         (r, st3) = (if MAX_BER_DEPTH < nesting st2 then (Inl BER_Exception, st2) else body st2);
         st4 = st3\<lparr>nesting := nesting st3 - 1\<rparr>
     in (r, if outer then st4 else st4\<lparr>left := None\<rparr>))"

definition charge :: "('o, unit) ber" where
  "charge = (\<lambda>st. case left st of
       None \<Rightarrow> (Inr (), st)
     | Some l \<Rightarrow> if l = 0 then (Inl BER_Exception, st) else (Inr (), st\<lparr>left := Some (l - 1)\<rparr>))"

section \<open>Lengths, base-128 numbers, identifiers\<close>

definition chb :: "int \<Rightarrow> 'o ber_err + bytes" where
  "chb x = (if 0 \<le> x \<and> x < 256 then Inr [of_int x] else Inl ValueError)"

function len_octets :: "nat \<Rightarrow> nat \<Rightarrow> bytes \<Rightarrow> bytes" where
  "len_octets ll sz s =
     (if ll \<noteq> 0 \<or> 0 < sz
      then len_octets (drop_bit 8 ll) (sz - 1) (of_nat (ll AND 0xFF) # s)
      else s)"
  by pat_completeness auto
termination
  by (relation "measure (\<lambda>(ll, sz, s). ll + sz)") (auto simp: pybits)

definition BER_len_enc :: "nat \<Rightarrow> nat \<Rightarrow> nat option \<Rightarrow> 'o ber_err + bytes" where
  "BER_len_enc long_size ll size_len =
     (let sz = (case size_len of None \<Rightarrow> long_size | Some n \<Rightarrow> n) in
      if ll \<le> 127 \<and> sz = 0 then Inr [of_nat ll]
      else (let s = len_octets ll sz [] in
        if 127 < length s then Inl BER_Exception else Inr (of_nat (length s OR 0x80) # s)))"

definition BER_len_dec :: "bytes \<Rightarrow> 'o ber_err + nat \<times> bytes" where
  "BER_len_dec s =
     (case s of
        [] \<Rightarrow> Inl IndexError
      | c # r \<Rightarrow>
          if unat c AND 0x80 = 0 then Inr (unat c, r)
          else (let n = unat c AND 0x7F in
            if length s \<le> n then Inl (BER_Decoding_Error None s)
            else Inr (foldl (\<lambda>ll c. push_bit 8 ll OR unat c) 0 (take n r), drop n r)))"

partial_function (option) num_enc_loop :: "int \<Rightarrow> nat \<Rightarrow> bytes \<Rightarrow> bytes option" where
  "num_enc_loop ll sz x =
     (if ll \<noteq> 0 \<or> 0 < sz
      then num_enc_loop (drop_bit 7 ll) (sz - 1)
        (of_nat (if x \<noteq> [] then nat (ll AND 0x7F) OR 0x80 else nat (ll AND 0x7F)) # x)
      else Some x)"

declare num_enc_loop.simps [code]

definition BER_num_enc :: "int \<Rightarrow> nat \<Rightarrow> 'o ber_err + bytes" where
  "BER_num_enc ll sz = (case num_enc_loop ll sz [] of None \<Rightarrow> Inl NoReturn | Some x \<Rightarrow> Inr x)"

fun num_dec_loop :: "bytes \<Rightarrow> nat \<Rightarrow> nat \<Rightarrow> nat \<Rightarrow> bytes \<Rightarrow> 'o ber_err + nat \<times> bytes" where
  "num_dec_loop s max_pow i x [] = Inl (BER_Decoding_Error None s)"
| "num_dec_loop s max_pow i x (c # cs) =
     (let y = push_bit 7 x OR (unat c AND 0x7F) in
      if unat c AND 0x80 = 0 then Inr (y, cs)
      else if max_pow < i then Inl (BER_Decoding_Error None s)
      else num_dec_loop s max_pow (i + 1) y cs)"

definition BER_num_dec :: "bytes \<Rightarrow> nat \<Rightarrow> nat \<Rightarrow> 'o ber_err + nat \<times> bytes" where
  "BER_num_dec s cls_id max_pow =
     (if s = [] then Inl (BER_Decoding_Error None s) else num_dec_loop s max_pow 0 cls_id s)"

definition BER_id_dec :: "bytes \<Rightarrow> ('o, nat \<times> bytes) ber" where
  "BER_id_dec s = sbind charge (\<lambda>_. lift
     (case s of
        [] \<Rightarrow> Inl IndexError
      | c # r \<Rightarrow> if unat c AND 0x1F \<noteq> 0x1F then Inr (unat c, r)
                 else BER_num_dec r (drop_bit 5 (unat c)) 32))"

definition BER_id_enc :: "int \<Rightarrow> 'o ber_err + bytes" where
  "BER_id_enc n =
     (if n < 256 then chb n
      else rbind (BER_num_enc n 1) (\<lambda>s. case s of
          [] \<Rightarrow> Inl IndexError
        | c # r \<Rightarrow> Inr (of_nat (push_bit 5 (unat c AND 0x07) OR 0x1F) # r)))"

section \<open>Tagging\<close>

definition BER_tagging_dec ::
  "bytes \<Rightarrow> int \<Rightarrow> nat option \<Rightarrow> nat option \<Rightarrow> bool \<Rightarrow> ('o, nat option \<times> bytes) ber" where
  "BER_tagging_dec s hidden_tag implicit_tag explicit_tag safe =
     (if s = [] then ret (None, s)
      else (case implicit_tag of
        Some it \<Rightarrow> sbind (BER_id_dec s) (\<lambda>(ber_id, s1).
          if ber_id \<noteq> it \<and> \<not> safe then raise (BER_Decoding_Error None s1)
          else sbind (lift (chb hidden_tag)) (\<lambda>h.
            ret (if ber_id \<noteq> it then Some ber_id else None, h @ s1)))
      | None \<Rightarrow> (case explicit_tag of
          Some et \<Rightarrow> sbind (BER_id_dec s) (\<lambda>(ber_id, s1).
            if ber_id \<noteq> et \<and> \<not> safe then raise (BER_Decoding_Error None s1)
            else sbind (lift (BER_len_dec s1)) (\<lambda>(l, s2).
              ret (if ber_id \<noteq> et then Some ber_id else None, s2)))
        | None \<Rightarrow> ret (None, s))))"

definition BER_tagging_enc ::
  "nat \<Rightarrow> bytes \<Rightarrow> int option \<Rightarrow> int option \<Rightarrow> 'o ber_err + bytes" where
  "BER_tagging_enc long_size s implicit_tag explicit_tag =
     (if s = [] then Inr s
      else (case implicit_tag of
        Some it \<Rightarrow> rbind (BER_id_enc it) (\<lambda>h. Inr (h @ tl s))
      | None \<Rightarrow> (case explicit_tag of
          Some et \<Rightarrow> rbind (BER_id_enc et) (\<lambda>h.
            rbind (BER_len_enc long_size (length s) (Some long_size)) (\<lambda>l. Inr (h @ l @ s)))
        | None \<Rightarrow> Inr s)))"

section \<open>The length octets\<close>

declare len_octets.simps [simp del]

lemma len_octets_spec:
  "\<exists>w. len_octets ll sz s = w @ s \<and> from_be w = ll \<and> sz \<le> length w"
proof (induction ll sz s rule: len_octets.induct)
  case (1 ll sz s)
  show ?case
  proof (cases "ll \<noteq> 0 \<or> 0 < sz")
    case True
    let ?c = "of_nat (ll AND 0xFF) :: byte"
    obtain w where w: "len_octets (drop_bit 8 ll) (sz - 1) (?c # s) = w @ ?c # s"
      "from_be w = drop_bit 8 ll" "sz - 1 \<le> length w"
      using "1.IH" [OF True] by blast
    then have "len_octets ll sz s = (w @ [?c]) @ s" "from_be (w @ [?c]) = ll" "sz \<le> length (w @ [?c])"
      using True by (auto simp: len_octets.simps [of ll sz s] pybits)
    then show ?thesis by blast
  next
    case False
    then have "len_octets ll sz s = [] @ s" by (subst len_octets.simps) simp
    with False show ?thesis by fastforce
  qed
qed

lemma len_octets_length:
  assumes "ll < 256 ^ k" "sz \<le> k"
  shows "length (len_octets ll sz s) \<le> k + length s"
  using assms
proof (induction k arbitrary: ll sz s)
  case 0
  then show ?case by (subst len_octets.simps) simp
next
  case (Suc k)
  have "drop_bit 8 ll < 256 ^ k" "sz - 1 \<le> k"
    using Suc.prems by (auto simp: pybits less_mult_imp_div_less mult.commute)
  from Suc.IH [OF this, of "of_nat (ll AND 0xFF) # s"] show ?case
    by (subst len_octets.simps) simp
qed

lemma len_fold_from_be: "foldl (\<lambda>ll c. push_bit 8 ll OR unat c) 0 bs = from_be bs"
  by (simp add: from_be_def pybits)

lemma BER_len_dec_short: "unat c < 128 \<Longrightarrow> BER_len_dec (c # r) = Inr (unat c, r)"
  by (simp add: BER_len_dec_def and_128_eq_0)

lemma and_127_high:
  assumes "128 \<le> unat (c :: byte)"
  shows "unat c AND 0x7F = unat c - 128"
proof -
  have "(unat c - 128) mod 128 = unat c - 128"
    using byte_less [of c] by (intro mod_less) linarith
  with assms show ?thesis
    by (simp add: and_masks le_mod_geq)
qed

lemma BER_len_dec_long:
  "128 \<le> unat c \<Longrightarrow> BER_len_dec (c # r) =
     (if length r < unat c - 128 then Inl (BER_Decoding_Error None (c # r))
      else Inr (from_be (take (unat c - 128) r), drop (unat c - 128) r))"
  by (auto simp: BER_len_dec_def len_fold_from_be Let_def and_127_high and_128_eq_0)

lemma unat_len_octet: "n < 128 \<Longrightarrow> unat (of_nat (n OR 0x80) :: byte) = 128 + n"
  by (subst or_128) (simp_all del: of_nat_add)

lemma BER_len_dec_enc:
  assumes "BER_len_enc ls ll size_len = Inr e"
  shows "BER_len_dec (e @ rest) = Inr (ll, rest)"
proof (cases "ll \<le> 127 \<and> (case size_len of None \<Rightarrow> ls | Some n \<Rightarrow> n) = 0")
  case True
  with assms show ?thesis
    by (auto simp: BER_len_enc_def BER_len_dec_short)
next
  case False
  define sz where "sz = (case size_len of None \<Rightarrow> ls | Some n \<Rightarrow> n)"
  obtain w where w: "len_octets ll sz [] = w" "from_be w = ll"
    using len_octets_spec [of ll sz "[]"] by auto
  with False assms have "length w < 128" "e = of_nat (length w OR 0x80) # w"
    by (auto simp: BER_len_enc_def Let_def sz_def split: if_splits)
  with w show ?thesis
    using BER_len_dec_long [of "of_nat (length w OR 0x80)" "w @ rest"] unat_len_octet by simp
qed

lemma BER_len_enc_succeeds:
  assumes "ll < 256 ^ 127" "(case size_len of None \<Rightarrow> ls | Some n \<Rightarrow> n) \<le> 127"
  shows "\<exists>e. BER_len_enc ls ll size_len = Inr e \<and> e \<noteq> []"
  using len_octets_length [OF assms, of "[]"]
  by (auto simp: BER_len_enc_def Let_def)

section \<open>Base-128 numbers\<close>

definition from_b128 :: "bytes \<Rightarrow> nat" where
  "from_b128 bs = foldl (\<lambda>a c. a * 128 + unat c mod 128) 0 bs"

lemma from_b128_Nil [simp]: "from_b128 [] = 0"
  by (simp add: from_b128_def)

lemma from_b128_snoc [simp]: "from_b128 (bs @ [c]) = from_b128 bs * 128 + unat c mod 128"
  by (simp add: from_b128_def)

lemma from_b128_append: "from_b128 (xs @ ys) = from_b128 xs * 128 ^ length ys + from_b128 ys"
  by (induction ys rule: rev_induct)
    (simp_all add: algebra_simps flip: append_assoc del: append_assoc)

lemma from_b128_Cons: "from_b128 (c # bs) = unat c mod 128 * 128 ^ length bs + from_b128 bs"
  using from_b128_append [of "[c]" bs] by (simp add: from_b128_def)

lemma from_b128_less: "from_b128 bs < 128 ^ length bs"
proof (induction bs)
  case (Cons c bs)
  have "unat c mod 128 \<le> 127" by (simp add: less_Suc_eq_le [symmetric])
  then have "unat c mod 128 * 128 ^ length bs \<le> 127 * 128 ^ length bs"
    by (rule mult_le_mono1)
  with Cons.IH show ?case
    unfolding from_b128_Cons length_Cons power_Suc by linarith
qed simp

function num_octets :: "nat \<Rightarrow> nat \<Rightarrow> bytes \<Rightarrow> bytes" where
  "num_octets n sz x =
     (if n \<noteq> 0 \<or> 0 < sz
      then num_octets (n div 128) (sz - 1) (of_nat (if x \<noteq> [] then n mod 128 OR 0x80 else n mod 128) # x)
      else x)"
  by pat_completeness auto
termination
  by (relation "measure (\<lambda>(n, sz, x). n + sz)") auto

declare num_octets.simps [simp del]

text \<open>On natural numbers the loop ends and gives \<open>num_octets\<close>; on negative ones it never does.\<close>

lemma num_enc_loop_nat: "num_enc_loop (int n) sz x = Some (num_octets n sz x)"
proof (induction n sz x rule: num_octets.induct)
  case (1 n sz x)
  have "drop_bit 7 (int n) = int (n div 128)" "nat (int n AND 0x7F) = n mod 128"
    by (simp_all add: pybits zdiv_int nat_mod_distrib)
  with 1 show ?case
    by (auto simp: num_enc_loop.simps [of "int n"] num_octets.simps [of n])
qed

lemma num_enc_loop_negative:
  assumes "ll < 0"
  shows "num_enc_loop ll sz x = None"
proof -
  have "\<not> ll < 0" if "num_enc_loop ll sz x = Some r" for r
  proof (rule num_enc_loop.raw_induct
      [where P = "\<lambda>ll sz x r. \<not> ll < 0" and xa = "((ll, sz), x)", unfolded case_prod_conv, OF _ that])
    fix f ll sz x r
    assume IH: "\<And>ll sz x r. f ll sz x = Some r \<Longrightarrow> \<not> ll < (0::int)"
      and eq: "(if ll \<noteq> 0 \<or> 0 < sz
        then f (drop_bit 7 ll) (sz - 1)
          (of_nat (if x \<noteq> [] then nat (ll AND 0x7F) OR 0x80 else nat (ll AND 0x7F)) # x)
        else Some x) = Some (r :: bytes)"
    show "\<not> ll < 0"
      using IH eq by (metis drop_bit_negative_int_iff less_irrefl)
  qed
  with assms show ?thesis by (cases "num_enc_loop ll sz x") auto
qed

lemma BER_num_enc_nat: "BER_num_enc (int n) sz = Inr (num_octets n sz [])"
  by (simp add: BER_num_enc_def num_enc_loop_nat)

lemma num_octets_more:
  "x \<noteq> [] \<Longrightarrow> \<exists>w. num_octets n sz x = w @ x \<and> from_b128 w = n \<and> (\<forall>c\<in>set w. 128 \<le> unat c)"
proof (induction n sz x rule: num_octets.induct)
  case (1 n sz x)
  show ?case
  proof (cases "n \<noteq> 0 \<or> 0 < sz")
    case True
    define c :: byte where "c = of_nat (n mod 128 OR 0x80)"
    have c: "unat c = 128 + n mod 128"
      unfolding c_def by (rule unat_len_octet) simp
    obtain w where "num_octets (n div 128) (sz - 1) (c # x) = w @ c # x"
      "from_b128 w = n div 128" "\<forall>c\<in>set w. 128 \<le> unat c"
      using "1.IH" [OF True] "1.prems" by (auto simp: c_def)
    then have "num_octets n sz x = (w @ [c]) @ x" "from_b128 (w @ [c]) = n"
      "\<forall>c\<in>set (w @ [c]). 128 \<le> unat c"
      using True "1.prems" c by (auto simp: num_octets.simps [of n sz x] c_def)
    then show ?thesis by blast
  next
    case False
    then have "num_octets n sz x = [] @ x" by (subst num_octets.simps) simp
    with False show ?thesis by fastforce
  qed
qed

lemma num_octets_spec:
  assumes "n \<noteq> 0 \<or> 0 < sz"
  obtains w c where "num_octets n sz [] = w @ [c]" "from_b128 w = n div 128"
    "\<forall>c\<in>set w. 128 \<le> unat c" "unat c = n mod 128"
proof -
  let ?c = "of_nat (n mod 128) :: byte"
  obtain w where "num_octets (n div 128) (sz - 1) [?c] = w @ [?c]" "from_b128 w = n div 128"
    "\<forall>c\<in>set w. 128 \<le> unat c"
    using num_octets_more [of "[?c]"] by blast
  then show ?thesis
    using assms by (intro that [of w ?c]) (auto simp: num_octets.simps [of n])
qed

lemma num_octets_length:
  "n < 128 ^ k \<Longrightarrow> sz \<le> k \<Longrightarrow> length (num_octets n sz x) \<le> k + length x"
proof (induction k arbitrary: n sz x)
  case 0
  then show ?case by (subst num_octets.simps) simp
next
  case (Suc k)
  have "n div 128 < 128 ^ k" "sz - 1 \<le> k"
    using Suc.prems by (auto simp: less_mult_imp_div_less mult.commute)
  from Suc.IH [OF this, of "of_nat (if x \<noteq> [] then n mod 128 OR 0x80 else n mod 128) # x"]
  show ?case by (subst num_octets.simps) simp
qed

lemma num_step: "push_bit 7 x OR (unat c AND 0x7F) = x * 128 + unat c mod 128"
  by (simp add: pybits)

lemma num_dec_loop_more:
  assumes "\<forall>c\<in>set w. 128 \<le> unat c" "i + length w \<le> Suc mp"
  shows "num_dec_loop s mp i x (w @ r) = num_dec_loop s mp (i + length w) (x * 128 ^ length w + from_b128 w) r"
  using assms
proof (induction w arbitrary: i x)
  case (Cons c w)
  then show ?case
    by (simp add: num_step and_128_eq_0 from_b128_Cons algebra_simps)
qed simp

lemma num_dec_loop_last:
  "unat c < 128 \<Longrightarrow> num_dec_loop s mp i x (c # r) = Inr (x * 128 + unat c, r)"
  by (simp add: num_step and_128_eq_0)

lemma BER_num_dec_digits:
  assumes "\<forall>c\<in>set w. 128 \<le> unat c" "length w \<le> Suc mp" "unat c < 128"
  shows "BER_num_dec (w @ c # r) x mp = Inr (x * 128 ^ Suc (length w) + from_b128 (w @ [c]), r)"
  using assms num_dec_loop_last [of c "w @ c # r" mp "length w" "x * 128 ^ length w + from_b128 w" r]
  by (simp del: num_dec_loop.simps add: BER_num_dec_def num_dec_loop_more algebra_simps)

lemma BER_num_dec_enc:
  assumes "BER_num_enc (int n) 1 = Inr e" "length e \<le> mp + 2"
  shows "BER_num_dec (e @ r) 0 mp = Inr (n, r)"
proof -
  obtain w c where wc: "num_octets n 1 [] = w @ [c]" "from_b128 w = n div 128"
    "\<forall>c\<in>set w. 128 \<le> unat c" "unat c = n mod 128"
    by (rule num_octets_spec [of n 1]) auto
  with assms have "e = w @ [c]" by (simp add: BER_num_enc_nat)
  with wc assms(2) BER_num_dec_digits [of w mp c r 0] show ?thesis by simp
qed

section \<open>Identifier octets\<close>

lemma charge_apply:
  "charge st = (case left st of None \<Rightarrow> (Inr (), st)
     | Some l \<Rightarrow> if l = 0 then (Inl BER_Exception, st) else (Inr (), st\<lparr>left := Some (l - 1)\<rparr>))"
  by (simp add: charge_def)

lemma BER_id_enc_low:
  assumes "0 \<le> n" "n < 256"
  shows "BER_id_enc n = Inr [of_int n]"
  using assms by (simp add: BER_id_enc_def chb_def)

definition spent :: "ber_state \<Rightarrow> ber_state" where
  "spent st = (case left st of None \<Rightarrow> st | Some l \<Rightarrow> st\<lparr>left := Some (l - 1)\<rparr>)"

lemma charge_ok: "left st \<noteq> Some 0 \<Longrightarrow> charge st = (Inr (), spent st)"
  by (auto simp: charge_def spent_def split: option.splits)

lemma charge_exhausted: "left st = Some 0 \<Longrightarrow> charge st = (Inl BER_Exception, st)"
  by (simp add: charge_def)

lemma BER_id_dec_low:
  assumes "unat c mod 32 \<noteq> 31" "left st \<noteq> Some 0"
  shows "BER_id_dec (c # r) st = (Inr (unat c, r), spent st)"
  using assms by (simp add: BER_id_dec_def sbind_apply and_masks charge_ok)

lemma BER_id_dec_high:
  assumes "unat c mod 32 = 31" "left st \<noteq> Some 0"
  shows "BER_id_dec (c # r) st = (BER_num_dec r (unat c div 32) 32, spent st)"
  using assms by (simp add: BER_id_dec_def sbind_apply and_masks shifts charge_ok)

text \<open>A tag of base-128 length \<open>k + 1\<close> whose leading digit fits the three class bits.\<close>

lemma num_octets_top:
  assumes "1 \<le> k" "128 ^ k \<le> n" "n < 8 * 128 ^ k"
  obtains d w c where "num_octets n 1 [] = d # w @ [c]" "\<forall>c\<in>set (d # w). 128 \<le> unat c"
    "unat c < 128" "Suc (length w) = k" "unat d mod 128 < 8"
    "n = (unat d mod 128) * 128 ^ k + from_b128 (w @ [c])"
proof -
  obtain v c where vc: "num_octets n 1 [] = v @ [c]" "from_b128 v = n div 128"
    "\<forall>c\<in>set v. 128 \<le> unat c" "unat c = n mod 128"
    by (rule num_octets_spec [of n 1]) auto
  have n: "n = from_b128 (v @ [c])" by (simp add: vc)
  have "n < 128 ^ Suc (length v)"
    using from_b128_less [of "v @ [c]"] by (simp add: n)
  then have "(128::nat) ^ k < 128 ^ Suc (length v)" using assms(2) by linarith
  then have 1: "k \<le> length v" using power_less_imp_less_exp [of "128::nat" k "Suc (length v)"] by simp
  have "n < 128 ^ Suc k" using assms(3) by (rule less_le_trans) simp
  then have "length (num_octets n 1 []) \<le> Suc k"
    using num_octets_length [of n "Suc k" 1 "[]"] assms(1) by simp
  with 1 have len: "length v = k" unfolding vc by simp
  then obtain d w where v: "v = d # w" "Suc (length w) = k"
    using assms(1) by (cases v) auto
  have n': "n = (unat d mod 128) * 128 ^ k + from_b128 (w @ [c])"
    using from_b128_Cons [of d "w @ [c]"] v by (simp add: n)
  have "unat d mod 128 < 8"
  proof (rule ccontr)
    assume "\<not> unat d mod 128 < 8"
    then have "8 * 128 ^ k \<le> (unat d mod 128) * 128 ^ k" by (intro mult_le_mono1) simp
    with n' assms(3) show False by linarith
  qed
  moreover have "num_octets n 1 [] = d # w @ [c]" "\<forall>c\<in>set (d # w). 128 \<le> unat c"
    using vc(1,3) v(1) by simp_all
  moreover have "unat c < 128" using vc(4) by simp
  ultimately show thesis using that v(2) n' by blast
qed

lemma BER_id_dec_enc:
  assumes e: "BER_id_enc (int n) = Inr e" and ch: "left st \<noteq> Some 0"
    and n: "n < 256 \<and> n mod 32 \<noteq> 31 \<or> 256 \<le> n \<and> 1 \<le> k \<and> k \<le> 34 \<and> 128 ^ k \<le> n \<and> n < 8 * 128 ^ k"
  shows "BER_id_dec (e @ r) st = (Inr (n, r), spent st)"
proof (cases "n < 256")
  case True
  then have "e = [of_nat n]" using e by (simp add: BER_id_enc_def chb_def)
  with True n ch show ?thesis by (simp add: BER_id_dec_low)
next
  case False
  with n have k: "1 \<le> k" "k \<le> 34" "128 ^ k \<le> n" "n < 8 * 128 ^ k" by auto
  from num_octets_top [OF k(1,3,4)] obtain d w c where
    o: "num_octets n 1 [] = d # w @ [c]" "\<forall>c\<in>set (d # w). 128 \<le> unat c" "unat c < 128"
    "Suc (length w) = k" "unat d mod 128 < 8" "n = (unat d mod 128) * 128 ^ k + from_b128 (w @ [c])"
    by metis
  let ?q = "unat d mod 128"
  have "unat d mod 8 = ?q mod 8" by (simp add: mod_mod_cancel)
  with o(5) have q: "unat d mod 8 = ?q" by simp
  have "?q * 32 OR 31 = ?q * 32 + 31" using or_low(3) [of 31 ?q] by simp
  with q have "e = of_nat (?q * 32 + 31) # w @ [c]"
    using e False o(1) by (simp add: BER_id_enc_def BER_num_enc_nat and_masks shifts)
  moreover have "unat (of_nat (?q * 32 + 31) :: byte) = ?q * 32 + 31"
    using o(5) by (subst unat_of_nat_byte) simp
  moreover have "BER_id_dec (x # w @ c # r) st = (Inr (n, r), spent st)"
    if "unat x = ?q * 32 + 31" for x
    using that o k(2) ch by (simp add: BER_id_dec_high BER_num_dec_digits)
  ultimately show ?thesis by simp
qed

end
