(* ===== verification/Ber_Elements.thy ===== *)
theory Ber_Elements
  imports Ber_Prim
begin

text \<open>
  The walk over the elements of a constructed value (\<open>_tlv_ends\<close> and the class \<open>Elements\<close>
  of \<open>asn1/ber.py\<close>) and the loop that decodes them. The locale \<open>element_decoder\<close> states what
  the walk relies on, a decoder that reads an element the same way whatever follows it;
  under it the walk finds the same objects as re-slicing the rest after every element does.
\<close>

section \<open>Element boundaries\<close>

function id_skip :: "bytes \<Rightarrow> nat \<Rightarrow> nat" where
  "id_skip s j = (if j < length s \<and> unat (s ! j) AND 0x80 \<noteq> 0 then id_skip s (j + 1) else j)"
  by pat_completeness auto
termination
  by (relation "measure (\<lambda>(s, j). length s - j)") auto

declare id_skip.simps [simp del]

definition tlv_id_end :: "bytes \<Rightarrow> nat \<Rightarrow> nat" where
  "tlv_id_end s i = (if unat (s ! i) AND 0x1F = 0x1F then id_skip s (i + 1) + 1 else i + 1)"

definition tlv_len_end :: "bytes \<Rightarrow> nat \<Rightarrow> nat option" where
  "tlv_len_end s j =
     (let n = length s in
      if n \<le> j then None
      else (let first = unat (s ! j) in
        if first AND 0x80 \<noteq> 0 then
          (let k = first AND 0x7F in
           if n < j + 1 + k then None
           else (let ln = from_be (take k (drop (j + 1) s)) in
             if n < j + 1 + k + ln then None else Some (j + 1 + k + ln)))
        else if n < j + 1 + first then None else Some (j + 1 + first)))"

definition tlv_next :: "bytes \<Rightarrow> nat \<Rightarrow> nat option" where
  "tlv_next s i = tlv_len_end s (tlv_id_end s i)"

lemma id_skip_ge: "j \<le> id_skip s j"
  by (induction s j rule: id_skip.induct) (subst id_skip.simps, auto)

lemma tlv_next_bounds: "tlv_next s i = Some e \<Longrightarrow> i < e \<and> e \<le> length s"
  using id_skip_ge [of "i + 1" s]
  by (auto simp: tlv_next_def tlv_id_end_def tlv_len_end_def Let_def split: if_splits)

function tlv_ends :: "bytes \<Rightarrow> nat \<Rightarrow> nat list" where
  "tlv_ends s i =
     (if i < length s
      then (case tlv_next s i of None \<Rightarrow> [] | Some e \<Rightarrow> e # tlv_ends s e)
      else [])"
  by pat_completeness auto
termination
  by (relation "measure (\<lambda>(s, i). length s - i)") (auto dest: tlv_next_bounds)

declare tlv_ends.simps [simp del]

section \<open>The class Elements\<close>

record elements =
  el_s :: bytes
  el_ends :: "nat list"
  el_i :: nat
  el_pos :: nat
  el_slow :: "bytes option"
  el_last :: nat

definition el_init :: "bytes \<Rightarrow> elements" where
  "el_init s = \<lparr>el_s = s, el_ends = tlv_ends s 0, el_i = 0, el_pos = 0, el_slow = None, el_last = 0\<rparr>"

definition el_next :: "elements \<Rightarrow> (bytes \<times> elements) option" where
  "el_next e =
     (case el_slow e of
        Some sl \<Rightarrow> if sl = [] then None
          else Some (sl, e\<lparr>el_slow := Some [], el_last := length sl\<rparr>)
      | None \<Rightarrow>
          if el_i e < length (el_ends e) then
            (let en = el_ends e ! el_i e; chunk = drop (el_pos e) (take en (el_s e))
             in Some (chunk, e\<lparr>el_i := el_i e + 1, el_pos := en, el_last := length chunk\<rparr>))
          else if el_pos e < length (el_s e) then
            (let chunk = drop (el_pos e) (el_s e)
             in Some (chunk, e\<lparr>el_pos := length (el_s e), el_slow := Some [], el_last := length chunk\<rparr>))
          else None)"

definition el_rest :: "elements \<Rightarrow> bytes" where
  "el_rest e = (case el_slow e of Some sl \<Rightarrow> sl | None \<Rightarrow> drop (el_pos e) (el_s e))"

definition el_leftover :: "bytes \<Rightarrow> elements \<Rightarrow> 'o ber_err + elements" where
  "el_leftover remain e =
     (if remain = [] then Inr e
      else if el_last e \<le> length remain then Inl (BER_Decoding_Error None remain)
      else Inr (e\<lparr>el_slow := Some (remain @ el_rest e), el_pos := length (el_s e),
                  el_i := length (el_ends e)\<rparr>))"

section \<open>Decoding every element\<close>

text \<open>The loop of \<open>BERcodec_SEQUENCE.do_dec\<close>: a decoding error is raised again with the
  octets after the element and what was decoded so far.\<close>

definition err_context :: "bytes \<Rightarrow> 'o list \<Rightarrow> 'o ber_err \<Rightarrow> 'o ber_err" where
  "err_context rest obj err =
     (let dec = (\<lambda>d. Some (map DObj obj @ (case d of None \<Rightarrow> [] | Some ds \<Rightarrow> [DList ds]))) in
      case err of
        BER_Decoding_Error d r \<Rightarrow> BER_Decoding_Error (dec d) (r @ rest)
      | BER_BadTag_Decoding_Error d r \<Rightarrow> BER_BadTag_Decoding_Error (dec d) (r @ rest)
      | _ \<Rightarrow> err)"

definition el_measure :: "elements \<Rightarrow> nat \<times> nat" where
  "el_measure e = (case el_slow e of
       None \<Rightarrow> (1, length (el_ends e) - el_i e)
     | Some sl \<Rightarrow> (0, length sl))"

lemma el_step_decreases:
  assumes "el_next e = Some (elt, e')" "el_leftover remain e' = Inr e''"
  shows "(el_measure e'', el_measure e) \<in> less_than <*lex*> less_than"
  using assms
  by (auto simp: el_next_def el_leftover_def el_measure_def el_rest_def Let_def
      split: option.splits if_splits)

function elements_loop ::
  "(bytes \<Rightarrow> ('o, 'o \<times> bytes) ber) \<Rightarrow> bytes \<Rightarrow> elements \<Rightarrow> 'o list \<Rightarrow> ('o, 'o list) ber" where
  "elements_loop dec t e obj st =
     (case el_next e of
        None \<Rightarrow> (Inr obj, st)
      | Some (elt, e') \<Rightarrow>
          (case dec elt st of
             (Inl err, st') \<Rightarrow> (Inl (err_context (el_rest e' @ t) obj err), st')
           | (Inr (o1, remain), st') \<Rightarrow>
               (case el_leftover remain e' of
                  Inl err \<Rightarrow> (Inl err, st')
                | Inr e'' \<Rightarrow> elements_loop dec t e'' (obj @ [o1]) st')))"
  by pat_completeness auto
termination
  by (relation "inv_image (less_than <*lex*> less_than) (\<lambda>(dec, t, e, obj, st). el_measure e)")
    (auto intro: el_step_decreases wf_lex)

declare elements_loop.simps [simp del]

text \<open>The reference walk: decode the front of what remains, continue with the octets
  it left, and refuse an element that consumes nothing.\<close>

function reslice_loop :: "(bytes \<Rightarrow> ('o, 'o \<times> bytes) ber) \<Rightarrow> bytes \<Rightarrow> 'o list \<Rightarrow> ('o, 'o list) ber" where
  "reslice_loop dec s obj st =
     (if s = [] then (Inr obj, st)
      else (case dec s st of
         (Inl err, st') \<Rightarrow> (Inl err, st')
       | (Inr (o1, remain), st') \<Rightarrow>
           if length s \<le> length remain then (Inl (BER_Decoding_Error None remain), st')
           else reslice_loop dec remain (obj @ [o1]) st'))"
  by pat_completeness auto
termination
  by (relation "measure (\<lambda>(dec, s, obj, st). length s)") auto

declare reslice_loop.simps [simp del]

section \<open>The walk and the reference agree\<close>

lemma id_skip_drop: "i \<le> length s \<Longrightarrow> id_skip s (i + j) = i + id_skip (drop i s) j"
proof (induction "drop i s" j rule: id_skip.induct)
  case (1 j)
  show ?case
  proof (cases "j < length (drop i s) \<and> unat (drop i s ! j) AND 0x80 \<noteq> 0")
    case True
    then have "i + j < length s" by auto
    with True 1 show ?thesis
      by (simp add: id_skip.simps [of s "i + j"] id_skip.simps [of "drop i s" j])
  next
    case False
    with 1 show ?thesis
      by (subst (1 2) id_skip.simps) auto
  qed
qed

lemma tlv_len_end_drop:
  assumes "i \<le> length s"
  shows "tlv_len_end s (i + j) = map_option ((+) i) (tlv_len_end (drop i s) j)"
proof (cases "i + j < length s")
  case True
  define F where "F = unat (s ! (i + j))"
  define L where "L = from_be (take (F AND 0x7F) (drop (i + j + 1) s))"
  have q: "length (drop i s) < m \<longleftrightarrow> length s < i + m" for m
    using True by auto
  have d: "unat (drop i s ! j) = F" "drop (j + 1) (drop i s) = drop (i + j + 1) s"
    "\<not> length s \<le> i + j" "\<not> length (drop i s) \<le> j"
    using True by (auto simp: F_def add.commute)
  have 1: "tlv_len_end s (i + j) =
     (if F AND 0x80 \<noteq> 0 then
        (if length s < i + (j + 1 + (F AND 0x7F)) then None
         else if length s < i + (j + 1 + (F AND 0x7F) + L) then None
         else Some (i + (j + 1 + (F AND 0x7F) + L)))
      else if length s < i + (j + 1 + F) then None else Some (i + (j + 1 + F)))"
    using d(3)
    by (simp only: tlv_len_end_def Let_def F_def [symmetric] if_False add.assoc L_def [unfolded add.assoc])
  have 2: "tlv_len_end (drop i s) j =
     (if F AND 0x80 \<noteq> 0 then
        (if length s < i + (j + 1 + (F AND 0x7F)) then None
         else if length s < i + (j + 1 + (F AND 0x7F) + L) then None
         else Some (j + 1 + (F AND 0x7F) + L))
      else if length s < i + (j + 1 + F) then None else Some (j + 1 + F))"
    using d by (simp only: tlv_len_end_def Let_def if_False q L_def)
  show ?thesis unfolding 1 2 by simp
next
  case False
  with assms show ?thesis by (auto simp: tlv_len_end_def Let_def)
qed

lemma tlv_next_drop:
  assumes "i < length s"
  shows "tlv_next s i = map_option ((+) i) (tlv_next (drop i s) 0)"
proof -
  have "tlv_id_end s i = i + tlv_id_end (drop i s) 0"
    using id_skip_drop [of i s 1] assms by (simp add: tlv_id_end_def)
  then show ?thesis
    using assms by (simp add: tlv_next_def tlv_len_end_drop)
qed

lemma tlv_next_frame:
  assumes "i < length s" "tlv_next s i = Some e"
  shows "drop i s = drop i (take e s) @ drop e s"
    and "tlv_next (drop i (take e s) @ drop e s) 0 = Some (length (drop i (take e s)))"
proof -
  have b: "i < e" "e \<le> length s" using tlv_next_bounds [OF assms(2)] by auto
  then show f: "drop i s = drop i (take e s) @ drop e s"
    by (metis append_take_drop_id drop_append diff_is_0_eq drop0 length_take less_imp_le_nat min.absorb2)
  from assms tlv_next_drop [of i s] have "tlv_next (drop i s) 0 = Some (e - i)"
    by auto
  with f b show "tlv_next (drop i (take e s) @ drop e s) 0 = Some (length (drop i (take e s)))"
    by simp
qed

definition el_inv :: "elements \<Rightarrow> bool" where
  "el_inv e \<longleftrightarrow> el_slow e = None \<longrightarrow>
     el_pos e \<le> length (el_s e) \<and> drop (el_i e) (el_ends e) = tlv_ends (el_s e) (el_pos e)"

lemma el_inv_init: "el_inv (el_init s)"
  by (simp add: el_inv_def el_init_def)

text \<open>Both loops end with the same objects, or both raise, with the same budget left.\<close>

definition same_outcome :: "('o ber_err + 'a) \<times> ber_state \<Rightarrow> ('o ber_err + 'a) \<times> ber_state \<Rightarrow> bool" where
  "same_outcome a b \<longleftrightarrow> snd a = snd b \<and>
     (case (fst a, fst b) of (Inr x, Inr y) \<Rightarrow> x = y | (Inl _, Inl _) \<Rightarrow> True | _ \<Rightarrow> False)"

lemma el_next_None: "el_inv e \<Longrightarrow> el_next e = None \<longleftrightarrow> el_rest e = []"
  by (auto simp: el_next_def el_rest_def Let_def el_inv_def tlv_ends.simps
      split: option.splits)

text \<open>An element handed out is the front of what remains. It is either all of it, or a
  complete TLV, and then the rest is what follows.\<close>

lemma el_next_Some:
  assumes inv: "el_inv e" and nx: "el_next e = Some (elt, e')"
  shows "el_rest e = elt @ el_rest e'" "elt \<noteq> []" "el_last e' = length elt" "el_inv e'"
    "el_rest e' = [] \<or> tlv_next (elt @ el_rest e') 0 = Some (length elt)"
proof -
  have *: "el_rest e = elt @ el_rest e' \<and> elt \<noteq> [] \<and> el_last e' = length elt \<and> el_inv e' \<and>
    (el_rest e' = [] \<or> tlv_next (elt @ el_rest e') 0 = Some (length elt))"
  proof (cases "el_slow e = None \<and> el_i e < length (el_ends e)")
    case True
    then obtain en es where d: "drop (el_i e) (el_ends e) = en # es" and en: "el_ends e ! el_i e = en"
      by (metis Cons_nth_drop_Suc)
    with inv True have t: "tlv_ends (el_s e) (el_pos e) = en # es" by (simp add: el_inv_def)
    then have lt: "el_pos e < length (el_s e)" and tn: "tlv_next (el_s e) (el_pos e) = Some en"
      and es: "es = tlv_ends (el_s e) en"
      by (auto simp: tlv_ends.simps [of "el_s e" "el_pos e"] split: if_splits option.splits)
    have "drop (Suc (el_i e)) (el_ends e) = es"
      using d by (metis drop_Suc list.sel(3) tl_drop)
    with True nx en es tlv_next_bounds [OF tn] tlv_next_frame [OF lt tn] show ?thesis
      by (auto simp: el_next_def el_rest_def el_inv_def Let_def)
  next
    case False
    with nx inv show ?thesis
      by (auto simp: el_next_def el_rest_def el_inv_def Let_def split: option.splits if_splits)
  qed
  then show "el_rest e = elt @ el_rest e'" "elt \<noteq> []" "el_last e' = length elt" "el_inv e'"
    "el_rest e' = [] \<or> tlv_next (elt @ el_rest e') 0 = Some (length elt)"
    by blast+
qed

lemma el_leftover_rest:
  "el_leftover remain e = Inr e' \<Longrightarrow> el_inv e \<Longrightarrow> el_rest e' = remain @ el_rest e \<and> el_inv e'"
  by (auto simp: el_leftover_def el_rest_def el_inv_def split: if_splits option.splits)

locale element_decoder =
  fixes dec :: "bytes \<Rightarrow> ('o, 'o \<times> bytes) ber"
  assumes framed: "tlv_next (e @ r) 0 = Some (length e) \<Longrightarrow> dec e st = (Inr (x, rem), st') \<Longrightarrow>
      dec (e @ r) st = (Inr (x, rem @ r), st')"
    and framed_error: "tlv_next (e @ r) 0 = Some (length e) \<Longrightarrow> dec e st = (Inl er, st') \<Longrightarrow>
      \<exists>er'. dec (e @ r) st = (Inl er', st')"
begin

lemma reslice_front:
  assumes "elt \<noteq> []" "rest = [] \<or> tlv_next (elt @ rest) 0 = Some (length elt)"
  shows "dec elt st = (Inl er, st') \<Longrightarrow> \<exists>er'. reslice_loop dec (elt @ rest) obj st = (Inl er', st')"
    and "dec elt st = (Inr (x, rem), st') \<Longrightarrow> reslice_loop dec (elt @ rest) obj st =
      (if length elt \<le> length rem then (Inl (BER_Decoding_Error None (rem @ rest)), st')
       else reslice_loop dec (rem @ rest) (obj @ [x]) st')"
  using assms framed [of elt rest st x rem st'] framed_error [of elt rest st er st']
  by (auto simp: reslice_loop.simps [of dec "elt @ rest"])

lemma elements_reslice:
  "d = dec \<Longrightarrow> el_inv e \<Longrightarrow>
   same_outcome (elements_loop d t e obj st) (reslice_loop dec (el_rest e) obj st)"
proof (induction d t e obj st rule: elements_loop.induct)
  case (1 d t e obj st)
  note [simp] = "1.prems"(1)
  show ?case
  proof (cases "el_next e")
    case None
    moreover from None have "el_rest e = []"
      using el_next_None [OF "1.prems"(2)] by simp
    ultimately show ?thesis
      by (simp add: elements_loop.simps [of dec t e] reslice_loop.simps [of dec] same_outcome_def)
  next
    case (Some p)
    then obtain elt e' where nx: "el_next e = Some (elt, e')" by (cases p) auto
    note el = el_next_Some [OF "1.prems"(2) nx]
    obtain r st' where d: "dec elt st = (r, st')" by fastforce
    show ?thesis
    proof (cases r)
      case (Inl er)
      with d have "dec elt st = (Inl er, st')" by simp
      from reslice_front(1) [OF el(2,5) this] obtain er'
        where "reslice_loop dec (el_rest e) obj st = (Inl er', st')"
        unfolding el(1) by blast
      with d Inl nx show ?thesis
        by (simp add: elements_loop.simps [of dec t e] same_outcome_def)
    next
      case (Inr xr)
      then obtain x rem where xr: "r = Inr (x, rem)" by (cases xr) auto
      show ?thesis
      proof (cases "el_leftover rem e' :: 'o ber_err + elements")
        case (Inl er)
        with d xr nx el reslice_front(2) [OF el(2,5)] show ?thesis
          by (auto simp: elements_loop.simps [of dec t e] same_outcome_def el_leftover_def
              split: if_splits)
      next
        case (Inr e'')
        then have "el_rest e'' = rem @ el_rest e'" "el_inv e''" "\<not> length elt \<le> length rem"
          using el_leftover_rest [OF Inr el(4)] el(2,3) by (auto simp: el_leftover_def split: if_splits)
        with d xr nx Inr el(1) reslice_front(2) [OF el(2,5)] "1.IH" [OF nx refl d [symmetric, folded "1.prems"(1)] xr refl Inr]
        show ?thesis
          by (simp add: elements_loop.simps [of dec t e])
      qed
    qed
  qed
qed

end

end
