(* ===== verification/Py_Text.thy ===== *)
theory Py_Text
  imports Prelude
begin

text \<open>
  The string operations of Python's standard library that the modelled code calls:
  \<open>str.split(sep)\<close>, \<open>sep.join\<close>, \<open>str.strip(chars)\<close>, \<open>str(n)\<close> and \<open>int(s)\<close> in bases 10
  and 16, and \<open>%x\<close> formatting. A \<open>str\<close> is a list of characters with code points below
  256; text beyond Latin-1 (and the non-ASCII digits \<open>int\<close> accepts) is outside the model.
\<close>

section \<open>Splitting, joining, stripping\<close>

fun py_split :: "char \<Rightarrow> string \<Rightarrow> string list" where
  "py_split c [] = [[]]"
| "py_split c (x # xs) =
     (if x = c then [] # py_split c xs
      else (case py_split c xs of [] \<Rightarrow> [[x]] | w # ws \<Rightarrow> (x # w) # ws))"

fun py_join :: "string \<Rightarrow> string list \<Rightarrow> string" where
  "py_join sep [] = []"
| "py_join sep [w] = w"
| "py_join sep (w # v # ws) = w @ sep @ py_join sep (v # ws)"

definition py_lstrip :: "(char \<Rightarrow> bool) \<Rightarrow> string \<Rightarrow> string" where
  "py_lstrip p s = dropWhile p s"

definition py_strip :: "(char \<Rightarrow> bool) \<Rightarrow> string \<Rightarrow> string" where
  "py_strip p s = rev (dropWhile p (rev (dropWhile p s)))"

lemma py_split_nonempty [simp]: "py_split c s \<noteq> []"
  by (induction s) (auto split: list.splits)

lemma py_split_no_sep: "w \<in> set (py_split c s) \<Longrightarrow> c \<notin> set w"
  by (induction s arbitrary: w) (auto split: list.splits if_splits)

lemma py_split_word [simp]: "c \<notin> set w \<Longrightarrow> py_split c w = [w]"
  by (induction w) auto

lemma py_split_append: "c \<notin> set w \<Longrightarrow> py_split c (w @ c # s) = w # py_split c s"
  by (induction w) auto

lemma py_split_join:
  "ws \<noteq> [] \<Longrightarrow> \<forall>w\<in>set ws. c \<notin> set w \<Longrightarrow> py_split c (py_join [c] ws) = ws"
  by (induction "[c]" ws rule: py_join.induct) (auto simp: py_split_append)

lemma py_join_split [simp]: "py_join [c] (py_split c s) = s"
proof (induction s)
  case (Cons x s)
  obtain w ws where "py_split c s = w # ws"
    by (metis neq_Nil_conv py_split_nonempty)
  with Cons.IH show ?case
    by (cases ws) auto
qed simp

lemma set_py_join: "set (py_join sep ws) \<subseteq> set sep \<union> (\<Union>w\<in>set ws. set w)"
  by (induction sep ws rule: py_join.induct) auto

lemma py_strip_id: "s = [] \<or> \<not> p (hd s) \<and> \<not> p (last s) \<Longrightarrow> py_strip p s = s"
proof -
  assume a: "s = [] \<or> \<not> p (hd s) \<and> \<not> p (last s)"
  then have "dropWhile p s = s" "dropWhile p (rev s) = rev s"
    by (auto simp: dropWhile_eq_self_iff hd_rev)
  then show ?thesis by (simp add: py_strip_def)
qed

lemma hd_py_join: "w \<noteq> [] \<Longrightarrow> hd (py_join sep (w # ws)) = hd w"
  by (cases ws) auto

lemma last_py_join:
  "ws \<noteq> [] \<Longrightarrow> \<forall>w\<in>set ws. w \<noteq> [] \<Longrightarrow> last (py_join sep ws) = last (last ws)"
proof (induction sep ws rule: py_join.induct)
  case (3 sep w v ws)
  have "py_join sep (v # ws) \<noteq> []"
    using "3.prems" by (cases ws) auto
  with 3 show ?case by simp
qed auto

section \<open>Numerals\<close>

definition digit_val :: "char \<Rightarrow> nat option" where
  "digit_val c =
     (let n = of_char c in
      if 48 \<le> n \<and> n \<le> 57 then Some (n - 48)
      else if 97 \<le> n \<and> n \<le> 122 then Some (n - 87)
      else if 65 \<le> n \<and> n \<le> 90 then Some (n - 55)
      else None)"

definition digit_char :: "nat \<Rightarrow> char" where
  "digit_char d = char_of (if d < 10 then 48 + d else 87 + d)"

text \<open>The digits of an integer literal: every digit below the base, single underscores
  between digits only. The flags say whether an underscore may come next and whether the
  literal may end here.\<close>

fun int_digits :: "nat \<Rightarrow> bool \<Rightarrow> bool \<Rightarrow> nat \<Rightarrow> string \<Rightarrow> nat option" where
  "int_digits b us fin n [] = (if fin then Some n else None)"
| "int_digits b us fin n (c # cs) =
     (if c = CHR ''_'' then (if us then int_digits b False False n cs else None)
      else (case digit_val c of
              None \<Rightarrow> None
            | Some d \<Rightarrow> if d < b then int_digits b True True (n * b + d) cs else None))"

definition py_space :: "char \<Rightarrow> bool" where
  "py_space c \<longleftrightarrow> of_char c \<in> {9, 10, 11, 12, 13, 32 :: nat}"

text \<open>\<open>int\<close> of a \<open>str\<close> also strips the white space of the upper half of Latin-1.\<close>

definition int_space :: "char \<Rightarrow> bool" where
  "int_space c \<longleftrightarrow> py_space c \<or> of_char c \<in> {0x85, 0xA0 :: nat}"

definition int_unsigned :: "nat \<Rightarrow> string \<Rightarrow> nat option" where
  "int_unsigned b s =
     (if b = 16 \<and> 2 \<le> length s \<and> s ! 0 = CHR ''0'' \<and> (s ! 1 = CHR ''x'' \<or> s ! 1 = CHR ''X'')
      then int_digits b True False 0 (drop 2 s)
      else int_digits b False False 0 s)"

text \<open>\<open>int(s, b)\<close>; \<open>None\<close> is ValueError.\<close>

definition py_int :: "nat \<Rightarrow> string \<Rightarrow> int option" where
  "py_int b s =
     (case py_strip int_space s of
        [] \<Rightarrow> None
      | c # t \<Rightarrow> if c = CHR ''-'' then map_option (\<lambda>n. - int n) (int_unsigned b t)
                 else if c = CHR ''+'' then map_option int (int_unsigned b t)
                 else map_option int (int_unsigned b (c # t)))"

text \<open>\<open>str(n)\<close> and \<open>'%x' % n\<close> for natural numbers; \<open>'%0kx'\<close> pads with zeros.\<close>

fun numeral_str :: "nat \<Rightarrow> nat \<Rightarrow> string" where
  "numeral_str b n =
     (if b < 2 \<or> n < b then [digit_char n] else numeral_str b (n div b) @ [digit_char (n mod b)])"

declare numeral_str.simps [simp del]

abbreviation dec_str :: "nat \<Rightarrow> string" where
  "dec_str \<equiv> numeral_str 10"

definition pad0 :: "nat \<Rightarrow> string \<Rightarrow> string" where
  "pad0 k s = replicate (k - length s) (CHR ''0'') @ s"

definition hex_str :: "nat \<Rightarrow> nat \<Rightarrow> string" where
  "hex_str k n = pad0 k (numeral_str 16 n)"

lemma digit_val_char [simp]: "d < 36 \<Longrightarrow> digit_val (digit_char d) = Some d"
  by (auto simp: digit_val_def digit_char_def Let_def)

lemma digit_char_0 [simp]: "digit_char 0 = CHR ''0''"
  by code_simp

lemma digit_char_zero_iff [simp]: "d < 36 \<Longrightarrow> digit_char d = CHR ''0'' \<longleftrightarrow> d = 0"
  by (metis digit_char_0 digit_val_char option.inject zero_less_numeral)

lemma digit_char_not_special [simp]:
  assumes "d < 16"
  shows "digit_char d \<noteq> CHR ''_''" "digit_char d \<noteq> CHR ''-''" "digit_char d \<noteq> CHR ''+''"
    "digit_char d \<noteq> CHR ''.''" "digit_char d \<noteq> CHR '':''" "digit_char d \<noteq> CHR ''/''"
    "digit_char d \<noteq> CHR ''x''" "digit_char d \<noteq> CHR ''X''" "\<not> py_space (digit_char d)"
    "\<not> int_space (digit_char d)"
  using digit_val_char [of d] assms
  by (auto simp: digit_val_def py_space_def int_space_def Let_def split: if_splits)

lemma numeral_str_digits:
  "2 \<le> b \<Longrightarrow> c \<in> set (numeral_str b n) \<Longrightarrow> \<exists>d<b. c = digit_char d"
proof (induction b n rule: numeral_str.induct)
  case (1 b n)
  show ?case
  proof (cases "n < b")
    case True
    with "1.prems" show ?thesis by (auto simp: numeral_str.simps [of b n])
  next
    case False
    with "1.prems" have "c \<in> set (numeral_str b (n div b)) \<or> c = digit_char (n mod b)"
      by (auto simp: numeral_str.simps [of b n])
    moreover have "n mod b < b" using "1.prems"(1) by simp
    ultimately show ?thesis using "1.IH" "1.prems"(1) False by (metis not_less)
  qed
qed

lemma numeral_str_nonempty [simp]: "numeral_str b n \<noteq> []"
  by (subst numeral_str.simps) simp

lemma length_numeral_str: "2 \<le> b \<Longrightarrow> n < b ^ Suc k \<Longrightarrow> length (numeral_str b n) \<le> Suc k"
proof (induction k arbitrary: n)
  case 0
  then show ?case by (simp add: numeral_str.simps [of b n])
next
  case (Suc k)
  show ?case
  proof (cases "n < b")
    case True
    then show ?thesis by (simp add: numeral_str.simps [of b n])
  next
    case False
    have "n div b < b ^ Suc k"
      using Suc.prems by (simp add: less_mult_imp_div_less mult.commute)
    from Suc.IH [OF Suc.prems(1) this] False Suc.prems(1) show ?thesis
      by (simp add: numeral_str.simps [of b n])
  qed
qed

lemma int_digits_numeral_str:
  assumes "2 \<le> b" "b \<le> 16"
  shows "int_digits b us fin a (numeral_str b n @ t) =
    int_digits b True True (a * b ^ length (numeral_str b n) + n) t"
  using assms
proof (induction b n arbitrary: t rule: numeral_str.induct)
  case (1 b n)
  show ?case
  proof (cases "n < b")
    case True
    with "1.prems" show ?thesis by (simp add: numeral_str.simps [of b n])
  next
    case False
    let ?q = "numeral_str b (n div b)"
    have d: "n mod b < b" "n mod b < 16" using "1.prems" by (auto intro: less_le_trans [of _ b])
    have "(a * b ^ length ?q + n div b) * b + n mod b = a * b ^ Suc (length ?q) + n"
      by (simp add: algebra_simps)
    with False "1.prems" d "1.IH" [of "digit_char (n mod b) # t"] show ?thesis
      by (simp add: numeral_str.simps [of b n])
  qed
qed

lemma hd_numeral_str: "2 \<le> b \<Longrightarrow> \<exists>d<b. hd (numeral_str b n) = digit_char d"
  using numeral_str_digits [of b "hd (numeral_str b n)" n] by simp

lemma last_numeral_str: "2 \<le> b \<Longrightarrow> \<exists>d<b. last (numeral_str b n) = digit_char d"
  using numeral_str_digits [of b "last (numeral_str b n)" n] by simp

lemma py_int_dec_str [simp]: "py_int 10 (dec_str n) = Some (int n)"
proof -
  obtain h where h: "h < 10" "hd (dec_str n) = digit_char h"
    using hd_numeral_str [of 10 n] by auto
  obtain l where l: "l < 10" "last (dec_str n) = digit_char l"
    using last_numeral_str [of 10 n] by auto
  have "py_strip int_space (dec_str n) = dec_str n"
    using h l by (intro py_strip_id) auto
  moreover have "int_unsigned 10 (dec_str n) = Some n"
    using int_digits_numeral_str [of 10 False False 0 n "[]"]
    by (simp add: int_unsigned_def)
  moreover obtain t where "dec_str n = digit_char h # t"
    using h(2) by (cases "dec_str n") auto
  ultimately show ?thesis using h(1) by (simp add: py_int_def)
qed

lemma digit_char_not_in_numeral:
  assumes "2 \<le> b" "\<forall>d<b. digit_char d \<noteq> c"
  shows "c \<notin> set (numeral_str b n)"
  using numeral_str_digits [of b c n] assms by auto

lemma dec_str_not_sep [simp]:
  "CHR ''.'' \<notin> set (dec_str n)" "CHR '':'' \<notin> set (dec_str n)" "CHR ''/'' \<notin> set (dec_str n)"
  by (rule digit_char_not_in_numeral; simp)+

text \<open>Two hexadecimal digits.\<close>

lemma int_digits_zeros:
  "0 < k \<or> fin \<Longrightarrow> 2 \<le> b \<Longrightarrow>
     int_digits b us fin 0 (replicate k (CHR ''0'') @ t) = int_digits b (us \<or> 0 < k) (fin \<or> 0 < k) 0 t"
proof (induction k arbitrary: us fin)
  case (Suc k)
  have "digit_val (CHR ''0'') = Some 0" by code_simp
  with Suc show ?case by simp
qed simp

lemma hex_str_chars: "c \<in> set (hex_str k n) \<Longrightarrow> \<exists>d<16. c = digit_char d"
proof -
  assume "c \<in> set (hex_str k n)"
  then have "c = CHR ''0'' \<or> c \<in> set (numeral_str 16 n)" by (auto simp: hex_str_def pad0_def)
  then show ?thesis
  proof
    assume "c = CHR ''0''"
    then show ?thesis by (intro exI [of _ 0]) simp
  next
    assume "c \<in> set (numeral_str 16 n)"
    then show ?thesis by (rule numeral_str_digits [rotated]) simp
  qed
qed

lemma hex_str_nonempty [simp]: "hex_str k n \<noteq> []"
  by (simp add: hex_str_def pad0_def)

lemma hex_str_not_sep [simp]:
  "CHR '':'' \<notin> set (hex_str k n)" "CHR ''.'' \<notin> set (hex_str k n)" "CHR ''/'' \<notin> set (hex_str k n)"
  using hex_str_chars [of _ k n] by (force dest: digit_char_not_special)+

lemma int_unsigned_hex: "int_unsigned 16 (hex_str k n) = Some n"
proof -
  let ?z = "replicate (k - length (numeral_str 16 n)) (CHR ''0'')"
  have "hex_str k n ! 1 \<noteq> CHR ''x'' \<and> hex_str k n ! 1 \<noteq> CHR ''X''" if "2 \<le> length (hex_str k n)"
    using hex_str_chars [of "hex_str k n ! 1" k n] that by (force dest: digit_char_not_special)
  then have "int_unsigned 16 (hex_str k n) = int_digits 16 False False 0 (hex_str k n)"
    by (auto simp: int_unsigned_def)
  also have "\<dots> = Some n"
    using int_digits_zeros [of "k - length (numeral_str 16 n)" False 16 False "numeral_str 16 n"]
      int_digits_numeral_str [of 16 _ _ 0 n "[]"]
    by (cases "k - length (numeral_str 16 n)") (auto simp: hex_str_def pad0_def)
  finally show ?thesis .
qed

lemma py_int_hex_str [simp]: "py_int 16 (hex_str k n) = Some (int n)"
proof -
  obtain h t where ht: "hex_str k n = h # t" by (cases "hex_str k n") auto
  then obtain d where h: "d < 16" "h = digit_char d" using hex_str_chars [of h k n] by auto
  obtain e where l: "e < 16" "last (hex_str k n) = digit_char e"
    using hex_str_chars [of "last (hex_str k n)" k n] by auto
  have "py_strip int_space (hex_str k n) = hex_str k n"
    using h l ht by (intro py_strip_id) auto
  with int_unsigned_hex [of k n] ht h show ?thesis by (simp add: py_int_def)
qed

end
