(* ===== verification/Mib.thy ===== *)
theory Mib
  imports Py_Text
begin

text \<open>
  OID names (\<open>asn1/mib.py\<close>): the dictionary \<open>MIBDict\<close> from dotted OIDs to names, kept as
  an association list in insertion order with distinct keys, and its three lookups.
\<close>

type_synonym mibdict = "(string \<times> string) list"

abbreviation dot :: char where "dot \<equiv> CHR ''.''"

definition mib_arcs :: "string \<Rightarrow> string list" where
  "mib_arcs x =
     (let x1 = (if x \<noteq> [] \<and> hd x = dot then tl x else x);
          x2 = (if x1 \<noteq> [] \<and> last x1 = dot then x1 else x1 @ [dot])
      in py_split dot (butlast x2))"

fun findroot_from :: "mibdict \<Rightarrow> string list \<Rightarrow> nat \<Rightarrow> string \<times> string \<times> string" where
  "findroot_from d arcs 0 = ([dot], [], py_join [dot] arcs)"
| "findroot_from d arcs (Suc n) =
     (let k = py_join [dot] (take (Suc n) arcs) in
      case (if take 1 k = ''_'' then None else map_of d k) of
        Some v \<Rightarrow> (v, k, drop (length k) (py_join [dot] arcs))
      | None \<Rightarrow> findroot_from d arcs n)"

definition mib_findroot :: "mibdict \<Rightarrow> string \<Rightarrow> string \<times> string \<times> string" where
  "mib_findroot d x = (let arcs = mib_arcs x in findroot_from d arcs (length arcs))"

definition mib_oidname :: "mibdict \<Rightarrow> string \<Rightarrow> string" where
  "mib_oidname d x = (case mib_findroot d x of (root, _, remainder) \<Rightarrow> root @ remainder)"

text \<open>\<open>re.match("^[0-9]+$", w)\<close>: digits, and one newline may follow them.\<close>

definition re_integer :: "string \<Rightarrow> bool" where
  "re_integer w =
     (let v = (if w \<noteq> [] \<and> last w = CHR 0x0A then butlast w else w)
      in v \<noteq> [] \<and> list_all (\<lambda>c. 48 \<le> (of_char c :: nat) \<and> of_char c \<le> (57 :: nat)) v)"

definition mib_oid :: "mibdict \<Rightarrow> string \<Rightarrow> string" where
  "mib_oid d x =
     (let xl = py_split dot (py_strip (\<lambda>c. c = dot) x) in
      if length (dropWhile re_integer (rev xl)) \<noteq> 1 \<or> hd xl \<notin> snd ` set d then x
      else (case find (\<lambda>(k, v). v = hd xl) d of
              None \<Rightarrow> x
            | Some (k, v) \<Rightarrow> py_join [dot] (k # tl xl)))"

text \<open>The root found is known, it is a prefix of the OID's arcs, and no longer prefix is known.\<close>

lemma findroot_from_longest:
  assumes "findroot_from d arcs n = (root, k, r)" "n \<le> length arcs"
  shows "(\<exists>m. 1 \<le> m \<and> m \<le> n \<and> k = py_join [dot] (take m arcs) \<and> map_of d k = Some root \<and>
           (\<forall>j. m < j \<and> j \<le> n \<longrightarrow> take 1 (py_join [dot] (take j arcs)) = ''_'' \<or>
              map_of d (py_join [dot] (take j arcs)) = None)) \<or>
         (root = [dot] \<and> k = [] \<and> (\<forall>j. 1 \<le> j \<and> j \<le> n \<longrightarrow>
            take 1 (py_join [dot] (take j arcs)) = ''_'' \<or> map_of d (py_join [dot] (take j arcs)) = None))"
  using assms
proof (induction n)
  case (Suc n)
  let ?k = "py_join [dot] (take (Suc n) arcs)"
  show ?case
  proof (cases "if take 1 ?k = ''_'' then None else map_of d ?k")
    case None
    then have known: "take 1 ?k = ''_'' \<or> map_of d ?k = None" by (auto split: if_splits)
    have "findroot_from d arcs n = (root, k, r)"
      using Suc.prems(1) None by (simp del: take_Suc add: Let_def)
    from Suc.IH [OF this] Suc.prems(2) known show ?thesis
      by (metis (no_types, lifting) Suc_leD le_Suc_eq)
  next
    case (Some v)
    then have "take 1 ?k \<noteq> ''_''" "map_of d ?k = Some v" by (auto split: if_splits)
    moreover have "root = v" "k = ?k"
      using Suc.prems(1) Some by (auto simp: Let_def)
    ultimately show ?thesis
      by (metis Suc_leI le_refl less_le_not_le zero_less_Suc One_nat_def)
  qed
qed auto

lemma py_join_take_prefix: "\<exists>t. py_join [c] arcs = py_join [c] (take n arcs) @ t"
proof (induction "[c]" arcs arbitrary: n rule: py_join.induct)
  case (2 w)
  then show ?case by (cases n) auto
next
  case (3 w v ws)
  show ?case
  proof (cases n)
    case (Suc m)
    with 3 [of m] show ?thesis by (cases m) auto
  qed simp
qed simp

lemma findroot_from_split:
  "findroot_from d arcs n = (root, k, r) \<Longrightarrow> py_join [dot] arcs = k @ r"
proof (induction n)
  case (Suc n)
  then show ?case
    using py_join_take_prefix [of dot arcs "Suc n"]
    by (auto simp: Let_def simp del: take_Suc split: option.splits if_splits)
qed auto

end
