(* ===== verification/Py_Socket.thy ===== *)
theory Py_Socket
  imports Py_Text
begin

text \<open>
  \<open>socket.inet_aton\<close>, \<open>socket.inet_ntoa\<close> and \<open>inet_pton(AF_INET, _)\<close> as the C library
  gives them: \<open>inet_aton\<close> takes one to four parts in decimal, octal (leading \<open>0\<close>) or
  hexadecimal (\<open>0x\<close>), the last part filling the remaining octets, and ignores what follows
  white space; \<open>inet_pton\<close> takes exactly four decimal octets. \<open>None\<close> is OSError.
\<close>

section \<open>Number scanning\<close>

fun digits_while :: "nat \<Rightarrow> nat \<Rightarrow> string \<Rightarrow> nat \<times> string" where
  "digits_while b n [] = (n, [])"
| "digits_while b n (c # cs) =
     (case digit_val c of
        None \<Rightarrow> (n, c # cs)
      | Some d \<Rightarrow> if d < b then digits_while b (n * b + d) cs else (n, c # cs))"

definition is_digit :: "nat \<Rightarrow> char \<Rightarrow> bool" where
  "is_digit b c \<longleftrightarrow> (case digit_val c of None \<Rightarrow> False | Some d \<Rightarrow> d < b)"

definition strtoul0 :: "string \<Rightarrow> nat \<times> string" where
  "strtoul0 s =
     (if 3 \<le> length s \<and> s ! 0 = CHR ''0'' \<and> (s ! 1 = CHR ''x'' \<or> s ! 1 = CHR ''X'') \<and> is_digit 16 (s ! 2)
      then digits_while 16 0 (drop 2 s)
      else if s \<noteq> [] \<and> s ! 0 = CHR ''0'' then digits_while 8 0 s
      else digits_while 10 0 s)"

function aton_loop :: "nat list \<Rightarrow> string \<Rightarrow> (nat list \<times> nat) option" where
  "aton_loop pp s =
     (if s = [] \<or> \<not> is_digit 10 (hd s) then None
      else (let (v, r) = strtoul0 s in
        if 0xFFFFFFFF < v then None
        else (case r of
          [] \<Rightarrow> Some (pp, v)
        | c # t \<Rightarrow>
            if c = CHR ''.'' then
              (if 2 < length pp \<or> 0xFF < v then None else aton_loop (pp @ [v]) t)
            else if py_space c then Some (pp, v)
            else None)))"
  by pat_completeness auto
termination
  by (relation "measure (\<lambda>(pp, s). 3 - length pp)") auto

declare aton_loop.simps [simp del]

definition inet_aton :: "string \<Rightarrow> bytes option" where
  "inet_aton s =
     (case aton_loop [] s of
        None \<Rightarrow> None
      | Some (pp, v) \<Rightarrow>
          if v < 256 ^ (4 - length pp) then Some (map of_nat pp @ to_be (4 - length pp) v) else None)"

definition inet_ntoa :: "bytes \<Rightarrow> string" where
  "inet_ntoa b = py_join ''.'' (map (\<lambda>c. dec_str (unat c)) b)"

text \<open>\<open>inet_pton(AF_INET, s)\<close>: four decimal parts of one to three digits without a leading
  zero, each at most 255.\<close>

definition pton4_part :: "string \<Rightarrow> nat option" where
  "pton4_part w =
     (if w = [] \<or> 3 < length w \<or> (1 < length w \<and> hd w = CHR ''0'') then None
      else (case digits_while 10 0 w of
              (v, []) \<Rightarrow> if v \<le> 255 then Some v else None
            | (v, _ # _) \<Rightarrow> None))"

definition inet_pton4 :: "string \<Rightarrow> bytes option" where
  "inet_pton4 s =
     (let ws = py_split (CHR ''.'') s in
      if length ws \<noteq> 4 \<or> (\<exists>w\<in>set ws. pton4_part w = None) then None
      else Some (map (\<lambda>w. of_nat (the (pton4_part w))) ws))"

section \<open>Round trips\<close>

lemma digits_while_numeral:
  assumes "2 \<le> b" "b \<le> 16"
  shows "digits_while b a (numeral_str b n @ t) =
    digits_while b (a * b ^ length (numeral_str b n) + n) t"
  using assms
proof (induction b n arbitrary: t rule: numeral_str.induct)
  case (1 b n)
  show ?case
  proof (cases "n < b")
    case True
    with "1.prems" show ?thesis by (simp add: numeral_str.simps [of b n])
  next
    case False
    let ?q = "numeral_str b (n div b)"
    have d: "n mod b < b" "n mod b < 16" using "1.prems" by (auto intro: less_le_trans [of _ b])
    have "(a * b ^ length ?q + n div b) * b + n mod b = a * b ^ Suc (length ?q) + n"
      by (simp add: algebra_simps)
    with False "1.prems" d "1.IH" [of "digit_char (n mod b) # t"] show ?thesis
      by (simp add: numeral_str.simps [of b n])
  qed
qed

lemma hd_numeral_str_zero:
  "2 \<le> b \<Longrightarrow> b \<le> 16 \<Longrightarrow> hd (numeral_str b n) = CHR ''0'' \<longleftrightarrow> n = 0"
proof (induction b n rule: numeral_str.induct)
  case (1 b n)
  show ?case
  proof (cases "n < b")
    case True
    with "1.prems" show ?thesis by (simp add: numeral_str.simps [of b n])
  next
    case False
    with "1.prems" have "n div b \<noteq> 0" "n \<noteq> 0"
      by (auto simp: div_eq_0_iff)
    with False "1.prems" "1.IH" show ?thesis
      by (simp add: numeral_str.simps [of b n])
  qed
qed

lemma digit_val_consts [simp]:
  "digit_val (CHR ''0'') = Some 0" "digit_val (CHR ''x'') = Some 33" "digit_val (CHR ''X'') = Some 33"
  "digit_val (CHR ''.'') = None"
  by (simp_all add: digit_val_def)

lemma strtoul0_dec:
  assumes "t = [] \<or> digit_val (hd t) = None"
  shows "strtoul0 (dec_str n @ t) = (n, t)"
proof -
  have stop: "digits_while b m t = (m, t)" for b m
    using assms by (cases t) auto
  show ?thesis
  proof (cases "n = 0")
    case True
    have "dec_str 0 = ''0''" by (simp add: numeral_str.simps)
    moreover have "t = [] \<or> hd t \<noteq> CHR ''x'' \<and> hd t \<noteq> CHR ''X''"
      using assms by auto
    ultimately show ?thesis
      using True stop by (cases t) (auto simp: strtoul0_def)
  next
    case False
    have "(dec_str n @ t) ! 0 = hd (dec_str n)"
      by (cases "dec_str n") auto
    with False have "(dec_str n @ t) ! 0 \<noteq> CHR ''0''"
      using hd_numeral_str_zero [of 10 n] by simp
    then show ?thesis
      using digits_while_numeral [of 10 0 n t] stop by (simp add: strtoul0_def)
  qed
qed

lemma is_digit_hd_dec: "is_digit 10 (hd (dec_str n @ t))"
  using hd_numeral_str [of 10 n] by (auto simp: is_digit_def)

lemma aton_loop_dot:
  assumes "v < 256" "length pp \<le> 2"
  shows "aton_loop pp (dec_str v @ CHR ''.'' # t) = aton_loop (pp @ [v]) t"
  using assms strtoul0_dec [of "CHR ''.'' # t" v] is_digit_hd_dec [of v "CHR ''.'' # t"]
  by (simp add: aton_loop.simps [of pp])

lemma aton_loop_last: "v \<le> 0xFFFFFFFF \<Longrightarrow> aton_loop pp (dec_str v) = Some (pp, v)"
  using strtoul0_dec [of "[]" v] is_digit_hd_dec [of v "[]"]
  by (simp add: aton_loop.simps [of pp])

lemma inet_aton_ntoa:
  assumes "length b = 4"
  shows "inet_aton (inet_ntoa b) = Some b"
proof -
  obtain w x y z where b: "b = [w, x, y, z]"
    using assms by (auto simp: length_4_conv)
  have "aton_loop [] (inet_ntoa b) = Some ([unat w, unat x, unat y], unat z)"
    using aton_loop_last [of "unat z"] byte_less [of z]
    by (simp add: b inet_ntoa_def aton_loop_dot less_imp_le)
  then show ?thesis by (simp add: inet_aton_def b)
qed

lemma aton_loop_parts:
  "aton_loop pp s = Some (qq, v) \<Longrightarrow> length pp \<le> 3 \<Longrightarrow> length qq \<le> 3"
proof (induction pp s rule: aton_loop.induct)
  case (1 pp s)
  obtain u r where ur: "strtoul0 s = (u, r)" by fastforce
  from "1.prems"(1) have g: "s \<noteq> []" "is_digit 10 (hd s)" "\<not> 0xFFFFFFFF < u"
    by (auto simp: aton_loop.simps [of pp s] ur split: if_splits)
  show ?case
  proof (cases "\<exists>t. r = CHR ''.'' # t")
    case True
    then obtain t where r: "r = CHR ''.'' # t" by blast
    with "1.prems"(1) g have "\<not> (2 < length pp \<or> 0xFF < u)" "aton_loop (pp @ [u]) t = Some (qq, v)"
      by (auto simp: aton_loop.simps [of pp s] ur split: if_splits)
    with "1.IH" [OF _ ur [symmetric] refl] g r show ?thesis by auto
  next
    case False
    with "1.prems" g show ?thesis
      by (auto simp: aton_loop.simps [of pp s] ur split: if_splits list.splits)
  qed
qed

lemma inet_aton_length: "inet_aton s = Some b \<Longrightarrow> length b = 4"
  using aton_loop_parts [of "[]" s] by (fastforce simp: inet_aton_def split: option.splits if_splits)

lemma pton4_part_dec: "v < 256 \<Longrightarrow> pton4_part (dec_str v) = Some v"
  using digits_while_numeral [of 10 0 v "[]"] hd_numeral_str_zero [of 10 v]
    length_numeral_str [of 10 v 2]
  by (auto simp: pton4_part_def numeral_str.simps [of 10 0])

lemma inet_pton4_ntoa:
  assumes "length b = 4"
  shows "inet_pton4 (inet_ntoa b) = Some b"
proof -
  have "py_split (CHR ''.'') (inet_ntoa b) = map (\<lambda>c. dec_str (unat c)) b"
    using assms unfolding inet_ntoa_def by (intro py_split_join) auto
  then show ?thesis
    using assms by (auto simp: inet_pton4_def Let_def pton4_part_dec intro: map_idI)
qed

end
