(* ===== verification/Asn1_Objects.thy ===== *)
theory Asn1_Objects
  imports Ber_Elements Mib Py_Socket
begin

text \<open>
  ASN.1 tags and value objects (\<open>asn1/asn1.py\<close>): the tags of \<open>ASN1_Class_UNIVERSAL\<close> with
  their numbers, the codec class \<open>asn1/ber.py\<close> registers for each, the objects a decode
  builds and the bit-string object's setters. A Python \<open>str\<close> held by a time object is kept
  as its UTF-8 octets, which is what \<open>bytes_encode\<close> makes of it.
\<close>

section \<open>Tags and codecs\<close>

datatype asn1_tag =
    ERROR | RAW | NONE | ANY | BOOLEAN | INTEGER | BIT_STRING | STRING | NULL | OID
  | OBJECT_DESCRIPTOR | EXTERNAL | REAL | ENUMERATED | EMBEDDED_PDF | UTF8_STRING | RELATIVE_OID
  | SEQUENCE | SET | NUMERIC_STRING | PRINTABLE_STRING | T61_STRING | VIDEOTEX_STRING | IA5_STRING
  | UTC_TIME | GENERALIZED_TIME | GRAPHIC_STRING | ISO646_STRING | GENERAL_STRING
  | UNIVERSAL_STRING | CHAR_STRING | BMP_STRING
  | IPADDRESS | COUNTER32 | COUNTER64 | GAUGE32 | TIME_TICKS

fun tag_value :: "asn1_tag \<Rightarrow> int" where
  "tag_value ERROR = -3" | "tag_value RAW = -2" | "tag_value NONE = -1" | "tag_value ANY = 0"
| "tag_value BOOLEAN = 1" | "tag_value INTEGER = 2" | "tag_value BIT_STRING = 3"
| "tag_value STRING = 4" | "tag_value NULL = 5" | "tag_value OID = 6"
| "tag_value OBJECT_DESCRIPTOR = 7" | "tag_value EXTERNAL = 8" | "tag_value REAL = 9"
| "tag_value ENUMERATED = 10" | "tag_value EMBEDDED_PDF = 11" | "tag_value UTF8_STRING = 12"
| "tag_value RELATIVE_OID = 13" | "tag_value SEQUENCE = 16 OR 0x20" | "tag_value SET = 17 OR 0x20"
| "tag_value NUMERIC_STRING = 18" | "tag_value PRINTABLE_STRING = 19" | "tag_value T61_STRING = 20"
| "tag_value VIDEOTEX_STRING = 21" | "tag_value IA5_STRING = 22" | "tag_value UTC_TIME = 23"
| "tag_value GENERALIZED_TIME = 24" | "tag_value GRAPHIC_STRING = 25" | "tag_value ISO646_STRING = 26"
| "tag_value GENERAL_STRING = 27" | "tag_value UNIVERSAL_STRING = 28" | "tag_value CHAR_STRING = 29"
| "tag_value BMP_STRING = 30" | "tag_value IPADDRESS = 0 OR 0x40" | "tag_value COUNTER32 = 1 OR 0x40"
| "tag_value COUNTER64 = 6 OR 0x40" | "tag_value GAUGE32 = 2 OR 0x40" | "tag_value TIME_TICKS = 3 OR 0x40"

definition universal_tags :: "asn1_tag list" where
  "universal_tags = [ERROR, RAW, NONE, ANY, BOOLEAN, INTEGER, BIT_STRING, STRING, NULL, OID,
     OBJECT_DESCRIPTOR, EXTERNAL, REAL, ENUMERATED, EMBEDDED_PDF, UTF8_STRING, RELATIVE_OID,
     SEQUENCE, SET, NUMERIC_STRING, PRINTABLE_STRING, T61_STRING, VIDEOTEX_STRING, IA5_STRING,
     UTC_TIME, GENERALIZED_TIME, GRAPHIC_STRING, ISO646_STRING, GENERAL_STRING,
     UNIVERSAL_STRING, CHAR_STRING, BMP_STRING, IPADDRESS, COUNTER32, COUNTER64, GAUGE32, TIME_TICKS]"

type_synonym asn1_class = "nat \<Rightarrow> asn1_tag option"

definition universal :: asn1_class where
  "universal p = find (\<lambda>t. tag_value t = int p) universal_tags"

text \<open>The class whose \<open>enc\<close> and \<open>do_dec\<close> run for a tag; \<open>None\<close> where no codec is registered.\<close>

datatype codec_kind =
    BERcodec_Object | BERcodec_INTEGER | BERcodec_BIT_STRING | BERcodec_STRING | BERcodec_NULL
  | BERcodec_OID | BERcodec_SEQUENCE | BERcodec_IPADDRESS

fun get_codec :: "asn1_tag \<Rightarrow> codec_kind option" where
  "get_codec ANY = Some BERcodec_Object"
| "get_codec INTEGER = Some BERcodec_INTEGER"
| "get_codec BOOLEAN = Some BERcodec_INTEGER"
| "get_codec BIT_STRING = Some BERcodec_BIT_STRING"
| "get_codec STRING = Some BERcodec_STRING"
| "get_codec NULL = Some BERcodec_NULL"
| "get_codec OID = Some BERcodec_OID"
| "get_codec ENUMERATED = Some BERcodec_INTEGER"
| "get_codec UTF8_STRING = Some BERcodec_STRING"
| "get_codec NUMERIC_STRING = Some BERcodec_STRING"
| "get_codec PRINTABLE_STRING = Some BERcodec_STRING"
| "get_codec T61_STRING = Some BERcodec_STRING"
| "get_codec VIDEOTEX_STRING = Some BERcodec_STRING"
| "get_codec IA5_STRING = Some BERcodec_STRING"
| "get_codec GENERAL_STRING = Some BERcodec_STRING"
| "get_codec UTC_TIME = Some BERcodec_STRING"
| "get_codec GENERALIZED_TIME = Some BERcodec_STRING"
| "get_codec ISO646_STRING = Some BERcodec_STRING"
| "get_codec UNIVERSAL_STRING = Some BERcodec_STRING"
| "get_codec BMP_STRING = Some BERcodec_STRING"
| "get_codec SEQUENCE = Some BERcodec_SEQUENCE"
| "get_codec SET = Some BERcodec_SEQUENCE"
| "get_codec IPADDRESS = Some BERcodec_IPADDRESS"
| "get_codec COUNTER32 = Some BERcodec_INTEGER"
| "get_codec COUNTER64 = Some BERcodec_INTEGER"
| "get_codec GAUGE32 = Some BERcodec_INTEGER"
| "get_codec TIME_TICKS = Some BERcodec_INTEGER"
| "get_codec _ = None"

lemma tag_value_nums [simp]:
  "16 OR 32 = (48 :: int)" "17 OR 32 = (49 :: int)" "0 OR 64 = (64 :: int)" "1 OR 64 = (65 :: int)"
  "6 OR 64 = (70 :: int)" "2 OR 64 = (66 :: int)" "3 OR 64 = (67 :: int)"
  by code_simp+

lemma universal_tag_value:
  assumes "0 \<le> tag_value t"
  shows "universal (nat (tag_value t)) = Some t"
  using assms by (cases t) (simp_all add: universal_def universal_tags_def)

lemma codec_tag_range: "get_codec t = Some k \<Longrightarrow> 0 \<le> tag_value t \<and> tag_value t < 256 \<and> tag_value t mod 32 \<noteq> 31"
  by (cases t) simp_all

section \<open>Objects\<close>

datatype asn1_obj =
    ASN1_Int asn1_tag int
  | ASN1_BIT_STRING string
  | ASN1_Str asn1_tag bytes
  | ASN1_Time asn1_tag bytes
  | ASN1_OID string
  | ASN1_IPADDRESS string
  | ASN1_Seq asn1_tag "asn1_obj list"
  | ASN1_DECODING_ERROR bytes "asn1_obj ber_err"
  | ASN1_BADTAG bytes
  | ASN1_BADTAG_obj asn1_obj

type_synonym 'a dec = "(asn1_obj, 'a) ber"

text \<open>\<open>plain_str\<close> on octets: UTF-8 decoding that writes an octet of an ill-formed sequence
  as a backslash, \<open>x\<close> and two hex digits. The length of the well-formed sequence at the front, by Unicode's table 3-7.\<close>

definition cont :: "nat \<Rightarrow> nat \<Rightarrow> bytes \<Rightarrow> nat \<Rightarrow> bool" where
  "cont lo hi s i \<longleftrightarrow> i < length s \<and> lo \<le> unat (s ! i) \<and> unat (s ! i) \<le> hi"

definition utf8_len :: "bytes \<Rightarrow> nat" where
  "utf8_len s =
     (if s = [] then 0
      else (let c = unat (hd s) in
        if c < 0x80 then 1
        else if 0xC2 \<le> c \<and> c \<le> 0xDF \<and> cont 0x80 0xBF s 1 then 2
        else if 0xE0 \<le> c \<and> c \<le> 0xEF
             \<and> cont (if c = 0xE0 then 0xA0 else 0x80) (if c = 0xED then 0x9F else 0xBF) s 1
             \<and> cont 0x80 0xBF s 2 then 3
        else if 0xF0 \<le> c \<and> c \<le> 0xF4
             \<and> cont (if c = 0xF0 then 0x90 else 0x80) (if c = 0xF4 then 0x8F else 0xBF) s 1
             \<and> cont 0x80 0xBF s 2 \<and> cont 0x80 0xBF s 3 then 4
        else 0))"

definition ascii :: "string \<Rightarrow> bytes" where
  "ascii s = map (\<lambda>c. of_nat (of_char c)) s"

function plain_str :: "bytes \<Rightarrow> bytes" where
  "plain_str s =
     (if s = [] then []
      else if utf8_len s = 0
      then ascii (CHR 0x5C # CHR ''x'' # hex_str 2 (unat (hd s))) @ plain_str (tl s)
      else take (utf8_len s) s @ plain_str (drop (utf8_len s) s))"
  by pat_completeness auto
termination
  by (relation "measure length") auto

declare plain_str.simps [simp del]

text \<open>\<open>binrepr(x).zfill(8)\<close>: eight binary digits, most significant first.\<close>

definition bits8 :: "byte \<Rightarrow> string" where
  "bits8 x = pad0 8 (numeral_str 2 (unat x))"

text \<open>\<open>int("".join(x), 2)\<close> over groups of eight digits.\<close>

fun bits_to_bytes :: "string \<Rightarrow> bytes" where
  "bits_to_bytes (a # b # c # d # e # f # g # h # r) =
     of_nat (foldl (\<lambda>n x. 2 * n + (if x = CHR ''1'' then 1 else 0)) 0 [a, b, c, d, e, f, g, h])
     # bits_to_bytes r"
| "bits_to_bytes _ = []"

definition unused_bits :: "string \<Rightarrow> nat" where
  "unused_bits v = (if length v mod 8 = 0 then 0 else 8 - length v mod 8)"

definition pad_bits :: "string \<Rightarrow> string" where
  "pad_bits v = v @ replicate (unused_bits v) (CHR ''0'')"

end
