(* ===== verification/Ber_Codec.thy ===== *)
theory Ber_Codec
  imports Asn1_Objects
begin

text \<open>
  The BER codec classes of \<open>asn1/ber.py\<close>: the checks every decoder starts with, the
  encoders and decoders of each kind of value, and the generic decoder with its recursion
  over constructed values, its depth limit, its budget and its safe mode.
\<close>

record asn1_conf =
  ASN1_default_long_size :: nat
  conf_mib :: mibdict

section \<open>Encoders\<close>

definition tlv :: "asn1_tag \<Rightarrow> nat \<Rightarrow> nat option \<Rightarrow> bytes \<Rightarrow> asn1_obj ber_err + bytes" where
  "tlv cls long_size size_len s =
     rbind (chb (tag_value cls)) (\<lambda>h.
     rbind (BER_len_enc long_size (length s) size_len) (\<lambda>l. Inr (h @ l @ s)))"

text \<open>The loop of \<open>BERcodec_INTEGER.enc\<close>: the content octets, least significant first.\<close>

function int_octets :: "int \<Rightarrow> bytes" where
  "int_octets i =
     of_int (i AND 0xFF) #
     (if -127 \<le> i \<and> i < 0 then []
      else (if 128 \<le> i \<and> i \<le> 255 then [0] else []) @
        (if drop_bit 8 i = 0 then [] else int_octets (drop_bit 8 i)))"
  by pat_completeness auto
termination
proof (relation "measure (\<lambda>i. nat \<bar>i\<bar>)")
  fix i :: int
  assume "\<not> (-127 \<le> i \<and> i < 0)" "drop_bit 8 i \<noteq> 0"
  then show "(drop_bit 8 i, i) \<in> measure (\<lambda>i. nat \<bar>i\<bar>)"
    by (auto simp: shifts)
qed simp

declare int_octets.simps [simp del]

definition INTEGER_enc :: "asn1_tag \<Rightarrow> int \<Rightarrow> nat \<Rightarrow> nat option \<Rightarrow> asn1_obj ber_err + bytes" where
  "INTEGER_enc cls i long_size size_len = tlv cls long_size size_len (rev (int_octets i))"

definition NULL_enc :: "int \<Rightarrow> nat \<Rightarrow> nat option \<Rightarrow> asn1_obj ber_err + bytes" where
  "NULL_enc i long_size size_len =
     (if i = 0 then rbind (chb (tag_value NULL)) (\<lambda>h. Inr (h @ [0]))
      else INTEGER_enc NULL i long_size size_len)"

text \<open>\<open>BERcodec_BIT_STRING.enc\<close> of the object's value, a string of the digits 0 and 1.\<close>

definition BIT_STRING_enc :: "string \<Rightarrow> nat \<Rightarrow> nat option \<Rightarrow> asn1_obj ber_err + bytes" where
  "BIT_STRING_enc v long_size size_len =
     tlv BIT_STRING long_size size_len (of_nat (unused_bits v) # bits_to_bytes (pad_bits v))"

definition STRING_enc :: "asn1_tag \<Rightarrow> bytes \<Rightarrow> nat \<Rightarrow> nat option \<Rightarrow> asn1_obj ber_err + bytes" where
  "STRING_enc cls s long_size size_len = tlv cls long_size size_len s"

definition oid_arcs :: "string \<Rightarrow> asn1_obj ber_err + int list" where
  "oid_arcs oid =
     (if oid = [] then Inr []
      else rmap (\<lambda>x. case py_int 10 x of None \<Rightarrow> Inl ValueError | Some i \<Rightarrow> Inr i)
             (py_split dot (py_strip (\<lambda>c. c = dot) oid)))"

definition OID_enc :: "string \<Rightarrow> nat \<Rightarrow> nat option \<Rightarrow> asn1_obj ber_err + bytes" where
  "OID_enc oid long_size size_len =
     rbind (oid_arcs oid) (\<lambda>lst.
     let lst = (case lst of x # y # r \<Rightarrow> (y + 40 * x) # r | _ \<Rightarrow> lst) in
     rbind (rmap (\<lambda>k. BER_num_enc k 1) lst) (\<lambda>ss. tlv OID long_size size_len (concat ss)))"

definition IPADDRESS_enc :: "string \<Rightarrow> nat \<Rightarrow> nat option \<Rightarrow> asn1_obj ber_err + bytes" where
  "IPADDRESS_enc ip long_size size_len =
     (case inet_aton ip of
        None \<Rightarrow> Inl BER_Encoding_Error
      | Some s \<Rightarrow> tlv IPADDRESS long_size size_len s)"

definition SEQUENCE_enc :: "asn1_tag \<Rightarrow> bytes \<Rightarrow> nat \<Rightarrow> nat option \<Rightarrow> asn1_obj ber_err + bytes" where
  "SEQUENCE_enc cls ll long_size size_len =
     tlv cls long_size (Some (case size_len of None \<Rightarrow> long_size | Some n \<Rightarrow> n)) ll"

text \<open>\<open>ASN1_Object.enc\<close>: the codec of the object's tag encodes its value.\<close>

fun obj_enc :: "asn1_conf \<Rightarrow> asn1_obj \<Rightarrow> asn1_obj ber_err + bytes" where
  "obj_enc cf (ASN1_Int t i) =
     (if get_codec t = Some BERcodec_NULL then NULL_enc i (ASN1_default_long_size cf) (Some 0)
      else if get_codec t = Some BERcodec_INTEGER then INTEGER_enc t i (ASN1_default_long_size cf) (Some 0)
      else Inl ASN1_Error)"
| "obj_enc cf (ASN1_BIT_STRING v) = BIT_STRING_enc v (ASN1_default_long_size cf) (Some 0)"
| "obj_enc cf (ASN1_Str t s) =
     (if get_codec t = Some BERcodec_STRING then STRING_enc t s (ASN1_default_long_size cf) (Some 0)
      else Inl ASN1_Error)"
| "obj_enc cf (ASN1_Time t s) =
     (if get_codec t = Some BERcodec_STRING then STRING_enc t s (ASN1_default_long_size cf) (Some 0)
      else Inl ASN1_Error)"
| "obj_enc cf (ASN1_OID v) = OID_enc v (ASN1_default_long_size cf) (Some 0)"
| "obj_enc cf (ASN1_IPADDRESS v) = IPADDRESS_enc v (ASN1_default_long_size cf) (Some 0)"
| "obj_enc cf (ASN1_Seq t os) =
     (if get_codec t = Some BERcodec_SEQUENCE
      then rbind (rmap (obj_enc cf) os) (\<lambda>ss. SEQUENCE_enc t (concat ss) (ASN1_default_long_size cf) None)
      else Inl ASN1_Error)"
| "obj_enc cf (ASN1_DECODING_ERROR s e) = Inr s"
| "obj_enc cf (ASN1_BADTAG s) = Inr s"
| "obj_enc cf (ASN1_BADTAG_obj x) = obj_enc cf x"

section \<open>Decoders of primitive values\<close>

definition check_type :: "asn1_tag \<Rightarrow> bytes \<Rightarrow> bytes dec" where
  "check_type cls s =
     (if s = [] then raise (BER_Decoding_Error None s)
      else sbind (BER_id_dec s) (\<lambda>(tag, remainder).
        if tag_value cls \<noteq> int tag then raise (BER_BadTag_Decoding_Error None s) else ret remainder))"

definition check_type_get_len :: "asn1_tag \<Rightarrow> bytes \<Rightarrow> (nat \<times> bytes) dec" where
  "check_type_get_len cls s = sbind (check_type cls s) (\<lambda>s2.
     if s2 = [] then raise (BER_Decoding_Error None s) else lift (BER_len_dec s2))"

definition check_type_check_len :: "asn1_tag \<Rightarrow> bytes \<Rightarrow> (nat \<times> bytes \<times> bytes) dec" where
  "check_type_check_len cls s = sbind (check_type_get_len cls s) (\<lambda>(l, s3).
     if length s3 < l then raise (BER_Decoding_Error None s) else ret (l, take l s3, drop l s3))"

definition INTEGER_val :: "asn1_tag \<Rightarrow> bytes \<Rightarrow> asn1_obj ber_err + asn1_obj" where
  "INTEGER_val cls s = Inr (ASN1_Int cls (from_be_signed s))"

definition BIT_STRING_val :: "bool \<Rightarrow> bytes \<Rightarrow> asn1_obj ber_err + asn1_obj" where
  "BIT_STRING_val safe s =
     (case s of
        [] \<Rightarrow> Inl (BER_Decoding_Error None s)
      | u # r \<Rightarrow>
          if safe \<and> 7 < unat u then Inl (BER_Decoding_Error None s)
          else (let fs = concat (map bits8 r) in
            Inr (ASN1_BIT_STRING (if 0 < unat u then take (length fs - unat u) fs else fs))))"

definition STRING_val :: "asn1_tag \<Rightarrow> bytes \<Rightarrow> asn1_obj ber_err + asn1_obj" where
  "STRING_val cls s =
     Inr (if cls = GENERALIZED_TIME \<or> cls = UTC_TIME then ASN1_Time cls (plain_str s) else ASN1_Str cls s)"

fun oid_loop :: "bytes \<Rightarrow> nat \<Rightarrow> nat list \<Rightarrow> bytes \<Rightarrow> asn1_obj ber_err + nat list" where
  "oid_loop s x lst [] = Inr lst"
| "oid_loop s x lst (c # cs) =
     (let y = push_bit 7 x OR (unat c AND 0x7F) in
      if unat c AND 0x80 = 0 then oid_loop s 0 (lst @ [y]) cs
      else if drop_bit (7 * 33) y \<noteq> 0 then Inl (BER_Decoding_Error None s)
      else oid_loop s y lst cs)"

definition OID_val :: "mibdict \<Rightarrow> bytes \<Rightarrow> asn1_obj ber_err + asn1_obj" where
  "OID_val mib s = rbind (oid_loop s 0 [] s) (\<lambda>lst.
     if s \<noteq> [] \<and> unat (last s) AND 0x80 \<noteq> 0 then Inl (BER_Decoding_Error None s)
     else (let lst = (case lst of
                        [] \<Rightarrow> []
                      | x # r \<Rightarrow> (if 80 \<le> x then [2, x - 80] else [x div 40, x mod 40]) @ r)
           in Inr (ASN1_OID (mib_oid mib (py_join ''.'' (map dec_str lst))))))"

definition IPADDRESS_val :: "bytes \<Rightarrow> asn1_obj ber_err + asn1_obj" where
  "IPADDRESS_val s =
     (if length s \<noteq> 4 then Inl (BER_Decoding_Error None s) else Inr (ASN1_IPADDRESS (inet_ntoa s)))"

definition prim_val :: "asn1_conf \<Rightarrow> bool \<Rightarrow> asn1_tag \<Rightarrow> bytes \<Rightarrow> asn1_obj ber_err + asn1_obj" where
  "prim_val cf safe cls s =
     (case get_codec cls of
        Some BERcodec_INTEGER \<Rightarrow> INTEGER_val cls s
      | Some BERcodec_NULL \<Rightarrow> INTEGER_val cls s
      | Some BERcodec_BIT_STRING \<Rightarrow> BIT_STRING_val safe s
      | Some BERcodec_STRING \<Rightarrow> STRING_val cls s
      | Some BERcodec_OID \<Rightarrow> OID_val (conf_mib cf) s
      | Some BERcodec_IPADDRESS \<Rightarrow> IPADDRESS_val s
      | _ \<Rightarrow> Inl ASN1_Error)"

definition prim_do_dec :: "asn1_conf \<Rightarrow> bool \<Rightarrow> asn1_tag \<Rightarrow> bytes \<Rightarrow> (asn1_obj \<times> bytes) dec" where
  "prim_do_dec cf safe cls s = sbind (check_type_check_len cls s) (\<lambda>(l, s', t).
     sbind (lift (prim_val cf safe cls s')) (\<lambda>x. ret (x, t)))"

section \<open>The generic decoder\<close>

text \<open>\<open>BERcodec_Object.do_dec\<close> up to the call of the tag's own codec, and
  \<open>BERcodec_SEQUENCE.do_dec\<close> over the decoder of one element.\<close>

definition object_do_dec ::
  "asn1_class \<Rightarrow> (asn1_tag \<Rightarrow> (asn1_obj \<times> bytes) dec) \<Rightarrow> bytes \<Rightarrow> (asn1_obj \<times> bytes) dec" where
  "object_do_dec ctx codec_dec s =
     (if s = [] then raise (BER_Decoding_Error None s)
      else sbind (BER_id_dec s) (\<lambda>(p, remainder).
        case ctx p of
          None \<Rightarrow> raise (BER_Decoding_Error None s)
        | Some tag \<Rightarrow>
            if get_codec tag = None then raise ASN1_Error
            else if get_codec tag = Some BERcodec_Object then
              (if remainder = [] then raise (BER_Decoding_Error None remainder)
               else sbind (lift (BER_len_dec remainder)) (\<lambda>(l, s').
                 ret (ASN1_BADTAG (take l s'), drop l s')))
            else codec_dec tag))"

definition sequence_do_dec ::
  "(bytes \<Rightarrow> (asn1_obj \<times> bytes) dec) \<Rightarrow> asn1_tag \<Rightarrow> bytes \<Rightarrow> (asn1_obj \<times> bytes) dec" where
  "sequence_do_dec elt_dec cls s = sbind (check_type_get_len cls s) (\<lambda>(ll, st).
     sbind (elements_loop elt_dec (drop ll st) (el_init (take ll st)) []) (\<lambda>obj.
       if length st < ll then raise (BER_Decoding_Error (Some (map DObj obj)) [])
       else ret (ASN1_Seq cls obj, drop ll st)))"

text \<open>The handlers of \<open>_dec\<close> in safe mode.\<close>

definition safe_handler ::
  "bytes \<Rightarrow> (bytes \<Rightarrow> (asn1_obj \<times> bytes) dec) \<Rightarrow> asn1_obj ber_err \<Rightarrow> (asn1_obj \<times> bytes) dec" where
  "safe_handler s any_dec e =
     (case e of
        BER_BadTag_Decoding_Error _ rem \<Rightarrow>
          sbind (any_dec rem) (\<lambda>(x, remain). ret (ASN1_BADTAG_obj x, remain))
      | BER_Decoding_Error _ _ \<Rightarrow> ret (ASN1_DECODING_ERROR s e, [])
      | BER_Encoding_Error \<Rightarrow> ret (ASN1_DECODING_ERROR s e, [])
      | ASN1_Error \<Rightarrow> ret (ASN1_DECODING_ERROR s e, [])
      | _ \<Rightarrow> raise e)"

text \<open>\<open>cls.dec(s, ctx, safe, depth)\<close>, the class given by its tag (\<open>ANY\<close> for
  \<open>BERcodec_Object\<close>). \<open>object_do_dec\<close> calls \<open>codec_dec\<close> only for a tag whose codec is another class,
  so the test in its argument never applies; it makes the recursion visibly decrease.\<close>

function ber_dec ::
  "asn1_conf \<Rightarrow> asn1_class \<Rightarrow> bool \<Rightarrow> asn1_tag \<Rightarrow> nat \<Rightarrow> bytes \<Rightarrow> (asn1_obj \<times> bytes) dec" where
  "ber_dec cf ctx safe cls depth s =
     (if MAX_BER_DEPTH < depth then raise BER_Exception
      else (let
        any_dec = (\<lambda>r. ber_dec cf ctx safe ANY (depth + 1) r);
        do_dec = (case get_codec cls of
            Some BERcodec_Object \<Rightarrow>
              object_do_dec ctx (\<lambda>tag. if get_codec tag = Some BERcodec_Object then raise ASN1_Error
                 else ber_dec cf ctx safe tag depth s) s
          | Some BERcodec_SEQUENCE \<Rightarrow> sequence_do_dec any_dec cls s
          | _ \<Rightarrow> prim_do_dec cf safe cls s);
        guarded = (if safe then try_with do_dec (safe_handler s any_dec) else do_dec)
      in if depth = 0 then ber_budget guarded else guarded))"
  by pat_completeness auto
termination
proof (relation "measure (\<lambda>(cf, ctx, safe, cls, depth, s).
    2 * (Suc MAX_BER_DEPTH - depth) + (if get_codec cls = Some BERcodec_Object then 1 else 0))", goal_cases)
qed (auto simp: MAX_BER_DEPTH_def)

declare ber_dec.simps [simp del]

text \<open>One unfolding of the decoder, in the pieces the proofs reason about: the codec's own
  \<open>do_dec\<close>, and \<open>do_dec\<close> under the handlers of safe mode.\<close>

definition codec_do_dec ::
  "asn1_conf \<Rightarrow> asn1_class \<Rightarrow> bool \<Rightarrow> asn1_tag \<Rightarrow> nat \<Rightarrow> bytes \<Rightarrow> (asn1_obj \<times> bytes) dec" where
  "codec_do_dec cf ctx safe cls d s =
     (case get_codec cls of
        Some BERcodec_Object \<Rightarrow>
          object_do_dec ctx (\<lambda>tag. if get_codec tag = Some BERcodec_Object then raise ASN1_Error
             else ber_dec cf ctx safe tag d s) s
      | Some BERcodec_SEQUENCE \<Rightarrow> sequence_do_dec (ber_dec cf ctx safe ANY (Suc d)) cls s
      | _ \<Rightarrow> prim_do_dec cf safe cls s)"

definition guarded_dec ::
  "asn1_conf \<Rightarrow> asn1_class \<Rightarrow> bool \<Rightarrow> asn1_tag \<Rightarrow> nat \<Rightarrow> bytes \<Rightarrow> (asn1_obj \<times> bytes) dec" where
  "guarded_dec cf ctx safe cls d s =
     (if safe then try_with (codec_do_dec cf ctx safe cls d s) (safe_handler s (ber_dec cf ctx safe ANY (Suc d)))
      else codec_do_dec cf ctx safe cls d s)"

lemma ber_dec_unfold:
  "ber_dec cf ctx safe cls d s =
     (if MAX_BER_DEPTH < d then raise BER_Exception
      else if d = 0 then ber_budget (guarded_dec cf ctx safe cls d s)
      else guarded_dec cf ctx safe cls d s)"
  by (subst ber_dec.simps) (simp only: guarded_dec_def codec_do_dec_def Let_def Suc_eq_plus1)

lemma guarded_dec_ok:
  "codec_do_dec cf ctx safe cls d s st = (Inr v, st') \<Longrightarrow> guarded_dec cf ctx safe cls d s st = (Inr v, st')"
  by (cases safe) (simp_all add: guarded_dec_def try_with_def)


section \<open>Integers\<close>

lemma int_octets_nonempty [simp]: "int_octets i \<noteq> []"
  by (subst int_octets.simps) simp

lemma from_be_signed_snoc:
  "xs \<noteq> [] \<Longrightarrow> from_be_signed (xs @ [c]) = from_be_signed xs * 256 + int (unat c)"
  by (simp add: from_be_signed_def algebra_simps)

lemma int_octets_roundtrip: "from_be_signed (rev (int_octets i)) = i"
proof (induction i rule: int_octets.induct)
  case (1 i)
  have low: "int (unat (of_int (i AND 0xFF) :: byte)) = i mod 256"
    by (simp add: unat_of_int_byte pybits)
  then have top: "128 \<le> unat (of_int (i AND 0xFF) :: byte) \<longleftrightarrow> 128 \<le> i mod 256"
    by linarith
  consider (neg) "-127 \<le> i \<and> i < 0" | (small) "0 \<le> i \<and> i < 256" | (big) "\<not> (-127 \<le> i \<and> i < 256)"
    by linarith
  then show ?case
  proof cases
    case neg
    then have "(i + 256) mod 256 = i + 256" by (intro mod_pos_pos_trivial) auto
    then have m: "i mod 256 = i + 256" by simp
    with neg low top show ?thesis
      by (simp add: int_octets.simps [of i] from_be_signed_def from_be_def)
  next
    case small
    then have "i mod 256 = i" "drop_bit 8 i = 0" by (auto simp: pybits)
    with small low top show ?thesis
      by (auto simp: int_octets.simps [of i] from_be_signed_def from_be_def)
  next
    case big
    then have nz: "drop_bit 8 i \<noteq> 0" by (auto simp: pybits)
    with big have "rev (int_octets i) = rev (int_octets (drop_bit 8 i)) @ [of_int (i AND 0xFF)]"
      by (auto simp: int_octets.simps [of i])
    with 1 big nz low show ?thesis
      by (auto simp: from_be_signed_snoc pybits)
  qed
qed

section \<open>Bit strings\<close>

definition is_bits :: "string \<Rightarrow> bool" where
  "is_bits v \<longleftrightarrow> set v \<subseteq> {CHR ''0'', CHR ''1''}"

definition bits_val :: "string \<Rightarrow> nat" where
  "bits_val v = foldl (\<lambda>n x. 2 * n + (if x = CHR ''1'' then 1 else 0)) 0 v"

lemma bits_val_snoc [simp]: "bits_val (v @ [x]) = 2 * bits_val v + (if x = CHR ''1'' then 1 else 0)"
  by (simp add: bits_val_def)

lemma bits_val_less: "bits_val v < 2 ^ length v"
  by (induction v rule: rev_induct) (auto simp: bits_val_def)

lemma pad0_numeral_step:
  assumes "2 \<le> b" "1 \<le> k"
  shows "pad0 (Suc k) (numeral_str b n) = pad0 k (numeral_str b (n div b)) @ [digit_char (n mod b)]"
proof (cases "n < b")
  case True
  obtain j where "k = Suc j" using assms(2) by (cases k) auto
  with True assms(1) show ?thesis
    by (simp add: numeral_str.simps [of b n] numeral_str.simps [of b 0] pad0_def replicate_append_same)
next
  case False
  with assms(1) show ?thesis by (simp add: numeral_str.simps [of b n] pad0_def)
qed

lemma digit_char_1 [simp]: "digit_char (Suc 0) = CHR ''1''"
  by code_simp

lemma pad0_bits_val:
  "is_bits v \<Longrightarrow> length v = Suc k \<Longrightarrow> pad0 (Suc k) (numeral_str 2 (bits_val v)) = v"
proof (induction k arbitrary: v)
  case 0
  then obtain x where "v = [x]" by (metis length_0_conv length_Suc_conv)
  with 0 show ?case
    by (auto simp: is_bits_def bits_val_def pad0_def numeral_str.simps)
next
  case (Suc k)
  then obtain w x where v: "v = w @ [x]" "length w = Suc k"
    by (metis length_Suc_conv_rev)
  with Suc show ?case
    by (auto simp: pad0_numeral_step is_bits_def)
qed

lemma bits_to_bytes_step:
  "length v = 8 \<Longrightarrow> bits_to_bytes (v @ r) = of_nat (bits_val v) # bits_to_bytes r"
  by (auto simp: numeral_eq_Suc length_Suc_conv bits_val_def)

lemma bits8_val: "is_bits v \<Longrightarrow> length v = 8 \<Longrightarrow> bits8 (of_nat (bits_val v)) = v"
  using pad0_bits_val [of v 7] bits_val_less [of v] by (simp add: bits8_def)

lemma bits_roundtrip:
  "is_bits v \<Longrightarrow> length v = 8 * n \<Longrightarrow> concat (map bits8 (bits_to_bytes v)) = v"
proof (induction n arbitrary: v)
  case (Suc n)
  define a b where "a = take 8 v" "b = drop 8 v"
  then have v: "v = a @ b" "length a = 8" "length b = 8 * n" using Suc.prems(2) by auto
  then have "is_bits a" "is_bits b" using Suc.prems(1) by (auto simp: is_bits_def)
  with v Suc.IH [of b] show ?case by (simp add: bits_to_bytes_step bits8_val)
qed simp

lemma unused_bits_bound: "unused_bits v < 8"
  by (auto simp: unused_bits_def)

lemma length_pad_bits: "length (pad_bits v) mod 8 = 0"
  unfolding pad_bits_def unused_bits_def by (simp add: mod_simps) presburger

lemma BIT_STRING_val_enc:
  assumes "is_bits v"
  shows "BIT_STRING_val safe (of_nat (unused_bits v) # bits_to_bytes (pad_bits v)) = Inr (ASN1_BIT_STRING v)"
proof -
  obtain n where n: "length (pad_bits v) = 8 * n"
    using length_pad_bits [of v] by (auto simp: mod_eq_0_iff_dvd elim: dvdE)
  have "is_bits (pad_bits v)" using assms by (auto simp: is_bits_def pad_bits_def)
  from bits_roundtrip [OF this n] unused_bits_bound [of v] show ?thesis
    by (auto simp: BIT_STRING_val_def Let_def pad_bits_def)
qed

end
