(* ===== verification/Ber_Roundtrip.thy ===== *)
theory Ber_Roundtrip
  imports Ber_Codec
begin

text \<open>
  What an encoder writes, the generic decoder reads back: object identifiers, the framing
  of an encoded value, and whole objects, within the depth limit and the budget.
\<close>

section \<open>Object identifiers\<close>

text \<open>The largest subidentifier the decoder accepts has 34 base-128 digits.\<close>

definition oid_limit :: nat where
  "oid_limit = 128 ^ 34"

abbreviation b128 :: "nat \<Rightarrow> bytes" where
  "b128 n \<equiv> num_octets n (Suc 0) []"

lemma b128_spec:
  obtains w c where "b128 n = w @ [c]" "from_b128 w = n div 128"
    "\<forall>c\<in>set w. 128 \<le> unat c" "unat c = n mod 128"
  by (rule num_octets_spec [of n "Suc 0"]) auto

lemma oid_loop_more:
  assumes "\<forall>c\<in>set w. 128 \<le> unat c" "x * 128 ^ length w + from_b128 w < 128 ^ 33"
  shows "oid_loop s x lst (w @ cs) = oid_loop s (x * 128 ^ length w + from_b128 w) lst cs"
  using assms
proof (induction w arbitrary: x)
  case (Cons c w)
  define y where "y = x * 128 + unat c mod 128"
  have eq: "x * 128 ^ length (c # w) + from_b128 (c # w) = y * 128 ^ length w + from_b128 w"
    by (simp add: from_b128_Cons y_def algebra_simps)
  have "y \<le> y * 128 ^ length w" by simp
  also have "\<dots> \<le> y * 128 ^ length w + from_b128 w" by simp
  also have "\<dots> < 128 ^ 33" using Cons.prems(2) unfolding eq .
  finally have "drop_bit (7 * 33) y = 0" by (simp add: shifts)
  with Cons.IH [of y] Cons.prems show ?case
    unfolding eq by (simp add: num_step and_128_eq_0 flip: y_def)
qed simp

lemma oid_loop_last:
  "unat c < 128 \<Longrightarrow> oid_loop s x lst (c # cs) = oid_loop s 0 (lst @ [x * 128 + unat c]) cs"
  by (simp add: num_step and_128_eq_0)

lemma oid_loop_num:
  assumes "n < oid_limit"
  shows "oid_loop s 0 lst (b128 n @ cs) = oid_loop s 0 (lst @ [n]) cs"
proof -
  obtain w c where wc: "b128 n = w @ [c]" "from_b128 w = n div 128"
    "\<forall>c\<in>set w. 128 \<le> unat c" "unat c = n mod 128"
    by (rule b128_spec)
  have "n div 128 < 128 ^ 33" using assms by (simp add: less_mult_imp_div_less oid_limit_def)
  with wc oid_loop_more [of w 0 s lst "c # cs"] show ?thesis
    by (simp del: oid_loop.simps add: oid_loop_last)
qed

lemma oid_loop_nums:
  "\<forall>n\<in>set ns. n < oid_limit \<Longrightarrow> oid_loop s 0 lst (concat (map b128 ns)) = Inr (lst @ ns)"
  by (induction ns arbitrary: lst) (simp_all add: oid_loop_num)

lemma last_b128: "unat (last (b128 n)) < 128" "b128 n \<noteq> []"
  by (rule b128_spec [of n]; simp)+

lemma last_oid_octets: "ns \<noteq> [] \<Longrightarrow> unat (last (concat (map b128 ns))) < 128"
  by (induction ns rule: rev_induct) (simp_all add: last_b128)

text \<open>The dotted form of a list of arcs and the arcs it is read back to.\<close>

abbreviation dotted :: "nat list \<Rightarrow> string" where
  "dotted arcs \<equiv> py_join ''.'' (map dec_str arcs)"

lemma digit_not_dot: "hd (dec_str n) \<noteq> dot" "last (dec_str n) \<noteq> dot"
proof -
  obtain h l where "h < 10" "hd (dec_str n) = digit_char h" "l < 10" "last (dec_str n) = digit_char l"
    using hd_numeral_str [of 10 n] last_numeral_str [of 10 n] by auto
  then show "hd (dec_str n) \<noteq> dot" "last (dec_str n) \<noteq> dot" by simp_all
qed

lemma strip_dotted: "arcs \<noteq> [] \<Longrightarrow> py_strip (\<lambda>c. c = dot) (dotted arcs) = dotted arcs"
  using last_py_join [of "map dec_str arcs" "''.''"]
  by (intro py_strip_id) (cases arcs; auto simp: hd_py_join digit_not_dot last_map)

lemma split_dotted: "arcs \<noteq> [] \<Longrightarrow> py_split dot (dotted arcs) = map dec_str arcs"
  by (intro py_split_join) auto

lemma dotted_nonempty: "arcs \<noteq> [] \<Longrightarrow> dotted arcs \<noteq> []"
  by (cases arcs; cases "tl arcs") auto

lemma oid_arcs_dotted:
  assumes "arcs \<noteq> []"
  shows "oid_arcs (dotted arcs) = Inr (map int arcs)"
proof -
  have "rmap (\<lambda>x. case py_int 10 x of None \<Rightarrow> Inl ValueError | Some i \<Rightarrow> Inr i) (map dec_str arcs)
    = Inr (map int arcs)"
    by (induction arcs) simp_all
  with assms show ?thesis
    by (simp add: oid_arcs_def dotted_nonempty strip_dotted split_dotted)
qed

lemma re_integer_dec: "re_integer (dec_str n)"
proof -
  obtain l where "l < 10" "last (dec_str n) = digit_char l"
    using last_numeral_str [of 10 n] by auto
  then have "\<not> py_space (last (dec_str n))" by simp
  then have "last (dec_str n) \<noteq> CHR 0x0A" by (auto simp: py_space_def)
  moreover have "48 \<le> (of_char c :: nat) \<and> of_char c \<le> (57 :: nat)" if "c \<in> set (dec_str n)" for c
    using numeral_str_digits [of 10 c n] that by (auto simp: digit_char_def)
  ultimately show ?thesis by (auto simp: re_integer_def Let_def list_all_iff)
qed

lemma mib_oid_dotted: "arcs \<noteq> [] \<Longrightarrow> mib_oid d (dotted arcs) = dotted arcs"
proof -
  assume a: "arcs \<noteq> []"
  have "length (dropWhile re_integer (rev (map dec_str arcs))) \<noteq> 1"
    by (simp add: iffD2 [OF dropWhile_eq_Nil_conv] re_integer_dec)
  with a show ?thesis
    by (simp add: mib_oid_def Let_def strip_dotted split_dotted)
qed

fun valid_arcs :: "nat list \<Rightarrow> bool" where
  "valid_arcs (x # y # r) \<longleftrightarrow>
     x \<le> 2 \<and> (x < 2 \<longrightarrow> y < 40) \<and> y + 40 * x < oid_limit \<and> (\<forall>n\<in>set r. n < oid_limit)"
| "valid_arcs _ \<longleftrightarrow> False"

fun oid_content :: "nat list \<Rightarrow> bytes" where
  "oid_content (x # y # r) = concat (map b128 ((y + 40 * x) # r))"
| "oid_content _ = []"

lemma OID_enc_dotted:
  assumes "valid_arcs arcs"
  shows "OID_enc (dotted arcs) ls sz = tlv OID ls sz (oid_content arcs)"
proof -
  obtain x y r where a: "arcs = x # y # r" using assms by (cases arcs rule: valid_arcs.cases) auto
  have m: "rmap (\<lambda>k. BER_num_enc k 1) (map int ns) =
      (Inr (map b128 ns) :: asn1_obj ber_err + bytes list)" for ns
    by (induction ns) (simp_all add: BER_num_enc_nat)
  from m [of "(y + 40 * x) # r"] oid_arcs_dotted [of arcs] show ?thesis
    by (simp add: OID_enc_def a)
qed

lemma OID_val_content:
  assumes "valid_arcs arcs"
  shows "OID_val mib (oid_content arcs) = Inr (ASN1_OID (dotted arcs))"
proof -
  obtain x y r where a: "arcs = x # y # r" using assms by (cases arcs rule: valid_arcs.cases) auto
  let ?ns = "(y + 40 * x) # r"
  have l: "oid_loop s 0 [] (concat (map b128 ?ns)) = Inr ?ns" for s
    using assms oid_loop_nums [of ?ns s "[]"] by (simp add: a)
  have "unat (last (concat (map b128 ?ns))) AND 0x80 = 0"
    using last_oid_octets [of ?ns] by (subst and_128_eq_0) simp
  moreover have "(if 80 \<le> y + 40 * x then [2, y + 40 * x - 80] else [(y + 40 * x) div 40, (y + 40 * x) mod 40]) = [x, y]"
  proof (cases "x = 2")
    case False
    with assms have "x = 0 \<or> x = 1" "y < 40" by (auto simp: a)
    then show ?thesis by auto
  qed simp
  ultimately show ?thesis
    using l mib_oid_dotted [of arcs mib] by (simp add: OID_val_def a)
qed

section \<open>Framing\<close>

lemma codec_tag_byte:
  assumes "get_codec t = Some k"
  shows "unat (of_int (tag_value t) :: byte) = nat (tag_value t)" "nat (tag_value t) mod 32 \<noteq> 31"
    "nat (tag_value t) < 256" "int (nat (tag_value t)) = tag_value t"
  using assms by (cases t; simp add: unat_of_int_byte)+

lemma BER_len_enc_nonempty: "BER_len_enc ls n sz = Inr l \<Longrightarrow> l \<noteq> []"
  by (auto simp: BER_len_enc_def Let_def split: if_splits)

lemma tlv_len_end_dec:
  assumes "BER_len_dec (drop j s) = (Inr (l, r) :: asn1_obj ber_err + nat \<times> bytes)" "l \<le> length r"
  shows "tlv_len_end s j = Some (length s - length r + l)"
proof -
  have j: "j < length s" using assms(1) by (auto simp: BER_len_dec_def not_le [symmetric])
  then obtain c u where cu: "drop j s = c # u" "c = s ! j" "u = drop (j + 1) s"
    by (metis Cons_nth_drop_Suc Suc_eq_plus1)
  have z: "unat c AND 0x80 = 0 \<longleftrightarrow> unat c < 128" by (rule and_128_eq_0)
  have e: "tlv_len_end s j = (if unat c < 128
      then (if length u < unat c then None else Some (j + 1 + unat c))
      else if length u < unat c - 128 then None
      else if length u < unat c - 128 + from_be (take (unat c - 128) u) then None
      else Some (j + 1 + (unat c - 128) + from_be (take (unat c - 128) u)))"
  proof -
    have n: "length s < j + 1 + m \<longleftrightarrow> length u < m" for m using j cu(3) by auto
    have "\<not> length s \<le> j" using j by simp
    then have 1: "tlv_len_end s j = (if unat c AND 0x80 \<noteq> 0
        then (if length u < (unat c AND 0x7F) then None
           else if length u < (unat c AND 0x7F) + from_be (take (unat c AND 0x7F) u) then None
           else Some (j + 1 + (unat c AND 0x7F) + from_be (take (unat c AND 0x7F) u)))
        else if length u < unat c then None else Some (j + 1 + unat c))"
      by (simp only: tlv_len_end_def Let_def if_False cu(2,3) [symmetric] n add.assoc n [unfolded add.assoc])
    show ?thesis
    proof (cases "unat c < 128")
      case True
      with z show ?thesis unfolding 1 by simp
    next
      case False
      then have "unat c AND 0x7F = unat c - 128" by (intro and_127_high) simp
      with False z show ?thesis unfolding 1 by (simp only:) simp
    qed
  qed
  show ?thesis
  proof (cases "unat c < 128")
    case True
    with assms cu(1) have "l = unat c" "r = u" by (auto simp: BER_len_dec_short)
    with True j assms(2) e cu(3) show ?thesis by auto
  next
    case False
    with assms cu(1) have "\<not> length u < unat c - 128" "l = from_be (take (unat c - 128) u)"
      "r = drop (unat c - 128) u"
      by (auto simp: BER_len_dec_long split: if_splits)
    moreover from this have "tlv_len_end s j = Some (j + 1 + (unat c - 128) + l)"
      using e False assms(2) by auto
    moreover have "length s = j + 1 + length u" using j cu(3) by simp
    ultimately show ?thesis by simp
  qed
qed

lemma tlv_Inr_iff:
  "tlv cls ls sz s = Inr e \<longleftrightarrow> 0 \<le> tag_value cls \<and> tag_value cls < 256 \<and>
     (\<exists>l. BER_len_enc ls (length s) sz = (Inr l :: asn1_obj ber_err + bytes) \<and>
        e = of_int (tag_value cls) # l @ s)"
  by (auto simp: tlv_def chb_def rbind_Inr_iff)

lemma tlv_next_tlv:
  assumes "tlv cls ls sz s = Inr e" "get_codec cls = Some k"
  shows "tlv_next (e @ r) 0 = Some (length e)"
proof -
  obtain l where l: "BER_len_enc ls (length s) sz = (Inr l :: asn1_obj ber_err + bytes)"
    and e: "e = of_int (tag_value cls) # l @ s"
    using assms(1) by (auto simp: tlv_Inr_iff)
  have "unat (of_int (tag_value cls) :: byte) mod 32 \<noteq> 31"
    using codec_tag_byte [OF assms(2)] by simp
  then have "tlv_id_end (e @ r) 0 = 1" by (simp add: tlv_id_end_def e and_masks)
  moreover have "BER_len_dec (drop 1 (e @ r)) = (Inr (length s, s @ r) :: asn1_obj ber_err + nat \<times> bytes)"
    using BER_len_dec_enc [OF l, of "s @ r"] by (simp add: e)
  ultimately show ?thesis
    using tlv_len_end_dec [of 1 "e @ r" "length s" "s @ r"] by (simp add: tlv_next_def e)
qed

text \<open>The front of every decoder on an encoded value.\<close>

lemma BER_id_dec_tlv:
  assumes "tlv cls ls sz s = Inr e" "get_codec cls = Some k" "left st \<noteq> Some 0"
  obtains l where "(BER_id_dec (e @ r) :: (nat \<times> bytes) dec) st = (Inr (nat (tag_value cls), l @ s @ r), spent st)"
    "l \<noteq> []" "BER_len_enc ls (length s) sz = (Inr l :: asn1_obj ber_err + bytes)"
    "e = of_int (tag_value cls) # l @ s"
proof -
  obtain l where l: "BER_len_enc ls (length s) sz = (Inr l :: asn1_obj ber_err + bytes)"
    and e: "e = of_int (tag_value cls) # l @ s"
    using assms(1) by (auto simp: tlv_Inr_iff)
  have "(BER_id_dec (e @ r) :: (nat \<times> bytes) dec) st = (Inr (nat (tag_value cls), l @ s @ r), spent st)"
    using assms(3) codec_tag_byte [OF assms(2)] by (simp add: e BER_id_dec_low)
  with that l e BER_len_enc_nonempty [OF l] show ?thesis by blast
qed

lemma check_type_get_len_tlv:
  assumes "tlv cls ls sz s = Inr e" "get_codec cls = Some k" "left st \<noteq> Some 0"
  shows "check_type_get_len cls (e @ r) st = (Inr (length s, s @ r), spent st)"
proof -
  obtain l where l: "(BER_id_dec (e @ r) :: (nat \<times> bytes) dec) st = (Inr (nat (tag_value cls), l @ s @ r), spent st)"
    "l \<noteq> []" "BER_len_enc ls (length s) sz = (Inr l :: asn1_obj ber_err + bytes)"
    "e = of_int (tag_value cls) # l @ s"
    by (rule BER_id_dec_tlv [OF assms])
  have "e @ r \<noteq> []" by (simp add: l(4))
  with l(1) codec_tag_byte(4) [OF assms(2)] have "check_type cls (e @ r) st = (Inr (l @ s @ r), spent st)"
    by (simp add: check_type_def sbind_apply)
  then show ?thesis
    using l(2) BER_len_dec_enc [OF l(3), of "s @ r"]
    by (simp add: check_type_get_len_def sbind_apply)
qed

lemma check_type_check_len_tlv:
  assumes "tlv cls ls sz s = Inr e" "get_codec cls = Some k" "left st \<noteq> Some 0"
  shows "check_type_check_len cls (e @ r) st = (Inr (length s, s, r), spent st)"
  using check_type_get_len_tlv [OF assms, of r] by (simp add: check_type_check_len_def sbind_apply)

section \<open>Whole objects\<close>

fun obj_tag :: "asn1_obj \<Rightarrow> asn1_tag" where
  "obj_tag (ASN1_Int t _) = t"
| "obj_tag (ASN1_BIT_STRING _) = BIT_STRING"
| "obj_tag (ASN1_Str t _) = t"
| "obj_tag (ASN1_Time t _) = t"
| "obj_tag (ASN1_OID _) = OID"
| "obj_tag (ASN1_IPADDRESS _) = IPADDRESS"
| "obj_tag (ASN1_Seq t _) = t"
| "obj_tag _ = ERROR"

fun wf_obj :: "asn1_obj \<Rightarrow> bool" where
  "wf_obj (ASN1_Int t i) \<longleftrightarrow> get_codec t = Some BERcodec_INTEGER \<or> get_codec t = Some BERcodec_NULL"
| "wf_obj (ASN1_BIT_STRING v) \<longleftrightarrow> is_bits v"
| "wf_obj (ASN1_Str t s) \<longleftrightarrow> get_codec t = Some BERcodec_STRING \<and> t \<noteq> UTC_TIME \<and> t \<noteq> GENERALIZED_TIME"
| "wf_obj (ASN1_Time t s) \<longleftrightarrow> (t = UTC_TIME \<or> t = GENERALIZED_TIME) \<and> plain_str s = s"
| "wf_obj (ASN1_OID v) \<longleftrightarrow> (\<exists>arcs. valid_arcs arcs \<and> v = dotted arcs)"
| "wf_obj (ASN1_IPADDRESS v) \<longleftrightarrow> (\<exists>b. length b = 4 \<and> v = inet_ntoa b)"
| "wf_obj (ASN1_Seq t os) \<longleftrightarrow> get_codec t = Some BERcodec_SEQUENCE \<and> (\<forall>x\<in>set os. wf_obj x)"
| "wf_obj _ \<longleftrightarrow> False"

fun nodes :: "asn1_obj \<Rightarrow> nat" where
  "nodes (ASN1_Seq t os) = Suc (sum_list (map nodes os))"
| "nodes _ = 1"

fun height :: "asn1_obj \<Rightarrow> nat" where
  "height (ASN1_Seq t os) = foldr max (map (\<lambda>x. Suc (height x)) os) 0"
| "height _ = 0"

lemma foldr_max_le: "foldr max xs 0 \<le> (n::nat) \<longleftrightarrow> (\<forall>x\<in>set xs. x \<le> n)"
  by (induction xs) auto

text \<open>The content octets of a primitive object, and that its codec reads them back.\<close>

lemma prim_enc:
  assumes "wf_obj x" "obj_enc cf x = Inr e" "\<And>t os. x \<noteq> ASN1_Seq t os"
  obtains ls sz s where "tlv (obj_tag x) ls sz s = Inr e" "\<And>safe. prim_val cf safe (obj_tag x) s = Inr x"
proof (cases x)
  case (ASN1_Int t i)
  show ?thesis
  proof (cases "t = NULL \<and> i = 0")
    case True
    with assms(2) ASN1_Int have "tlv NULL 0 (Some 0) [] = Inr e"
      by (auto simp: tlv_def NULL_enc_def chb_def BER_len_enc_def)
    with True ASN1_Int that [of 0 "Some 0" "[]"] show ?thesis
      by (simp add: prim_val_def INTEGER_val_def from_be_signed_def)
  next
    case False
    moreover have "get_codec t = Some BERcodec_NULL \<longleftrightarrow> t = NULL" by (cases t) auto
    ultimately have "tlv t (ASN1_default_long_size cf) (Some 0) (rev (int_octets i)) = Inr e"
      using assms(1,2) ASN1_Int by (auto simp: INTEGER_enc_def NULL_enc_def split: if_splits)
    with assms(1) ASN1_Int that show ?thesis
      by (auto simp: prim_val_def INTEGER_val_def int_octets_roundtrip)
  qed
next
  case (ASN1_BIT_STRING v)
  with assms(1,2) that show ?thesis
    by (auto simp: BIT_STRING_enc_def prim_val_def BIT_STRING_val_enc)
next
  case (ASN1_Str t s)
  with assms(1,2) that show ?thesis
    by (auto simp: STRING_enc_def prim_val_def STRING_val_def)
next
  case (ASN1_Time t s)
  with assms(1,2) that show ?thesis
    by (auto simp: STRING_enc_def prim_val_def STRING_val_def)
next
  case (ASN1_OID v)
  then obtain arcs where a: "valid_arcs arcs" "v = dotted arcs" using assms(1) by auto
  with assms(2) ASN1_OID that show ?thesis
    by (auto simp: OID_enc_dotted prim_val_def OID_val_content)
next
  case (ASN1_IPADDRESS v)
  then obtain b where b: "length b = 4" "v = inet_ntoa b" using assms(1) by auto
  with assms(2) ASN1_IPADDRESS that show ?thesis
    by (auto simp: IPADDRESS_enc_def inet_aton_ntoa prim_val_def IPADDRESS_val_def)
qed (use assms in auto)

lemma obj_tlv:
  assumes "wf_obj x" "obj_enc cf x = Inr e"
  obtains k ls sz s where "tlv (obj_tag x) ls sz s = Inr e" "get_codec (obj_tag x) = Some k" "k \<noteq> BERcodec_Object"
proof (cases "\<exists>t os. x = ASN1_Seq t os")
  case True
  with assms that show ?thesis by (auto simp: SEQUENCE_enc_def rbind_Inr_iff)
next
  case False
  with assms obtain ls sz s where "tlv (obj_tag x) ls sz s = Inr e"
    by (metis prim_enc)
  moreover have "\<exists>k. get_codec (obj_tag x) = Some k \<and> k \<noteq> BERcodec_Object"
    using assms(1) False by (cases x) auto
  ultimately show ?thesis using that by blast
qed

lemma ber_dec_step:
  assumes "d \<le> MAX_BER_DEPTH" "d = 0 \<Longrightarrow> nesting st < MAX_BER_DEPTH" "left st \<noteq> None"
    and do_dec: "\<And>n. n \<le> Suc (nesting st) \<Longrightarrow> codec_do_dec cf ctx safe cls d s (st\<lparr>nesting := n\<rparr>) =
      (Inr v, st\<lparr>nesting := n, left := Some l\<rparr>)"
  shows "ber_dec cf ctx safe cls d s st = (Inr v, st\<lparr>left := Some l\<rparr>)"
proof -
  have "guarded_dec cf ctx safe cls d s (st\<lparr>nesting := Suc (nesting st)\<rparr>) =
      (Inr v, st\<lparr>nesting := Suc (nesting st), left := Some l\<rparr>)"
    "guarded_dec cf ctx safe cls d s st = (Inr v, st\<lparr>left := Some l\<rparr>)"
    using do_dec [of "nesting st"] do_dec [of "Suc (nesting st)"] by (auto intro!: guarded_dec_ok)
  with assms(1-3) show ?thesis
    by (cases "d = 0") (auto simp: ber_dec_unfold ber_budget_def)
qed

text \<open>A decoder that reads the encoding of every object of a list, paying two charges per
  node, reads the concatenation of the encodings.\<close>

lemma elements_loop_objs:
  assumes "\<And>x e r st l. x \<in> set os \<Longrightarrow> obj_enc cf x = Inr e \<Longrightarrow> left st = Some l \<Longrightarrow> 2 * nodes x \<le> l \<Longrightarrow>
      e \<noteq> [] \<and> tlv_next (e @ r) 0 = Some (length e) \<and>
      dec (e @ r) st = (Inr (x, r), st\<lparr>left := Some (l - 2 * nodes x)\<rparr>)"
    and "rmap (obj_enc cf) os = Inr es" "el_inv el" "el_rest el = concat es"
    and "left st = Some l" "2 * sum_list (map nodes os) \<le> l"
  shows "elements_loop dec t el obj st =
    (Inr (obj @ os), st\<lparr>left := Some (l - 2 * sum_list (map nodes os))\<rparr>)"
  using assms
proof (induction os arbitrary: es el obj st l)
  case Nil
  then have "el_next el = None" by (simp add: el_next_None)
  with Nil show ?case by (simp add: elements_loop.simps)
next
  case (Cons x os)
  from Cons.prems(2) obtain e es' where es: "es = e # es'" "obj_enc cf x = Inr e" "rmap (obj_enc cf) os = Inr es'"
    by (auto simp: rbind_Inr_iff)
  have l: "2 * nodes x \<le> l" "2 * sum_list (map nodes os) \<le> l - 2 * nodes x"
    using Cons.prems(6) by auto
  let ?st = "st\<lparr>left := Some (l - 2 * nodes x)\<rparr>"
  have fr: "e \<noteq> [] \<and> tlv_next (e @ r) 0 = Some (length e) \<and> dec (e @ r) st = (Inr (x, r), ?st)" for r
    using Cons.prems(1) [OF _ es(2) Cons.prems(5) l(1)] by simp
  have "el_next el \<noteq> None"
    using el_next_None [OF Cons.prems(3)] fr [of "[]"] Cons.prems(4) es(1) by auto
  then obtain elt e' where nx: "el_next el = Some (elt, e')" by auto
  note n = el_next_Some [OF Cons.prems(3) nx]
  have "\<exists>rem. elt = e @ rem \<and> rem @ el_rest e' = concat es'"
  proof (cases "el_rest e' = []")
    case True
    with n(1) Cons.prems(4) es(1) show ?thesis by auto
  next
    case False
    have "elt @ el_rest e' = e @ concat es'" using n(1) Cons.prems(4) es(1) by simp
    moreover from this n(5) False fr [of "concat es'"] have "length elt = length e" by simp
    ultimately show ?thesis by auto
  qed
  then obtain rem where rem: "elt = e @ rem" "rem @ el_rest e' = concat es'" by blast
  have "\<exists>e''. el_leftover rem e' = (Inr e'' :: asn1_obj ber_err + elements)"
    using n(3) rem(1) fr [of "[]"] by (auto simp: el_leftover_def)
  then obtain e'' where lo: "el_leftover rem e' = (Inr e'' :: asn1_obj ber_err + elements)" by blast
  with n(4) rem(2) have "el_inv e''" "el_rest e'' = concat es'"
    using el_leftover_rest [OF lo] by auto
  note IH = Cons.IH [OF Cons.prems(1) es(3) this, of ?st "l - 2 * nodes x" "obj @ [x]"]
  have "elements_loop dec t e'' (obj @ [x]) ?st =
      (Inr (obj @ x # os), st\<lparr>left := Some (l - 2 * sum_list (map nodes (x # os)))\<rparr>)"
    using l(2) by (subst IH) auto
  with nx rem fr [of rem] lo show ?case
    by (simp add: elements_loop.simps [of dec t el])
qed

lemma prim_dec_tag:
  assumes "wf_obj x" "obj_enc cf x = Inr e" "\<And>t os. x \<noteq> ASN1_Seq t os" "d + height x \<le> MAX_BER_DEPTH"
    "d = 0 \<Longrightarrow> nesting st < MAX_BER_DEPTH" "left st = Some l" "2 * nodes x \<le> Suc l"
  shows "ber_dec cf ctx safe (obj_tag x) d (e @ r) st =
    (Inr (x, r), st\<lparr>left := Some (Suc l - 2 * nodes x)\<rparr>)"
proof (rule ber_dec_step)
  have one: "nodes x = 1" using assms(3) by (cases x) auto
  obtain ls sz s where s: "tlv (obj_tag x) ls sz s = Inr e" "prim_val cf safe (obj_tag x) s = Inr x"
    by (rule prim_enc [OF assms(1-3)]) auto
  obtain k where k: "get_codec (obj_tag x) = Some k" "k \<noteq> BERcodec_Object" "k \<noteq> BERcodec_SEQUENCE"
    using assms(1,3) by (cases x) auto
  fix n
  have "check_type_check_len (obj_tag x) (e @ r) (st\<lparr>nesting := n\<rparr>) =
      (Inr (length s, s, r), st\<lparr>nesting := n, left := Some (Suc l - 2 * nodes x)\<rparr>)"
    using one check_type_check_len_tlv [OF s(1) k(1), of "st\<lparr>nesting := n\<rparr>" r] assms(6,7) by (simp add: spent_def)
  with k s(2) show "codec_do_dec cf ctx safe (obj_tag x) d (e @ r) (st\<lparr>nesting := n\<rparr>) =
      (Inr (x, r), st\<lparr>nesting := n, left := Some (Suc l - 2 * nodes x)\<rparr>)"
    by (cases k) (simp_all add: codec_do_dec_def prim_do_dec_def sbind_apply)
qed (use assms in auto)

lemma obj_dec_any:
  assumes "wf_obj x" "obj_enc cf x = Inr e" "d \<le> MAX_BER_DEPTH" "d = 0 \<Longrightarrow> Suc (nesting st) < MAX_BER_DEPTH"
    "left st = Some l" "1 \<le> l"
    and tag: "\<And>st. left st = Some (l - 1) \<Longrightarrow> (d = 0 \<Longrightarrow> nesting st < MAX_BER_DEPTH) \<Longrightarrow>
      ber_dec cf universal safe (obj_tag x) d (e @ r) st = (Inr v, st\<lparr>left := Some l'\<rparr>)"
  shows "ber_dec cf universal safe ANY d (e @ r) st = (Inr v, st\<lparr>left := Some l'\<rparr>)"
proof (rule ber_dec_step)
  obtain k ls sz s where k: "tlv (obj_tag x) ls sz s = Inr e" "get_codec (obj_tag x) = Some k" "k \<noteq> BERcodec_Object"
    by (rule obj_tlv [OF assms(1,2)])
  fix n
  assume "n \<le> Suc (nesting st)"
  have u: "universal (nat (tag_value (obj_tag x))) = Some (obj_tag x)"
    using codec_tag_range [OF k(2)] by (intro universal_tag_value) simp
  obtain l2 where "(BER_id_dec (e @ r) :: (nat \<times> bytes) dec) (st\<lparr>nesting := n\<rparr>) =
      (Inr (nat (tag_value (obj_tag x)), l2 @ s @ r), spent (st\<lparr>nesting := n\<rparr>))"
    "e = of_int (tag_value (obj_tag x)) # l2 @ s"
    using BER_id_dec_tlv [OF k(1,2), of "st\<lparr>nesting := n\<rparr>" r] assms(5,6) by auto
  moreover have "ber_dec cf universal safe (obj_tag x) d (e @ r) (st\<lparr>nesting := n, left := Some (l - 1)\<rparr>) =
      (Inr v, st\<lparr>nesting := n, left := Some l'\<rparr>)"
    using tag [of "st\<lparr>nesting := n, left := Some (l - 1)\<rparr>"] assms(4) \<open>n \<le> _\<close> by fastforce
  ultimately show "codec_do_dec cf universal safe ANY d (e @ r) (st\<lparr>nesting := n\<rparr>) =
      (Inr v, st\<lparr>nesting := n, left := Some l'\<rparr>)"
    using u k(2,3) assms(5,6) by (auto simp: codec_do_dec_def object_do_dec_def sbind_apply spent_def)
qed (use assms in auto)

lemma obj_framed:
  assumes "wf_obj x" "obj_enc cf x = Inr e"
  shows "e \<noteq> []" "tlv_next (e @ r) 0 = Some (length e)"
proof -
  obtain k ls sz s where t: "tlv (obj_tag x) ls sz s = Inr e" "get_codec (obj_tag x) = Some k"
    by (rule obj_tlv [OF assms])
  from t show "e \<noteq> []" by (auto simp: tlv_Inr_iff)
  from t show "tlv_next (e @ r) 0 = Some (length e)" by (rule tlv_next_tlv)
qed

lemma nodes_pos: "1 \<le> nodes x"
  by (cases x) auto

lemma obj_dec_tag:
  assumes "wf_obj x" "obj_enc cf x = Inr e" "d + height x \<le> MAX_BER_DEPTH" "d = 0 \<Longrightarrow> nesting st < MAX_BER_DEPTH"
    "left st = Some l" "2 * nodes x \<le> Suc l"
  shows "ber_dec cf universal safe (obj_tag x) d (e @ r) st =
    (Inr (x, r), st\<lparr>left := Some (Suc l - 2 * nodes x)\<rparr>)"
  using assms
proof (induction x arbitrary: e d st l r)
  case (ASN1_Seq t os)
  have t: "get_codec t = Some BERcodec_SEQUENCE" using ASN1_Seq.prems(1) by simp
  obtain es sz where e: "rmap (obj_enc cf) os = Inr es" "tlv t (ASN1_default_long_size cf) sz (concat es) = Inr e"
    using ASN1_Seq.prems(2) t by (auto simp: rbind_Inr_iff SEQUENCE_enc_def)
  have "codec_do_dec cf universal safe t d (e @ r) (st\<lparr>nesting := n\<rparr>) =
     (Inr (ASN1_Seq t os, r), st\<lparr>nesting := n, left := Some (l - 1 - 2 * sum_list (map nodes os))\<rparr>)"
    if "n \<le> Suc (nesting st)" for n
  proof -
    have "elements_loop (ber_dec cf universal safe ANY (Suc d)) r (el_init (concat es)) [] (st\<lparr>nesting := n, left := Some (l - 1)\<rparr>) =
      (Inr ([] @ os), st\<lparr>nesting := n, left := Some (l - 1)\<rparr>\<lparr>left := Some (l - 1 - 2 * sum_list (map nodes os))\<rparr>)"
    proof (rule elements_loop_objs [OF _ e(1)])
      fix x e' r' l' and st' :: ber_state
      assume x: "x \<in> set os" "obj_enc cf x = Inr e'" "left st' = Some l'" "2 * nodes x \<le> l'"
      have w: "wf_obj x" using x(1) ASN1_Seq.prems(1) by simp
      have "foldr max (map (\<lambda>x. Suc (height x)) os) 0 \<le> MAX_BER_DEPTH - d"
        using ASN1_Seq.prems(3) by simp
      with x(1) have "Suc (height x) \<le> MAX_BER_DEPTH - d" by (auto simp only: foldr_max_le set_map)
      then have h: "Suc d + height x \<le> MAX_BER_DEPTH" by simp
      show "e' \<noteq> [] \<and> tlv_next (e' @ r') 0 = Some (length e') \<and>
        ber_dec cf universal safe ANY (Suc d) (e' @ r') st' = (Inr (x, r'), st'\<lparr>left := Some (l' - 2 * nodes x)\<rparr>)"
        using obj_framed [OF w x(2)] obj_dec_any [OF w x(2)] ASN1_Seq.IH [OF x(1) w x(2) h] h x(3,4) nodes_pos [of x]
        by auto
    qed (use ASN1_Seq.prems in \<open>auto simp: el_inv_init, simp add: el_rest_def el_init_def\<close>)
    then show ?thesis
     using check_type_get_len_tlv [OF e(2) t, of "st\<lparr>nesting := n\<rparr>" r] ASN1_Seq.prems
     by (simp add: codec_do_dec_def t sequence_do_dec_def sbind_apply spent_def)
  qed
  from ber_dec_step [OF _ _ _ this] ASN1_Seq.prems show ?case by simp
qed (rule prim_dec_tag; simp)+


lemma obj_roundtrip_budget:
  assumes "wf_obj x" "obj_enc cf x = Inr e" "height x \<le> MAX_BER_DEPTH" "2 * nodes x \<le> MAX_BER_ELEMENTS"
    "left st = None"
  shows "ber_dec cf universal safe ANY 0 (e @ r) st = (Inr (x, r), st\<lparr>nesting := 0\<rparr>)"
proof -
  let ?st = "st\<lparr>left := Some MAX_BER_ELEMENTS, nesting := 0\<rparr>"
  have p: "1 \<le> MAX_BER_ELEMENTS" "(1::nat) < MAX_BER_DEPTH"
    by (simp_all add: MAX_BER_ELEMENTS_def MAX_BER_DEPTH_def)
  have "ber_dec cf universal safe ANY 0 (e @ r) ?st =
      (Inr (x, r), ?st\<lparr>left := Some (MAX_BER_ELEMENTS - 2 * nodes x)\<rparr>)"
    using obj_dec_any [OF assms(1,2), of 0 ?st MAX_BER_ELEMENTS safe r "(x, r)" "MAX_BER_ELEMENTS - 2 * nodes x"]
      obj_dec_tag [OF assms(1,2), of 0 _ "MAX_BER_ELEMENTS - 1" safe r] assms(3,4) p by simp
  with assms(5) p show ?thesis
    by (auto simp: ber_dec_unfold ber_budget_def Let_def split: prod.splits)
qed

end
