(* ===== verification/Ber_Framing.thy ===== *)
theory Ber_Framing
  imports Ber_Roundtrip
begin

text \<open>
  Framing: outside safe mode the decoder of one element reads a complete TLV the same way
  whatever octets follow it, and leaves what follows untouched. This is the contract of
  the locale \<open>element_decoder\<close>, interpreted here on the generic decoder at every depth.
\<close>

definition framed_result :: "bytes \<Rightarrow> (asn1_obj ber_err + 'a \<times> bytes) \<times> ber_state
    \<Rightarrow> (asn1_obj ber_err + 'a \<times> bytes) \<times> ber_state \<Rightarrow> bool" where
  "framed_result r a b \<longleftrightarrow> snd a = snd b \<and>
     (case fst a of Inl _ \<Rightarrow> \<exists>er. fst b = Inl er | Inr (x, rem) \<Rightarrow> fst b = Inr (x, rem @ r))"

lemma tlv_len_end_framed:
  assumes "tlv_len_end (e @ r) j = Some (length e)"
  obtains l q where "drop j e \<noteq> []" "BER_len_dec (drop j e) = (Inr (l, q) :: asn1_obj ber_err + nat \<times> bytes)"
    "length q = l" "BER_len_dec (drop j e @ r) = (Inr (l, q @ r) :: asn1_obj ber_err + nat \<times> bytes)"
proof -
  have j: "j < length e"
    using assms by (auto simp: tlv_len_end_def Let_def split: if_splits)
  then obtain c u where cu: "drop j e = c # u" "c = e ! j" "u = drop (j + 1) e"
    by (metis Cons_nth_drop_Suc Suc_eq_plus1)
  have l: "length e = j + 1 + length u" using j cu(3) by simp
  have n: "(e @ r) ! j = c" "drop (j + 1) (e @ r) = u @ r" "\<not> length (e @ r) \<le> j"
    using j cu by (auto simp: nth_append)
  note t = assms [unfolded tlv_len_end_def Let_def n(1,2), unfolded if_not_P [OF n(3)]]
  have z: "unat c AND 0x80 = 0 \<longleftrightarrow> unat c < 128" by (rule and_128_eq_0)
  show ?thesis
  proof (cases "unat c < 128")
    case True
    with t z l have "length u = unat c" by (simp split: if_splits)
    with True cu(1) show ?thesis by (intro that [of "unat c" u]) (simp_all add: BER_len_dec_short)
  next
    case False
    define k where "k = unat c - 128"
    define ln where "ln = from_be (take k (u @ r))"
    have k: "unat c AND 0x7F = k" unfolding k_def by (rule and_127_high) (use False in simp)
    have e: "length e = j + 1 + k + ln"
      using t False z unfolding k ln_def by (simp split: if_splits)
    with l have u: "length u = k + ln" by simp
    then have "ln = from_be (take k u)" by (simp add: ln_def)
    with u cu(1) False show ?thesis
      by (intro that [of ln "drop k u"]) (auto simp: BER_len_dec_long k_def [symmetric])
  qed
qed

lemma num_dec_loop_framed:
  assumes "id_skip b j < length b" "num_dec_loop s mp i x (drop j b) = (res :: asn1_obj ber_err + nat \<times> bytes)"
  shows "case res of Inl _ \<Rightarrow> \<exists>er. num_dec_loop s' mp i x (drop j b @ r) = (Inl er :: asn1_obj ber_err + nat \<times> bytes)
    | Inr (v, rest) \<Rightarrow> rest = drop (id_skip b j + 1) b \<and> num_dec_loop s' mp i x (drop j b @ r) = (Inr (v, rest @ r) :: asn1_obj ber_err + nat \<times> bytes)"
  using assms
proof (induction b j arbitrary: i x rule: id_skip.induct)
  case (1 b j)
  have "j < length b" using "1.prems"(1) id_skip_ge [of j b] by simp
  then have d: "drop j b = b ! j # drop (j + 1) b" by (simp add: Cons_nth_drop_Suc)
  show ?case
  proof (cases "unat (b ! j) AND 0x80 = 0")
    case True
    with "1.prems"(2) [symmetric] show ?thesis by (simp add: d id_skip.simps [of b j] Let_def)
  next
    case False
    with \<open>j < length b\<close> have sk: "id_skip b j = id_skip b (j + 1)" by (simp add: id_skip.simps [of b j])
    let ?y = "push_bit 7 x OR (unat (b ! j) AND 0x7F)"
    show ?thesis
    proof (cases "mp < i")
      case True
      with False "1.prems"(2) [symmetric] show ?thesis by (auto simp add: d Let_def)
    next
      case nm: False
      from "1.IH" [of "i + 1" ?y] False nm \<open>j < length b\<close> "1.prems" sk show ?thesis
        by (cases res) (auto simp add: d Let_def)
    qed
  qed
qed

lemma id_skip_append:
  "id_skip (e @ r) j < length e \<Longrightarrow> id_skip e j = id_skip (e @ r) j"
proof (induction e j rule: id_skip.induct)
  case (1 e j)
  have "j < length e" using "1.prems" id_skip_ge [of j "e @ r"] by simp
  with 1 show ?case
    by (auto simp: id_skip.simps [of e j] id_skip.simps [of "e @ r" j] nth_append split: if_splits)
qed

lemma BER_id_dec_framed:
  assumes "tlv_next (e @ r) 0 = Some (length e)"
  shows "(\<exists>tag st'. (BER_id_dec e :: (nat \<times> bytes) dec) st = (Inr (tag, drop (tlv_id_end (e @ r) 0) e), st') \<and>
      (BER_id_dec (e @ r) :: (nat \<times> bytes) dec) st = (Inr (tag, drop (tlv_id_end (e @ r) 0) e @ r), st'))
   \<or> (\<exists>er er' st'. (BER_id_dec e :: (nat \<times> bytes) dec) st = (Inl er, st') \<and>
      (BER_id_dec (e @ r) :: (nat \<times> bytes) dec) st = (Inl er', st'))"
proof (cases "left st = Some 0")
  case True
  then show ?thesis by (auto simp: BER_id_dec_def sbind_apply charge_exhausted)
next
  case ch: False
  have j: "tlv_id_end (e @ r) 0 < length e"
    using assms by (auto simp: tlv_next_def elim: tlv_len_end_framed)
  then obtain c u where e: "e = c # u" by (cases e) auto
  show ?thesis
  proof (cases "unat c mod 32 = 31")
    case False
    with ch show ?thesis by (simp add: e BER_id_dec_low tlv_id_end_def and_masks)
  next
    case True
    then have t: "tlv_id_end (e @ r) 0 = id_skip (e @ r) 1 + 1"
      by (simp add: e tlv_id_end_def and_masks)
    with j have s: "id_skip e 1 = id_skip (e @ r) 1" by (intro id_skip_append) simp
    with t j have l: "id_skip e 1 < length e" by simp
    then have "u \<noteq> []" using id_skip_ge [of 1 e] by (auto simp: e)
    with num_dec_loop_framed [OF l refl, where s = u and mp = 32 and i = 0 and x = "unat c div 32" and s' = "u @ r" and r = r] True ch show ?thesis
      unfolding t s [symmetric]
      by (cases "num_dec_loop u 32 0 (unat c div 32) u :: asn1_obj ber_err + nat \<times> bytes")
        (auto simp: e BER_id_dec_high BER_num_dec_def)
  qed
qed

lemma check_type_get_len_framed:
  assumes "tlv_next (e @ r) 0 = Some (length e)"
  shows "(\<exists>l q st'. check_type_get_len cls e st = (Inr (l, q), st') \<and> length q = l \<and>
      check_type_get_len cls (e @ r) st = (Inr (l, q @ r), st'))
   \<or> (\<exists>er er' st'. check_type_get_len cls e st = (Inl er, st') \<and>
      check_type_get_len cls (e @ r) st = (Inl er', st'))"
proof -
  obtain l q where lq: "drop (tlv_id_end (e @ r) 0) e \<noteq> []" "length q = l"
    "BER_len_dec (drop (tlv_id_end (e @ r) 0) e) = (Inr (l, q) :: asn1_obj ber_err + nat \<times> bytes)"
    "BER_len_dec (drop (tlv_id_end (e @ r) 0) e @ r) = (Inr (l, q @ r) :: asn1_obj ber_err + nat \<times> bytes)"
    using assms by (auto simp: tlv_next_def elim: tlv_len_end_framed)
  then have "e \<noteq> []" by auto
  with BER_id_dec_framed [OF assms, of st] lq(1) have
    "(\<exists>st'. check_type cls e st = (Inr (drop (tlv_id_end (e @ r) 0) e), st') \<and>
      check_type cls (e @ r) st = (Inr (drop (tlv_id_end (e @ r) 0) e @ r), st'))
     \<or> (\<exists>er er' st'. check_type cls e st = (Inl er, st') \<and> check_type cls (e @ r) st = (Inl er', st'))"
    by (elim disjE exE; cases "\<exists>tag. tag_value cls = int tag \<and> fst (BER_id_dec e st) = (Inr (tag, drop (tlv_id_end (e @ r) 0) e) :: asn1_obj ber_err + nat \<times> bytes)")
      (auto simp: check_type_def sbind_apply)
  with lq show ?thesis
    by (auto simp: check_type_get_len_def sbind_apply)
qed

lemma prim_do_dec_framed:
  assumes "tlv_next (e @ r) 0 = Some (length e)"
  shows "framed_result r (prim_do_dec cf safe cls e st) (prim_do_dec cf safe cls (e @ r) st)"
  using check_type_get_len_framed [OF assms, of cls st]
  by (auto simp: framed_result_def prim_do_dec_def check_type_check_len_def sbind_apply split: sum.splits)

lemma elements_loop_tail:
  "same_outcome (elements_loop dec t el obj st) (elements_loop dec t' el obj st)"
proof (induction dec t el obj st rule: elements_loop.induct)
  case (1 dec t e obj st)
  note sim = elements_loop.simps [of dec t e] elements_loop.simps [of dec t' e] same_outcome_def
  show ?case
  proof (cases "el_next e")
    case (Some p)
    obtain elt e' where p: "p = (elt, e')" by fastforce
    obtain res st' where d: "dec elt st = (res, st')" by fastforce
    show ?thesis
    proof (cases "\<exists>x rem e''. res = Inr (x, rem) \<and> el_leftover rem e' = (Inr e'' :: 'a ber_err + elements)")
      case True
      then obtain x rem e'' where "res = Inr (x, rem)" "el_leftover rem e' = (Inr e'' :: 'a ber_err + elements)"
        by blast
      with 1 [OF Some p [symmetric], of res st' "(x, rem)" x rem e''] d Some p show ?thesis
        by (simp add: elements_loop.simps [of dec t e] elements_loop.simps [of dec t' e])
    qed (use d Some p in \<open>auto simp: sim split: sum.split\<close>)
  qed (simp add: sim)
qed

lemma sequence_do_dec_framed:
  assumes "tlv_next (e @ r) 0 = Some (length e)"
  shows "framed_result r (sequence_do_dec dec cls e st) (sequence_do_dec dec cls (e @ r) st)"
proof -
  consider l q st' where "check_type_get_len cls e st = (Inr (l, q), st')" "length q = l"
      "check_type_get_len cls (e @ r) st = (Inr (l, q @ r), st')"
    | er er' st' where "check_type_get_len cls e st = (Inl er, st')"
      "check_type_get_len cls (e @ r) st = (Inl er', st')"
    using check_type_get_len_framed [OF assms, of cls st] by blast
  then show ?thesis
  proof cases
    case 1
    then show ?thesis
      using elements_loop_tail [of dec "[]" "el_init q" "[]" st' r]
      by (auto simp: framed_result_def sequence_do_dec_def sbind_apply same_outcome_def split: prod.splits sum.splits)
  qed (simp add: framed_result_def sequence_do_dec_def sbind_apply)
qed

lemma codec_do_dec_framed:
  assumes "tlv_next (e @ r) 0 = Some (length e)" "get_codec cls \<noteq> Some BERcodec_Object"
  shows "framed_result r (codec_do_dec cf ctx safe cls d e st) (codec_do_dec cf ctx safe cls d (e @ r) st)"
  using assms by (auto simp: codec_do_dec_def prim_do_dec_framed sequence_do_dec_framed split: option.split codec_kind.split)

lemma object_do_dec_framed:
  assumes "tlv_next (e @ r) 0 = Some (length e)"
    and "\<And>tag st. get_codec tag \<noteq> Some BERcodec_Object \<Longrightarrow> framed_result r (f tag st) (g tag st)"
  shows "framed_result r (object_do_dec ctx f e st) (object_do_dec ctx g (e @ r) st)"
proof -
  obtain l q where lq: "drop (tlv_id_end (e @ r) 0) e \<noteq> []" "length q = l"
    "BER_len_dec (drop (tlv_id_end (e @ r) 0) e) = (Inr (l, q) :: asn1_obj ber_err + nat \<times> bytes)"
    "BER_len_dec (drop (tlv_id_end (e @ r) 0) e @ r) = (Inr (l, q @ r) :: asn1_obj ber_err + nat \<times> bytes)"
    using assms by (auto simp: tlv_next_def elim: tlv_len_end_framed)
  then have "e \<noteq> []" by auto
  consider tag st' where "(BER_id_dec e :: (nat \<times> bytes) dec) st = (Inr (tag, drop (tlv_id_end (e @ r) 0) e), st')"
      "(BER_id_dec (e @ r) :: (nat \<times> bytes) dec) st = (Inr (tag, drop (tlv_id_end (e @ r) 0) e @ r), st')"
    | er er' st' where "(BER_id_dec e :: (nat \<times> bytes) dec) st = (Inl er, st')"
      "(BER_id_dec (e @ r) :: (nat \<times> bytes) dec) st = (Inl er', st')"
    using BER_id_dec_framed [OF assms(1), of st] by blast
  then show ?thesis
  proof cases
    case 1
    with lq \<open>e \<noteq> []\<close> assms(2) show ?thesis
      by (auto simp: object_do_dec_def sbind_apply framed_result_def split: option.split)
  next
    case 2
    with \<open>e \<noteq> []\<close> show ?thesis
      by (auto simp: object_do_dec_def sbind_apply framed_result_def)
  qed
qed

lemma any_dec_framed:
  assumes "tlv_next (e @ r) 0 = Some (length e)"
  shows "framed_result r (ber_dec cf ctx False ANY (Suc d) e st) (ber_dec cf ctx False ANY (Suc d) (e @ r) st)"
proof (cases "MAX_BER_DEPTH < Suc d")
  case True
  then show ?thesis by (simp add: ber_dec_unfold framed_result_def)
next
  case False
  then show ?thesis
    using assms by (simp add: ber_dec_unfold guarded_dec_def codec_do_dec_def [of _ _ _ ANY])
      (rule object_do_dec_framed; simp add: ber_dec_unfold guarded_dec_def codec_do_dec_framed)
qed

interpretation unsafe_any: element_decoder "ber_dec cf ctx False ANY (Suc d)" for cf ctx d
proof
  fix e r st x rem st' er
  assume "tlv_next (e @ r) 0 = Some (length e)"
  note f = any_dec_framed [OF this, of cf ctx d st]
  show "ber_dec cf ctx False ANY (Suc d) e st = (Inr (x, rem), st') \<Longrightarrow>
      ber_dec cf ctx False ANY (Suc d) (e @ r) st = (Inr (x, rem @ r), st')"
    using f by (auto simp: framed_result_def prod_eq_iff)
  show "ber_dec cf ctx False ANY (Suc d) e st = (Inl er, st') \<Longrightarrow>
      \<exists>er'. ber_dec cf ctx False ANY (Suc d) (e @ r) st = (Inl er', st')"
    using f by (auto simp: framed_result_def prod_eq_iff)
qed

end
