(* ===== verification/Ber_Budget.thy ===== *)
theory Ber_Budget
  imports Ber_Framing
begin

text \<open>
  The budget of a decode: no step of the decoder gives charges back or loses track of the
  nesting, a decode from the top level ends with the budget cleared, and outside safe mode
  every node of the result was charged for.
\<close>

section \<open>The budget\<close>

definition within :: "ber_state \<Rightarrow> ber_state \<Rightarrow> bool" where
  "within st st' \<longleftrightarrow> (\<forall>l. left st = Some l \<longrightarrow> (\<exists>l'\<le>l. left st' = Some l' \<and> nesting st' = nesting st))"

lemma within_refl [simp]: "within st st"
  by (simp add: within_def)

lemma within_trans [trans]: "within a b \<Longrightarrow> within b c \<Longrightarrow> within a c"
  unfolding within_def by (metis le_trans)

definition bounded :: "('o, 'a) ber \<Rightarrow> bool" where
  "bounded m \<longleftrightarrow> (\<forall>st. within st (snd (m st)))"

lemma boundedD: "bounded m \<Longrightarrow> m st = (r, st') \<Longrightarrow> within st st'"
  by (metis bounded_def snd_conv)

lemma boundedI: "(\<And>st r st'. m st = (r, st') \<Longrightarrow> within st st') \<Longrightarrow> bounded m"
  by (metis bounded_def prod.collapse)

named_theorems bounded_intros

lemma bounded_simple [bounded_intros]: "bounded (ret x)" "bounded (raise e)" "bounded (lift r)" "bounded charge"
  by (auto simp: bounded_def within_def charge_def)

lemma bounded_sbind [bounded_intros]:
  assumes "bounded m" "\<And>x. bounded (f x)"
  shows "bounded (sbind m f)"
proof (rule boundedI)
  fix st r st'
  assume "sbind m f st = (r, st')"
  with assms show "within st st'"
    by (auto simp: sbind_apply split: prod.splits sum.splits dest!: boundedD intro: within_trans)
qed

lemma bounded_try_with [bounded_intros]:
  assumes "bounded m" "\<And>x. bounded (h x)"
  shows "bounded (try_with m h)"
proof (rule boundedI)
  fix st r st'
  assume "try_with m h st = (r, st')"
  with assms show "within st st'"
    by (auto simp: try_with_def split: prod.splits sum.splits dest!: boundedD intro: within_trans)
qed

lemma bounded_budget [bounded_intros]:
  assumes "bounded m"
  shows "bounded (ber_budget m)"
proof (rule boundedI)
  fix st r st'
  assume e: "ber_budget m st = (r, st')"
  let ?st = "st\<lparr>nesting := Suc (nesting st)\<rparr>"
  obtain q u where m: "m ?st = (q, u)" by fastforce
  from boundedD [OF assms m] e m show "within st st'"
    by (auto simp: within_def ber_budget_def Let_def split: if_splits)
qed

lemma bounded_if [bounded_intros]: "(c \<Longrightarrow> bounded a) \<Longrightarrow> (\<not> c \<Longrightarrow> bounded b) \<Longrightarrow> bounded (if c then a else b)"
  by simp

lemma bounded_case_prod [bounded_intros]: "(\<And>a b. bounded (f a b)) \<Longrightarrow> bounded (case p of (a, b) \<Rightarrow> f a b)"
  by (cases p) simp

lemma bounded_case_option [bounded_intros]: "bounded a \<Longrightarrow> (\<And>x. bounded (f x)) \<Longrightarrow> bounded (case p of None \<Rightarrow> a | Some x \<Rightarrow> f x)"
  by (cases p) simp_all

lemma bounded_front [bounded_intros]:
  "bounded (BER_id_dec s)" "bounded (check_type cls s)" "bounded (check_type_get_len cls s)"
  "bounded (check_type_check_len cls s)" "bounded (prim_do_dec cf safe cls s)"
  unfolding BER_id_dec_def check_type_def check_type_get_len_def check_type_check_len_def prim_do_dec_def
  by (intro bounded_intros)+

lemma bounded_elements_loop [bounded_intros]:
  assumes "\<And>s. bounded (dec s)"
  shows "bounded (elements_loop dec t el obj)"
proof -
  have "within st (snd (elements_loop dec t el obj st))" if "\<And>s. bounded (dec s)" for st using that
  proof (induction dec t el obj st rule: elements_loop.induct)
    case (1 dec t e obj st)
    show ?case
    proof (cases "el_next e")
      case (Some p)
      obtain elt e' where p: "p = (elt, e')" by fastforce
      obtain res st' where d: "dec elt st = (res, st')" by fastforce
      note w = boundedD [OF "1.prems" d]
      show ?thesis
      proof (cases "\<exists>x rem e''. res = Inr (x, rem) \<and> el_leftover rem e' = (Inr e'' :: 'a ber_err + elements)")
        case True
        then obtain x rem e'' where "res = Inr (x, rem)" "el_leftover rem e' = (Inr e'' :: 'a ber_err + elements)"
          by blast
        with "1.IH" [OF Some p [symmetric], of res st' "(x, rem)" x rem e''] d Some p "1.prems" w show ?thesis
          by (simp add: elements_loop.simps [of dec t e]) (metis within_trans)
      qed (use d Some p w in \<open>auto simp: elements_loop.simps [of dec t e] split: sum.split\<close>)
    qed (simp add: elements_loop.simps [of dec t e])
  qed
  with assms show ?thesis unfolding bounded_def by blast
qed

lemma bounded_handler [bounded_intros]:
  "(\<And>s. bounded (any_dec s)) \<Longrightarrow> bounded (safe_handler s any_dec e)"
  by (cases e) (auto simp: safe_handler_def intro!: bounded_intros)

lemma bounded_ber_dec: "bounded (ber_dec cf ctx safe cls d s)"
proof (induction cf ctx safe cls d s rule: ber_dec.induct)
  case (1 cf ctx safe cls d s)
  have any: "bounded (ber_dec cf ctx safe ANY (Suc d) r)" if "d \<le> MAX_BER_DEPTH" for r
    using 1(1) that by simp
  have "bounded (codec_do_dec cf ctx safe cls d s)" if "d \<le> MAX_BER_DEPTH"
    unfolding codec_do_dec_def object_do_dec_def sequence_do_dec_def
    using 1 that any by (auto split: option.split codec_kind.split intro!: bounded_intros)
  with any show ?case
    unfolding ber_dec_unfold [of _ _ _ _ d] guarded_dec_def by (auto intro!: bounded_intros)
qed


text \<open>Outside safe mode every node of a decoded object was charged for.\<close>

definition paid :: "(asn1_obj \<times> bytes) dec \<Rightarrow> bool" where
  "paid m \<longleftrightarrow> (\<forall>st l x rem st'. left st = Some l \<longrightarrow> m st = (Inr (x, rem), st') \<longrightarrow>
     (\<exists>l'. left st' = Some l' \<and> nodes x + l' \<le> l))"

lemma BER_id_dec_charged:
  "left st = Some l \<Longrightarrow> BER_id_dec s st = (Inr q, st') \<Longrightarrow> left st' = Some (l - 1) \<and> 1 \<le> l"
  by (auto simp: BER_id_dec_def sbind_apply charge_def split: if_splits)

lemma check_type_get_len_charged:
  "left st = Some l \<Longrightarrow> check_type_get_len cls s st = (Inr q, st') \<Longrightarrow> left st' = Some (l - 1) \<and> 1 \<le> l"
  by (auto simp: check_type_get_len_def check_type_def sbind_Inr_iff split: if_splits dest: BER_id_dec_charged)

lemma check_type_check_len_charged:
  "left st = Some l \<Longrightarrow> check_type_check_len cls s st = (Inr q, st') \<Longrightarrow> left st' = Some (l - 1) \<and> 1 \<le> l"
  by (auto simp: check_type_check_len_def sbind_Inr_iff split: if_splits dest: check_type_get_len_charged)

lemma paidI:
  "(\<And>st l x rem st'. left st = Some l \<Longrightarrow> m st = (Inr (x, rem), st') \<Longrightarrow>
     \<exists>l'. left st' = Some l' \<and> nodes x + l' \<le> l) \<Longrightarrow> paid m"
  by (simp add: paid_def)

lemma paidD:
  "paid m \<Longrightarrow> left st = Some l \<Longrightarrow> m st = (Inr (x, rem), st') \<Longrightarrow> \<exists>l'. left st' = Some l' \<and> nodes x + l' \<le> l"
  unfolding paid_def by blast

lemma nodes_OID: "OID_val m s = Inr x \<Longrightarrow> nodes x = 1"
  by (cases "oid_loop s 0 [] s") (auto simp: OID_val_def Let_def split: if_splits)

lemma nodes_prim: "prim_val cf safe cls s = Inr x \<Longrightarrow> nodes x = 1"
  by (auto simp: prim_val_def INTEGER_val_def BIT_STRING_val_def STRING_val_def IPADDRESS_val_def
      Let_def nodes_OID split: option.splits codec_kind.splits list.splits if_splits)

lemma paid_prim: "paid (prim_do_dec cf safe cls s)"
proof (rule paidI)
  fix st l x rem st'
  assume l: "left st = Some l" and "prim_do_dec cf safe cls s st = (Inr (x, rem), st')"
  then obtain q where q: "check_type_check_len cls s st = (Inr q, st')" "prim_val cf safe cls (fst (snd q)) = Inr x"
    by (auto simp: prim_do_dec_def sbind_Inr_iff)
  from check_type_check_len_charged [OF l q(1)] nodes_prim [OF q(2)]
  show "\<exists>l'. left st' = Some l' \<and> nodes x + l' \<le> l" by simp
qed

lemma paid_elements:
  assumes "\<And>s. paid (dec s)" "left st = Some l" "elements_loop dec t el obj st = (Inr os, st')"
  shows "\<exists>l'. left st' = Some l' \<and> sum_list (map nodes os) + l' \<le> sum_list (map nodes obj) + l"
  using assms
proof (induction dec t el obj st arbitrary: l rule: elements_loop.induct)
  case (1 dec t e obj st)
  show ?case
  proof (cases "el_next e")
    case (Some p)
    obtain elt e' where p: "p = (elt, e')" by fastforce
    obtain res st1 where d: "dec elt st = (res, st1)" by fastforce
    with "1.prems"(3) Some p obtain x rem e'' where r: "res = Inr (x, rem)"
      "el_leftover rem e' = (Inr e'' :: asn1_obj ber_err + elements)"
      "elements_loop dec t e'' (obj @ [x]) st1 = (Inr os, st')"
      by (auto simp: elements_loop.simps [of dec t e] split: sum.splits)
    from "1.prems"(1,2) d r(1) obtain l1 where l1: "left st1 = Some l1" "nodes x + l1 \<le> l"
      unfolding paid_def by metis
    with "1.IH" [OF Some p [symmetric], of res st1 "(x, rem)" x rem e'' l1] d r "1.prems"(1) show ?thesis
      by fastforce
  qed (use "1.prems" in \<open>simp add: elements_loop.simps [of dec t e]\<close>)
qed

lemma paid_sequence:
  assumes "\<And>s. paid (dec s)"
  shows "paid (sequence_do_dec dec cls s)"
proof (rule paidI)
  fix st l x rem st'
  assume l: "left st = Some l" and "sequence_do_dec dec cls s st = (Inr (x, rem), st')"
  then obtain q t el os st1 where q: "check_type_get_len cls s st = (Inr q, st1)"
    "elements_loop dec t el [] st1 = (Inr os, st')" "x = ASN1_Seq cls os"
    by (auto simp: sequence_do_dec_def sbind_Inr_iff split: if_splits)
  from check_type_get_len_charged [OF l q(1)] paid_elements [OF assms _ q(2), of "l - 1"] q(3)
  show "\<exists>l'. left st' = Some l' \<and> nodes x + l' \<le> l" by auto
qed

lemma paid_object:
  assumes "\<And>tag. get_codec tag \<noteq> Some BERcodec_Object \<Longrightarrow> paid (f tag)"
  shows "paid (object_do_dec ctx f s)"
proof (rule paidI)
  fix st l x rem st'
  assume l: "left st = Some l" and o: "object_do_dec ctx f s st = (Inr (x, rem), st')"
  then have "s \<noteq> []" by (auto simp: object_do_dec_def)
  with o obtain p s1 st1 where q: "(BER_id_dec s :: (nat \<times> bytes) dec) st = (Inr (p, s1), st1)"
    by (auto simp: object_do_dec_def sbind_Inr_iff)
  note o' = o [unfolded object_do_dec_def if_not_P [OF \<open>s \<noteq> []\<close>] sbind_apply q, simplified]
  then obtain tag where tag: "ctx p = Some tag" "get_codec tag \<noteq> None" by (auto split: option.splits if_splits)
  have c: "left st1 = Some (l - 1)" "1 \<le> l" using BER_id_dec_charged [OF l q] by auto
  show "\<exists>l'. left st' = Some l' \<and> nodes x + l' \<le> l"
  proof (cases "get_codec tag = Some BERcodec_Object")
    case True
    with o' tag have "nodes x = 1" "st' = st1"
      by (auto simp: sbind_apply split: if_splits sum.splits)
    with c show ?thesis by simp
  next
    case False
    with o' tag have "f tag st1 = (Inr (x, rem), st')" by auto
    from paidD [OF assms [OF False] c(1) this] c(2) show ?thesis by auto
  qed
qed

lemma paid_budget:
  assumes "paid m"
  shows "paid (ber_budget m)"
proof (rule paidI)
  fix st l x rem st'
  assume l: "left st = Some l" and b: "ber_budget m st = (Inr (x, rem), st')"
  let ?st = "st\<lparr>nesting := Suc (nesting st)\<rparr>"
  obtain u where u: "m ?st = (Inr (x, rem), u)" "left st' = left u"
    using b l by (auto simp: ber_budget_def Let_def split: if_splits prod.splits)
  from paidD [OF assms _ u(1), of l] l u(2) show "\<exists>l'. left st' = Some l' \<and> nodes x + l' \<le> l" by simp
qed

lemma paid_ber_dec: "safe = False \<Longrightarrow> paid (ber_dec cf ctx safe cls d s)"
proof (induction cf ctx safe cls d s rule: ber_dec.induct)
  case (1 cf ctx safe cls d s)
  have "paid (codec_do_dec cf ctx safe cls d s)" if "d \<le> MAX_BER_DEPTH"
    unfolding codec_do_dec_def
    using 1 that by (auto split: option.split codec_kind.split intro!: paid_prim paid_sequence paid_object)
  moreover have "paid (raise e)" for e by (simp add: paid_def)
  ultimately show ?case
    using "1.prems" unfolding ber_dec_unfold [of _ _ _ _ d] guarded_dec_def
    by (auto intro!: paid_budget)
qed

lemma paid_guarded: "paid (guarded_dec cf ctx False cls d s)"
  unfolding guarded_dec_def codec_do_dec_def
  by (auto split: option.split codec_kind.split intro!: paid_prim paid_sequence paid_object paid_ber_dec)

lemma bounded_guarded: "bounded (guarded_dec cf ctx safe cls d s)"
  unfolding guarded_dec_def codec_do_dec_def object_do_dec_def sequence_do_dec_def
  by (auto split: option.split codec_kind.split intro!: bounded_intros bounded_ber_dec)

lemma ber_dec_top:
  assumes "left st = None"
  shows "left (snd (ber_dec cf ctx safe cls 0 s st)) = None" "nesting (snd (ber_dec cf ctx safe cls 0 s st)) = 0"
    "ber_dec cf ctx False cls 0 s st = (Inr (x, rem), st') \<Longrightarrow> nodes x \<le> MAX_BER_ELEMENTS"
proof -
  let ?g = "\<lambda>safe. guarded_dec cf ctx safe cls 0 s"
  let ?st = "st\<lparr>left := Some MAX_BER_ELEMENTS, nesting := 1\<rparr>"
  have u: "ber_dec cf ctx safe cls 0 s st =
      (fst (?g safe ?st), (snd (?g safe ?st))\<lparr>nesting := nesting (snd (?g safe ?st)) - 1, left := None\<rparr>)" for safe
    using assms by (simp add: ber_dec_unfold ber_budget_def MAX_BER_DEPTH_def case_prod_beta Let_def)
  have n: "nesting (snd (?g safe ?st)) = 1"
    using boundedD [OF bounded_guarded [of cf ctx safe cls 0 s] prod.collapse [symmetric], of ?st] by (auto simp: within_def)
  from u [of safe] show "left (snd (ber_dec cf ctx safe cls 0 s st)) = None" by simp
  from u [of safe] n show "nesting (snd (ber_dec cf ctx safe cls 0 s st)) = 0" by simp
  show "nodes x \<le> MAX_BER_ELEMENTS" if "ber_dec cf ctx False cls 0 s st = (Inr (x, rem), st')"
  proof -
    from that u [of False] have "?g False ?st = (Inr (x, rem), snd (?g False ?st))" by (simp add: prod_eq_iff)
    from paidD [OF paid_guarded _ this] show ?thesis by auto
  qed
qed

end
