(* ===== verification/Asn1_BitString.thy ===== *)
theory Asn1_BitString
  imports Ber_Codec
begin

text \<open>
  The bit-string object (\<open>ASN1_BIT_STRING\<close> of \<open>asn1/asn1.py\<close>): its three attributes, which
  \<open>__setattr__\<close> keeps together, the constructor, and \<open>set\<close>. \<open>None\<close> is an object none of
  whose attributes was assigned, what the constructor leaves when the value is refused.
  Values are strings for \<open>val\<close> and octets for \<open>val_readable\<close>, their declared types.
\<close>

record bit_string =
  bs_val :: string
  bs_val_readable :: bytes
  bs_unused_bits :: nat

definition set_val :: "string \<Rightarrow> bit_string option \<Rightarrow> bit_string option" where
  "set_val value self =
     (if list_ex (\<lambda>c. c \<noteq> CHR ''0'' \<and> c \<noteq> CHR ''1'') value then self
      else Some \<lparr>bs_val = value, bs_val_readable = bits_to_bytes (pad_bits value),
                 bs_unused_bits = unused_bits value\<rparr>)"

definition set_val_readable :: "bytes \<Rightarrow> bit_string option \<Rightarrow> bit_string option" where
  "set_val_readable value self =
     Some \<lparr>bs_val = concat (map bits8 value), bs_val_readable = value, bs_unused_bits = 0\<rparr>"

definition set_unused_bits :: "nat \<Rightarrow> bit_string option \<Rightarrow> bit_string option" where
  "set_unused_bits value self = self"

definition BIT_STRING_init :: "string + bytes \<Rightarrow> bit_string option" where
  "BIT_STRING_init v = (case v of Inl val \<Rightarrow> set_val val None | Inr val \<Rightarrow> set_val_readable val None)"

text \<open>\<open>set(i, val)\<close>. The two assertions of the source, a bit that is 0 or 1 and a \<open>val\<close> to
  read, are the cases that fail. Slices count from the end for a negative \<open>i\<close>.\<close>

definition slice_end :: "string \<Rightarrow> int \<Rightarrow> nat" where
  "slice_end s i = nat (if i < 0 then i + int (length s) else i)"

definition BIT_STRING_set :: "int \<Rightarrow> string \<Rightarrow> bit_string option \<Rightarrow> bit_string option option" where
  "BIT_STRING_set i val self =
     (if val \<noteq> ''0'' \<and> val \<noteq> ''1'' then None
      else (case self of
          None \<Rightarrow> None
        | Some b \<Rightarrow>
            (let self1 = (if int (length (bs_val b)) < i
                 then set_val (bs_val b @ replicate (nat (i - int (length (bs_val b)))) (CHR ''0'')) self
                 else self)
             in case self1 of
                 None \<Rightarrow> None
               | Some b1 \<Rightarrow> Some (set_val (take (slice_end (bs_val b1) i) (bs_val b1) @ val
                   @ drop (slice_end (bs_val b1) (i + 1)) (bs_val b1)) self1))))"

section \<open>The attributes agree\<close>

definition bs_inv :: "bit_string \<Rightarrow> bool" where
  "bs_inv b \<longleftrightarrow> is_bits (bs_val b) \<and> bs_unused_bits b = unused_bits (bs_val b)
     \<and> bs_val_readable b = bits_to_bytes (pad_bits (bs_val b))"

lemma is_bits_list_ex: "list_ex (\<lambda>c. c \<noteq> CHR ''0'' \<and> c \<noteq> CHR ''1'') v \<longleftrightarrow> \<not> is_bits v"
  by (auto simp: is_bits_def list_ex_iff)

lemma set_val_eq:
  "set_val v self = (if is_bits v then Some \<lparr>bs_val = v, bs_val_readable = bits_to_bytes (pad_bits v),
     bs_unused_bits = unused_bits v\<rparr> else self)"
  by (simp add: set_val_def is_bits_list_ex)

lemma is_bits_simps [simp]:
  "is_bits []" "is_bits (a @ b) \<longleftrightarrow> is_bits a \<and> is_bits b"
  "is_bits (c # b) \<longleftrightarrow> (c = CHR ''0'' \<or> c = CHR ''1'') \<and> is_bits b" "is_bits (replicate n (CHR ''0''))"
  by (auto simp: is_bits_def)

lemma is_bits_take_drop: "is_bits v \<Longrightarrow> is_bits (take n v)" "is_bits v \<Longrightarrow> is_bits (drop n v)"
  using set_take_subset [of n v] set_drop_subset [of n v] by (auto simp: is_bits_def)

lemma binary_digits:
  "n < 2 ^ Suc k \<Longrightarrow> length (pad0 (Suc k) (numeral_str 2 n)) = Suc k \<and>
     is_bits (pad0 (Suc k) (numeral_str 2 n)) \<and> bits_val (pad0 (Suc k) (numeral_str 2 n)) = n"
proof (induction k arbitrary: n)
  case 0
  then have "n = 0 \<or> n = 1" by auto
  then show ?case by (auto simp: pad0_def numeral_str.simps bits_val_def)
next
  case (Suc k)
  have "n div 2 < 2 ^ Suc k" using Suc.prems by (simp add: less_mult_imp_div_less mult.commute)
  note IH = Suc.IH [OF this]
  have "n mod 2 = 0 \<or> n mod 2 = 1" by auto
  with IH show ?case
    by (auto simp: pad0_numeral_step mult_2 [symmetric]) (presburger+)?
qed

lemma bits8_bits: "length (bits8 b) = 8" "is_bits (bits8 b)" "bits_val (bits8 b) = unat b"
  using binary_digits [of "unat b" 7] byte_less [of b] by (auto simp: bits8_def)

lemma bits_to_bytes_bits8: "bits_to_bytes (concat (map bits8 bs)) = bs"
  by (induction bs) (simp_all add: bits_to_bytes_step bits8_bits)

lemma bs_inv_set_val: "set_val v self = Some b \<Longrightarrow> (self = Some b \<Longrightarrow> bs_inv b) \<Longrightarrow> bs_inv b"
  by (auto simp: set_val_eq bs_inv_def split: if_splits)

lemma length_bits8s: "length (concat (map bits8 v)) = 8 * length v"
  by (induction v) (simp_all add: bits8_bits)

lemma is_bits_bits8s: "is_bits (concat (map bits8 v))"
  by (induction v) (simp_all add: bits8_bits)

lemma bs_inv_set_readable: "set_val_readable v self = Some b \<Longrightarrow> bs_inv b"
  by (auto simp: set_val_readable_def bs_inv_def unused_bits_def pad_bits_def length_bits8s
      is_bits_bits8s bits_to_bytes_bits8)

lemma BIT_STRING_set_ok:
  assumes "bs_inv b" "val = ''0'' \<or> val = ''1''" "0 \<le> i"
  shows "\<exists>b'. BIT_STRING_set i val (Some b) = Some (Some b') \<and> bs_inv b' \<and>
    length (bs_val b') = max (length (bs_val b)) (Suc (nat i)) \<and>
    (\<forall>j < length (bs_val b'). bs_val b' ! j =
       (if j = nat i then hd val else if j < length (bs_val b) then bs_val b ! j else CHR ''0''))"
proof -
  define v where "v = bs_val b @ replicate (nat i - length (bs_val b)) (CHR ''0'')"
  define w where "w = take (nat i) v @ val @ drop (Suc (nat i)) v"
  have iv: "is_bits v" using assms(1) by (simp add: v_def bs_inv_def)
  then have iw: "is_bits w" using assms(2) by (auto simp: w_def is_bits_take_drop)
  have n: "nat (i + 1) = Suc (nat i)" "nat i \<le> length v"
    using assms(3) by (auto simp: v_def)
  have len: "length w = max (length (bs_val b)) (Suc (nat i))"
    using n assms(2) by (auto simp: w_def v_def min_def max_def)
  let ?b = "\<lparr>bs_val = w, bs_val_readable = bits_to_bytes (pad_bits w), bs_unused_bits = unused_bits w\<rparr>"
  have "BIT_STRING_set i val (Some b) = Some (Some ?b)"
  proof (cases "int (length (bs_val b)) < i")
    case True
    moreover from this have "nat (i - int (length (bs_val b))) = nat i - length (bs_val b)" by simp
    ultimately show ?thesis
      using assms n iv iw by (auto simp: BIT_STRING_set_def Let_def set_val_eq slice_end_def v_def [symmetric] w_def)
  next
    case False
    then have "bs_val b = v" by (simp add: v_def nat_le_iff)
    with False assms n iw show ?thesis
      by (auto simp: BIT_STRING_set_def Let_def set_val_eq slice_end_def w_def)
  qed
  moreover have "w ! j = (if j = nat i then hd val else if j < length (bs_val b) then bs_val b ! j else CHR ''0'')"
    if "j < length w" for j
  proof -
    obtain c where c: "val = [c]" using assms(2) by auto
    have t: "length (take (nat i) v) = nat i" using n(2) by simp
    have v: "v ! j = (if j < length (bs_val b) then bs_val b ! j else CHR ''0'')" if "j < length v"
      using that by (simp add: v_def nth_append)
    consider "j < nat i" | "j = nat i" | m where "j = Suc (nat i + m)"
      by (metis less_imp_Suc_add linorder_neqE_nat)
    then show ?thesis
    proof cases
      case 1
      then have "w ! j = v ! j" using t by (simp add: w_def nth_append)
      with 1 v n(2) show ?thesis by simp
    next
      case 2
      with t show ?thesis by (simp add: w_def nth_append c)
    next
      case 3
      then have "j < length v" using that t by (simp add: w_def c)
      moreover from this 3 have "w ! j = v ! j" using t by (simp add: w_def nth_append c)
      ultimately show ?thesis using v 3 by simp
    qed
  qed
  ultimately show ?thesis using iw len by (intro exI [of _ ?b]) (auto simp: bs_inv_def)
qed

end
