(* ===== verification/Mib_Register.thy ===== *)
theory Mib_Register
  imports Mib "HOL-Library.AList"
begin

text \<open>
  Registering OID names (\<open>fixname\<close>, \<open>_mib_register\<close> and the dictionary side of \<open>load_mib\<close> in
  \<open>asn1/mib.py\<close>). The dictionaries \<open>the_mib\<close>, \<open>unresolved\<close> and \<open>alias\<close> are association lists
  in insertion order. The declarations \<open>load_mib\<close> finds in the files with its regular
  expressions are an argument.
\<close>

definition fix_table :: string where
  "fix_table = replicate 48 (CHR ''_'') @ ''0123456789'' @ replicate 7 (CHR ''_'') @
     ''ABCDEFGHIJKLMNOPQRSTUVWXYZ'' @ replicate 6 (CHR ''_'') @
     ''abcdefghijklmnopqrstuvwxyz'' @ replicate 133 (CHR ''_'')"

definition translate :: "string \<Rightarrow> string \<Rightarrow> string" where
  "translate table x = map (\<lambda>c. if of_char c < length table then table ! of_char c else c) x"

definition fixname :: "string \<Rightarrow> string" where
  "fixname x = translate fix_table (if x \<noteq> [] \<and> hd x \<in> set ''0123456789'' then ''n_'' @ x else x)"

type_synonym arcs_dict = "(string \<times> string list) list"

record mib_tables =
  the_mib :: arcs_dict
  unresolved :: arcs_dict
  alias_of :: "(string \<times> string) list"

text \<open>The loop over the arcs of a value: whether a name is unknown, and the arcs so far.\<close>

fun resolve_arcs :: "arcs_dict \<Rightarrow> arcs_dict \<Rightarrow> string list \<Rightarrow> bool \<times> string list" where
  "resolve_arcs m u [] = (False, [])"
| "resolve_arcs m u (v # vs) =
     (let (n, res) = resolve_arcs m u vs in
      if re_integer v then (n, v # res)
      else (let w = fixname v in
        case map_of m w of
          Some arcs \<Rightarrow> (n, arcs @ res)
        | None \<Rightarrow> (case map_of u w of
              Some arcs \<Rightarrow> (True, arcs @ res)
            | None \<Rightarrow> (True, w # res))))"

definition register_with ::
  "(mib_tables \<Rightarrow> mib_tables) \<Rightarrow> string \<Rightarrow> string list \<Rightarrow> mib_tables \<Rightarrow> bool \<times> mib_tables" where
  "register_with retry ident value t =
     (if map_of (the_mib t) ident \<noteq> None
      then (True, t\<lparr>alias_of := AList.update (py_join [dot] value) ident (alias_of t)\<rparr>)
      else if map_of (unresolved t) ident \<noteq> None then (False, t)
      else (case resolve_arcs (the_mib t) (unresolved t) value of
          (True, resval) \<Rightarrow> (False, t\<lparr>unresolved := AList.update ident resval (unresolved t)\<rparr>)
        | (False, resval) \<Rightarrow> (True, retry (t\<lparr>the_mib := AList.update ident resval (the_mib t)\<rparr>))))"

text \<open>The recursive call is given an empty \<open>unresolved\<close>, so its own retry loop has no keys.\<close>

definition register_parked :: "string \<Rightarrow> string list \<Rightarrow> mib_tables \<Rightarrow> bool \<times> mib_tables" where
  "register_parked k value t =
     (case register_with (\<lambda>t. t) k value (t\<lparr>unresolved := []\<rparr>) of
        (ok, t') \<Rightarrow> (ok, t'\<lparr>unresolved := unresolved t\<rparr>))"

function retry_loop :: "string list \<Rightarrow> nat \<Rightarrow> mib_tables \<Rightarrow> mib_tables" where
  "retry_loop ks i t =
     (if i < length ks then
        (let k = ks ! i in
         case register_parked k (the (map_of (unresolved t) k)) t of
           (True, t') \<Rightarrow> retry_loop (take i ks @ drop (i + 1) ks) 0
                          (t'\<lparr>unresolved := AList.delete k (unresolved t')\<rparr>)
         | (False, t') \<Rightarrow> retry_loop ks (i + 1) t')
      else t)"
  by pat_completeness auto
termination
  by (relation "inv_image (less_than <*lex*> less_than) (\<lambda>(ks, i, t). (length ks, length ks - i))") auto

declare retry_loop.simps [simp del]

definition mib_register :: "string \<Rightarrow> string list \<Rightarrow> mib_tables \<Rightarrow> bool \<times> mib_tables" where
  "mib_register = register_with (\<lambda>t. retry_loop (map fst (unresolved t)) 0 t)"

definition mib_merge :: "mib_tables \<Rightarrow> mibdict" where
  "mib_merge t =
     (let named = (\<lambda>d new. foldl (\<lambda>new (oid, key). AList.update (py_join [dot] key) oid new) new d);
          new1 = named (unresolved t) (named (the_mib t) [])
      in foldl (\<lambda>new (key, oid). AList.update key oid new) new1 (alias_of t))"

definition load_mib :: "(string \<times> string list) list \<Rightarrow> mibdict \<Rightarrow> mibdict" where
  "load_mib decls mib =
     (let t0 = \<lparr>the_mib = [(''iso'', [''1''])], unresolved = [], alias_of = []\<rparr>;
          t1 = foldl (\<lambda>t (k, v). snd (mib_register v (py_split dot k) t)) t0
                 (List.filter (\<lambda>(k, v). hd k \<noteq> CHR ''_'') mib);
          t2 = foldl (\<lambda>t (ident, oid_l). snd (mib_register (fixname ident) oid_l t)) t1 decls
      in mib_merge t2)"

section \<open>Names\<close>

definition name_chars :: string where
  "name_chars = ''_0123456789ABCDEFGHIJKLMNOPQRSTUVWXYZabcdefghijklmnopqrstuvwxyz''"

lemma nth_pieces:
  assumes "length D = 10" "length U = 26" "length L = 26" "n < 256"
  shows "(replicate 48 z @ D @ replicate 7 z @ U @ replicate 6 z @ L @ replicate 133 z) ! n =
    (if n < 48 then z else if n < 58 then D ! (n - 48) else if n < 65 then z else if n < 91 then U ! (n - 65)
     else if n < 97 then z else if n < 123 then L ! (n - 97) else z)"
  using assms by (auto simp: nth_append)

lemma length_fix_table: "length fix_table = 256"
  by (simp add: fix_table_def)

lemma fix_table_nth: "n < 256 \<Longrightarrow> fix_table ! n =
    (if n < 48 then CHR ''_'' else if n < 58 then ''0123456789'' ! (n - 48)
     else if n < 65 then CHR ''_'' else if n < 91 then ''ABCDEFGHIJKLMNOPQRSTUVWXYZ'' ! (n - 65)
     else if n < 97 then CHR ''_'' else if n < 123 then ''abcdefghijklmnopqrstuvwxyz'' ! (n - 97) else CHR ''_'')"
  unfolding fix_table_def by (rule nth_pieces) simp_all

lemma name_chars_kept: "\<forall>c\<in>set name_chars. fix_table ! of_char c = c"
  unfolding name_chars_def list.set ball_simps insert_iff by (simp add: fix_table_nth)

lemma fix_table_chars: "n < 256 \<Longrightarrow> fix_table ! n \<in> set name_chars"
proof -
  assume "n < 256"
  moreover have "set fix_table \<subseteq> set name_chars"
    unfolding fix_table_def set_append name_chars_def by auto
  ultimately show ?thesis using length_fix_table nth_mem by fastforce
qed

lemma fix_table_digit:
  assumes "n < 256" "fix_table ! n \<in> set ''0123456789''"
  shows "48 \<le> n \<and> n < 58"
proof (rule ccontr)
  assume "\<not> ?thesis"
  then have "fix_table ! n \<in> insert (CHR ''_'') (set ''ABCDEFGHIJKLMNOPQRSTUVWXYZ'' \<union> set ''abcdefghijklmnopqrstuvwxyz'')"
    using assms(1) nth_mem [of "n - 65" "''ABCDEFGHIJKLMNOPQRSTUVWXYZ''"]
      nth_mem [of "n - 97" "''abcdefghijklmnopqrstuvwxyz''"]
    unfolding fix_table_nth [OF assms(1)] by (auto simp del: list.set)
  with assms(2) show False by auto
qed

lemma digit_chars: "48 \<le> (of_char c :: nat) \<and> of_char c < (58 :: nat) \<longleftrightarrow> c \<in> set ''0123456789''"
proof -
  have "of_char ` set ''0123456789'' = {48..<58 :: nat}" by code_simp
  then have "(of_char c :: nat) \<in> {48..<58} \<longleftrightarrow> (of_char c :: nat) \<in> of_char ` set ''0123456789''" by simp
  also have "\<dots> \<longleftrightarrow> c \<in> set ''0123456789''" by (auto simp del: list.set)
  finally show ?thesis by simp
qed

lemma translate_eq: "translate fix_table x = map (\<lambda>c. fix_table ! of_char c) x"
  by (simp add: translate_def length_fix_table)

lemma translate_idem: "translate fix_table (translate fix_table x) = translate fix_table x"
  using name_chars_kept fix_table_chars by (simp add: translate_eq)

lemma hd_fixname: "fixname x \<noteq> [] \<Longrightarrow> hd (fixname x) \<notin> set ''0123456789''"
proof
  assume ne: "fixname x \<noteq> []" and d: "hd (fixname x) \<in> set ''0123456789''"
  define y where "y = (if x \<noteq> [] \<and> hd x \<in> set ''0123456789'' then ''n_'' @ x else x)"
  have f: "fixname x = translate fix_table y" by (simp add: fixname_def y_def)
  with ne obtain c r where y: "y = c # r" by (cases y) (auto simp: translate_eq)
  with f d have "fix_table ! of_char c \<in> set ''0123456789''" by (simp add: translate_eq)
  then have "c \<in> set ''0123456789''" using fix_table_digit [of "of_char c"] digit_chars by simp
  with y show False by (auto simp: y_def split: if_splits)
qed

lemma fixname_idem: "fixname (fixname x) = fixname x"
proof -
  have "fixname (fixname x) = translate fix_table (fixname x)"
    unfolding fixname_def [of "fixname x"] using hd_fixname [of x] by auto
  then show ?thesis by (simp add: fixname_def [of x] translate_idem)
qed

lemma fixname_not_integer: "\<not> re_integer (fixname x)"
proof
  assume r: "re_integer (fixname x)"
  define w where "w = fixname x"
  define v where "v = (if w \<noteq> [] \<and> last w = CHR 0x0A then butlast w else w)"
  have a: "v \<noteq> []" "list_all (\<lambda>c. 48 \<le> (of_char c :: nat) \<and> of_char c \<le> (57 :: nat)) v"
    using r by (auto simp: re_integer_def Let_def v_def w_def)
  then have "48 \<le> (of_char (hd v) :: nat) \<and> of_char (hd v) \<le> (57 :: nat)" by (cases v) auto
  with a have v: "v \<noteq> []" "48 \<le> (of_char (hd v) :: nat) \<and> of_char (hd v) < (58 :: nat)" by simp_all
  have "hd v = hd w" "w \<noteq> []" using v(1) by (cases w; force simp: v_def split: if_splits)+
  with v hd_fixname [of x] show False by (auto simp: w_def digit_chars simp del: list.set)
qed

section \<open>Registration\<close>

text \<open>The arcs of every known name are numbers, and every parked name waits for a name
  that is not known.\<close>

definition numeric :: "arcs_dict \<Rightarrow> bool" where
  "numeric m \<longleftrightarrow> (\<forall>v\<in>ran (map_of m). \<forall>x\<in>set v. re_integer x)"

definition waits :: "arcs_dict \<Rightarrow> string list \<Rightarrow> bool" where
  "waits m v \<longleftrightarrow> (\<exists>x\<in>set v. \<not> re_integer x \<and> map_of m (fixname x) = None)"

definition mib_inv :: "mib_tables \<Rightarrow> bool" where
  "mib_inv t \<longleftrightarrow> numeric (the_mib t) \<and> distinct (map fst (unresolved t)) \<and>
     (\<forall>k v. map_of (unresolved t) k = Some v \<longrightarrow> map_of (the_mib t) k = None \<and> waits (the_mib t) v)"

lemma waits_simps [simp]:
  "\<not> waits m []" "waits m (a @ b) \<longleftrightarrow> waits m a \<or> waits m b"
  "waits m (x # a) \<longleftrightarrow> \<not> re_integer x \<and> map_of m (fixname x) = None \<or> waits m a"
  by (auto simp: waits_def)

lemma resolve_arcs_flag: "fst (resolve_arcs m u vs) \<longleftrightarrow> waits m vs"
  by (induction vs) (auto simp: Let_def case_prod_beta split: option.splits)

lemma resolve_arcs_numeric:
  "numeric m \<Longrightarrow> \<not> fst (resolve_arcs m u vs) \<Longrightarrow> \<forall>x\<in>set (snd (resolve_arcs m u vs)). re_integer x"
  by (induction vs) (auto simp: numeric_def ran_def Let_def case_prod_beta split: option.splits if_splits)

lemma resolve_arcs_waits:
  assumes "\<forall>v\<in>ran (map_of u). waits m v" "waits m vs"
  shows "waits m (snd (resolve_arcs m u vs))"
  using assms(2)
proof (induction vs)
  case (Cons v vs)
  have u: "waits m arcs" if "map_of u w = Some arcs" for w arcs using assms(1) that by (auto simp: ran_def)
  from Cons u show ?case
    by (auto simp: Let_def case_prod_beta fixname_idem fixname_not_integer split: option.splits)
qed simp

text \<open>One retry: it succeeds exactly when the parked arcs no longer wait.\<close>

lemma register_parked_eq:
  "register_parked k v t =
     (if map_of (the_mib t) k \<noteq> None
      then (True, t\<lparr>alias_of := AList.update (py_join [dot] v) k (alias_of t)\<rparr>)
      else if waits (the_mib t) v then (False, t)
      else (True, t\<lparr>the_mib := AList.update k (snd (resolve_arcs (the_mib t) [] v)) (the_mib t)\<rparr>))"
  using resolve_arcs_flag [of "the_mib t" "[]" v]
  by (auto simp: register_parked_def register_with_def split: prod.split bool.split)

lemma numeric_update:
  "numeric m \<Longrightarrow> \<forall>x\<in>set v. re_integer x \<Longrightarrow> numeric (AList.update k v m)"
  by (auto simp: numeric_def update_conv' ran_def split: if_splits)

text \<open>During the retries, the names looked at since the last success still wait.\<close>

definition retry_inv :: "string list \<Rightarrow> nat \<Rightarrow> mib_tables \<Rightarrow> bool" where
  "retry_inv ks i t \<longleftrightarrow> numeric (the_mib t) \<and> map fst (unresolved t) = ks \<and> distinct ks \<and>
     (\<forall>k\<in>set ks. map_of (the_mib t) k = None) \<and> i \<le> length ks \<and>
     (\<forall>j<i. waits (the_mib t) (the (map_of (unresolved t) (ks ! j))))"

lemma retry_keys:
  assumes "distinct ks" "i < length ks"
  shows "ks ! i \<notin> set (take i ks @ drop (i + 1) ks)" "set (take i ks @ drop (i + 1) ks) \<subseteq> set ks"
    "distinct (take i ks @ drop (i + 1) ks)"
proof -
  have "ks = take i ks @ ks ! i # drop (i + 1) ks" using assms(2) by (simp add: id_take_nth_drop)
  with assms(1) have d: "distinct (take i ks @ ks ! i # drop (i + 1) ks)" by metis
  then show "ks ! i \<notin> set (take i ks @ drop (i + 1) ks)" "distinct (take i ks @ drop (i + 1) ks)" by auto
  show "set (take i ks @ drop (i + 1) ks) \<subseteq> set ks"
    using set_take_subset [of i ks] set_drop_subset [of "i + 1" ks] by auto
qed

lemma map_fst_delete:
  assumes "distinct (map fst u)" "i < length u" "k = map fst u ! i"
  shows "map fst (AList.delete k u) = take i (map fst u) @ drop (i + 1) (map fst u)"
proof -
  let ?ks = "map fst u"
  have "?ks = take i ?ks @ k # drop (i + 1) ?ks" using assms(2,3) id_take_nth_drop [of i ?ks] by simp
  then have "removeAll k ?ks = removeAll k (take i ?ks @ drop (i + 1) ?ks)"
    by (metis removeAll.simps(2) removeAll_append)
  with retry_keys(1) [OF assms(1), of i] assms(2,3) show ?thesis by (simp add: delete_keys)
qed

lemma retry_loop_inv:
  "retry_inv ks i t \<Longrightarrow> \<exists>ks'. set ks' \<subseteq> set ks \<and> retry_inv ks' (length ks') (retry_loop ks i t)"
proof (induction ks i t rule: retry_loop.induct)
  case (1 ks i t)
  show ?case
  proof (cases "i < length ks")
    case False
    with "1.prems" have "i = length ks" by (simp add: retry_inv_def)
    moreover from False have "retry_loop ks i t = t" by (subst retry_loop.simps) simp
    moreover note "1.prems"
    ultimately show ?thesis by (intro exI [of _ ks]) simp
  next
    case True
    define k where "k = ks ! i"
    define v where "v = the (map_of (unresolved t) k)"
    have k: "k \<in> set ks" "map_of (the_mib t) k = None"
      using "1.prems" True by (auto simp: retry_inv_def k_def)
    show ?thesis
    proof (cases "waits (the_mib t) v")
      case w: True
      then have p: "register_parked k v t = (False, t)" using k by (simp add: register_parked_eq)
      have "retry_inv ks (i + 1) t"
        using "1.prems" True w by (auto simp: retry_inv_def less_Suc_eq k_def v_def)
      with "1.IH"(2) [OF True k_def p [unfolded v_def, symmetric]] p v_def True show ?thesis
        by (simp add: retry_loop.simps [of ks i t] k_def [symmetric])
    next
      case w: False
      define t' where "t' = t\<lparr>the_mib := AList.update k (snd (resolve_arcs (the_mib t) [] v)) (the_mib t)\<rparr>"
      let ?ks = "take i ks @ drop (i + 1) ks"
      have p: "register_parked k v t = (True, t')" using w k by (simp add: register_parked_eq t'_def)
      have "retry_inv ?ks 0 (t'\<lparr>unresolved := AList.delete k (unresolved t')\<rparr>)"
        unfolding retry_inv_def t'_def k_def [symmetric]
        using "1.prems" True w retry_keys [of ks i] map_fst_delete [of "unresolved t" i k]
          numeric_update resolve_arcs_numeric [of "the_mib t" "[]" v] resolve_arcs_flag [of "the_mib t" "[]" v]
        by (auto simp: retry_inv_def k_def update_conv')
      from "1.IH"(1) [OF True k_def] this p v_def obtain ks' where
        "set ks' \<subseteq> set ?ks" "retry_inv ks' (length ks') (retry_loop ?ks 0 (t'\<lparr>unresolved := AList.delete k (unresolved t')\<rparr>))"
        by auto
      with retry_keys(2) [of ks i] "1.prems" True p show ?thesis
        by (intro exI [of _ ks']) (auto simp: retry_loop.simps [of ks i t] k_def [symmetric] v_def [symmetric] retry_inv_def)
    qed
  qed
qed


lemma retry_inv_mib_inv: "retry_inv ks (length ks) t \<Longrightarrow> mib_inv t"
proof -
  assume r: "retry_inv ks (length ks) t"
  have "map_of (the_mib t) k = None \<and> waits (the_mib t) v" if "map_of (unresolved t) k = Some v" for k v
  proof -
    from that have "k \<in> set ks" using r map_of_SomeD [OF that] by (force simp: retry_inv_def)
    then obtain j where "j < length ks" "ks ! j = k" by (auto simp: in_set_conv_nth)
    with r that \<open>k \<in> set ks\<close> show ?thesis by (auto simp: retry_inv_def)
  qed
  with r show ?thesis by (auto simp: mib_inv_def retry_inv_def)
qed

lemma mib_register_inv:
  assumes "mib_inv t"
  shows "mib_inv (snd (mib_register ident value t))"
proof -
  let ?res = "resolve_arcs (the_mib t) (unresolved t) value"
  consider (known) "map_of (the_mib t) ident \<noteq> None \<or> map_of (unresolved t) ident \<noteq> None"
    | (parked) "map_of (the_mib t) ident = None" "map_of (unresolved t) ident = None" "fst ?res"
    | (resolved) "map_of (the_mib t) ident = None" "map_of (unresolved t) ident = None" "\<not> fst ?res"
    by blast
  then show ?thesis
  proof cases
    case known
    with assms show ?thesis by (auto simp: mib_register_def register_with_def mib_inv_def)
  next
    case parked
    have "waits (the_mib t) (snd ?res)"
      using assms parked(3) by (intro resolve_arcs_waits) (auto simp: mib_inv_def resolve_arcs_flag ran_def)
    moreover have "?res = (True, snd ?res)" using parked(3) by (simp add: prod_eq_iff)
    then have "mib_register ident value t =
        (False, t\<lparr>unresolved := AList.update ident (snd ?res) (unresolved t)\<rparr>)"
      using parked(1,2) by (auto simp: mib_register_def register_with_def split: prod.split bool.split)
    ultimately show ?thesis
      using assms parked(1) by (auto simp: mib_inv_def update_conv' distinct_update split: if_splits)
  next
    case resolved
    define t' where "t' = t\<lparr>the_mib := AList.update ident (snd ?res) (the_mib t)\<rparr>"
    have "retry_inv (map fst (unresolved t)) 0 t'"
    proof -
      have "numeric (the_mib t')" unfolding t'_def
        using assms resolved numeric_update resolve_arcs_numeric [of "the_mib t" "unresolved t" "value"]
        by (simp add: mib_inv_def)
      moreover have "map_of (the_mib t') k = None" if "k \<in> set (map fst (unresolved t))" for k
      proof -
        from that obtain v where "map_of (unresolved t) k = Some v"
          by (metis domI domIff dom_map_of_conv_image_fst image_set option.exhaust)
        with assms resolved(2) show ?thesis by (auto simp: mib_inv_def t'_def update_conv')
      qed
      ultimately show ?thesis using assms by (simp add: retry_inv_def mib_inv_def t'_def)
    qed
    with retry_loop_inv have "mib_inv (retry_loop (map fst (unresolved t)) 0 t')"
      using retry_inv_mib_inv by metis
    with resolved show ?thesis
      by (auto simp: mib_register_def register_with_def t'_def split: prod.split bool.split)
  qed
qed

end
