(* ===== verification/Ber_Correct.thy ===== *)
theory Ber_Correct
  imports Ber_Budget Asn1_BitString Mib_Register
begin

text \<open>
  The properties of the BER codec and of the OID dictionary, over the lemmas of the
  theories below it. Their witnesses run the model on concrete octets, from the state a
  thread starts in and under a configuration with no OID names.
\<close>

definition no_conf :: asn1_conf where
  "no_conf = \<lparr>ASN1_default_long_size = 0, conf_mib = []\<rparr>"

definition idle :: ber_state where
  "idle = \<lparr>left = None, nesting = 0\<rparr>"

text \<open>C2: decoding the octets an ASN.1 object encodes to gives that object back and leaves
  what follows, in and outside safe mode, for every object the codecs build whose nesting
  is within the depth limit and whose nodes, two charges each, are within the budget.\<close>

theorem BER_object_roundtrip:
  assumes "wf_obj x" "obj_enc cf x = Inr e" "height x \<le> MAX_BER_DEPTH"
    "2 * nodes x \<le> MAX_BER_ELEMENTS" "left st = None"
  shows "ber_dec cf universal safe ANY 0 (e @ r) st = (Inr (x, r), st\<lparr>nesting := 0\<rparr>)"
  using assms by (rule obj_roundtrip_budget)

theorem BER_object_roundtrip_witness:
  "ber_dec no_conf universal True ANY 0
     ([0x30, 13, 2, 2, 0xFF, 0x80, 3, 2, 5, 0xA0, 6, 3, 0x2A, 0x86, 0x48] @ [7]) idle
   = (Inr (ASN1_Seq SEQUENCE [ASN1_Int INTEGER (-128), ASN1_BIT_STRING ''101'', ASN1_OID ''1.2.840''], [7]), idle)"
proof -
  let ?x = "ASN1_Seq SEQUENCE [ASN1_Int INTEGER (-128), ASN1_BIT_STRING ''101'', ASN1_OID ''1.2.840'']"
  have "valid_arcs [1, 2, 840] \<and> ''1.2.840'' = dotted [1, 2, 840]" by code_simp
  then have "wf_obj ?x" by (auto simp: is_bits_def intro: exI [of _ "[1, 2, 840]"])
  moreover have "obj_enc no_conf ?x = Inr [0x30, 13, 2, 2, 0xFF, 0x80, 3, 2, 5, 0xA0, 6, 3, 0x2A, 0x86, 0x48]"
    by code_simp
  moreover have "height ?x \<le> MAX_BER_DEPTH" "2 * nodes ?x \<le> MAX_BER_ELEMENTS" "left idle = None"
    by code_simp+
  ultimately show ?thesis
    using BER_object_roundtrip [of ?x no_conf _ idle True "[7]"] by (simp add: idle_def)
qed

text \<open>C10: outside safe mode the walk of \<open>Elements\<close> over a constructed value's content, which
  finds every element's end first, gives the same objects as decoding the front of what
  remains again and again, spends the same budget, and raises exactly when that does.\<close>

theorem Elements_as_reslicing:
  "same_outcome (elements_loop (ber_dec cf ctx False ANY (Suc d)) t (el_init s) [] st)
     (reslice_loop (ber_dec cf ctx False ANY (Suc d)) s [] st)"
  using unsafe_any.elements_reslice [OF refl el_inv_init, of cf ctx d t s "[]" st]
  by (simp add: el_rest_def el_init_def)

text \<open>in safe mode the two differ: an element that does not decode is kept alone by the
  walk, which goes on with the next one, and swallows the rest of the content when the
  front of what remains is decoded.\<close>

lemma Elements_differ_when_safe:
  "fst (elements_loop (ber_dec no_conf universal True ANY 1) [] (el_init [6, 1, 0x81, 2, 1, 5]) []
      \<lparr>left = Some 100, nesting = 1\<rparr>)
   = Inr [ASN1_DECODING_ERROR [6, 1, 0x81] (BER_Decoding_Error None [0x81]), ASN1_Int INTEGER 5]
   \<and> fst (reslice_loop (ber_dec no_conf universal True ANY 1) [6, 1, 0x81, 2, 1, 5] []
      \<lparr>left = Some 100, nesting = 1\<rparr>)
   = Inr [ASN1_DECODING_ERROR [6, 1, 0x81, 2, 1, 5] (BER_Decoding_Error None [0x81])]"
  by code_simp

text \<open>C9: a decode from the top level, whether it returns or raises, ends with the budget
  cleared and the nesting at zero, and an object it returns outside safe mode has at most
  as many nodes as the budget allows elements.\<close>

theorem BER_budget_restored:
  assumes "left st = None" "ber_dec cf ctx safe cls 0 s st = (res, st')"
  shows "left st' = None \<and> nesting st' = 0
    \<and> (\<forall>x rem. \<not> safe \<longrightarrow> res = Inr (x, rem) \<longrightarrow> nodes x \<le> MAX_BER_ELEMENTS)"
proof -
  have "snd (ber_dec cf ctx safe cls 0 s st) = st'" using assms(2) by simp
  with ber_dec_top(1,2) [OF assms(1), of cf ctx safe cls s] have "left st' = None \<and> nesting st' = 0" by simp
  moreover have "nodes x \<le> MAX_BER_ELEMENTS" if "\<not> safe" "res = Inr (x, rem)" for x rem
    using ber_dec_top(3) [OF assms(1), of cf ctx cls s x rem st'] assms(2) that by simp
  ultimately show ?thesis by blast
qed

theorem BER_budget_restored_witness:
  "ber_dec no_conf universal False ANY 0 [2, 1, 5] idle = (Inr (ASN1_Int INTEGER 5, []), idle)
   \<and> nodes (ASN1_Int INTEGER 5) \<le> MAX_BER_ELEMENTS"
proof -
  have "ber_dec no_conf universal False ANY 0 [2, 1, 5] idle = (Inr (ASN1_Int INTEGER 5, []), idle)"
    by code_simp
  moreover have "left idle = None" by (simp add: idle_def)
  ultimately show ?thesis using BER_budget_restored by blast
qed

text \<open>C24: the length octets \<open>BER_len_enc\<close> writes, in the short or the long form or in the
  size asked for, are read back by \<open>BER_len_dec\<close>, which leaves what follows; it writes
  them for every length below \<open>256 ^ 127\<close> and every size up to 127.\<close>

theorem BER_len_roundtrip:
  assumes "ll < 256 ^ 127" "(case size_len of None \<Rightarrow> ls | Some n \<Rightarrow> n) \<le> 127"
  shows "\<exists>e. BER_len_enc ls ll size_len = (Inr e :: asn1_obj ber_err + bytes)
    \<and> BER_len_dec (e @ rest) = (Inr (ll, rest) :: asn1_obj ber_err + nat \<times> bytes)"
  using BER_len_enc_succeeds [OF assms] BER_len_dec_enc by blast

theorem BER_len_roundtrip_witness:
  "\<exists>e. BER_len_enc 0 300 (Some 4) = (Inr e :: asn1_obj ber_err + bytes)
    \<and> BER_len_dec (e @ [9]) = (Inr (300, [9]) :: asn1_obj ber_err + nat \<times> bytes)"
  by (rule BER_len_roundtrip) simp_all

text \<open>\<open>BER_tagging_dec\<close> with the explicit tag \<open>BER_tagging_enc\<close> wrapped a value in gives the
  value back, for a one-octet tag that is not the escape to the long form and for a
  long-form tag whose leading base-128 digit fits the three bits the code keeps of it.\<close>

lemma BER_explicit_tag_roundtrip:
  assumes "s \<noteq> []" "BER_tagging_enc ls s None (Some (int n)) = (Inr e :: asn1_obj ber_err + bytes)"
    "left st \<noteq> Some 0"
    "n < 256 \<and> n mod 32 \<noteq> 31 \<or> 256 \<le> n \<and> 1 \<le> k \<and> k \<le> 34 \<and> 128 ^ k \<le> n \<and> n < 8 * 128 ^ k"
  shows "(BER_tagging_dec e hidden None (Some n) safe :: (nat option \<times> bytes) dec) st = (Inr (None, s), spent st)"
proof -
  from assms(1,2) obtain h l where h: "BER_id_enc (int n) = (Inr h :: asn1_obj ber_err + bytes)"
    and l: "BER_len_enc ls (length s) (Some ls) = (Inr l :: asn1_obj ber_err + bytes)" and e: "e = h @ l @ s"
    by (auto simp: BER_tagging_enc_def rbind_Inr_iff)
  have "(BER_id_dec (h @ l @ s) :: (nat \<times> bytes) dec) st = (Inr (n, l @ s), spent st)"
    by (rule BER_id_dec_enc [OF h assms(3,4)])
  moreover have "BER_len_dec (l @ s) = (Inr (length s, s) :: asn1_obj ber_err + nat \<times> bytes)"
    by (rule BER_len_dec_enc [OF l])
  ultimately show ?thesis
    using assms(1) by (simp add: BER_tagging_dec_def e sbind_apply)
qed

theorem BER_explicit_tag_roundtrip_witness:
  "(BER_tagging_dec [0x5F, 0x80, 0x01, 1, 9] 0 None (Some 0x8001) False :: (nat option \<times> bytes) dec) idle
     = (Inr (None, [9]), spent idle)"
proof -
  have "BER_tagging_enc 0 [9] None (Some (int 0x8001)) = (Inr [0x5F, 0x80, 0x01, 1, 9] :: asn1_obj ber_err + bytes)"
    by code_simp
  then show ?thesis
    by (rule BER_explicit_tag_roundtrip [where k = 2, rotated]) (simp_all add: idle_def)
qed

text \<open>assigning any of the attributes of a bit string, by the constructor, by \<open>val\<close> or
  by \<open>val_readable\<close>, leaves the three in agreement: the octets are the padded bits, the
  count is the padding, and the bits are zeroes and ones.\<close>

lemma BIT_STRING_attributes_agree:
  assumes "\<forall>b. self = Some b \<longrightarrow> bs_inv b"
  shows "(\<forall>b. BIT_STRING_init x = Some b \<longrightarrow> bs_inv b) \<and> (\<forall>b. set_val v self = Some b \<longrightarrow> bs_inv b)
    \<and> (\<forall>b. set_val_readable o1 self = Some b \<longrightarrow> bs_inv b) \<and> (\<forall>b. set_unused_bits n self = Some b \<longrightarrow> bs_inv b)"
  using assms bs_inv_set_val [of _ self] bs_inv_set_val [of _ None] bs_inv_set_readable
  by (auto simp: BIT_STRING_init_def set_unused_bits_def split: sum.splits)

theorem BIT_STRING_attributes_agree_witness:
  "\<exists>b. BIT_STRING_init (Inl ''10100'') = Some b \<and> bs_inv b \<and> bs_unused_bits b = 3"
proof -
  have "bs_inv b" if "BIT_STRING_init (Inl ''10100'') = Some b" for b
    using BIT_STRING_attributes_agree [of None "Inl ''10100''"] that by simp
  then show ?thesis by (simp add: BIT_STRING_init_def set_val_def unused_bits_def)
qed

text \<open>\<open>set(i, val)\<close> of a bit string sets bit \<open>i\<close>, grows the string with zeroes when it is
  short, keeps every other bit, and keeps the attributes in agreement.\<close>

lemma BIT_STRING_set_bit:
  assumes "bs_inv b" "val = ''0'' \<or> val = ''1''" "0 \<le> i"
  shows "\<exists>b'. BIT_STRING_set i val (Some b) = Some (Some b') \<and> bs_inv b' \<and>
    length (bs_val b') = max (length (bs_val b)) (Suc (nat i)) \<and>
    (\<forall>j < length (bs_val b'). bs_val b' ! j =
       (if j = nat i then hd val else if j < length (bs_val b) then bs_val b ! j else CHR ''0''))"
  using assms by (rule BIT_STRING_set_ok)

theorem BIT_STRING_set_bit_witness:
  "\<exists>b'. BIT_STRING_set 3 ''1'' (BIT_STRING_init (Inl ''10'')) = Some (Some b') \<and> bs_inv b' \<and> bs_val b' = ''1001''"
proof -
  let ?b = "\<lparr>bs_val = ''10'', bs_val_readable = [0x80], bs_unused_bits = 6\<rparr>"
  have i: "BIT_STRING_init (Inl ''10'') = Some ?b" by code_simp
  then have "bs_inv ?b" by (auto simp: BIT_STRING_init_def elim: bs_inv_set_val)
  moreover have "BIT_STRING_set 3 ''1'' (Some ?b) = Some (set_val ''1001'' (Some ?b))"
    by code_simp
  ultimately show ?thesis
    using BIT_STRING_set_bit [of ?b "''1''" 3] by (auto simp: set_val_def i)
qed

text \<open>\<open>_findroot\<close> returns the name of the longest prefix of the arcs that the dictionary
  knows, no longer one being known, or the root when none is.\<close>

lemma MIB_findroot_longest:
  assumes "mib_findroot d x = (root, k, r)"
  shows "(\<exists>m. 1 \<le> m \<and> m \<le> length (mib_arcs x) \<and> k = py_join [dot] (take m (mib_arcs x)) \<and> map_of d k = Some root \<and>
           (\<forall>j. m < j \<and> j \<le> length (mib_arcs x) \<longrightarrow> take 1 (py_join [dot] (take j (mib_arcs x))) = ''_'' \<or>
              map_of d (py_join [dot] (take j (mib_arcs x))) = None)) \<or>
         (root = [dot] \<and> k = [] \<and> (\<forall>j. 1 \<le> j \<and> j \<le> length (mib_arcs x) \<longrightarrow>
            take 1 (py_join [dot] (take j (mib_arcs x))) = ''_'' \<or>
            map_of d (py_join [dot] (take j (mib_arcs x))) = None))"
  using assms findroot_from_longest [of d "mib_arcs x" "length (mib_arcs x)" root k r]
  by (simp add: mib_findroot_def Let_def)

theorem MIB_findroot_longest_witness:
  "mib_findroot [(''1'', ''iso''), (''1.2'', ''member''), (''2'', ''joint'')] ''1.2.840'' = (''member'', ''1.2'', ''.840'')
   \<and> map_of [(''1'', ''iso''), (''1.2'', ''member''), (''2'', ''joint'')] ''1.2'' = Some ''member''"
proof -
  have f: "mib_findroot [(''1'', ''iso''), (''1.2'', ''member''), (''2'', ''joint'')] ''1.2.840'' = (''member'', ''1.2'', ''.840'')"
    by code_simp
  from MIB_findroot_longest [OF f] f show ?thesis by simp
qed

text \<open>C27: registering names keeps the arcs of every known name numeric and leaves no name
  parked that could be resolved: each parked name is unknown and waits for an unknown name.\<close>

theorem MIB_register_complete:
  assumes "mib_inv t"
  shows "mib_inv (snd (mib_register ident arcs t))"
  using assms by (rule mib_register_inv)

definition mib_start :: mib_tables where
  "mib_start = \<lparr>the_mib = [(''iso'', [''1''])], unresolved = [], alias_of = []\<rparr>"

theorem MIB_register_complete_witness:
  "mib_inv (snd (mib_register ''b'' [''a'', ''2''] mib_start)) \<and>
   snd (mib_register ''b'' [''a'', ''2''] mib_start)
     = \<lparr>the_mib = [(''iso'', [''1''])], unresolved = [(''b'', [''a'', ''2''])], alias_of = []\<rparr>"
proof -
  have "mib_inv mib_start" by (auto simp: mib_inv_def mib_start_def numeric_def re_integer_def)
  then have "mib_inv (snd (mib_register ''b'' [''a'', ''2''] mib_start))" by (rule MIB_register_complete)
  moreover have "snd (mib_register ''b'' [''a'', ''2''] mib_start)
     = \<lparr>the_mib = [(''iso'', [''1''])], unresolved = [(''b'', [''a'', ''2''])], alias_of = []\<rparr>"
    by code_simp
  ultimately show ?thesis by blast
qed

end
