(* ===== verification/Checksums.thy ===== *)
theory Checksums
  imports Prelude
begin

text \<open>
  The checksums of \<open>utils.py\<close>: the internet checksum of RFC 1071, computed over the host's
  16-bit words (\<open>array.array("H", pkt)\<close>, so once for either byte order of the host), and
  Fletcher-16 with the two check octets that make it vanish. Python integers are unbounded,
  so the sums are natural numbers.
\<close>

section \<open>The internet checksum\<close>

fun host_words :: "bool \<Rightarrow> bytes \<Rightarrow> nat list" where
  "host_words big (a # b # r) =
     (if big then unat a * 256 + unat b else unat b * 256 + unat a) # host_words big r"
| "host_words big _ = []"

definition checksum_endian_transform :: "bool \<Rightarrow> int \<Rightarrow> int" where
  "checksum_endian_transform big chk =
     (if big then chk else (drop_bit 8 chk AND 0xFF) OR push_bit 8 chk)"

definition checksum :: "bool \<Rightarrow> bytes \<Rightarrow> int" where
  "checksum big pkt =
     (let pkt = (if length pkt mod 2 = 1 then pkt @ [0] else pkt);
          s = int (sum_list (host_words big pkt));
          s = drop_bit 16 s + (s AND 0xFFFF);
          s = s + drop_bit 16 s;
          s = NOT s
      in checksum_endian_transform big s AND 0xFFFF)"

text \<open>RFC 1071: the complement of the ones' complement sum of the big-endian words.\<close>

definition oc_add :: "nat \<Rightarrow> nat \<Rightarrow> nat" where
  "oc_add a b = (if a + b < 65536 then a + b else a + b - 65535)"

definition rfc1071 :: "bytes \<Rightarrow> nat" where
  "rfc1071 pkt = 65535 - foldl oc_add 0
     (host_words True (if length pkt mod 2 = 1 then pkt @ [0] else pkt))"

section \<open>Fletcher-16\<close>

definition fletcher16 :: "bytes \<Rightarrow> nat \<times> nat" where
  "fletcher16 charbuf =
     (case foldl (\<lambda>(c0, c1) char. (c0 + unat char, c1 + (c0 + unat char))) (0, 0) charbuf of
        (c0, c1) \<Rightarrow> (c0 mod 255, c1 mod 255))"

definition fletcher16_checksum :: "bytes \<Rightarrow> nat" where
  "fletcher16_checksum binbuf = (case fletcher16 binbuf of (c0, c1) \<Rightarrow> push_bit 8 c1 OR c0)"

definition fletcher16_checkbytes :: "bytes \<Rightarrow> nat \<Rightarrow> bytes option" where
  "fletcher16_checkbytes binbuf offset =
     (if length binbuf < offset then None
      else (let binbuf = take offset binbuf @ [0, 0] @ drop (offset + 2) binbuf in
        case fletcher16 binbuf of (c0, c1) \<Rightarrow>
          (let x = ((int (length binbuf) - int offset - 1) * int c0 - int c1) mod 255;
               x = (if x \<le> 0 then x + 255 else x);
               y = 510 - int c0 - x;
               y = (if 255 < y then y - 255 else y)
           in Some [of_int x, of_int y])))"

section \<open>Ones' complement sums\<close>

text \<open>A ones' complement sum is the number of \<open>0..65535\<close> that is congruent to the sum modulo
  65535 and zero only for a sum of zeroes.\<close>

definition oc_of :: "nat \<Rightarrow> nat" where
  "oc_of n = (if n = 0 then 0 else (n - 1) mod 65535 + 1)"

lemma oc_of_eq: "oc_of n = (if n = 0 then 0 else if n mod 65535 = 0 then 65535 else n mod 65535)"
proof -
  define q r where "q = n div 65535" and "r = n mod 65535"
  have n: "n = 65535 * q + r" "r < 65535" by (simp_all add: q_def r_def)
  show ?thesis
  proof (cases "r = 0")
    case True
    show ?thesis
    proof (cases q)
      case (Suc p)
      then have "n - 1 = 65535 * p + 65534" using n True by simp
      then have "(n - 1) mod 65535 = (65535 * p + 65534) mod 65535" by simp
      also have "\<dots> = 65534" by simp
      finally have "oc_of n = (if n = 0 then 0 else 65535)" by (simp add: oc_of_def)
      with True show ?thesis by (simp add: r_def)
    qed (use n True in \<open>simp add: oc_of_def\<close>)
  next
    case False
    then have "n - 1 = 65535 * q + (r - 1)" using n by simp
    then have "(n - 1) mod 65535 = (65535 * q + (r - 1)) mod 65535" by simp
    also have "\<dots> = r - 1" using n(2) by simp
    finally have "oc_of n = (if n = 0 then 0 else r)" using False by (simp add: oc_of_def)
    with False show ?thesis by (simp add: r_def)
  qed
qed

lemma oc_of_unique:
  assumes "f \<le> 65535" "f mod 65535 = n mod 65535" "f = 0 \<longleftrightarrow> n = 0"
  shows "f = oc_of n"
proof (cases "f = 65535")
  case False
  with assms(1) have "f mod 65535 = f" by simp
  with assms show ?thesis by (auto simp: oc_of_eq)
qed (use assms in \<open>simp add: oc_of_eq\<close>)

lemma oc_of_bounds: "oc_of n \<le> 65535" "oc_of n mod 65535 = n mod 65535" "oc_of n = 0 \<longleftrightarrow> n = 0"
  using mod_less_divisor [of 65535 n] by (auto simp: oc_of_eq simp del: mod_less_divisor)

lemma oc_add_oc_of: "b \<le> 65535 \<Longrightarrow> oc_add (oc_of a) b = oc_of (a + b)"
proof (rule oc_of_unique)
  assume b: "b \<le> 65535"
  let ?a = "oc_of a"
  show "oc_add ?a b \<le> 65535" using b oc_of_bounds(1) [of a] by (auto simp: oc_add_def)
  show "oc_add ?a b = 0 \<longleftrightarrow> a + b = 0" using oc_of_bounds(3) [of a] by (auto simp: oc_add_def)
  have "oc_add ?a b mod 65535 = (?a + b) mod 65535"
    by (auto simp: oc_add_def le_mod_geq not_less)
  also have "\<dots> = (a + b) mod 65535" by (metis mod_add_left_eq oc_of_bounds(2))
  finally show "oc_add ?a b mod 65535 = (a + b) mod 65535" .
qed

lemma oc_fold: "\<forall>w\<in>set ws. w \<le> 65535 \<Longrightarrow> foldl oc_add (oc_of a) ws = oc_of (a + sum_list ws)"
  by (induction ws arbitrary: a) (simp_all add: oc_add_oc_of add.assoc)

lemma host_words_le: "w \<in> set (host_words big p) \<Longrightarrow> w \<le> 65535"
proof (induction big p rule: host_words.induct)
  case (1 big a b r)
  have "unat a * 256 + unat b \<le> 65535" "unat b * 256 + unat a \<le> 65535"
    using byte_less [of a] byte_less [of b] by linarith+
  with 1 show ?case by (auto split: if_splits)
qed auto

lemma host_words_length: "length (host_words big p) = length p div 2"
  by (induction big p rule: host_words.induct) auto

lemma sum_list_bound: "\<forall>w\<in>set ws. w \<le> (k::nat) \<Longrightarrow> sum_list ws \<le> length ws * k"
  by (induction ws) auto

lemma host_sum_bound: "sum_list (host_words big p) \<le> length p div 2 * 65535"
  using sum_list_bound [of "host_words big p" 65535] host_words_le by (auto simp: host_words_length)

lemma host_words_swap:
  "sum_list (host_words False p) mod 65535 = (256 * sum_list (host_words True p)) mod 65535"
proof (induction p rule: induct_list012)
  case (3 a b r)
  have "(unat b * 256 + unat a) mod 65535 = (256 * (unat a * 256 + unat b)) mod 65535"
  proof -
    have "256 * (unat a * 256 + unat b) = unat b * 256 + unat a + unat a * 65535" by simp
    then show ?thesis by (simp only: mod_mult_self1)
  qed
  from mod_add_cong [OF this 3(1)] show ?case by (simp add: distrib_left)
qed simp_all

lemma host_words_zero: "sum_list (host_words False p) = 0 \<longleftrightarrow> sum_list (host_words True p) = 0"
  by (induction p rule: induct_list012) auto

text \<open>Two foldings reach the ones' complement sum of anything below \<open>2 ^ 32\<close>.\<close>

lemma fold_twice:
  fixes n :: nat
  assumes "n < 65536 * 65536"
  defines "s \<equiv> n div 65536 + n mod 65536"
  shows "(s + s div 65536) mod 65536 = oc_of n"
proof (rule oc_of_unique)
  have b: "n div 65536 \<le> 65535" "n mod 65536 \<le> 65535"
    using assms(1) less_mult_imp_div_less [of n 65536 65536] mod_less_divisor [of 65536 n] by linarith+
  have n: "n = s + 65535 * (n div 65536)"
    using div_mult_mod_eq [of n 65536] unfolding s_def by linarith
  then have m: "s mod 65535 = n mod 65535" by (metis mod_mult_self2)
  have s0: "s = 0 \<longleftrightarrow> n = 0" using n unfolding s_def by auto
  have "(s + s div 65536) mod 65536 = (if s < 65536 then s else s - 65535)"
  proof (cases "s < 65536")
    case False
    then have "s div 65536 = 1" using b unfolding s_def by (intro div_nat_eqI) auto
    with False have "(s + s div 65536) mod 65536 = (s + 1 - 65536) mod 65536" by (simp add: le_mod_geq)
    moreover have "s + 1 - 65536 < 65536" using b unfolding s_def by linarith
    ultimately show ?thesis using False by simp
  qed simp
  note f = this
  show "(s + s div 65536) mod 65536 \<le> 65535" unfolding f using b unfolding s_def by auto
  show "(s + s div 65536) mod 65536 = 0 \<longleftrightarrow> n = 0" unfolding f using s0 by auto
  show "(s + s div 65536) mod 65536 mod 65535 = n mod 65535"
    unfolding f m [symmetric] by (simp add: le_mod_geq not_less)
qed

definition swap16 :: "nat \<Rightarrow> nat" where
  "swap16 w = w div 256 + 256 * (w mod 256)"

lemma swap16_props:
  assumes "w < 65536"
  shows "swap16 w \<le> 65535" "swap16 w mod 65535 = (256 * w) mod 65535" "swap16 w = 0 \<longleftrightarrow> w = 0"
    "swap16 (65535 - w) = 65535 - swap16 w"
proof -
  define h l where "h = w div 256" and "l = w mod 256"
  have w: "w = 256 * h + l" "l < 256" "h < 256"
    using assms by (auto simp: h_def l_def less_mult_imp_div_less)
  have sw: "swap16 w = h + 256 * l" by (simp add: swap16_def h_def l_def)
  show "swap16 w \<le> 65535" using w sw by linarith
  show "swap16 w = 0 \<longleftrightarrow> w = 0" using w sw by auto
  have "256 * w = swap16 w + h * 65535" using w(1) sw by simp
  then show "swap16 w mod 65535 = (256 * w) mod 65535" by (simp only: mod_mult_self1)
  have "65535 - w = 256 * (255 - h) + (255 - l)" using w by simp
  moreover have "255 - l < 256" using w(2) by simp
  ultimately have "(65535 - w) div 256 = 255 - h" "(65535 - w) mod 256 = 255 - l" by simp_all
  then show "swap16 (65535 - w) = 65535 - swap16 w" using w sw by (simp add: swap16_def)
qed

lemma int_div_mod: "int s = int k * int (s div k) + int (s mod k)"
  by (metis mult_div_mod_eq of_nat_add of_nat_mult)

lemma not_mod_65536: "(NOT (int s)) mod 65536 = 65535 - int (s mod 65536)"
proof -
  have "NOT (int s) = (65535 - int (s mod 65536)) + 65536 * (- int (s div 65536) - 1)"
  proof -
    have "S = 65536 * q + r \<Longrightarrow> - S - 1 = 65535 - r + 65536 * (- q - 1)" for S q r :: int by simp
    from this [OF int_div_mod [of s 65536, unfolded of_nat_numeral]] show ?thesis by (simp only: not_int_def)
  qed
  then have "(NOT (int s)) mod 65536 = (65535 - int (s mod 65536)) mod 65536" by (simp only: mod_mult_self2)
  also have "\<dots> = 65535 - int (s mod 65536)"
    using mod_less_divisor [of 65536 s] by (intro mod_pos_pos_trivial) linarith+
  finally show ?thesis .
qed

lemma transform_swap:
  assumes "c mod 65536 = int w" "w < 65536"
  shows "checksum_endian_transform False c AND 0xFFFF = int (swap16 w)"
proof -
  define k where "k = c div 65536"
  define h l where "h = w div 256" and "l = w mod 256"
  have w: "int w = 256 * int h + int l" "l < 256" "h < 256"
    using assms(2) int_div_mod [of w 256] less_mult_imp_div_less [of w 256 256]
    unfolding h_def l_def by simp_all
  have c: "c = int l + 256 * (256 * k + int h)"
    using div_mult_mod_eq [of c 65536] assms(1) w(1) by (simp add: k_def del: div_mult_mod_eq)
  have d: "c div 256 = 256 * k + int h" using w(2) unfolding c by simp
  have "(drop_bit 8 c AND 0xFF) OR push_bit 8 c = c * 256 + (c div 256) mod 256"
    using or_disjoint_int [of "(c div 256) mod 256" 8 c] by (simp add: pybits or.commute)
  also have "(c div 256) mod 256 = int h" unfolding d using w(3) by simp
  also have "c * 256 + int h = int h + 256 * int l + 65536 * (256 * k + int h)" unfolding c by simp
  finally have "((drop_bit 8 c AND 0xFF) OR push_bit 8 c) mod 65536 = (int h + 256 * int l) mod 65536"
    by (simp only: mod_mult_self2)
  also have "\<dots> = int h + 256 * int l" using w(2,3) by (intro mod_pos_pos_trivial) linarith+
  finally show ?thesis
    by (simp add: checksum_endian_transform_def and_masks swap16_def h_def l_def)
qed

lemma rfc1071_oc: "rfc1071 pkt =
    65535 - oc_of (sum_list (host_words True (if length pkt mod 2 = 1 then pkt @ [0] else pkt)))"
proof -
  have "oc_of 0 = 0" by (simp add: oc_of_def)
  then have "foldl oc_add 0 (host_words True p) = oc_of (sum_list (host_words True p))" for p
    using oc_fold [of "host_words True p" 0] host_words_le [of _ True p] by simp
  then show ?thesis unfolding rfc1071_def by (simp only:)
qed

lemma checksum_rfc1071:
  assumes "length pkt \<le> 131072"
  shows "checksum big pkt = int (rfc1071 pkt)"
proof -
  define p where "p = (if length pkt mod 2 = 1 then pkt @ [0] else pkt)"
  define n where "n = sum_list (host_words big p)"
  define s where "s = n div 65536 + n mod 65536"
  have "length p div 2 \<le> 65536" using assms by (auto simp: p_def)
  then have "n < 65536 * 65536"
    using host_sum_bound [of big p] mult_le_mono1 [of "length p div 2" 65536 65535] unfolding n_def by linarith
  then have low: "(s + s div 65536) mod 65536 = oc_of n" unfolding s_def by (rule fold_twice)
  let ?c = "NOT (int (s + s div 65536))"
  have c: "?c mod 65536 = int (65535 - oc_of n)"
    using oc_of_bounds(1) [of n] by (simp only: not_mod_65536 low of_nat_diff of_nat_numeral)
  have k: "checksum big pkt = checksum_endian_transform big ?c AND 0xFFFF"
    unfolding checksum_def p_def [symmetric] Let_def n_def [symmetric]
    by (simp add: s_def and_masks shifts zdiv_int zmod_int)
  have r: "rfc1071 pkt = 65535 - oc_of (sum_list (host_words True p))"
    unfolding rfc1071_oc p_def by (rule refl)
  show ?thesis
  proof (cases big)
    case True
    with c k r show ?thesis by (simp add: checksum_endian_transform_def and_masks n_def)
  next
    case False
    have "swap16 (oc_of n) = oc_of (sum_list (host_words True p))"
    proof (rule oc_of_unique)
      have l: "oc_of n < 65536" using oc_of_bounds(1) [of n] by simp
      note w = swap16_props [OF l]
      let ?b = "sum_list (host_words True p)"
      have n: "n mod 65535 = (256 * ?b) mod 65535" using host_words_swap [of p] False by (simp add: n_def)
      show "swap16 (oc_of n) \<le> 65535" by (rule w(1))
      show "swap16 (oc_of n) = 0 \<longleftrightarrow> ?b = 0"
        using w(3) oc_of_bounds(3) [of n] host_words_zero [of p] False by (simp add: n_def)
      have "swap16 (oc_of n) mod 65535 = (256 * (oc_of n mod 65535)) mod 65535" unfolding w(2) by (simp only: mod_mult_right_eq)
      also have "\<dots> = (256 * (256 * ?b)) mod 65535" unfolding oc_of_bounds(2) n by (simp only: mod_mult_right_eq)
      also have "256 * (256 * ?b) = ?b + ?b * 65535" by simp
      finally show "swap16 (oc_of n) mod 65535 = ?b mod 65535" by (simp only: mod_mult_self1)
    qed
    with False c k r oc_of_bounds(1) [of n] show ?thesis
      using transform_swap [OF c] swap16_props(4) [of "oc_of n"] by simp
  qed
qed


section \<open>Fletcher sums\<close>

text \<open>The two running sums in closed form: the octets, and the octets weighted by their
  distance from the end.\<close>

fun octet_sum :: "bytes \<Rightarrow> nat" where
  "octet_sum [] = 0"
| "octet_sum (c # r) = unat c + octet_sum r"

fun weighted_sum :: "bytes \<Rightarrow> nat" where
  "weighted_sum [] = 0"
| "weighted_sum (c # r) = Suc (length r) * unat c + weighted_sum r"

lemma octet_sum_append [simp]: "octet_sum (a @ b) = octet_sum a + octet_sum b"
  by (induction a) auto

lemma weighted_sum_append [simp]:
  "weighted_sum (a @ b) = weighted_sum a + length b * octet_sum a + weighted_sum b"
  by (induction a) (auto simp: algebra_simps)

lemma fletcher16_sums: "fletcher16 buf = (octet_sum buf mod 255, weighted_sum buf mod 255)"
proof -
  have "foldl (\<lambda>(c0, c1) char. (c0 + unat char, c1 + (c0 + unat char))) (a, b) buf =
      (a + octet_sum buf, b + length buf * a + weighted_sum buf)" for a b
    by (induction buf arbitrary: a b) (auto simp: algebra_simps)
  from this [of 0 0] show ?thesis by (simp add: fletcher16_def)
qed

lemma fletcher16_zero:
  "octet_sum buf mod 255 = 0 \<Longrightarrow> weighted_sum buf mod 255 = 0 \<Longrightarrow> fletcher16_checksum buf = 0"
  by (simp add: fletcher16_checksum_def fletcher16_sums)

text \<open>The check octets: each in 1..255, and the congruences that make both sums vanish.\<close>

lemma check_octets:
  fixes c0 c1 m x0 :: int
  assumes "0 \<le> c0" "c0 < 255"
  defines "x0 \<equiv> (m * c0 - c1) mod 255"
  defines "x \<equiv> (if x0 \<le> 0 then x0 + 255 else x0)"
  defines "y0 \<equiv> 510 - c0 - x"
  defines "y \<equiv> (if 255 < y0 then y0 - 255 else y0)"
  shows "1 \<le> x" "x \<le> 255" "1 \<le> y" "y \<le> 255" "(c0 + x + y) mod 255 = 0" "(c1 + (m + 1) * x + m * y) mod 255 = 0"
proof -
  have "0 \<le> x0" "x0 < 255" unfolding x0_def by simp_all
  then show x: "1 \<le> x" "x \<le> 255" unfolding x_def by auto
  with assms(1,2) show "1 \<le> y" "y \<le> 255" unfolding y_def y0_def by auto
  obtain j where y: "y = - c0 - x + 255 * j"
    unfolding y_def y0_def by (cases "255 < 510 - c0 - x") (auto intro: that [of 1] that [of 2])
  obtain i where x0: "x = m * c0 - c1 + 255 * i"
  proof -
    define q where "q = (m * c0 - c1) div 255"
    have x0: "x0 = m * c0 - c1 + 255 * (- q)"
      unfolding x0_def q_def by (simp add: minus_mult_div_eq_mod [symmetric])
    show ?thesis
    proof (cases "x0 \<le> 0")
      case True
      then have "x = m * c0 - c1 + 255 * (1 - q)" unfolding x_def x0 by simp
      then show ?thesis by (rule that)
    next
      case False
      then have "x = m * c0 - c1 + 255 * (- q)" unfolding x_def x0 by simp
      then show ?thesis by (rule that)
    qed
  qed
  have "c0 + x + y = 255 * j" unfolding y by simp
  then show "(c0 + x + y) mod 255 = 0" by simp
  have "c1 + (m + 1) * x + m * y = 255 * (i + m * j)" unfolding y by (simp add: x0 algebra_simps)
  then show "(c1 + (m + 1) * x + m * y) mod 255 = 0" by simp
qed

lemma fletcher16_checkbytes_ok:
  assumes "offset \<le> length buf"
  shows "\<exists>cb. fletcher16_checkbytes buf offset = Some cb \<and> length cb = 2 \<and>
    fletcher16_checksum (take offset buf @ cb @ drop (offset + 2) buf) = 0"
proof -
  define pre suf where "pre = take offset buf" and "suf = drop (offset + 2) buf"
  let ?b = "pre @ [0, 0] @ suf"
  define c0 c1 where "c0 = octet_sum ?b mod 255" and "c1 = weighted_sum ?b mod 255"
  define m where "m = int (length suf) + 1"
  define x0 where "x0 = (m * int c0 - int c1) mod 255"
  define x where "x = (if x0 \<le> 0 then x0 + 255 else x0)"
  define y where "y = (if 255 < 510 - int c0 - x then 510 - int c0 - x - 255 else 510 - int c0 - x)"
  have len: "int (length ?b) - int offset - 1 = m" using assms by (simp add: pre_def suf_def m_def)
  have cb: "fletcher16_checkbytes buf offset = Some [of_int x, of_int y]"
    unfolding fletcher16_checkbytes_def Let_def pre_def [symmetric] suf_def [symmetric] fletcher16_sums
      prod.case len c0_def [symmetric] c1_def [symmetric] x0_def [symmetric] x_def [symmetric] y_def [symmetric]
    using assms by (simp only: if_not_P not_less)
  have c0b: "0 \<le> int c0" "int c0 < 255" by (simp_all add: c0_def)
  note xy = check_octets [OF c0b, where m = m and ?c1.0 = "int c1", folded x0_def, folded x_def, folded y_def]
  have u: "int (unat (of_int x :: byte)) = x" "int (unat (of_int y :: byte)) = y"
    using xy by (simp_all add: unat_of_int_byte)
  let ?r = "pre @ [of_int x, of_int y] @ suf"
  have g: "A mod 255 = (int (B mod 255) + k + l) mod 255" if "A = int B + k + l" for A k l and B :: nat
    by (simp add: that zmod_int add.assoc mod_add_left_eq)
  have "int (octet_sum ?r) = int (octet_sum ?b) + x + y" using u by simp
  then have "int (octet_sum ?r) mod 255 = (int c0 + x + y) mod 255"
    unfolding c0_def by (rule g)
  moreover have "int (weighted_sum ?r) = int (weighted_sum ?b) + (m + 1) * x + m * y"
    using u by (simp add: m_def algebra_simps)
  then have "int (weighted_sum ?r) mod 255 = (int c1 + (m + 1) * x + m * y) mod 255"
    unfolding c1_def by (rule g)
  ultimately have i: "int (octet_sum ?r) mod 255 = 0" "int (weighted_sum ?r) mod 255 = 0"
    using xy(5,6) by (simp_all only:)
  have z: "int k mod 255 = 0 \<Longrightarrow> k mod 255 = 0" for k by presburger
  from fletcher16_zero [OF z [OF i(1)] z [OF i(2)]] cb show ?thesis by (simp add: pre_def suf_def)
qed

section \<open>Properties\<close>

lemma host_words_append: "even (length a) \<Longrightarrow> host_words big (a @ b) = host_words big a @ host_words big b"
  by (induction a rule: induct_list012) auto

text \<open>C13: on a packet of up to 128 KiB, and on a host of either byte order, \<open>checksum\<close> is the
  complement of the ones' complement sum of the packet's big-endian 16-bit words, an odd
  packet padded with a zero octet (RFC 1071).\<close>

theorem checksum_is_rfc1071:
  assumes "length pkt \<le> 131072"
  shows "checksum big pkt = int (rfc1071 pkt)"
  using assms by (rule checksum_rfc1071)

theorem checksum_is_rfc1071_witness:
  "checksum False [0x45, 0x00, 0x00] = int (rfc1071 [0x45, 0x00, 0x00]) \<and> rfc1071 [0x45, 0x00, 0x00] = 0xBAFF"
  using checksum_is_rfc1071 [of "[0x45, 0x00, 0x00]" False] by (simp add: rfc1071_def oc_add_def)

text \<open>a packet that carries its own checksum, computed with the field zeroed, has
  checksum zero, whatever precedes and follows the field at an even offset.\<close>

lemma checksum_verifies:
  assumes "even (length a)" "length (a @ [0, 0] @ b) \<le> 131072" "c = nat (checksum big (a @ [0, 0] @ b))"
  shows "checksum big' (a @ [of_nat (c div 256), of_nat (c mod 256)] @ b) = 0"
proof -
  define b' where "b' = (if length b mod 2 = 1 then b @ [0] else b)"
  define S where "S = sum_list (host_words True a) + sum_list (host_words True b')"
  have pad: "(if length (a @ [x, y] @ b) mod 2 = 1 then (a @ [x, y] @ b) @ [0] else a @ [x, y] @ b) = a @ [x, y] @ b'" for x y
    using assms(1) by (auto simp: b'_def even_iff_mod_2_eq_zero mod_simps odd_iff_mod_2_eq_one)
  have w: "sum_list (host_words True (a @ [x, y] @ b')) = S + (unat x * 256 + unat y)" for x y
    using assms(1) by (simp add: host_words_append S_def)
  have "c = 65535 - oc_of S"
    using assms(2,3) by (simp only: checksum_rfc1071 rfc1071_oc pad w) simp
  then have c: "c \<le> 65535" "c = 65535 - oc_of S" by simp_all
  have f: "unat (of_nat (c div 256) :: byte) * 256 + unat (of_nat (c mod 256) :: byte) = c"
    using c(1) by simp
  have "oc_of (S + c) = 65535"
  proof (rule sym, rule oc_of_unique)
    have "(S + c) mod 65535 = (oc_of S + c) mod 65535" by (metis mod_add_left_eq oc_of_bounds(2))
    also have "oc_of S + c = 65535" using c oc_of_bounds(1) [of S] by simp
    finally show "65535 mod 65535 = (S + c) mod 65535" by simp
    show "(65535 :: nat) = 0 \<longleftrightarrow> S + c = 0" using c(2) oc_of_bounds(3) [of S] by (cases "S = 0") auto
  qed simp
  moreover have "length (a @ [of_nat (c div 256), of_nat (c mod 256)] @ b) \<le> 131072" using assms(2) by simp
  ultimately show ?thesis by (simp only: checksum_rfc1071 rfc1071_oc pad w f diff_self_eq_0 of_nat_0)
qed

theorem checksum_verifies_witness:
  "checksum False ([0x45, 0x00] @ [0, 0] @ [7]) = 0xB3FF \<and> checksum True ([0x45, 0x00] @ [0xB3, 0xFF] @ [7]) = 0"
proof -
  have c: "checksum False ([0x45, 0x00] @ [0, 0] @ [7]) = 0xB3FF" by code_simp
  with checksum_verifies [where a = "[0x45, 0x00]" and b = "[7]" and c = "0xB3FF" and big = False and big' = True]
  show ?thesis by simp
qed

text \<open>writing the two octets of \<open>fletcher16_checkbytes\<close> at their offset makes the buffer's
  Fletcher-16 sum zero, wherever in the buffer or at its end the offset is; past the end it
  is refused.\<close>

lemma fletcher16_checkbytes_zero:
  assumes "offset \<le> length buf"
  shows "\<exists>cb. fletcher16_checkbytes buf offset = Some cb \<and> length cb = 2 \<and>
    fletcher16_checksum (take offset buf @ cb @ drop (offset + 2) buf) = 0"
  using assms by (rule fletcher16_checkbytes_ok)

theorem fletcher16_checkbytes_zero_witness:
  "\<exists>cb. fletcher16_checkbytes [1, 2, 0, 0, 5] 2 = Some cb \<and> length cb = 2 \<and>
    fletcher16_checksum ([1, 2] @ cb @ [5]) = 0"
  using fletcher16_checkbytes_zero [of 2 "[1, 2, 0, 0, 5]"] by simp

end
