(* ===== verification/Align.thy ===== *)
theory Align
  imports Prelude
begin

text \<open>
  The alignment behind \<open>hexdiff\<close> (\<open>_wagner_fischer\<close> of \<open>utils.py\<close>): the table of steps, filled
  row by row from the previous row's costs, and the walk back from its last cell. The
  indices \<open>i\<close> and \<open>j\<close> of the source, which end at \<open>-1\<close>, are the lengths \<open>i + 1\<close> and \<open>j + 1\<close> of the
  prefixes still to be aligned. The reference is the edit distance.
\<close>

section \<open>The table\<close>

text \<open>One row: the steps and the costs, from the previous row's costs, the cost in the corner
  and the cost to the left.\<close>

fun wf_row :: "byte \<Rightarrow> bytes \<Rightarrow> nat list \<Rightarrow> nat \<Rightarrow> nat \<Rightarrow> nat list \<times> nat list" where
  "wf_row x (y # ys) (p # ps) corner left =
     (let diag = corner + (if x \<noteq> y then 1 else 0);
          up = p + 1;
          side = left + 1;
          (step, cost) = (if diag \<le> up \<and> diag \<le> side then (0, diag)
                          else if up \<le> side then (1, up) else (2, side));
          (steps, cur) = wf_row x ys ps p cost
      in (step # steps, cost # cur))"
| "wf_row x _ _ corner left = ([], [])"

fun wf_rows :: "bytes \<Rightarrow> nat \<Rightarrow> nat list \<Rightarrow> bytes \<Rightarrow> nat list list" where
  "wf_rows yb i prev [] = []"
| "wf_rows yb i prev (x # xs) =
     (case wf_row x yb prev (if i \<noteq> 0 then i + 1 else 0) (i + 2) of
        (steps, cur) \<Rightarrow> steps # wf_rows yb (i + 1) cur xs)"

definition wf_steps :: "bytes \<Rightarrow> bytes \<Rightarrow> nat list list" where
  "wf_steps xb yb = wf_rows yb 0 (map (\<lambda>j. j + 1) [0..<length yb]) xb"

section \<open>The walk back\<close>

definition wf_prev :: "nat list list \<Rightarrow> nat \<Rightarrow> nat \<Rightarrow> nat \<times> nat" where
  "wf_prev steps i j =
     (if i = 0 then (0, j - 1)
      else if j = 0 then (i - 1, 0)
      else (let step = steps ! (i - 1) ! (j - 1) in
        if step = 0 then (i - 1, j - 1) else if step = 1 then (i - 1, j) else (i, j - 1)))"

function wf_back :: "nat list list \<Rightarrow> bytes \<Rightarrow> bytes \<Rightarrow> nat \<Rightarrow> nat \<Rightarrow> (bytes \<times> bytes) list" where
  "wf_back steps xb yb i j =
     (if i = 0 \<and> j = 0 then []
      else (case wf_prev steps i j of (i2, j2) \<Rightarrow>
        (drop i2 (take i xb), drop j2 (take j yb)) # wf_back steps xb yb i2 j2))"
  by pat_completeness auto
termination
  by (relation "measure (\<lambda>(steps, xb, yb, i, j). i + j)") (auto simp: wf_prev_def Let_def split: if_splits)

declare wf_back.simps [simp del]

lemma wf_back_done [simp]: "wf_back s xb yb 0 0 = []"
  by (simp add: wf_back.simps)

definition wagner_fischer :: "bytes \<Rightarrow> bytes \<Rightarrow> bytes list \<times> bytes list" where
  "wagner_fischer xb yb =
     (let ps = wf_back (wf_steps xb yb) xb yb (length xb) (length yb) in (map fst ps, map snd ps))"

section \<open>The cost of a cell\<close>

text \<open>The cost the row-wise computation gives the prefixes of lengths \<open>i\<close> and \<open>j\<close>. Its left
  border is one above the number of octets dropped.\<close>

fun wf_cost :: "bytes \<Rightarrow> bytes \<Rightarrow> nat \<Rightarrow> nat \<Rightarrow> nat" where
  "wf_cost xb yb 0 j = j"
| "wf_cost xb yb (Suc i) 0 = i + 2"
| "wf_cost xb yb (Suc i) (Suc j) =
     (let diag = wf_cost xb yb i j + (if xb ! i \<noteq> yb ! j then 1 else 0);
          up = wf_cost xb yb i (Suc j) + 1;
          side = wf_cost xb yb (Suc i) j + 1
      in if diag \<le> up \<and> diag \<le> side then diag else if up \<le> side then up else side)"

fun edit_distance :: "bytes \<Rightarrow> bytes \<Rightarrow> nat \<Rightarrow> nat \<Rightarrow> nat" where
  "edit_distance xb yb 0 j = j"
| "edit_distance xb yb (Suc i) 0 = Suc i"
| "edit_distance xb yb (Suc i) (Suc j) =
     min (edit_distance xb yb i j + (if xb ! i \<noteq> yb ! j then 1 else 0))
       (min (edit_distance xb yb i (Suc j) + 1) (edit_distance xb yb (Suc i) j + 1))"

lemma wf_cost_bounds:
  "edit_distance xb yb i j \<le> wf_cost xb yb i j \<and> wf_cost xb yb i j \<le> edit_distance xb yb i j + 1"
  by (induction xb yb i j rule: edit_distance.induct) (auto simp: Let_def)

declare wf_cost.simps(3) [simp del]

text \<open>The step the table holds for a cell.\<close>

definition wf_step :: "bytes \<Rightarrow> bytes \<Rightarrow> nat \<Rightarrow> nat \<Rightarrow> nat" where
  "wf_step xb yb i j =
     (let diag = wf_cost xb yb i j + (if xb ! i \<noteq> yb ! j then 1 else 0);
          up = wf_cost xb yb i (Suc j) + 1;
          side = wf_cost xb yb (Suc i) j + 1
      in if diag \<le> up \<and> diag \<le> side then 0 else if up \<le> side then 1 else 2)"

lemma wf_row_spec:
  assumes "j \<le> length yb" "corner = wf_cost xb yb i j" "left = wf_cost xb yb (Suc i) j"
    "ps = map (\<lambda>k. wf_cost xb yb i (Suc k)) [j..<length yb]"
  shows "wf_row (xb ! i) (drop j yb) ps corner left =
    (map (wf_step xb yb i) [j..<length yb], map (\<lambda>k. wf_cost xb yb (Suc i) (Suc k)) [j..<length yb])"
  using assms
proof (induction "length yb - j" arbitrary: j corner left ps)
  case (Suc d)
  then have j: "j < length yb" by simp
  then have d: "drop j yb = yb ! j # drop (Suc j) yb" by (simp add: Cons_nth_drop_Suc)
  have u: "[j..<length yb] = j # [Suc j..<length yb]" using j by (rule upt_conv_Cons)
  have IH: "wf_row (xb ! i) (drop (Suc j) yb) (map (\<lambda>k. wf_cost xb yb i (Suc k)) [Suc j..<length yb])
      (wf_cost xb yb i (Suc j)) (wf_cost xb yb (Suc i) (Suc j)) =
    (map (wf_step xb yb i) [Suc j..<length yb], map (\<lambda>k. wf_cost xb yb (Suc i) (Suc k)) [Suc j..<length yb])"
    using Suc j by auto
  show ?case
    unfolding d u list.map Suc.prems(2-4) wf_row.simps
    using IH by (auto simp: wf_step_def Let_def wf_cost.simps(3) [of xb yb i j])
qed simp

lemma wf_rows_spec:
  assumes "i \<le> length xb" "prev = map (\<lambda>k. wf_cost xb yb i (Suc k)) [0..<length yb]"
  shows "wf_rows yb i prev (drop i xb) = map (\<lambda>k. map (wf_step xb yb k) [0..<length yb]) [i..<length xb]"
  using assms
proof (induction "length xb - i" arbitrary: i prev)
  case (Suc d)
  then have i: "i < length xb" by simp
  then have d: "drop i xb = xb ! i # drop (Suc i) xb" by (simp add: Cons_nth_drop_Suc)
  have "(if i \<noteq> 0 then i + 1 else 0) = wf_cost xb yb i 0" by (cases i) auto
  with Suc.prems wf_row_spec [of 0 yb "wf_cost xb yb i 0" xb i "i + 2" prev]
  have "wf_row (xb ! i) yb prev (if i \<noteq> 0 then i + 1 else 0) (i + 2) =
    (map (wf_step xb yb i) [0..<length yb], map (\<lambda>k. wf_cost xb yb (Suc i) (Suc k)) [0..<length yb])"
    by simp
  moreover have "[i..<length xb] = i # [Suc i..<length xb]" using i by (rule upt_conv_Cons)
  moreover have "d = length xb - Suc i" using Suc(2) by simp
  ultimately show ?case using Suc(1) [of "Suc i"] i by (simp add: d)
qed simp

lemma wf_steps_nth:
  assumes "i < length xb" "j < length yb"
  shows "wf_steps xb yb ! i ! j = wf_step xb yb i j"
  using wf_rows_spec [of 0 xb "map (\<lambda>j. j + 1) [0..<length yb]" yb] assms by (simp add: wf_steps_def)


section \<open>The alignment\<close>

definition pair_cost :: "(bytes \<times> bytes) list \<Rightarrow> nat" where
  "pair_cost ps = length (List.filter (\<lambda>(a, b). a \<noteq> b) ps)"

lemma wf_back_bounds: "i \<noteq> 0 \<or> j \<noteq> 0 \<Longrightarrow> wf_prev s i j = (i2, j2) \<Longrightarrow> i2 \<le> i \<and> j2 \<le> j \<and> i2 + j2 < i + j"
  by (auto simp: wf_prev_def Let_def split: if_splits)

lemma take_drop_join: "i2 \<le> i \<Longrightarrow> take i2 xs @ drop i2 (take i xs) = take i xs"
  by (metis append_take_drop_id min.absorb1 take_take)

text \<open>The pairs, from the last to the first, spell the two prefixes, each pair holds at most
  an octet of either, and not nothing of both.\<close>

lemma wf_back_spells:
  "i \<le> length xb \<Longrightarrow> j \<le> length yb \<Longrightarrow>
     concat (rev (map fst (wf_back s xb yb i j))) = take i xb \<and>
     concat (rev (map snd (wf_back s xb yb i j))) = take j yb"
proof (induction s xb yb i j rule: wf_back.induct)
  case (1 s xb yb i j)
  show ?case
  proof (cases "i = 0 \<and> j = 0")
    case False
    obtain i2 j2 where p: "wf_prev s i j = (i2, j2)" by fastforce
    with wf_back_bounds [of i j s i2 j2] False have b: "i2 \<le> i" "j2 \<le> j" by auto
    with "1.IH" [OF False p [symmetric]] "1.prems" p False show ?thesis
      by (simp add: wf_back.simps [of s xb yb i j] take_drop_join)
  qed (simp add: wf_back.simps)
qed

lemma wf_back_pairs:
  "i \<le> length xb \<Longrightarrow> j \<le> length yb \<Longrightarrow> p \<in> set (wf_back s xb yb i j) \<Longrightarrow>
     length (fst p) \<le> 1 \<and> length (snd p) \<le> 1 \<and> (fst p \<noteq> [] \<or> snd p \<noteq> [])"
proof (induction s xb yb i j rule: wf_back.induct)
  case (1 s xb yb i j)
  obtain i2 j2 where p: "wf_prev s i j = (i2, j2)" by fastforce
  have ij: "\<not> (i = 0 \<and> j = 0)"
  proof
    assume "i = 0 \<and> j = 0"
    with "1.prems"(3) show False by simp
  qed
  with p have b: "i2 \<le> i" "j2 \<le> j" "i - i2 \<le> 1" "j - j2 \<le> 1" "i2 < i \<or> j2 < j"
    by (auto simp: wf_prev_def Let_def split: if_splits)
  from "1.prems"(3) ij p consider "p = (drop i2 (take i xb), drop j2 (take j yb))" | "p \<in> set (wf_back s xb yb i2 j2)"
    by (auto simp: wf_back.simps [of s xb yb i j])
  then show ?case
  proof cases
    case 1
    with b "1.prems"(1,2) show ?thesis by auto
  next
    case 2
    with "1.IH" [OF ij p [symmetric]] "1.prems"(1,2) b show ?thesis by simp
  qed
qed

lemma one_octet: "i < length xb \<Longrightarrow> drop i (take (Suc i) xb) = [xb ! i]"
  by (simp add: take_Suc_conv_app_nth)

lemma wf_back_cost:
  assumes "i \<le> length xb" "j \<le> length yb"
  shows "pair_cost (wf_back (wf_steps xb yb) xb yb i j) \<le> wf_cost xb yb i j"
  using assms
proof (induction xb yb i j rule: wf_cost.induct)
  case (1 xb yb j)
  show ?case
  proof (induction j)
    case (Suc j)
    then show ?case by (simp add: wf_back.simps [of _ xb yb 0 "Suc j"] wf_prev_def pair_cost_def)
  qed (simp add: wf_back.simps pair_cost_def)
next
  case (2 xb yb i)
  have "pair_cost (wf_back (wf_steps xb yb) xb yb k 0) \<le> k" for k
  proof (induction k)
    case (Suc k)
    then show ?case by (simp add: wf_back.simps [of _ xb yb "Suc k" 0] wf_prev_def pair_cost_def)
  qed (simp add: wf_back.simps pair_cost_def)
  from this [of "Suc i"] show ?case by simp
next
  case (3 xb yb i j)
  have ij: "i < length xb" "j < length yb" using 3 by auto
  let ?diag = "wf_cost xb yb i j + (if xb ! i \<noteq> yb ! j then 1 else 0)"
  let ?up = "wf_cost xb yb i (Suc j) + 1" and ?side = "wf_cost xb yb (Suc i) j + 1"
  note IH = 3(1) [OF less_imp_le [OF ij(1)] less_imp_le [OF ij(2)]]
    3(2) [OF refl less_imp_le [OF ij(1)] "3.prems"(2)] 3(3) [OF refl refl "3.prems"(1) less_imp_le [OF ij(2)]]
  show ?case
    using IH ij
    by (auto simp: wf_back.simps [of _ xb yb "Suc i" "Suc j"] wf_prev_def wf_steps_nth wf_step_def Let_def
        wf_cost.simps(3) pair_cost_def one_octet split: if_splits)
qed


lemma wagner_fischer_aligned:
  assumes "wagner_fischer xb yb = (bx, by)"
  shows "length bx = length by \<and> concat (rev bx) = xb \<and> concat (rev by) = yb \<and>
    (\<forall>k < length bx. length (bx ! k) \<le> 1 \<and> length (by ! k) \<le> 1 \<and> (bx ! k \<noteq> [] \<or> by ! k \<noteq> []))"
proof -
  let ?ps = "wf_back (wf_steps xb yb) xb yb (length xb) (length yb)"
  have b: "bx = map fst ?ps" "by = map snd ?ps" using assms by (auto simp: wagner_fischer_def Let_def)
  with wf_back_spells [of "length xb" xb "length yb" yb "wf_steps xb yb"]
    wf_back_pairs [of "length xb" xb "length yb" yb "?ps ! _" "wf_steps xb yb"]
  show ?thesis by (auto simp: nth_mem)
qed

section \<open>Properties\<close>

text \<open>C31: the alignment of two octet strings is two lists of the same length whose entries,
  taken from the last, spell the two strings; each holds at most one octet, and no position
  is empty in both.\<close>

theorem wagner_fischer_aligns:
  assumes "wagner_fischer xb yb = (bx, by)"
  shows "length bx = length by \<and> concat (rev bx) = xb \<and> concat (rev by) = yb \<and>
    (\<forall>k < length bx. length (bx ! k) \<le> 1 \<and> length (by ! k) \<le> 1 \<and> (bx ! k \<noteq> [] \<or> by ! k \<noteq> []))"
  using assms by (rule wagner_fischer_aligned)

theorem wagner_fischer_aligns_witness:
  "wagner_fischer [1, 2] [2] = ([[2], [1]], [[2], []]) \<and> concat (rev [[2], [1 :: byte]]) = [1, 2]"
proof -
  have "wagner_fischer [1, 2] [2] = ([[2], [1]], [[2], []])" by code_simp
  with wagner_fischer_aligns [OF this] show ?thesis by simp
qed

text \<open>C32: the alignment costs at most one more than the edit distance, the least number of
  octets to change, drop or insert.\<close>

theorem wagner_fischer_near_minimal:
  assumes "wagner_fischer xb yb = (bx, by)"
  shows "pair_cost (zip bx by) \<le> edit_distance xb yb (length xb) (length yb) + 1"
proof -
  let ?ps = "wf_back (wf_steps xb yb) xb yb (length xb) (length yb)"
  have "zip bx by = ?ps" using assms by (auto simp: wagner_fischer_def Let_def zip_map_fst_snd)
  with wf_back_cost [of "length xb" xb "length yb" yb] wf_cost_bounds [of xb yb "length xb" "length yb"]
  show ?thesis by simp
qed

theorem wagner_fischer_near_minimal_witness:
  "\<exists>bx by. wagner_fischer [1, 2] [2] = (bx, by) \<and> pair_cost (zip bx by) \<le> edit_distance [1, 2] [2] 2 1 + 1"
proof -
  have "wagner_fischer [1, 2] [2] = ([[2], [1]], [[2], []])" by code_simp
  from this wagner_fischer_near_minimal [OF this] show ?thesis by (auto simp del: edit_distance.simps simp: numeral_2_eq_2)
qed

text \<open>it is not always the least: on two strings at distance two the code's alignment
  changes three positions, because the cost of the table's left border starts one too high.\<close>

lemma wagner_fischer_not_minimal:
  "case wagner_fischer [0x61, 0x62, 0x61, 0x61] [0x62, 0x61, 0x61, 0x62] of (bx, by) \<Rightarrow>
     pair_cost (zip bx by) = 3 \<and>
     edit_distance [0x61, 0x62, 0x61, 0x61] [0x62, 0x61, 0x61, 0x62] 4 4 = 2"
  by code_simp

end
