(* ===== verification/Hexdump.thy ===== *)
theory Hexdump
  imports Py_Text Align
begin

text \<open>
  The hexadecimal views of \<open>utils.py\<close>: \<open>hexdump\<close> and its variants as the text they return
  with \<open>dump=True\<close>, and \<open>hexdiff_str\<close> over the alignment of \<open>_backtrack\<close>. \<open>None\<close> is a Python
  \<open>IndexError\<close>. The opcodes of \<open>difflib.SequenceMatcher\<close>, which the source takes from a
  library, are an argument. Line widths are positive (\<open>range\<close> refuses a step of zero).
\<close>

section \<open>Dumps\<close>

definition upper :: "char \<Rightarrow> char" where
  "upper c = (if 97 \<le> (of_char c :: nat) \<and> of_char c \<le> (122 :: nat) then char_of (of_char c - (32 :: nat)) else c)"

definition hex02X :: "byte \<Rightarrow> string" where
  "hex02X b = map upper (hex_str 2 (unat b))"

definition sane :: "bytes \<Rightarrow> string" where
  "sane x = map (\<lambda>j. if 32 \<le> unat j \<and> unat j < 127 then char_of (unat j) else CHR ''.'') x"

definition hexdump_line :: "bytes \<Rightarrow> nat \<Rightarrow> nat \<Rightarrow> string" where
  "hexdump_line x width i =
     (let part = take width (drop i x) in
      hex_str 4 i @ ''  '' @ concat (map (\<lambda>b. hex02X b @ '' '') part)
      @ concat (replicate (width - length part) ''   '') @ '' '' @ sane part)"

function range_step :: "nat \<Rightarrow> nat \<Rightarrow> nat \<Rightarrow> nat list" where
  "range_step i n step = (if i < n \<and> 0 < step then i # range_step (i + step) n step else [])"
  by pat_completeness auto
termination
  by (relation "measure (\<lambda>(i, n, step). n - i)") auto

declare range_step.simps [simp del]

definition hexdump_lines :: "bytes \<Rightarrow> nat \<Rightarrow> string list" where
  "hexdump_lines x width = map (hexdump_line x width) (range_step 0 (length x) width)"

definition hexdump :: "bytes \<Rightarrow> string" where
  "hexdump p = py_join [CHR 0x0A] (hexdump_lines p 16)"

definition hexdump_str :: "bytes \<Rightarrow> nat \<Rightarrow> string" where
  "hexdump_str p width =
     (let s = concat (map (\<lambda>line. line @ [CHR 0x0A]) (hexdump_lines p width))
      in if s = [] then [CHR 0x0A] else s)"

definition chexdump :: "bytes \<Rightarrow> string" where
  "chexdump p = py_join '', '' (map (\<lambda>b. ''0x'' @ hex_str 2 (unat b)) p)"

definition hexstr :: "bytes \<Rightarrow> bool \<Rightarrow> bool \<Rightarrow> string" where
  "hexstr p onlyasc onlyhex =
     py_join ''  '' ((if onlyasc then [] else [py_join '' '' (map hex02X p)])
       @ (if onlyhex then [] else [sane p]))"

definition linehexdump :: "bytes \<Rightarrow> bool \<Rightarrow> bool \<Rightarrow> string" where
  "linehexdump p onlyasc onlyhex = hexstr p onlyasc onlyhex"

definition repr_hex :: "bytes \<Rightarrow> string" where
  "repr_hex s = concat (map (\<lambda>x. hex_str 2 (unat x)) s)"

section \<open>Alignments\<close>

datatype op_typ = Op_delete | Op_insert | Op_equal | Op_replace

type_synonym opcode = "op_typ \<times> nat \<times> nat \<times> nat \<times> nat"

datatype diff_algo = Wagnerfischer | Difflib | Unknown_algo

definition slice :: "bytes \<Rightarrow> nat \<Rightarrow> nat \<Rightarrow> bytes list" where
  "slice xb a b = map (\<lambda>c. [c]) (drop a (take b xb))"

fun difflib_pairs :: "bytes \<Rightarrow> bytes \<Rightarrow> opcode list \<Rightarrow> bytes list \<times> bytes list" where
  "difflib_pairs xb yb [] = ([], [])"
| "difflib_pairs xb yb ((typ, x0, x1, y0, y1) # ops) =
     (let (bx, by) = difflib_pairs xb yb ops in
      case typ of
        Op_delete \<Rightarrow> (slice xb x0 x1 @ bx, replicate (x1 - x0) [] @ by)
      | Op_insert \<Rightarrow> (replicate (y1 - y0) [] @ bx, slice yb y0 y1 @ by)
      | _ \<Rightarrow> (slice xb x0 x1 @ bx, slice yb y0 y1 @ by))"

definition pad_to :: "nat \<Rightarrow> bytes list \<Rightarrow> bytes list" where
  "pad_to n bs = bs @ replicate (n - length bs) []"

definition backtrack ::
  "(bool \<Rightarrow> opcode list) \<Rightarrow> bytes \<Rightarrow> bytes \<Rightarrow> diff_algo option \<Rightarrow> bool \<Rightarrow> (bytes list \<times> bytes list) option" where
  "backtrack opcodes xb yb algo autojunk =
     (let complexity = length xb * length yb;
          (algo, autojunk) = (case algo of
              Some a \<Rightarrow> (a, autojunk)
            | None \<Rightarrow> if complexity < 10000000 then (Wagnerfischer, autojunk)
                      else (Difflib, autojunk \<or> 100000000 < complexity))
      in case algo of
           Wagnerfischer \<Rightarrow> Some (wagner_fischer (rev xb) (rev yb))
         | Difflib \<Rightarrow>
             (let (bx, by) = difflib_pairs xb yb (opcodes autojunk);
                  n = max (length bx) (length by)
              in Some (if autojunk then (pad_to n bx, pad_to n by) else (bx, by)))
         | Unknown_algo \<Rightarrow> None)"

section \<open>The side-by-side view\<close>

text \<open>\<open>"%04x " % n\<close>, the sign inside the width.\<close>

definition fmt04x :: "int \<Rightarrow> string" where
  "fmt04x n = (if n < 0 then ''-'' @ hex_str 3 (nat (- n)) else hex_str 4 (nat n)) @ '' ''"

text \<open>The inner loop that steps over absent octets: how many there are before the first.\<close>

fun lead :: "bytes list \<Rightarrow> nat option" where
  "lead [] = None"
| "lead (k # ks) = (if k \<noteq> [] then Some 0 else map_option Suc (lead ks))"

definition total :: "bytes list \<Rightarrow> nat" where
  "total line = sum_list (map length line)"

definition octet_cells :: "bytes list \<Rightarrow> nat \<Rightarrow> nat \<Rightarrow> string \<times> string" where
  "octet_cells line i limit =
     (let cell = (\<lambda>j. if i + j < limit then
              (if line ! j \<noteq> [] then (hex02X (hd (line ! j)) @ '' '', sane (line ! j)) else (''   '', '' ''))
            else (''   '', ''''));
          cells = map (\<lambda>j. case cell j of (a, b) \<Rightarrow> (a @ (if j = 7 then '' '' else ''''), b)) [0..<16]
      in (concat (map fst cells), concat (map snd cells)))"

definition hexdiff_row ::
  "bytes list \<Rightarrow> bytes list \<Rightarrow> nat \<Rightarrow> nat \<Rightarrow> nat \<Rightarrow> bool \<Rightarrow> bool \<Rightarrow> string option" where
  "hexdiff_row linex liney limit i y dox doy =
     (case (if dox then map_option (\<lambda>j. fmt04x (int y - int j)) (lead linex) else Some ''     '') of
        None \<Rightarrow> None
      | Some rx \<Rightarrow>
          (case (if doy then map_option (\<lambda>j. fmt04x (int y - int j)) (lead liney) else Some ''     '') of
             None \<Rightarrow> None
           | Some ry \<Rightarrow>
               (case octet_cells (if doy then liney else linex) i limit of
                  (row, cl) \<Rightarrow> Some (rx @ ry @ ''  '' @ row @ ''  '' @ cl @ [CHR 0x0A]))))"

function hexdiff_loop ::
  "bytes list \<Rightarrow> bytes list \<Rightarrow> nat \<Rightarrow> nat \<Rightarrow> bool \<Rightarrow> bool \<Rightarrow> string list option" where
  "hexdiff_loop bx by y i dox doy =
     (if length bx \<le> i then Some []
      else (let
        linex = take 16 (drop i bx); liney = take 16 (drop i by);
        xx = total linex; yy = total liney;
        (dox1, doy1) = (if dox \<and> xx = 0 then (False, True) else (dox, doy));
        doy2 = (if dox1 \<and> linex = liney then True else doy1);
        y2 = (if doy2 then y + yy else y)
      in case hexdiff_row linex liney (min (length bx) (length by)) i y dox1 doy2 of
           None \<Rightarrow> None
         | Some row \<Rightarrow> map_option ((#) row)
             (if doy2 \<or> yy = 0 then hexdiff_loop bx by y2 (i + 16) True False
              else hexdiff_loop bx by y2 i False True)))"
  by pat_completeness auto
termination
  by (relation "inv_image (less_than <*lex*> less_than)
      (\<lambda>(bx, by, y, i, dox, doy). (length bx - i, if doy then 0 else 1))")
    (auto split: if_splits)

declare hexdiff_loop.simps [simp del]

definition hexdiff_str ::
  "(bool \<Rightarrow> opcode list) \<Rightarrow> bytes \<Rightarrow> bytes \<Rightarrow> diff_algo option \<Rightarrow> bool \<Rightarrow> string option" where
  "hexdiff_str opcodes a b algo autojunk =
     (case backtrack opcodes a b algo autojunk of
        None \<Rightarrow> None
      | Some (bx, by) \<Rightarrow> map_option concat (hexdiff_loop bx by 0 0 True False))"

section \<open>The view is total\<close>

lemma lead_None: "lead line = None \<longleftrightarrow> total line = 0"
  by (induction line) (auto simp: total_def)

definition aligned :: "bytes list \<Rightarrow> bytes list \<Rightarrow> bool" where
  "aligned bx by \<longleftrightarrow> length bx = length by \<and> (\<forall>k < length bx. bx ! k \<noteq> [] \<or> by ! k \<noteq> [])"

lemma aligned_lines:
  assumes "aligned bx by" "i < length bx"
  shows "total (take 16 (drop i bx)) \<noteq> 0 \<or> total (take 16 (drop i by)) \<noteq> 0"
proof -
  have h: "hd (take 16 (drop i b)) = b ! i" "take 16 (drop i b) \<noteq> []" if "i < length b" for b :: "bytes list"
    using that by (simp_all add: hd_drop_conv_nth)
  have t: "total line \<noteq> 0" if "line \<noteq> []" "hd line \<noteq> []" for line
    using that by (cases line) (auto simp: total_def)
  show ?thesis
    using assms t [OF h(2) [of bx]] t [OF h(2) [of "by"]] h(1) [of bx] h(1) [of "by"] by (auto simp: aligned_def)
qed

lemma hexdiff_row_Some:
  "(dox \<longrightarrow> total linex \<noteq> 0) \<Longrightarrow> (doy \<longrightarrow> total liney \<noteq> 0) \<Longrightarrow>
     \<exists>row. hexdiff_row linex liney limit i y dox doy = Some row"
  using lead_None [of linex] lead_None [of liney]
  by (auto simp: hexdiff_row_def split: option.split prod.split)

lemma hexdiff_loop_total:
  assumes "aligned bx by" "dox \<noteq> doy" "doy \<Longrightarrow> total (take 16 (drop i by)) \<noteq> 0"
  shows "hexdiff_loop bx by y i dox doy \<noteq> None"
  using assms
proof (induction bx "by" y i dox doy rule: hexdiff_loop.induct)
  case (1 bx "by" y i dox doy)
  show ?case
  proof (cases "length bx \<le> i")
    case True
    then show ?thesis by (simp add: hexdiff_loop.simps [of bx "by" y i])
  next
    case False
    define linex liney where "linex = take 16 (drop i bx)" and "liney = take 16 (drop i by)"
    have some: "total linex \<noteq> 0 \<or> total liney \<noteq> 0"
      using aligned_lines [OF "1.prems"(1)] False by (simp add: linex_def liney_def)
    define dox1 doy1 where "dox1 = (dox \<and> total linex \<noteq> 0)" and "doy1 = (doy \<or> dox \<and> total linex = 0)"
    define doy2 where "doy2 = (doy1 \<or> dox1 \<and> linex = liney)"
    have f: "(if dox \<and> total linex = 0 then (False, True) else (dox, doy)) = (dox1, doy1)"
      "(if dox1 \<and> linex = liney then True else doy1) = doy2"
      using "1.prems"(2) by (auto simp: dox1_def doy1_def doy2_def)
    have "dox1 \<longrightarrow> total linex \<noteq> 0" "doy2 \<longrightarrow> total liney \<noteq> 0"
      using "1.prems"(2,3) some by (auto simp: dox1_def doy1_def doy2_def liney_def)
    then obtain row where row: "hexdiff_row linex liney (min (length bx) (length by)) i y dox1 doy2 = Some row"
      using hexdiff_row_Some by blast
    let ?y = "if doy2 then y + total liney else y"
    have next1: "hexdiff_loop bx by ?y (i + 16) True False \<noteq> None" if "doy2 \<or> total liney = 0"
      using "1.IH"(1) [OF False linex_def liney_def refl refl f(1) [symmetric] refl _ refl row] that "1.prems"(1) f(2)
      by simp
    have next2: "hexdiff_loop bx by ?y i False True \<noteq> None" if "\<not> (doy2 \<or> total liney = 0)"
      using "1.IH"(2) [OF False linex_def liney_def refl refl f(1) [symmetric] refl _ refl row] that "1.prems"(1) f(2)
      by (simp add: liney_def)
    show ?thesis
      unfolding hexdiff_loop.simps [of bx "by" y i dox doy] Let_def linex_def [symmetric] liney_def [symmetric] f prod.case
      using False row next1 next2 by (simp add: f)
  qed
qed

section \<open>Properties\<close>

text \<open>\<open>hexdiff_str\<close> of two octet strings by edit distance returns a view: its loop ends and
  no access to a line is out of range, whatever the two strings are, and it does so by
  default whenever the product of the lengths is below ten million.\<close>

lemma hexdiff_returns:
  assumes "algo = Some Wagnerfischer \<or> algo = None \<and> length a * length b < 10000000"
  shows "\<exists>s. hexdiff_str opcodes a b algo autojunk = Some s"
proof -
  obtain bx "by" where w: "wagner_fischer (rev a) (rev b) = (bx, by)" by fastforce
  have "aligned bx by" using wagner_fischer_aligned [OF w] by (auto simp: aligned_def)
  then have "hexdiff_loop bx by 0 0 True False \<noteq> None" by (rule hexdiff_loop_total) simp_all
  moreover have "backtrack opcodes a b algo autojunk = Some (bx, by)"
    using assms w by (auto simp: backtrack_def Let_def)
  ultimately show ?thesis by (auto simp: hexdiff_str_def)
qed

theorem hexdiff_returns_witness:
  "\<exists>s. hexdiff_str (\<lambda>_. []) [1, 2] [2] None False = Some s"
  by (rule hexdiff_returns) simp

text \<open>by \<open>difflib\<close>, a block of one octet replaced by three gives lists of different lengths,
  and the view leaves the last two octets out.\<close>

lemma hexdiff_difflib_drops:
  "backtrack (\<lambda>_. [(Op_replace, 0, 1, 0, 3)]) [1] [2, 3, 4] (Some Difflib) False = Some ([[1]], [[2], [3], [4]]) \<and>
   hexdiff_str (\<lambda>_. [(Op_replace, 0, 1, 0, 3)]) [1] [2, 3, 4] (Some Difflib) False
   = hexdiff_str (\<lambda>_. [(Op_replace, 0, 1, 0, 1)]) [1] [2] (Some Difflib) False"
  by code_simp

end
