(* ===== verification/Py_Socket6.thy ===== *)
theory Py_Socket6
  imports Py_Socket
begin

text \<open>
  \<open>socket.inet_pton(AF_INET6, _)\<close> and \<open>socket.inet_ntop(AF_INET6, _)\<close> as the C library gives
  them. The text is read as the words between its colons: an empty word inside is the
  elision \<open>::\<close>, written as two empty words at either end; the last word may be a dotted IPv4
  address. Writing elides the first longest run of two or more zero words, and writes the
  last four octets dotted when everything before them is zero, or zero up to \<open>ffff\<close>.
  \<open>None\<close> is OSError.
\<close>

abbreviation colon :: char where "colon \<equiv> CHR '':''"

section \<open>Reading\<close>

definition pton6_group :: "string \<Rightarrow> bytes option" where
  "pton6_group w =
     (if w = [] \<or> 4 < length w then None
      else (case digits_while 16 0 w of
              (v, []) \<Rightarrow> Some (to_be 2 v)
            | (v, _ # _) \<Rightarrow> None))"

fun pton6_groups :: "bool \<Rightarrow> string list \<Rightarrow> bytes option" where
  "pton6_groups v4 [] = Some []"
| "pton6_groups v4 (w # ws) =
     (if v4 \<and> ws = [] \<and> CHR ''.'' \<in> set w then inet_pton4 w
      else (case pton6_group w of
              None \<Rightarrow> None
            | Some b \<Rightarrow> map_option (\<lambda>r. b @ r) (pton6_groups v4 ws)))"

text \<open>The words with a doubled empty word at either end made one.\<close>

definition trim_ends :: "string list \<Rightarrow> string list option" where
  "trim_ends ws =
     (let front = (if 3 \<le> length ws \<and> ws ! 0 = [] then (if ws ! 1 = [] then Some (tl ws) else None) else Some ws)
      in case front of
           None \<Rightarrow> None
         | Some vs \<Rightarrow>
             if 2 \<le> length vs \<and> last vs = [] then (if last (butlast vs) = [] then Some (butlast vs) else None)
             else Some vs)"

definition inet_pton6 :: "string \<Rightarrow> bytes option" where
  "inet_pton6 s =
     (case py_split colon s of
        [] \<Rightarrow> None | [_] \<Rightarrow> None | [_, _] \<Rightarrow> None
      | ws \<Rightarrow>
          (case trim_ends ws of
             None \<Rightarrow> None
           | Some vs \<Rightarrow>
               if [] \<in> set vs then
                 (let l = takeWhile (\<lambda>w. w \<noteq> []) vs; r = tl (dropWhile (\<lambda>w. w \<noteq> []) vs) in
                  case (pton6_groups False l, pton6_groups True r) of
                    (Some a, Some b) \<Rightarrow>
                      if length a + length b \<le> 14
                      then Some (a @ replicate (16 - length a - length b) 0 @ b) else None
                  | _ \<Rightarrow> None)
               else (case pton6_groups True vs of
                       Some a \<Rightarrow> if length a = 16 then Some a else None
                     | None \<Rightarrow> None)))"

section \<open>Writing\<close>

fun words16 :: "bytes \<Rightarrow> nat list" where
  "words16 (a # b # r) = (unat a * 256 + unat b) # words16 r"
| "words16 _ = []"

text \<open>The length of the run of zero words at the front, and the first longest run.\<close>

fun zero_run :: "nat list \<Rightarrow> nat" where
  "zero_run (0 # ws) = Suc (zero_run ws)"
| "zero_run _ = 0"

fun best_run :: "nat \<Rightarrow> nat list \<Rightarrow> nat \<times> nat" where
  "best_run i [] = (i, 0)"
| "best_run i (w # ws) =
     (let k = zero_run (w # ws); (b, l) = best_run (Suc i) ws in if l \<le> k then (i, k) else (b, l))"

definition hex_words :: "nat list \<Rightarrow> string list" where
  "hex_words ws = map (numeral_str 16) ws"

definition join6 :: "string list \<Rightarrow> string list \<Rightarrow> string" where
  "join6 l r = py_join [colon] ((if l = [] then [[]] else l) @ [[]] @ (if r = [] then [[]] else r))"

definition inet_ntop6 :: "bytes \<Rightarrow> string" where
  "inet_ntop6 b =
     (let ws = words16 b; (s, n) = best_run 0 ws in
      if n < 2 then py_join [colon] (hex_words ws)
      else if s = 0 \<and> (n = 6 \<or> n = 5 \<and> ws ! 5 = 0xFFFF)
      then join6 [] (hex_words (drop n (take 6 ws)) @ [inet_ntoa (drop 12 b)])
      else join6 (hex_words (take s ws)) (hex_words (drop (s + n) ws)))"

section \<open>Round trip\<close>

lemma words16_length: "length (words16 b) = length b div 2"
  by (induction b rule: words16.induct) auto

lemma words16_less: "w \<in> set (words16 b) \<Longrightarrow> w < 65536"
proof (induction b rule: words16.induct)
  case (1 a b r)
  have "unat a * 256 + unat b < 65536" using byte_less [of a] byte_less [of b] by linarith
  with 1 show ?case by auto
qed auto

definition words_bytes :: "nat list \<Rightarrow> bytes" where
  "words_bytes ws = concat (map (to_be 2) ws)"

lemma words_bytes_simps [simp]:
  "words_bytes [] = []" "words_bytes (w # ws) = to_be 2 w @ words_bytes ws"
  "words_bytes (a @ b) = words_bytes a @ words_bytes b" "length (words_bytes ws) = 2 * length ws"
  by (induction ws) (simp_all add: words_bytes_def)

lemma to_be_2: "to_be 2 v = [of_nat (v div 256 mod 256), of_nat (v mod 256)]"
  by (simp add: numeral_2_eq_2)

lemma words_bytes_words16: "even (length b) \<Longrightarrow> words_bytes (words16 b) = b"
  by (induction b rule: words16.induct) (simp_all add: to_be_2)

lemma words_bytes_zeros: "words_bytes (replicate n 0) = replicate (2 * n) 0"
  by (induction n) (simp_all add: to_be_2)

lemma pton6_group_hex: "w < 65536 \<Longrightarrow> pton6_group (numeral_str 16 w) = Some (to_be 2 w)"
  using length_numeral_str [of 16 w 3] digits_while_numeral [of 16 0 w "[]"]
  by (simp add: pton6_group_def)

lemma hex_word_chars: "CHR ''.'' \<notin> set (numeral_str 16 w)" "colon \<notin> set (numeral_str 16 w)"
  by (rule digit_char_not_in_numeral; simp)+

lemma pton6_groups_hex:
  "\<forall>w\<in>set ws. w < 65536 \<Longrightarrow> pton6_groups v4 (hex_words ws) = Some (words_bytes ws)"
  by (induction ws) (auto simp: hex_words_def pton6_group_hex hex_word_chars)

lemma inet_ntoa_chars:
  "length q = 4 \<Longrightarrow> CHR ''.'' \<in> set (inet_ntoa q)" "colon \<notin> set (inet_ntoa q)" "length q = 4 \<Longrightarrow> inet_ntoa q \<noteq> []"
  using set_py_join [of "''.''" "map (\<lambda>c. dec_str (unat c)) q"]
  by (auto simp: inet_ntoa_def length_4_conv)

lemma pton6_groups_v4:
  "\<forall>w\<in>set ws. w < 65536 \<Longrightarrow> length q = 4 \<Longrightarrow>
     pton6_groups True (hex_words ws @ [inet_ntoa q]) = Some (words_bytes ws @ q)"
  by (induction ws) (auto simp: hex_words_def pton6_group_hex hex_word_chars inet_ntoa_chars inet_pton4_ntoa)

lemma trim_ends_elided:
  assumes "[] \<notin> set l" "[] \<notin> set r"
  shows "trim_ends ((if l = [] then [[]] else l) @ [[]] @ (if r = [] then [[]] else r)) = Some (l @ [[]] @ r)"
proof -
  have r: "(if 2 \<le> length vs \<and> last vs = [] then (if last (butlast vs) = [] then Some (butlast vs) else None) else Some vs)
      = Some (l @ [[]] @ r)" if "vs = l @ [[]] @ (if r = [] then [[]] else r)" for vs
    using that assms(2) by (cases r rule: rev_cases) (auto simp: butlast_append)
  have f: "(if 3 \<le> length ws \<and> ws ! 0 = [] then (if ws ! 1 = [] then Some (tl ws) else None) else Some ws) =
      Some (l @ [[]] @ (if r = [] then [[]] else r))"
    if "ws = (if l = [] then [[]] else l) @ [[]] @ (if r = [] then [[]] else r)" for ws
    using that assms(1) by (cases l; cases r) auto
  show ?thesis unfolding trim_ends_def Let_def f [OF refl] option.case by (rule r) (rule refl)
qed

lemma trim_ends_id: "[] \<notin> set ws \<Longrightarrow> trim_ends ws = Some ws"
proof -
  assume n: "[] \<notin> set ws"
  then have "ws ! 0 \<noteq> []" "last ws \<noteq> []" if "ws \<noteq> []"
    using that last_in_set [of ws] nth_mem [of 0 ws] by (metis length_greater_0_conv)+
  then show ?thesis by (cases "ws = []") (auto simp: trim_ends_def Let_def)
qed

lemma split_at_empty:
  "[] \<notin> set l \<Longrightarrow> takeWhile (\<lambda>w. w \<noteq> []) (l @ [] # r) = l \<and> tl (dropWhile (\<lambda>w. w \<noteq> []) (l @ [] # r)) = r"
  by (induction l) auto

lemma inet_pton6_join6:
  assumes "\<forall>w\<in>set l \<union> set r. w \<noteq> [] \<and> colon \<notin> set w"
    "pton6_groups False l = Some a" "pton6_groups True r = Some b" "length a + length b \<le> 14"
  shows "inet_pton6 (join6 l r) = Some (a @ replicate (16 - length a - length b) 0 @ b)"
proof -
  let ?ws = "(if l = [] then [[]] else l) @ [[]] @ (if r = [] then [[]] else r)"
  have s: "py_split colon (join6 l r) = ?ws"
    unfolding join6_def using assms(1) by (intro py_split_join) (auto split: if_splits)
  have n: "3 \<le> length ?ws" by (cases l; cases r) auto
  then obtain x y z rest where w: "?ws = x # y # z # rest" by (rule length_ge_3E)
  have ne: "[] \<notin> set l" "[] \<notin> set r" using assms(1) by auto
  have "takeWhile (\<lambda>w. w \<noteq> []) (l @ [[]] @ r) = l" "tl (dropWhile (\<lambda>w. w \<noteq> []) (l @ [[]] @ r)) = r"
    using split_at_empty [OF ne(1), of r] by simp_all
  with assms(2-4) show ?thesis
    unfolding inet_pton6_def s w list.case trim_ends_elided [OF ne, unfolded w] option.case Let_def by simp
qed

text \<open>The run found is a run of zero words.\<close>

lemma zero_run_take: "zero_run ws \<le> length ws \<and> take (zero_run ws) ws = replicate (zero_run ws) 0"
  by (induction ws rule: zero_run.induct) auto

lemma best_run_spec:
  "best_run i ws = (s, n) \<Longrightarrow> i \<le> s \<and> s - i + n \<le> length ws \<and> take n (drop (s - i) ws) = replicate n 0"
proof (induction i ws arbitrary: s n rule: best_run.induct)
  case (2 i w ws)
  obtain b l where bl: "best_run (Suc i) ws = (b, l)" by fastforce
  show ?case
  proof (cases "l \<le> zero_run (w # ws)")
    case True
    with 2 bl have "s = i" "n = zero_run (w # ws)" by (auto simp: Let_def)
    with zero_run_take [of "w # ws"] show ?thesis by simp
  next
    case False
    with "2.prems" bl have "s = b" "n = l" by (auto simp: Let_def)
    moreover have IH: "Suc i \<le> b" "b - Suc i + l \<le> length ws" "take l (drop (b - Suc i) ws) = replicate l 0"
      using "2.IH" [OF refl, of b l] bl by auto
    moreover have "b - i = Suc (b - Suc i)" using IH(1) by simp
    ultimately show ?thesis by simp
  qed
qed auto

lemma elided_words:
  assumes "best_run 0 ws = (s, n)"
  shows "ws = take s ws @ replicate n 0 @ drop (s + n) ws"
  using best_run_spec [OF assms] by (metis append_take_drop_id diff_zero drop_drop add.commute)

lemma hex_words_ok:
  "\<forall>w\<in>set (hex_words ws). w \<noteq> [] \<and> colon \<notin> set w"
  by (auto simp: hex_words_def hex_word_chars)

lemma inet_pton6_ntop6:
  assumes "length b = 16"
  shows "inet_pton6 (inet_ntop6 b) = Some b"
proof -
  define ws where "ws = words16 b"
  obtain s n where sn: "best_run 0 ws = (s, n)" by fastforce
  have ws: "length ws = 8" "\<forall>w\<in>set ws. w < 65536" "words_bytes ws = b"
    using assms words16_less by (auto simp: ws_def words16_length words_bytes_words16)
  note e = elided_words [OF sn]
  have l: "s + n \<le> 8" using best_run_spec [OF sn] ws(1) by simp
  consider (plain) "n < 2" | (v4) "2 \<le> n" "s = 0" "n = 6 \<or> n = 5 \<and> ws ! 5 = 0xFFFF"
    | (elide) "2 \<le> n" "\<not> (s = 0 \<and> (n = 6 \<or> n = 5 \<and> ws ! 5 = 0xFFFF))" by linarith
  then show ?thesis
  proof cases
    case plain
    have "py_split colon (py_join [colon] (hex_words ws)) = hex_words ws"
      using ws(1) hex_words_ok [of ws] by (intro py_split_join) (auto simp: hex_words_def)
    moreover obtain x y z rest where "hex_words ws = x # y # z # rest"
      using ws(1) by (auto simp: hex_words_def numeral_eq_Suc length_Suc_conv)
    moreover have ne: "[] \<notin> set (hex_words ws)" using hex_words_ok [of ws] by auto
    moreover note trim_ends_id [OF ne]
    ultimately show ?thesis
      using plain sn ws pton6_groups_hex [of ws True] assms by (simp add: inet_ntop6_def inet_pton6_def ws_def [symmetric])
  next
    case v4
    let ?m = "drop n (take 6 ws)"
    have q: "length (drop 12 b) = 4" using assms by simp
    have m: "\<forall>w\<in>set ?m. w < 65536" using ws(2) by (meson in_set_dropD in_set_takeD)
    have "b = words_bytes (take 6 ws) @ words_bytes (drop 6 ws)"
      using ws(3) words_bytes_simps(3) [of "take 6 ws" "drop 6 ws"] by simp
    moreover have "length (words_bytes (take 6 ws)) = 12" using ws(1) by simp
    ultimately have b: "b = words_bytes (take 6 ws) @ drop 12 b" by (metis append_eq_conv_conj)
    have n: "5 \<le> n" "n \<le> 6" using v4 by auto
    have "take 6 ws = take n ws @ ?m" using n by (metis append_take_drop_id min.absorb1 take_take)
    also have "take n ws = replicate n 0" using best_run_spec [OF sn] v4(2) by simp
    finally have t: "words_bytes (take 6 ws) = replicate (2 * n) 0 @ words_bytes ?m"
      by (metis words_bytes_simps(3) words_bytes_zeros)
    have "inet_ntop6 b = join6 [] (hex_words ?m @ [inet_ntoa (drop 12 b)])"
      using v4 sn by (simp add: inet_ntop6_def ws_def [symmetric])
    moreover have "inet_pton6 (join6 [] (hex_words ?m @ [inet_ntoa (drop 12 b)])) =
        Some ([] @ replicate (16 - length ([] :: bytes) - length (words_bytes ?m @ drop 12 b)) 0 @ words_bytes ?m @ drop 12 b)"
      using hex_words_ok [of ?m] inet_ntoa_chars [of "drop 12 b"] q n ws(1)
      by (intro inet_pton6_join6) (auto simp: pton6_groups_v4 [OF m q])
    moreover have "16 - length ([] :: bytes) - length (words_bytes ?m @ drop 12 b) = 2 * n"
      using q n ws(1) by simp
    ultimately show ?thesis using b t by simp
  next
    case elide
    let ?l = "take s ws" and ?r = "drop (s + n) ws"
    have lr: "\<forall>w\<in>set ?l. w < 65536" "\<forall>w\<in>set ?r. w < 65536"
      using ws(2) by (meson in_set_dropD in_set_takeD)+
    have "inet_ntop6 b = join6 (hex_words ?l) (hex_words ?r)"
      using elide sn by (auto simp: inet_ntop6_def ws_def [symmetric])
    moreover have "inet_pton6 (join6 (hex_words ?l) (hex_words ?r)) =
        Some (words_bytes ?l @ replicate (16 - length (words_bytes ?l) - length (words_bytes ?r)) 0 @ words_bytes ?r)"
      using hex_words_ok [of ?l] hex_words_ok [of ?r] elide(1) l ws(1)
      by (intro inet_pton6_join6) (auto simp: pton6_groups_hex [OF lr(1)] pton6_groups_hex [OF lr(2)])
    moreover have "16 - length (words_bytes ?l) - length (words_bytes ?r) = 2 * n"
      using l ws(1) by simp
    moreover have "b = words_bytes ?l @ replicate (2 * n) 0 @ words_bytes ?r"
      using arg_cong [OF e, of words_bytes] ws(3) by (simp add: words_bytes_zeros)
    ultimately show ?thesis by simp
  qed
qed

lemma inet_pton6_length: "inet_pton6 s = Some b \<Longrightarrow> length b = 16"
  by (auto simp: inet_pton6_def Let_def split: list.splits option.splits if_splits)

end
