(* ===== verification/Addr4.thy ===== *)
theory Addr4
  imports Py_Socket
begin

text \<open>
  Octet strings, MAC and IPv4 addresses (\<open>utils.py\<close>): conversions between text, octets and
  integers, the bitwise helpers, prefixes and the multicast tests.
\<close>

section \<open>Octet strings\<close>

definition stror :: "bytes \<Rightarrow> bytes \<Rightarrow> bytes" where
  "stror s1 s2 = map2 (OR) s1 s2"

definition strxor :: "bytes \<Rightarrow> bytes \<Rightarrow> bytes" where
  "strxor s1 s2 = map2 (XOR) s1 s2"

definition strand :: "bytes \<Rightarrow> bytes \<Rightarrow> bytes" where
  "strand s1 s2 = map2 (AND) s1 s2"

text \<open>\<open>s[-off:]\<close> and \<open>s[:-off]\<close>, where \<open>-0\<close> is \<open>0\<close>.\<close>

definition strrot :: "bytes \<Rightarrow> int \<Rightarrow> bool \<Rightarrow> bytes res" where
  "strrot s1 count right =
     (if s1 = [] then Inl Zero_Division
      else (let off = nat (count mod int (length s1)) in
        if right then
          (if off = 0 then Inr (s1 @ []) else Inr (drop (length s1 - off) s1 @ take (length s1 - off) s1))
        else Inr (drop off s1 @ take off s1)))"

section \<open>MAC addresses\<close>

definition mac2str :: "string \<Rightarrow> bytes res" where
  "mac2str mac = rmap (\<lambda>x. case py_int 16 x of
       None \<Rightarrow> Inl Value_Error
     | Some n \<Rightarrow> if 0 \<le> n \<and> n < 256 then Inr (of_int n) else Inl Value_Error)
     (py_split (CHR '':'') mac)"

definition valid_mac :: "string \<Rightarrow> bool" where
  "valid_mac mac = (case mac2str mac of Inr s \<Rightarrow> length s = 6 | Inl _ \<Rightarrow> False)"

definition str2mac :: "bytes \<Rightarrow> string" where
  "str2mac s = butlast (concat (map (\<lambda>b. hex_str 2 (unat b) @ '':'') s))"

section \<open>IPv4 addresses\<close>

definition atol :: "string \<Rightarrow> nat res" where
  "atol x = (case inet_aton x of None \<Rightarrow> Inl Value_Error | Some ip \<Rightarrow> Inr (from_be ip))"

definition valid_ip :: "string \<Rightarrow> bool" where
  "valid_ip addr = (case atol addr of Inr _ \<Rightarrow> True | Inl _ \<Rightarrow> False)"

text \<open>\<open>str.isdigit\<close>: on Latin-1 text the decimal digits and the three superscripts.\<close>

definition isdigit :: "string \<Rightarrow> bool" where
  "isdigit s \<longleftrightarrow> s \<noteq> [] \<and>
     list_all (\<lambda>c. 48 \<le> (of_char c :: nat) \<and> of_char c \<le> (57 :: nat) \<or> of_char c \<in> {178, 179, 185 :: nat}) s"

definition net_mask_ok :: "string \<Rightarrow> int \<Rightarrow> bool res" where
  "net_mask_ok msk limit =
     (if \<not> isdigit msk then Inr False
      else (case py_int 10 msk of None \<Rightarrow> Inl Value_Error | Some m \<Rightarrow> Inr (0 \<le> m \<and> m \<le> limit)))"

definition split_slash :: "string \<Rightarrow> (string \<times> string) option" where
  "split_slash addr =
     (case py_split (CHR ''/'') addr of
        [] \<Rightarrow> None | [_] \<Rightarrow> None
      | ip # rest \<Rightarrow> Some (ip, py_join ''/'' rest))"

definition valid_net :: "string \<Rightarrow> bool res" where
  "valid_net addr =
     (case split_slash addr of
        Some (ip, msk) \<Rightarrow> if valid_ip ip then net_mask_ok msk 32 else Inr False
      | None \<Rightarrow> Inr (valid_ip addr))"

definition ltoa :: "int \<Rightarrow> string" where
  "ltoa x = inet_ntoa (to_be 4 (nat (x AND 0xFFFFFFFF)))"

definition itom :: "int \<Rightarrow> nat res" where
  "itom x = (if x < 0 then Inl Value_Error
     else Inr (drop_bit (nat x) 0xFFFFFFFF00000000 AND 0xFFFFFFFF))"

definition in4_cidr2mask :: "int \<Rightarrow> bytes res" where
  "in4_cidr2mask m =
     (if 32 < m \<or> m < 0 then Inl Scapy_Exception
      else Inr (strxor (replicate 4 0xFF) (to_be 4 (2 ^ (32 - nat m) - 1))))"

definition pton4 :: "string \<Rightarrow> bytes res" where
  "pton4 addr = (case inet_pton4 addr of None \<Rightarrow> Inl OSError | Some b \<Rightarrow> Inr b)"

definition in4_isincluded :: "string \<Rightarrow> string \<Rightarrow> int \<Rightarrow> bool res" where
  "in4_isincluded addr prefix m =
     rbind (pton4 addr) (\<lambda>temp.
     rbind (in4_cidr2mask m) (\<lambda>pref.
     rbind (pton4 prefix) (\<lambda>p. Inr (p = strand temp pref))))"

definition in4_ismaddr :: "string \<Rightarrow> bool res" where
  "in4_ismaddr addr = in4_isincluded addr ''224.0.0.0'' 4"

definition in4_ismlladdr :: "string \<Rightarrow> bool res" where
  "in4_ismlladdr addr = in4_isincluded addr ''224.0.0.0'' 24"

definition in4_ismlsaddr :: "string \<Rightarrow> bool res" where
  "in4_ismlsaddr addr = in4_isincluded addr ''239.0.0.0'' 8"

definition in4_ismgladdr :: "string \<Rightarrow> bool res" where
  "in4_ismgladdr addr =
     rbind (in4_isincluded addr ''224.0.0.0'' 4) (\<lambda>a.
     if \<not> a then Inr False
     else rbind (in4_isincluded addr ''224.0.0.0'' 24) (\<lambda>b.
       if b then Inr False
       else rbind (in4_isincluded addr ''239.0.0.0'' 8) (\<lambda>c. Inr (\<not> c))))"

definition in4_isaddrllallnodes :: "string \<Rightarrow> bool res" where
  "in4_isaddrllallnodes addr = rbind (pton4 ''224.0.0.1'') (\<lambda>a. rbind (pton4 addr) (\<lambda>b. Inr (a = b)))"

definition in4_getnsmac :: "bytes \<Rightarrow> string res" where
  "in4_getnsmac a =
     (if length a < 4 then Inl Index_Error
      else Inr (''01:00:5e:'' @ hex_str 2 (unat (a ! 1) AND 0x7F) @ '':'' @ hex_str 2 (unat (a ! 2))
             @ '':'' @ hex_str 2 (unat (a ! 3))))"

section \<open>Prefixes as integers\<close>

lemma strand_be: "length a = length b \<Longrightarrow> from_be (strand a b) = from_be a AND from_be b"
  and strxor_be: "length a = length b \<Longrightarrow> from_be (strxor a b) = from_be a XOR from_be b"
  and stror_be: "length a = length b \<Longrightarrow> from_be (stror a b) = from_be a OR from_be b"
  by (simp_all add: strand_def strxor_def stror_def from_be_bitops)

lemma length_bitops [simp]:
  "length (strand a b) = min (length a) (length b)" "length (strxor a b) = min (length a) (length b)"
  "length (stror a b) = min (length a) (length b)"
  by (simp_all add: strand_def strxor_def stror_def)

text \<open>The mask with \<open>m\<close> leading ones of \<open>w\<close> bits, and what masking keeps.\<close>

lemma from_be_ones: "from_be (replicate n 0xFF) = 256 ^ n - 1"
proof (induction n)
  case (Suc n)
  have "(1 :: nat) \<le> 256 ^ n" by simp
  with Suc show ?case by (simp add: from_be_Cons)
qed simp

definition leading_ones :: "nat \<Rightarrow> nat \<Rightarrow> bytes" where
  "leading_ones n m = strxor (replicate n 0xFF) (to_be n (2 ^ (8 * n - m) - 1))"

lemma length_leading_ones [simp]: "length (leading_ones n m) = n"
  by (simp add: leading_ones_def)

lemma mask_keeps:
  fixes x :: nat
  assumes "x < 2 ^ w" "m \<le> w"
  shows "x AND ((2 ^ w - 1) XOR (2 ^ (w - m) - 1)) = x div 2 ^ (w - m) * 2 ^ (w - m)"
proof -
  have x: "bit x i \<Longrightarrow> i < w" for i
    using assms(1) by (metis bit_take_bit_iff take_bit_nat_eq_self_iff)
  have "x AND (mask w XOR mask (w - m)) = push_bit (w - m) (drop_bit (w - m) x)"
    by (rule bit_eqI) (use x in \<open>auto simp: bit_simps\<close>)
  then show ?thesis by (simp add: mask_eq_exp_minus_1 push_bit_eq_mult drop_bit_eq_div)
qed

lemma leading_ones_and:
  assumes "length b = n" "m \<le> 8 * n"
  shows "from_be (strand b (leading_ones n m)) = from_be b div 2 ^ (8 * n - m) * 2 ^ (8 * n - m)"
proof -
  have p: "(256 :: nat) ^ n = 2 ^ (8 * n)" by (simp add: power_mult)
  have "(2 :: nat) ^ (8 * n - m) \<le> 256 ^ n" unfolding p by (rule power_increasing) auto
  then have "2 ^ (8 * n - m) - 1 < (256 :: nat) ^ n" by (rule less_le_trans [rotated]) simp
  then have "from_be (leading_ones n m) = (2 ^ (8 * n) - 1) XOR (2 ^ (8 * n - m) - 1)"
    by (simp add: leading_ones_def strxor_be from_be_ones p)
  with assms mask_keeps [of "from_be b" "8 * n" m] from_be_less [of b] show ?thesis
    by (simp add: strand_be leading_ones_def p)
qed

lemma from_be_inject: "length a = length b \<Longrightarrow> from_be a = from_be b \<longleftrightarrow> a = b"
  by (metis to_be_from_be)

lemma pton4_ntoa [simp]: "length b = 4 \<Longrightarrow> pton4 (inet_ntoa b) = Inr b"
  by (simp add: pton4_def inet_pton4_ntoa)

lemma pton4_length: "pton4 s = Inr b \<Longrightarrow> length b = 4"
  by (auto simp: pton4_def inet_pton4_def Let_def split: option.splits if_splits)

lemma in4_cidr2mask_ones: "0 \<le> m \<Longrightarrow> m \<le> 32 \<Longrightarrow> in4_cidr2mask m = Inr (leading_ones 4 (nat m))"
  by (simp add: in4_cidr2mask_def leading_ones_def)

lemma atol_ntoa: "length b = 4 \<Longrightarrow> atol (inet_ntoa b) = Inr (from_be b)"
  by (simp add: atol_def inet_aton_ntoa)

section \<open>Properties\<close>

text \<open>\<open>atol\<close> reads back what \<open>ltoa\<close> writes: the low 32 bits of any integer, so an unsigned
  32-bit integer is itself.\<close>

lemma atol_ltoa: "atol (ltoa x) = Inr (nat (x mod 2 ^ 32))"
proof -
  have "nat (x mod 2 ^ 32) < 256 ^ 4" by (simp add: nat_less_iff)
  then show ?thesis by (simp add: ltoa_def atol_ntoa and_masks)
qed

text \<open>\<open>in4_isincluded\<close> says whether the prefix is the address with all but its first \<open>m\<close>
  bits cleared; a length outside 0..32 raises.\<close>

lemma in4_isincluded_prefix:
  assumes "pton4 addr = Inr a" "pton4 prefix = Inr p"
  shows "in4_isincluded addr prefix m =
    (if 0 \<le> m \<and> m \<le> 32 then Inr (from_be p = from_be a div 2 ^ (32 - nat m) * 2 ^ (32 - nat m))
     else Inl Scapy_Exception)"
proof (cases "0 \<le> m \<and> m \<le> 32")
  case True
  have l: "length a = 4" "length p = 4" using assms pton4_length by auto
  have "p = strand a (leading_ones 4 (nat m)) \<longleftrightarrow> from_be p = from_be a div 2 ^ (32 - nat m) * 2 ^ (32 - nat m)"
    using l True leading_ones_and [of a 4 "nat m"] from_be_inject [of p "strand a (leading_ones 4 (nat m))"]
    by (simp add: nat_le_iff)
  with True assms show ?thesis by (simp add: in4_isincluded_def in4_cidr2mask_ones)
next
  case False
  with assms show ?thesis by (auto simp: in4_isincluded_def in4_cidr2mask_def)
qed

theorem in4_isincluded_prefix_witness:
  "in4_isincluded ''10.1.2.3'' ''10.0.0.0'' 8 = Inr True \<and> in4_isincluded ''10.1.2.3'' ''10.0.0.0'' 16 = Inr False"
proof -
  have "pton4 ''10.1.2.3'' = Inr [10, 1, 2, 3]" "pton4 ''10.0.0.0'' = Inr [10, 0, 0, 0]" by code_simp+
  from in4_isincluded_prefix [OF this] show ?thesis by (simp add: from_be_def)
qed

text \<open>\<open>mac2str\<close> reads back the text \<open>str2mac\<close> gives of any octets but none at all, and
  \<open>valid_mac\<close> accepts it exactly when there are six.\<close>

lemma mac2str_str2mac:
  assumes "b \<noteq> []"
  shows "mac2str (str2mac b) = Inr b \<and> valid_mac (str2mac b) = (length b = 6)"
proof -
  have j: "butlast (concat (map (\<lambda>x. f x @ '':'') b)) = py_join '':'' (map f b)" if "b \<noteq> []" for f :: "byte \<Rightarrow> string" and b
    using that
  proof (induction b rule: induct_list012)
    case (3 x y zs)
    then have "butlast (concat (map (\<lambda>x. f x @ '':'') (x # y # zs))) =
        f x @ '':'' @ butlast (concat (map (\<lambda>x. f x @ '':'') (y # zs)))"
      by (simp add: butlast_append)
    with 3 show ?case by simp
  qed (simp_all add: butlast_append)
  have "py_split (CHR '':'') (str2mac b) = map (\<lambda>x. hex_str 2 (unat x)) b"
    using assms unfolding str2mac_def j [OF assms] by (intro py_split_join) auto
  then have "mac2str (str2mac b) = Inr b"
    by (simp add: mac2str_def) (subst rmap_Inr_iff, simp add: list_all2_conv_all_nth)
  then show ?thesis by (simp add: valid_mac_def)
qed

theorem mac2str_str2mac_witness:
  "str2mac [0, 0x1B, 0xFF] = ''00:1b:ff'' \<and> mac2str (str2mac [0, 0x1B, 0xFF]) = Inr [0, 0x1B, 0xFF]"
proof -
  have "str2mac [0, 0x1B, 0xFF] = ''00:1b:ff''" by code_simp
  with mac2str_str2mac [of "[0, 0x1B, 0xFF]"] show ?thesis by simp
qed

text \<open>Rotating one way and back by the same count is the identity, for any count.\<close>

lemma strrot_inverse:
  assumes "s \<noteq> []" "strrot s n right = Inr t"
  shows "strrot t n (\<not> right) = Inr s"
proof -
  have "length t = length s" using assms by (auto simp: strrot_def Let_def split: if_splits)
  moreover have "nat (n mod int (length s)) < length s"
    using assms(1) by (simp add: nat_less_iff)
  ultimately show ?thesis
    using assms by (auto simp: strrot_def Let_def split: if_splits)
qed

text \<open>\<open>valid_net\<close> raises on a mask that is a superscript digit: \<open>str.isdigit\<close> accepts it and
  \<open>int\<close> does not.\<close>

lemma valid_net_raises: "valid_net (''10.0.0.0/'' @ [CHR 0xB2]) = Inl Value_Error"
  by code_simp

end
