(* ===== verification/In6.thy ===== *)
theory In6
  imports Py_Socket6 Addr4 "HOL-Library.Multiset"
begin

text \<open>
  IPv6 address arithmetic (\<open>utils6.py\<close>). Addresses are printable strings or their 16 octets.
  \<open>list.sort\<close> with a comparison function is an argument where the comparison is not an order
  (its result then depends on the sorting algorithm) and a stable insertion sort where it
  is. Hashes and the clock are arguments. The vendor lookup is left out.
\<close>

section \<open>Conversions\<close>

definition pton6 :: "string \<Rightarrow> bytes res" where
  "pton6 addr = (case inet_pton6 addr of None \<Rightarrow> Inl OSError | Some b \<Rightarrow> Inr b)"

abbreviation ntop6 :: "bytes \<Rightarrow> string" where
  "ntop6 \<equiv> inet_ntop6"

definition IPV6_ADDR_UNICAST :: nat where "IPV6_ADDR_UNICAST = 0x01"
definition IPV6_ADDR_MULTICAST :: nat where "IPV6_ADDR_MULTICAST = 0x02"
definition IPV6_ADDR_LOOPBACK :: nat where "IPV6_ADDR_LOOPBACK = 0x10"
definition IPV6_ADDR_GLOBAL :: nat where "IPV6_ADDR_GLOBAL = 0x00"
definition IPV6_ADDR_LINKLOCAL :: nat where "IPV6_ADDR_LINKLOCAL = 0x20"
definition IPV6_ADDR_SITELOCAL :: nat where "IPV6_ADDR_SITELOCAL = 0x40"
definition IPV6_ADDR_6TO4 :: nat where "IPV6_ADDR_6TO4 = 0x0100"
definition IPV6_ADDR_UNSPECIFIED :: nat where "IPV6_ADDR_UNSPECIFIED = 0x10000"

lemmas scope_defs = IPV6_ADDR_UNICAST_def IPV6_ADDR_MULTICAST_def IPV6_ADDR_LOOPBACK_def
  IPV6_ADDR_GLOBAL_def IPV6_ADDR_LINKLOCAL_def IPV6_ADDR_SITELOCAL_def IPV6_ADDR_6TO4_def
  IPV6_ADDR_UNSPECIFIED_def

definition in6_or :: "bytes \<Rightarrow> bytes \<Rightarrow> bytes" where "in6_or a1 a2 = map2 (OR) a1 a2"
definition in6_and :: "bytes \<Rightarrow> bytes \<Rightarrow> bytes" where "in6_and a1 a2 = map2 (AND) a1 a2"
definition in6_xor :: "bytes \<Rightarrow> bytes \<Rightarrow> bytes" where "in6_xor a1 a2 = map2 (XOR) a1 a2"

definition in6_cidr2mask :: "int \<Rightarrow> bytes res" where
  "in6_cidr2mask m =
     (if 128 < m \<or> m < 0 then Inl Scapy_Exception
      else Inr (to_be 16 (push_bit (128 - nat m) (push_bit (nat m) 1 - 1))))"

fun first_zero_bit :: "nat \<Rightarrow> nat \<Rightarrow> nat list \<Rightarrow> nat" where
  "first_zero_bit v d [] = d"
| "first_zero_bit v d (i # is) = (if v AND push_bit (127 - i) 1 = 0 then i else first_zero_bit v d is)"

definition in6_mask2cidr :: "bytes \<Rightarrow> nat res" where
  "in6_mask2cidr m =
     (if length m \<noteq> 16 then Inl Scapy_Exception
      else Inr (first_zero_bit (from_be m) 128 [0..<128]))"

definition in6_ptop :: "string \<Rightarrow> string res" where
  "in6_ptop s = rbind (pton6 s) (\<lambda>b. Inr (ntop6 b))"

definition in6_isvalid :: "string \<Rightarrow> bool" where
  "in6_isvalid address = (case pton6 address of Inr _ \<Rightarrow> True | Inl _ \<Rightarrow> False)"

definition valid_ip6 :: "string \<Rightarrow> bool" where
  "valid_ip6 addr = (inet_pton6 addr \<noteq> None)"

definition valid_net6 :: "string \<Rightarrow> bool res" where
  "valid_net6 addr =
     (case split_slash addr of
        None \<Rightarrow> Inr (valid_ip6 addr)
      | Some (ip, m) \<Rightarrow> if valid_ip6 ip then net_mask_ok m 128 else Inr False)"

section \<open>Prefix tests\<close>

definition in6_isincluded :: "string \<Rightarrow> string \<Rightarrow> int \<Rightarrow> bool res" where
  "in6_isincluded addr prefix plen =
     rbind (pton6 prefix) (\<lambda>p. rbind (pton6 addr) (\<lambda>a. rbind (in6_cidr2mask plen) (\<lambda>m.
       Inr (p = in6_and a m))))"

definition in6_isllsnmaddr :: "string \<Rightarrow> bool res" where
  "in6_isllsnmaddr s = in6_isincluded s ''ff02::1:ff00:0'' 104"
definition in6_isdocaddr :: "string \<Rightarrow> bool res" where
  "in6_isdocaddr s = in6_isincluded s ''2001:db8::'' 32"
definition in6_islladdr :: "string \<Rightarrow> bool res" where
  "in6_islladdr s = in6_isincluded s ''fe80::'' 10"
definition in6_issladdr :: "string \<Rightarrow> bool res" where
  "in6_issladdr s = in6_isincluded s ''fec0::'' 10"
definition in6_isuladdr :: "string \<Rightarrow> bool res" where
  "in6_isuladdr s = in6_isincluded s ''fc00::'' 7"
definition in6_isgladdr :: "string \<Rightarrow> bool res" where
  "in6_isgladdr s = in6_isincluded s ''2000::'' 3"
definition in6_ismaddr :: "string \<Rightarrow> bool res" where
  "in6_ismaddr s = in6_isincluded s ''ff00::'' 8"
definition in6_ismnladdr :: "string \<Rightarrow> bool res" where
  "in6_ismnladdr s = in6_isincluded s ''ff01::'' 16"
definition in6_ismgladdr :: "string \<Rightarrow> bool res" where
  "in6_ismgladdr s = in6_isincluded s ''ff0e::'' 16"
definition in6_ismlladdr :: "string \<Rightarrow> bool res" where
  "in6_ismlladdr s = in6_isincluded s ''ff02::'' 16"
definition in6_ismsladdr :: "string \<Rightarrow> bool res" where
  "in6_ismsladdr s = in6_isincluded s ''ff05::'' 16"

definition in6_isaddrllallnodes :: "string \<Rightarrow> bool res" where
  "in6_isaddrllallnodes s = rbind (pton6 s) (\<lambda>a. rbind (pton6 ''ff02::1'') (\<lambda>b. Inr (a = b)))"
definition in6_isaddrllallservers :: "string \<Rightarrow> bool res" where
  "in6_isaddrllallservers s = rbind (pton6 s) (\<lambda>a. rbind (pton6 ''ff02::2'') (\<lambda>b. Inr (a = b)))"

text \<open>\<open>a or b\<close> and the chain of \<open>if\<close>s, where each test may raise.\<close>

definition orelse :: "bool res \<Rightarrow> bool res \<Rightarrow> bool res" where
  "orelse a b = rbind a (\<lambda>x. if x then Inr True else b)"

definition test_then :: "bool res \<Rightarrow> 'a res \<Rightarrow> 'a res \<Rightarrow> 'a res" where
  "test_then c t e = rbind c (\<lambda>x. if x then t else e)"

definition in6_getscope :: "string \<Rightarrow> int res" where
  "in6_getscope addr =
     test_then (orelse (in6_isgladdr addr) (in6_isuladdr addr)) (Inr (int IPV6_ADDR_GLOBAL))
    (test_then (in6_islladdr addr) (Inr (int IPV6_ADDR_LINKLOCAL))
    (test_then (in6_issladdr addr) (Inr (int IPV6_ADDR_SITELOCAL))
    (test_then (in6_ismaddr addr)
       (test_then (in6_ismgladdr addr) (Inr (int IPV6_ADDR_GLOBAL))
       (test_then (in6_ismlladdr addr) (Inr (int IPV6_ADDR_LINKLOCAL))
       (test_then (in6_ismsladdr addr) (Inr (int IPV6_ADDR_SITELOCAL))
       (test_then (in6_ismnladdr addr) (Inr (int IPV6_ADDR_LOOPBACK)) (Inr (-1))))))
     (if addr = ''::1'' then Inr (int IPV6_ADDR_LOOPBACK) else Inr (-1)))))"

definition in6_getAddrType :: "string \<Rightarrow> nat res" where
  "in6_getAddrType addr = rbind (pton6 addr) (\<lambda>naddr. Inr (
     if unat (naddr ! 0) AND 0xE0 = 0x20 then
       (IPV6_ADDR_UNICAST OR IPV6_ADDR_GLOBAL) OR (if take 2 naddr = [0x20, 0x02] then IPV6_ADDR_6TO4 else 0)
     else if unat (naddr ! 0) = 0xFF then
       (let scope = unat (naddr ! 1) AND 0x0F in
        IPV6_ADDR_MULTICAST OR
          (if scope = 0x1 then IPV6_ADDR_LOOPBACK
           else if scope = 0x2 then IPV6_ADDR_LINKLOCAL
           else if scope = 0x5 then IPV6_ADDR_SITELOCAL else IPV6_ADDR_GLOBAL))
     else if unat (naddr ! 0) = 0xFE \<and> unat (naddr ! 1) AND 0xC0 = 0x80 then
       IPV6_ADDR_UNICAST OR IPV6_ADDR_LINKLOCAL
     else if naddr = replicate 15 0 @ [1] then IPV6_ADDR_LOOPBACK
     else if naddr = replicate 16 0 then IPV6_ADDR_UNSPECIFIED
     else IPV6_ADDR_GLOBAL OR IPV6_ADDR_UNICAST))"

fun bit_length :: "nat \<Rightarrow> nat" where
  "bit_length n = (if n = 0 then 0 else Suc (bit_length (n div 2)))"

declare bit_length.simps [simp del]

definition in6_get_common_plen :: "string \<Rightarrow> string \<Rightarrow> int res" where
  "in6_get_common_plen a b = rbind (pton6 a) (\<lambda>x. rbind (pton6 b) (\<lambda>y.
     Inr (128 - int (bit_length (from_be x XOR from_be y)))))"

section \<open>Interface identifiers\<close>

definition upper_str :: "string \<Rightarrow> string" where
  "upper_str s = map (\<lambda>c. if 97 \<le> (of_char c :: nat) \<and> of_char c \<le> (122 :: nat)
     then char_of (of_char c - (32 :: nat)) else c) s"

definition in6_mactoifaceid :: "string \<Rightarrow> int option \<Rightarrow> string res" where
  "in6_mactoifaceid mac ulbit =
     (if length mac \<noteq> 17 then Inl Value_Error
      else (let m = concat (py_split colon mac) in
        if length m \<noteq> 12 then Inl Value_Error
        else (case py_int 16 (take 2 m) of
            None \<Rightarrow> Inl Value_Error
          | Some first \<Rightarrow>
              (let ulbit = (case ulbit of
                     Some u \<Rightarrow> if u = 0 \<or> u = 1 then u else (if first AND 0x02 \<noteq> 0 then 0 else 1)
                   | None \<Rightarrow> if first AND 0x02 \<noteq> 0 then 0 else 1);
                   first_b = hex_str 2 (nat ((first AND 0xFD) OR (ulbit * 2)))
               in Inr (upper_str (first_b @ take 2 (drop 2 m) @ '':'' @ take 2 (drop 4 m) @ ''FF:FE''
                    @ take 2 (drop 6 m) @ '':'' @ take 4 (drop 8 m)))))))"

definition in6_ifaceidtomac :: "string \<Rightarrow> string option" where
  "in6_ifaceidtomac ifaceid_s =
     (case inet_pton6 (''::'' @ ifaceid_s) of
        None \<Rightarrow> None
      | Some b \<Rightarrow>
          (let ifaceid = drop 8 b in
           if take 2 (drop 3 ifaceid) \<noteq> [0xFF, 0xFE] then None
           else Some (py_join '':'' (map (\<lambda>x. hex_str 2 (unat x))
                 ((ifaceid ! 0 XOR 0x02) # take 2 (drop 1 ifaceid) @ drop 5 ifaceid)))))"

definition in6_addrtomac :: "string \<Rightarrow> string option res" where
  "in6_addrtomac addr =
     rbind (pton6 ''::ffff:ffff:ffff:ffff'') (\<lambda>m. rbind (pton6 addr) (\<lambda>a.
       Inr (in6_ifaceidtomac (drop 2 (ntop6 (in6_and m a))))))"

definition in6_iseui64 :: "string \<Rightarrow> bool res" where
  "in6_iseui64 x =
     rbind (pton6 ''::ff:fe00:0'') (\<lambda>eui64. rbind (pton6 x) (\<lambda>a. Inr (in6_and a eui64 = eui64)))"

definition in6_isanycast :: "string \<Rightarrow> bool res" where
  "in6_isanycast x = rbind (pton6 x) (\<lambda>b.
     let iid = from_be (drop 8 b) div 128 * 128 in
     Inr (if unat (b ! 0) AND 0xE0 = 0 then iid = 0xFFFFFFFFFFFFFF80 else iid = 0xFDFFFFFFFFFFFF80))"

datatype grpid = GNone | GStr string | GBytes bytes | GInt int

definition grpid_octets :: "grpid \<Rightarrow> bytes option" where
  "grpid_octets g =
     (case g of
        GNone \<Rightarrow> Some [0, 0, 0, 0]
      | GStr s \<Rightarrow> if length s = 8 then map_option (\<lambda>i. to_be 4 (nat (i AND 0xFFFFFFFF))) (py_int 16 s) else None
      | GBytes b \<Rightarrow> if length b = 4 then Some b else None
      | GInt i \<Rightarrow> Some (to_be 4 (nat (i AND 0xFFFFFFFF))))"

definition in6_getLinkScopedMcastAddr :: "string \<Rightarrow> grpid \<Rightarrow> int \<Rightarrow> string option" where
  "in6_getLinkScopedMcastAddr addr g scope =
     (if scope \<noteq> 0 \<and> scope \<noteq> 1 \<and> scope \<noteq> 2 then None
      else (case in6_islladdr addr of
          Inl _ \<Rightarrow> None
        | Inr False \<Rightarrow> None
        | Inr True \<Rightarrow>
            (case inet_pton6 addr of
               None \<Rightarrow> None
             | Some baddr \<Rightarrow> map_option (\<lambda>b_grpid.
                 ntop6 ([0xFF, of_int (push_bit 4 0x3 OR scope), 0, 0xFF] @ drop 8 baddr @ b_grpid))
                 (grpid_octets g))))"

section \<open>Transition addresses\<close>

definition in6_get6to4Prefix :: "string \<Rightarrow> string option" where
  "in6_get6to4Prefix addr =
     map_option (\<lambda>b. ntop6 ([0x20, 0x02] @ b @ replicate 10 0)) (inet_pton4 addr)"

definition in6_6to4ExtractAddr :: "string \<Rightarrow> string option" where
  "in6_6to4ExtractAddr addr =
     (case inet_pton6 addr of
        None \<Rightarrow> None
      | Some baddr \<Rightarrow> if take 2 baddr \<noteq> [0x20, 0x02] then None else Some (inet_ntoa (take 4 (drop 2 baddr))))"

definition in6_isaddr6to4 :: "string \<Rightarrow> bool res" where
  "in6_isaddr6to4 x = rbind (pton6 x) (\<lambda>b. Inr (take 2 b = [0x20, 0x02]))"

definition teredoPrefix :: string where "teredoPrefix = ''2001::''"

definition in6_isaddrTeredo :: "string \<Rightarrow> bool res" where
  "in6_isaddrTeredo x =
     rbind (pton6 x) (\<lambda>a. rbind (pton6 teredoPrefix) (\<lambda>p. Inr (take 4 a = take 4 p)))"

definition teredoAddrExtractInfo :: "string \<Rightarrow> (string \<times> nat \<times> string \<times> nat) res" where
  "teredoAddrExtractInfo x = rbind (pton6 x) (\<lambda>addr.
     Inr (inet_ntoa (take 4 (drop 4 addr)), from_be (take 2 (drop 8 addr)),
       inet_ntoa (in6_xor (take 4 (drop 12 addr)) (replicate 4 0xFF)),
       from_be (in6_xor (take 2 (drop 10 addr)) (replicate 2 0xFF))))"

section \<open>Derived addresses\<close>

definition in6_getnsma :: "bytes \<Rightarrow> bytes res" where
  "in6_getnsma a = rbind (pton6 ''ff02::1:ff00:0'') (\<lambda>p. rbind (pton6 ''::ff:ffff'') (\<lambda>m.
     Inr (in6_or p (in6_and a m))))"

definition in6_getnsmac :: "bytes \<Rightarrow> string" where
  "in6_getnsmac a = ''33:33:'' @ py_join '':'' (map (\<lambda>x. hex_str 2 (unat x)) (drop (length a - 4) a))"

definition in6_getha :: "string \<Rightarrow> string res" where
  "in6_getha prefix = rbind (pton6 prefix) (\<lambda>p. rbind (in6_cidr2mask 64) (\<lambda>m.
     rbind (pton6 ''::fdff:ffff:ffff:fffe'') (\<lambda>s. Inr (ntop6 (in6_or (in6_and p m) s)))))"

definition in6_getLocalUniquePrefix :: "(bytes \<Rightarrow> bytes) \<Rightarrow> bytes \<Rightarrow> bytes \<Rightarrow> string res" where
  "in6_getLocalUniquePrefix sha1 btod mac6 =
     rbind (in6_mactoifaceid (py_join '':'' (map (\<lambda>b. hex_str 2 (unat b)) mac6)) None) (\<lambda>iid.
     rbind (pton6 (''::'' @ iid)) (\<lambda>e.
       (let d = sha1 (btod @ drop 8 e) in
        Inr (ntop6 ([0xFD] @ drop (length d - 5) d @ replicate 10 0)))))"

definition in6_getRandomizedIfaceId ::
  "(bytes \<Rightarrow> bytes) \<Rightarrow> bytes \<Rightarrow> string \<Rightarrow> string option \<Rightarrow> (string \<times> string) res" where
  "in6_getRandomizedIfaceId md5 urandom8 ifaceid previous =
     rbind (case previous of None \<Rightarrow> Inr urandom8 | Some p \<Rightarrow> rbind (pton6 (''::'' @ p)) (\<lambda>b. Inr (drop 8 b))) (\<lambda>b_previous.
     rbind (pton6 (''::'' @ ifaceid)) (\<lambda>i.
       (let s = md5 (drop 8 i @ b_previous);
            s1 = (s ! 0 AND NOT 0x02) # take 7 (drop 1 s);
            s2 = drop 8 s
        in Inr (drop 20 (ntop6 (replicate 8 0xFF @ s1)), drop 20 (ntop6 (replicate 8 0xFF @ s2))))))"

section \<open>Compact form\<close>

definition rfc1924map :: string where
  "rfc1924map = ''0123456789ABCDEFGHIJKLMNOPQRSTUVWXYZabcdefghijklmnopqrstuvwxyz!#$%&()*+-;<=>?@^_`{|}~''"

fun index_of :: "char \<Rightarrow> string \<Rightarrow> nat" where
  "index_of c [] = 0"
| "index_of c (x # xs) = (if x = c then 0 else Suc (index_of c xs))"

definition in6_ctop :: "string \<Rightarrow> string option" where
  "in6_ctop addr =
     (if length addr \<noteq> 20 \<or> \<not> list_all (\<lambda>c. c \<in> set rfc1924map) addr then None
      else (let i = foldl (\<lambda>i c. 85 * i + index_of c rfc1924map) 0 addr in
        if push_bit 128 1 \<le> i then None else Some (ntop6 (to_be 16 i))))"

fun digits85 :: "nat \<Rightarrow> nat \<Rightarrow> nat list" where
  "digits85 0 rem = []"
| "digits85 (Suc k) rem = (rem mod 85) # digits85 k (rem div 85)"

definition in6_ptoc :: "string \<Rightarrow> string option" where
  "in6_ptoc addr =
     map_option (\<lambda>b. rev (map (\<lambda>d. rfc1924map ! d) (digits85 20 (from_be b)))) (inet_pton6 addr)"

end
