(* ===== verification/In6_Prefix.thy ===== *)
theory In6_Prefix
  imports In6
begin

text \<open>
  Masks and prefix tests of \<open>utils6.py\<close>: what a mask keeps, what the prefix tests say of
  the octets, and the two classifications of an address (\<open>in6_getscope\<close>,
  \<open>in6_getAddrType\<close>).
\<close>

section \<open>Masks\<close>

lemma from_be_zeros: "from_be (replicate n 0) = 0"
  by (induction n) (simp_all add: from_be_Cons)

lemma pton6_length: "pton6 s = Inr b \<Longrightarrow> length b = 16"
  by (auto simp: pton6_def inet_pton6_length split: option.splits)

lemma pton6_ntop6 [simp]: "length b = 16 \<Longrightarrow> pton6 (ntop6 b) = Inr b"
  by (simp add: pton6_def inet_pton6_ntop6)

lemma in6_and_strand: "in6_and = strand" "in6_or = stror" "in6_xor = strxor"
  by (auto simp: in6_and_def in6_or_def in6_xor_def strand_def stror_def strxor_def fun_eq_iff)

lemma cidr_value:
  fixes m :: nat
  assumes "m \<le> w"
  shows "push_bit (w - m) (push_bit m 1 - 1) = (2 ^ w - 1) XOR (2 ^ (w - m) - (1 :: nat))"
proof -
  have "push_bit (w - m) (mask m :: nat) = mask w XOR mask (w - m)"
    by (rule bit_eqI) (use assms in \<open>auto simp: bit_simps\<close>)
  then show ?thesis by (simp add: mask_eq_exp_minus_1 push_bit_eq_mult)
qed

lemma in6_cidr2mask_ones:
  assumes "0 \<le> m" "m \<le> 128"
  shows "in6_cidr2mask m = Inr (leading_ones 16 (nat m))"
proof -
  have "(2 :: nat) ^ (128 - nat m) \<le> 2 ^ 128" by (rule power_increasing) auto
  then have "2 ^ (128 - nat m) - 1 < (256 :: nat) ^ 16" by simp
  then have "from_be (leading_ones 16 (nat m)) = (2 ^ 128 - 1) XOR (2 ^ (128 - nat m) - 1)"
    by (simp add: leading_ones_def strxor_be from_be_ones)
  also have "\<dots> = push_bit (128 - nat m) (push_bit (nat m) 1 - 1)"
    using cidr_value [of "nat m" 128] assms by (simp add: nat_le_iff)
  finally have "to_be 16 (push_bit (128 - nat m) (push_bit (nat m) 1 - 1)) = leading_ones 16 (nat m)"
    by (metis length_leading_ones to_be_from_be)
  with assms show ?thesis by (simp add: in6_cidr2mask_def)
qed

lemma in6_isincluded_top:
  assumes "pton6 addr = Inr a" "pton6 prefix = Inr p"
  shows "in6_isincluded addr prefix m =
    (if 0 \<le> m \<and> m \<le> 128 then Inr (from_be p = from_be a div 2 ^ (128 - nat m) * 2 ^ (128 - nat m))
     else Inl Scapy_Exception)"
proof (cases "0 \<le> m \<and> m \<le> 128")
  case True
  have l: "length a = 16" "length p = 16" using assms pton6_length by auto
  have "p = strand a (leading_ones 16 (nat m)) \<longleftrightarrow>
      from_be p = from_be a div 2 ^ (128 - nat m) * 2 ^ (128 - nat m)"
    using l True leading_ones_and [of a 16 "nat m"] from_be_inject [of p "strand a (leading_ones 16 (nat m))"]
    by (simp add: nat_le_iff)
  with True assms show ?thesis by (simp add: in6_isincluded_def in6_cidr2mask_ones in6_and_strand)
next
  case False
  with assms show ?thesis by (auto simp: in6_isincluded_def in6_cidr2mask_def)
qed

text \<open>\<open>in6_mask2cidr\<close> finds the first zero bit.\<close>

lemma first_zero_bit_Cons:
  "first_zero_bit v d (i # is) = (if bit v (127 - i) then first_zero_bit v d is else i)"
  using and_exp_eq_0_iff_not_bit [of v "127 - i"] by (simp add: push_bit_eq_mult)

lemma first_zero_bit_spec:
  assumes "j \<le> k" "k \<le> 128"
    "\<And>i. j \<le> i \<Longrightarrow> i < k \<Longrightarrow> bit v (127 - i)" "k < 128 \<Longrightarrow> \<not> bit v (127 - k)"
  shows "first_zero_bit v 128 [j..<128] = k"
  using assms
proof (induction "k - j" arbitrary: j)
  case 0
  then have "j = k" by simp
  with 0 show ?case
    by (cases "k < 128") (simp_all add: upt_conv_Cons first_zero_bit_Cons del: first_zero_bit.simps(2))
next
  case (Suc d)
  then have "j < 128" "bit v (127 - j)" by auto
  moreover have "first_zero_bit v 128 [Suc j..<128] = k"
    by (rule Suc.hyps(1)) (use Suc in auto)
  ultimately show ?case
    by (simp add: upt_conv_Cons first_zero_bit_Cons del: first_zero_bit.simps(2))
qed

text \<open>\<open>in6_mask2cidr\<close> reads back the length of the mask \<open>in6_cidr2mask\<close> makes.\<close>

lemma mask2cidr_cidr2mask:
  assumes "0 \<le> m" "m \<le> 128"
  shows "rbind (in6_cidr2mask m) in6_mask2cidr = Inr (nat m)"
proof -
  define v where "v = from_be (leading_ones 16 (nat m))"
  have b: "bit v i \<longleftrightarrow> i < 128 \<and> 128 - nat m \<le> i" for i
  proof -
    have "(2 :: nat) ^ (128 - nat m) \<le> 2 ^ 128" by (rule power_increasing) auto
    then have "2 ^ (128 - nat m) - 1 < (256 :: nat) ^ 16" by simp
    then have "v = mask 128 XOR mask (128 - nat m)"
      by (simp add: v_def leading_ones_def strxor_be from_be_ones mask_eq_exp_minus_1)
    then show ?thesis by (auto simp: bit_simps)
  qed
  have "first_zero_bit v 128 [0..<128] = nat m"
    by (rule first_zero_bit_spec) (use assms in \<open>(simp_all add: b nat_le_iff)?, (linarith+)?\<close>)
  then show ?thesis
    by (simp only: in6_cidr2mask_ones [OF assms] in6_mask2cidr_def rbind_simps length_leading_ones v_def)
      (simp only: simp_thms if_False)
qed

theorem mask2cidr_cidr2mask_witness:
  "in6_cidr2mask 20 = Inr ([0xFF, 0xFF, 0xF0] @ replicate 13 0) \<and>
   in6_mask2cidr ([0xFF, 0xFF, 0xF0] @ replicate 13 0) = Inr 20"
proof -
  have "from_be ([0xFF, 0xFF, 0xF0] @ replicate 13 0) = push_bit 108 (push_bit 20 1 - 1)"
    by (simp only: from_be_append from_be_zeros) (simp add: from_be_Cons)
  then have "in6_cidr2mask 20 = Inr ([0xFF, 0xFF, 0xF0] @ replicate 13 0)"
    using to_be_from_be [of "[0xFF, 0xFF, 0xF0] @ replicate 13 0" 16] by (simp add: in6_cidr2mask_def)
  with mask2cidr_cidr2mask [of 20] show ?thesis by simp
qed

section \<open>The prefix tests\<close>

lemma prefix_octets:
  "pton6 ''2000::'' = Inr (0x20 # replicate 15 0)" "pton6 ''fc00::'' = Inr (0xFC # replicate 15 0)"
  "pton6 ''fe80::'' = Inr (0xFE # 0x80 # replicate 14 0)" "pton6 ''fec0::'' = Inr (0xFE # 0xC0 # replicate 14 0)"
  "pton6 ''ff00::'' = Inr (0xFF # replicate 15 0)" "pton6 ''ff01::'' = Inr (0xFF # 0x01 # replicate 14 0)"
  "pton6 ''ff02::'' = Inr (0xFF # 0x02 # replicate 14 0)" "pton6 ''ff05::'' = Inr (0xFF # 0x05 # replicate 14 0)"
  "pton6 ''ff0e::'' = Inr (0xFF # 0x0E # replicate 14 0)" "pton6 ''::1'' = Inr (replicate 15 0 @ [1])"
  "pton6 ''::'' = Inr (replicate 16 0)"
  by code_simp+

text \<open>A test of at most sixteen bits looks at the first two octets.\<close>

lemma included_16:
  assumes "pton6 addr = Inr (a0 # a1 # r)" "pton6 prefix = Inr (p0 # p1 # replicate 14 0)" "m \<le> 16"
  shows "in6_isincluded addr prefix (int m) =
    Inr (unat p0 * 256 + unat p1 = (unat a0 * 256 + unat a1) div 2 ^ (16 - m) * 2 ^ (16 - m))"
proof -
  have l: "length r = 14" using pton6_length [OF assms(1)] by simp
  define A P where "A = unat a0 * 256 + unat a1" and "P = unat p0 * 256 + unat p1"
  have a: "from_be (a0 # a1 # r) = A * 2 ^ 112 + from_be r"
    and p: "from_be (p0 # p1 # replicate 14 0) = P * 2 ^ 112"
    using l by (simp_all add: from_be_Cons from_be_zeros A_def P_def)
  have r: "from_be r < 2 ^ 112" using from_be_less [of r] l by simp
  have e: "(2 :: nat) ^ (128 - m) = 2 ^ 112 * 2 ^ (16 - m)"
    unfolding power_add [symmetric] using assms(3) by (rule_tac arg_cong) simp
  have "(A * 2 ^ 112 + from_be r) div 2 ^ (128 - m) = A div 2 ^ (16 - m)"
    unfolding e div_mult2_eq using r by simp
  then have "P * 2 ^ 112 = (A * 2 ^ 112 + from_be r) div 2 ^ (128 - m) * 2 ^ (128 - m) \<longleftrightarrow>
      P * 2 ^ 112 = (A div 2 ^ (16 - m) * 2 ^ (16 - m)) * 2 ^ 112"
    by (simp add: e mult.assoc mult.left_commute mult.commute)
  also have "\<dots> \<longleftrightarrow> P = A div 2 ^ (16 - m) * 2 ^ (16 - m)" by (rule mult_cancel2 [THEN trans]) simp
  finally show ?thesis
    using in6_isincluded_top [OF assms(1,2), of "int m"] assms(3) by (simp only: a p A_def P_def) simp
qed

text \<open>The tests of the scopes, as ranges of the first two octets.\<close>

lemma div_mult_range:
  fixes x P d :: nat
  assumes "0 < d" "d dvd P"
  shows "P = x div d * d \<longleftrightarrow> P \<le> x \<and> x < P + d"
proof -
  obtain k where k: "P = d * k" using assms(2) by (auto elim: dvdE)
  have "k = x div d \<longleftrightarrow> d * k \<le> x \<and> x < d * k + d"
    using dividend_less_times_div [OF assms(1), of x] by (auto intro!: div_nat_eqI [symmetric] simp: mult.commute add.commute)
  then show ?thesis using assms(1) k by (auto simp: mult.commute)
qed

lemma included_range:
  assumes "pton6 addr = Inr (a0 # a1 # r)" "pton6 prefix = Inr (p0 # p1 # replicate 14 0)" "m \<le> 16"
    "2 ^ (16 - m) dvd unat p0 * 256 + unat p1"
  shows "in6_isincluded addr prefix (int m) = Inr (unat p0 * 256 + unat p1 \<le> unat a0 * 256 + unat a1 \<and>
    unat a0 * 256 + unat a1 < unat p0 * 256 + unat p1 + 2 ^ (16 - m))"
  using included_16 [OF assms(1-3)] div_mult_range [OF _ assms(4)] by simp

lemma octet_pair_range:
  fixes x y :: nat
  assumes "y < 256" "h \<le> 256" "l < 256"
  shows "k * 256 + l \<le> x * 256 + y \<and> x * 256 + y < k * 256 + h \<longleftrightarrow> x = k \<and> l \<le> y \<and> y < h"
  using assms by (cases x k rule: linorder_cases) auto

lemma scope_tests:
  assumes "pton6 addr = Inr (a0 # a1 # r)"
  shows "in6_isgladdr addr = Inr (32 \<le> unat a0 \<and> unat a0 < 64)"
    "in6_isuladdr addr = Inr (252 \<le> unat a0 \<and> unat a0 < 254)"
    "in6_islladdr addr = Inr (unat a0 = 254 \<and> 128 \<le> unat a1 \<and> unat a1 < 192)"
    "in6_issladdr addr = Inr (unat a0 = 254 \<and> 192 \<le> unat a1)"
    "in6_ismaddr addr = Inr (unat a0 = 255)"
    "in6_ismnladdr addr = Inr (unat a0 = 255 \<and> unat a1 = 1)"
    "in6_ismlladdr addr = Inr (unat a0 = 255 \<and> unat a1 = 2)"
    "in6_ismsladdr addr = Inr (unat a0 = 255 \<and> unat a1 = 5)"
    "in6_ismgladdr addr = Inr (unat a0 = 255 \<and> unat a1 = 14)"
proof -
  have z: "(0 :: byte) # replicate 14 0 = replicate 15 0" by (simp add: numeral_eq_Suc)
  have b: "unat a0 < 256" "unat a1 < 256" by simp_all
  have t: "pton6 prefix = Inr (p0 # p1 # replicate 14 0) \<Longrightarrow> m \<le> 16 \<Longrightarrow>
    2 ^ (16 - m) dvd unat p0 * 256 + unat p1 \<Longrightarrow> in6_isincluded addr prefix (int m) = Inr (unat p0 * 256 + unat p1
    \<le> unat a0 * 256 + unat a1 \<and> unat a0 * 256 + unat a1 < unat p0 * 256 + unat p1 + 2 ^ (16 - m))" for prefix p0 p1 m
    by (rule included_range [OF assms])
  show "in6_isgladdr addr = Inr (32 \<le> unat a0 \<and> unat a0 < 64)"
    unfolding in6_isgladdr_def using t [of "''2000::''" "0x20" 0 3]
    by (simp add: prefix_octets z) (use b in \<open>(intro iffI conjI; linarith)\<close>)
  show "in6_isuladdr addr = Inr (252 \<le> unat a0 \<and> unat a0 < 254)"
    unfolding in6_isuladdr_def using t [of "''fc00::''" "0xFC" 0 7]
    by (simp add: prefix_octets z) (use b in \<open>(intro iffI conjI; linarith)\<close>)
  show "in6_islladdr addr = Inr (unat a0 = 254 \<and> 128 \<le> unat a1 \<and> unat a1 < 192)"
    unfolding in6_islladdr_def using t [of "''fe80::''" "0xFE" "0x80" 10]
      octet_pair_range [OF b(2), of 192 128 254 "unat a0"]
    by (simp add: prefix_octets)
  show "in6_issladdr addr = Inr (unat a0 = 254 \<and> 192 \<le> unat a1)"
    unfolding in6_issladdr_def using t [of "''fec0::''" "0xFE" "0xC0" 10]
      octet_pair_range [OF b(2), of 256 192 254 "unat a0"]
    by (simp add: prefix_octets b)
  show "in6_ismaddr addr = Inr (unat a0 = 255)"
    unfolding in6_ismaddr_def using t [of "''ff00::''" "0xFF" 0 8]
      octet_pair_range [OF b(2), of 256 0 255 "unat a0"]
    by (simp add: prefix_octets z b)
  show "in6_ismnladdr addr = Inr (unat a0 = 255 \<and> unat a1 = 1)"
    unfolding in6_ismnladdr_def using t [of "''ff01::''" "0xFF" 1 16]
      octet_pair_range [OF b(2), of 2 1 255 "unat a0"]
    by (auto simp: prefix_octets)
  show "in6_ismlladdr addr = Inr (unat a0 = 255 \<and> unat a1 = 2)"
    unfolding in6_ismlladdr_def using t [of "''ff02::''" "0xFF" 2 16]
      octet_pair_range [OF b(2), of 3 2 255 "unat a0"]
    by (auto simp: prefix_octets)
  show "in6_ismsladdr addr = Inr (unat a0 = 255 \<and> unat a1 = 5)"
    unfolding in6_ismsladdr_def using t [of "''ff05::''" "0xFF" 5 16]
      octet_pair_range [OF b(2), of 6 5 255 "unat a0"]
    by (auto simp: prefix_octets)
  show "in6_ismgladdr addr = Inr (unat a0 = 255 \<and> unat a1 = 14)"
    unfolding in6_ismgladdr_def using t [of "''ff0e::''" "0xFF" 14 16]
      octet_pair_range [OF b(2), of 15 14 255 "unat a0"]
    by (auto simp: prefix_octets)
qed

lemma in6_getscope_octets:
  assumes "pton6 addr = Inr (a0 # a1 # r)"
  shows "in6_getscope addr = Inr (
    if 32 \<le> unat a0 \<and> unat a0 < 64 \<or> 252 \<le> unat a0 \<and> unat a0 < 254 then 0
    else if unat a0 = 254 \<and> 128 \<le> unat a1 then (if unat a1 < 192 then 0x20 else 0x40)
    else if unat a0 = 255 then
      (if unat a1 = 14 then 0 else if unat a1 = 2 then 0x20 else if unat a1 = 5 then 0x40
       else if unat a1 = 1 then 0x10 else -1)
    else if addr = ''::1'' then 0x10 else -1)"
  using scope_tests [OF assms] by (simp add: in6_getscope_def orelse_def test_then_def scope_defs)

lemma pton6_octetsE:
  assumes "pton6 addr = Inr b"
  obtains a0 a1 r where "b = a0 # a1 # r" "length r = 14"
  using pton6_length [OF assms] by (auto simp: numeral_eq_Suc length_Suc_conv)

lemma in6_getscope_ok:
  assumes "pton6 addr = Inr b"
  shows "\<exists>s \<in> {0, 0x10, 0x20, 0x40, -1}. in6_getscope addr = Inr s"
proof -
  from assms obtain a0 a1 r where "b = a0 # a1 # r" by (rule pton6_octetsE)
  with assms show ?thesis using in6_getscope_octets [of addr a0 a1 r] by simp
qed

end
