(* ===== verification/In6_Source.thy ===== *)
theory In6_Source
  imports In6_Prefix
begin

text \<open>
  Source address selection (\<open>construct_source_candidate_set\<close> and
  \<open>get_source_addr_from_candidate_set\<close> of \<open>utils6.py\<close>). \<open>list.sort(key=cmp_to_key(f))\<close> is a
  stable insertion sort that asks only whether \<open>f(x, y) < 0\<close>, as \<open>list.sort\<close> does; with
  \<open>reverse=True\<close> the list is reversed before and after. The comparison of the candidate
  set is not an order, so there the sort is an argument. The choice of a source is compared
  with RFC 6724 written out over octets: the scopes of the RFCs and leading bits.
\<close>

section \<open>Sorting by comparison\<close>

fun rinsert :: "('a \<Rightarrow> 'a \<Rightarrow> int res) \<Rightarrow> 'a \<Rightarrow> 'a list \<Rightarrow> 'a list res" where
  "rinsert cmp x [] = Inr [x]"
| "rinsert cmp x (y # ys) = rbind (cmp y x) (\<lambda>c.
     if c < 0 then rbind (rinsert cmp x ys) (\<lambda>zs. Inr (y # zs)) else Inr (x # y # ys))"

fun rsort :: "('a \<Rightarrow> 'a \<Rightarrow> int res) \<Rightarrow> 'a list \<Rightarrow> 'a list res" where
  "rsort cmp [] = Inr []"
| "rsort cmp (x # xs) = rbind (rsort cmp xs) (rinsert cmp x)"

section \<open>The candidate set\<close>

type_synonym laddr = "string \<times> int \<times> string"

definition cset_sort :: "string \<Rightarrow> string \<Rightarrow> int res" where
  "cset_sort x y =
     rbind (in6_isgladdr x) (\<lambda>xg. rbind (in6_isgladdr y) (\<lambda>yg.
       (let x_global = (if xg then 1 else 0); y_global = (if yg then 1 else 0);
            res = y_global - x_global
        in if res \<noteq> 0 \<or> y_global \<noteq> 1 then Inr res
           else rbind (in6_isaddr6to4 x) (\<lambda>s. Inr (if \<not> s then -1 else - res)))))"

definition scoped :: "nat \<Rightarrow> laddr list \<Rightarrow> laddr list" where
  "scoped s laddr = List.filter (\<lambda>x. fst (snd x) = int s) laddr"

definition candidate_set :: "string \<Rightarrow> string \<Rightarrow> int \<Rightarrow> laddr list \<Rightarrow> laddr list res" where
  "candidate_set loopback_name addr plen laddr =
     test_then (orelse (in6_isgladdr addr) (in6_isuladdr addr)) (Inr (scoped IPV6_ADDR_GLOBAL laddr))
    (test_then (in6_islladdr addr) (Inr (scoped IPV6_ADDR_LINKLOCAL laddr))
    (test_then (in6_issladdr addr) (Inr (scoped IPV6_ADDR_SITELOCAL laddr))
    (test_then (in6_ismaddr addr)
       (test_then (in6_ismnladdr addr) (Inr [(''::1'', 16, loopback_name)])
       (test_then (in6_ismgladdr addr) (Inr (scoped IPV6_ADDR_GLOBAL laddr))
       (test_then (in6_ismlladdr addr) (Inr (scoped IPV6_ADDR_LINKLOCAL laddr))
       (test_then (in6_ismsladdr addr) (Inr (scoped IPV6_ADDR_SITELOCAL laddr)) (Inr [])))))
     (if addr = ''::'' \<and> plen = 0 then Inr (scoped IPV6_ADDR_GLOBAL laddr)
      else if addr = ''::1'' then Inr (scoped IPV6_ADDR_LOOPBACK laddr)
      else Inr []))))"

definition construct_source_candidate_set ::
  "((string \<Rightarrow> string \<Rightarrow> int res) \<Rightarrow> string list \<Rightarrow> string list res) \<Rightarrow> string \<Rightarrow> string \<Rightarrow> int
   \<Rightarrow> laddr list \<Rightarrow> string list res" where
  "construct_source_candidate_set lsort loopback_name addr plen laddr =
     rbind (candidate_set loopback_name addr plen laddr) (\<lambda>cset. lsort cset_sort (map fst cset))"

section \<open>The best source\<close>

definition scope_rank :: "string \<Rightarrow> int res" where
  "scope_rank addr = rbind (in6_getscope addr) (\<lambda>s.
     let scope = (if s = -1 then int IPV6_ADDR_LOOPBACK else s) in
     if scope = int IPV6_ADDR_GLOBAL then Inr 4
     else if scope = int IPV6_ADDR_SITELOCAL then Inr 3
     else if scope = int IPV6_ADDR_LINKLOCAL then Inr 2
     else if scope = int IPV6_ADDR_LOOPBACK then Inr 1
     else Inl Key_Error)"

definition better :: "string \<Rightarrow> string \<Rightarrow> string \<Rightarrow> int res" where
  "better dst a b =
     (if a = dst then Inr 1
      else if b = dst then Inr (-1)
      else rbind (scope_rank a) (\<lambda>sa. rbind (scope_rank b) (\<lambda>sb. rbind (scope_rank dst) (\<lambda>sd.
        if sa < sb then Inr (if sa < sd then -1 else 1)
        else if sb < sa then Inr (if sb < sd then 1 else -1)
        else rbind (in6_get_common_plen a dst) (\<lambda>pa. rbind (in6_get_common_plen b dst) (\<lambda>pb.
          Inr ((if pb < pa then 1 else 0) - (if pa < pb then 1 else 0))))))))"

definition get_source_addr_from_candidate_set :: "string \<Rightarrow> string list \<Rightarrow> string res" where
  "get_source_addr_from_candidate_set dst cs =
     (if cs = [] then Inr ''''
      else rbind (rsort (better dst) (rev cs)) (\<lambda>s. Inr (hd (rev s))))"

section \<open>The sort\<close>

definition represents :: "('a \<Rightarrow> 'a \<Rightarrow> int res) \<Rightarrow> ('a \<Rightarrow> int) \<Rightarrow> 'a set \<Rightarrow> bool" where
  "represents cmp key A \<longleftrightarrow> (\<forall>a\<in>A. \<forall>b\<in>A. \<exists>c. cmp a b = Inr c \<and> (c < 0 \<longleftrightarrow> key a < key b))"

lemma rinsert_key:
  "represents cmp key A \<Longrightarrow> x \<in> A \<Longrightarrow> set ys \<subseteq> A \<Longrightarrow> rinsert cmp x ys = Inr (insort_key key x ys)"
proof (induction ys)
  case (Cons y ys)
  then obtain c where "cmp y x = Inr c" "c < 0 \<longleftrightarrow> key y < key x"
    unfolding represents_def by simp meson
  with Cons show ?case by (auto simp: not_less)
qed simp

lemma rsort_key: "represents cmp key A \<Longrightarrow> set xs \<subseteq> A \<Longrightarrow> rsort cmp xs = Inr (sort_key key xs)"
  by (induction xs) (auto simp: rinsert_key)

section \<open>Common prefixes\<close>

lemma bit_length_le: "bit_length n \<le> k \<longleftrightarrow> n < 2 ^ k"
proof (induction n arbitrary: k rule: bit_length.induct)
  case (1 n)
  show ?case
  proof (cases "n = 0")
    case False
    with 1 show ?thesis
      by (cases k) (auto simp: bit_length.simps [of n] div_less_iff_less_mult mult.commute)
  qed (simp add: bit_length.simps)
qed

lemma xor_less_iff: "(x :: nat) XOR y < 2 ^ k \<longleftrightarrow> x div 2 ^ k = y div 2 ^ k"
proof -
  have "x XOR y < 2 ^ k \<longleftrightarrow> drop_bit k (x XOR y) = 0"
    by (simp add: drop_bit_eq_div div_eq_0_iff)
  also have "\<dots> \<longleftrightarrow> drop_bit k x XOR drop_bit k y = 0" by (simp add: drop_bit_xor)
  also have "\<dots> \<longleftrightarrow> drop_bit k x = drop_bit k y" by (metis xor_self_eq xor.right_neutral xor.assoc xor.left_neutral)
  finally show ?thesis by (simp add: drop_bit_eq_div)
qed

text \<open>The common prefix length is the largest number of leading bits the addresses agree on.\<close>

lemma common_plen_bits:
  assumes "pton6 a = Inr x" "pton6 b = Inr y"
  shows "\<exists>p. in6_get_common_plen a b = Inr p \<and> 0 \<le> p \<and> p \<le> 128 \<and>
    (\<forall>m\<le>128. int m \<le> p \<longleftrightarrow> from_be x div 2 ^ (128 - m) = from_be y div 2 ^ (128 - m))"
proof -
  define l where "l = bit_length (from_be x XOR from_be y)"
  have "from_be x div 2 ^ 128 = from_be y div 2 ^ 128"
    using from_be_less [of x] from_be_less [of y] assms pton6_length by simp
  then have "l \<le> 128" unfolding l_def bit_length_le xor_less_iff .
  moreover have "l \<le> 128 - m \<longleftrightarrow> from_be x div 2 ^ (128 - m) = from_be y div 2 ^ (128 - m)" for m
    unfolding l_def bit_length_le xor_less_iff ..
  moreover have "int m \<le> 128 - int l \<longleftrightarrow> l \<le> 128 - m" if "m \<le> 128" "l \<le> 128" for m using that by linarith
  ultimately show ?thesis using assms by (simp add: in6_get_common_plen_def flip: l_def)
qed

section \<open>The chosen source\<close>

lemma in6_isvalid_iff: "in6_isvalid a \<longleftrightarrow> (\<exists>b. pton6 a = Inr b)"
  by (auto simp: in6_isvalid_def split: sum.splits)

lemma scope_rank_ok:
  assumes "pton6 a = Inr b"
  shows "\<exists>r \<in> {1..4}. scope_rank a = Inr r"
  using in6_getscope_ok [OF assms] by (auto simp: scope_rank_def scope_defs Let_def)

definition rank_of :: "string \<Rightarrow> int" where
  "rank_of a = (case scope_rank a of Inr r \<Rightarrow> r | Inl _ \<Rightarrow> 0)"

definition plen_of :: "string \<Rightarrow> string \<Rightarrow> int" where
  "plen_of dst a = (case in6_get_common_plen a dst of Inr p \<Rightarrow> p | Inl _ \<Rightarrow> 0)"

text \<open>The order of the rules: the destination itself, then the scopes that reach the
  destination with the smallest first, then the larger of the smaller scopes, then the
  longer common prefix.\<close>

definition source_key :: "string \<Rightarrow> string \<Rightarrow> int" where
  "source_key dst a =
     (if a = dst then 100000
      else (if rank_of a < rank_of dst then rank_of a else 100 - rank_of a) * 200 + plen_of dst a)"

lemma rank_plen_of:
  assumes "pton6 dst = Inr d" "pton6 a = Inr b"
  shows "scope_rank a = Inr (rank_of a)" "1 \<le> rank_of a" "rank_of a \<le> 4"
    "in6_get_common_plen a dst = Inr (plen_of dst a)" "0 \<le> plen_of dst a" "plen_of dst a \<le> 128"
  using scope_rank_ok [OF assms(2)] common_plen_bits [OF assms(2,1)] by (auto simp: rank_of_def plen_of_def)

lemma better_represents:
  assumes "pton6 dst = Inr d" "\<forall>a\<in>A. \<exists>b. pton6 a = Inr b"
  shows "represents (better dst) (source_key dst) A"
  unfolding represents_def
proof (intro ballI)
  fix a b assume "a \<in> A" "b \<in> A"
  then obtain oa ob where o: "pton6 a = Inr oa" "pton6 b = Inr ob" using assms(2) by meson
  note f = rank_plen_of [OF assms(1) o(1)] rank_plen_of [OF assms(1) o(2)] rank_plen_of [OF assms(1,1)]
  show "\<exists>c. better dst a b = Inr c \<and> (c < 0 \<longleftrightarrow> source_key dst a < source_key dst b)"
    using f by (simp add: better_def source_key_def) linarith?
qed

text \<open>The last element of the sorted reverse is the first of the list with the largest key.\<close>

lemma last_sort_key:
  assumes "xs \<noteq> []"
  shows "\<forall>y\<in>set xs. key y \<le> key (last (sort_key key xs))"
proof -
  let ?s = "sort_key key xs"
  have n: "?s \<noteq> []" using assms by (metis length_sort length_0_conv)
  have e: "butlast ?s @ [last ?s] = ?s" using n by simp
  have "sorted (map key (butlast ?s @ [last ?s]))" unfolding e by simp
  then have "\<forall>y\<in>set (butlast ?s @ [last ?s]). key y \<le> key (last ?s)"
    by (auto simp: sorted_append)
  then show ?thesis unfolding e by simp
qed

lemma hd_rev_sort_key:
  assumes "cs \<noteq> []" "x = hd (rev (sort_key key (rev cs)))"
  shows "x = hd (filter (\<lambda>y. key y = key x) cs)" "x \<in> set cs" "\<forall>y\<in>set cs. key y \<le> key x"
proof -
  let ?s = "sort_key key (rev cs)"
  have n: "?s \<noteq> []" using assms(1) by (metis length_sort length_rev length_0_conv)
  have x: "x = last ?s" using n by (simp add: assms(2) hd_rev)
  show "\<forall>y\<in>set cs. key y \<le> key x" using last_sort_key [of "rev cs" key] assms(1) x by simp
  show "x \<in> set cs" using n x by (metis last_in_set set_rev set_sort)
  have "x = last (filter (\<lambda>y. key y = key x) ?s)"
  proof -
    have "filter (\<lambda>y. key y = key x) (butlast ?s @ [x]) = filter (\<lambda>y. key y = key x) (butlast ?s) @ [x]" by simp
    moreover have "butlast ?s @ [x] = ?s" using n x by simp
    ultimately show ?thesis by simp
  qed
  also have "\<dots> = last (filter (\<lambda>y. key y = key x) (rev cs))"
    using sort_key_stable [of key "key x" "rev cs"] by (simp add: eq_commute)
  also have "\<dots> = hd (filter (\<lambda>y. key y = key x) cs)"
    by (metis hd_rev rev_filter rev_rev_ident)
  finally show "x = hd (filter (\<lambda>y. key y = key x) cs)" .
qed

text \<open>When \<open>a\<close> beats \<open>b\<close> for the code: by its ranks and whole common prefixes.\<close>

definition beats :: "string \<Rightarrow> string \<Rightarrow> string \<Rightarrow> bool" where
  "beats dst a b \<longleftrightarrow>
     a = dst \<and> b \<noteq> dst \<or>
     a \<noteq> dst \<and> b \<noteq> dst \<and>
       (rank_of a < rank_of b \<and> rank_of dst \<le> rank_of a \<or>
        rank_of b < rank_of a \<and> rank_of b < rank_of dst \<or>
        rank_of a = rank_of b \<and> plen_of dst b < plen_of dst a)"

lemma beats_key:
  assumes "pton6 dst = Inr d" "pton6 a = Inr oa" "pton6 b = Inr ob"
  shows "beats dst a b \<longleftrightarrow> source_key dst b < source_key dst a"
  using rank_plen_of [OF assms(1,2)] rank_plen_of [OF assms(1,3)] rank_plen_of [OF assms(1,1)]
  by (simp add: beats_def source_key_def) linarith

lemma chosen_source:
  assumes "pton6 dst = Inr d" "\<forall>a\<in>set cs. \<exists>b. pton6 a = Inr b" "cs \<noteq> []"
  shows "\<exists>pre x post. get_source_addr_from_candidate_set dst cs = Inr x \<and> cs = pre @ x # post \<and>
    (\<forall>y\<in>set cs. \<not> beats dst y x) \<and> (\<forall>y\<in>set pre. beats dst x y)"
proof -
  note d = assms(1) and v = assms(2)
  define x where "x = hd (rev (sort_key (source_key dst) (rev cs)))"
  have r: "get_source_addr_from_candidate_set dst cs = Inr x"
    using rsort_key [OF better_represents [OF d v], of "rev cs"] assms(3)
    by (simp add: get_source_addr_from_candidate_set_def x_def)
  note m = hd_rev_sort_key [OF assms(3) x_def]
  have p: "beats dst a b \<longleftrightarrow> source_key dst b < source_key dst a" if "a \<in> set cs" "b \<in> set cs" for a b
    using beats_key [OF d] v that by metis
  have "filter (\<lambda>y. source_key dst y = source_key dst x) cs \<noteq> []" using m(2) by (auto simp: filter_empty_conv)
  then obtain q where "filter (\<lambda>y. source_key dst y = source_key dst x) cs = x # q"
    using m(1) by (metis list.collapse)
  then obtain pre post where s: "cs = pre @ x # post" "\<forall>y\<in>set pre. source_key dst y \<noteq> source_key dst x"
    by (auto simp: filter_eq_Cons_iff)
  have "\<forall>y\<in>set cs. \<not> beats dst y x" using m(2,3) p by (simp add: not_less)
  moreover have "\<forall>y\<in>set pre. beats dst x y"
  proof
    fix y assume "y \<in> set pre"
    then have "y \<in> set cs" "source_key dst y \<noteq> source_key dst x" using s by auto
    with m(2,3) p [of x y] show "beats dst x y" by force
  qed
  ultimately show ?thesis using r s(1) by blast
qed

section \<open>Scopes and prefixes by the RFCs\<close>

text \<open>The scope of an address as a multicast scope value (RFC 4291, section 2.7; RFC 6724,
  sections 3.1 and 3.2): the low half of a multicast address's second octet, link-local (2)
  for \<open>fe80::/10\<close>, the loopback address and the mapped IPv4 loopback and link-local
  addresses, site-local (5) for \<open>fec0::/10\<close>, and global (14) for every other address.\<close>

definition loopback6 :: bytes where
  "loopback6 = replicate 15 0 @ [1]"

definition rfc_scope :: "bytes \<Rightarrow> nat" where
  "rfc_scope b =
     (if b ! 0 = 0xFF then unat (b ! 1) mod 16
      else if b ! 0 = 0xFE \<and> 0x80 \<le> b ! 1 then (if b ! 1 < 0xC0 then 2 else 5)
      else if b = loopback6 then 2
      else if take 12 b = replicate 10 0 @ [0xFF, 0xFF] \<and> (b ! 12 = 127 \<or> b ! 12 = 169 \<and> b ! 13 = 254) then 2
      else 14)"

text \<open>The first \<open>m\<close> bits of an address.\<close>

definition leading :: "nat \<Rightarrow> bytes \<Rightarrow> nat" where
  "leading m b = from_be b div 2 ^ (128 - m)"

text \<open>Rules 1, 2 and 8 of RFC 6724, section 5, for the octets of the destination and two
  sources with a prefix length of \<open>l\<close>: the destination itself; the smaller of two scopes if it
  reaches the destination and the larger otherwise; more leading bits in common with the
  destination, of the first \<open>l\<close>.\<close>

definition rfc_prefers :: "nat \<Rightarrow> bytes \<Rightarrow> bytes \<Rightarrow> bytes \<Rightarrow> bool" where
  "rfc_prefers l d a b \<longleftrightarrow>
     a = d \<and> b \<noteq> d \<or>
     a \<noteq> d \<and> b \<noteq> d \<and>
       (rfc_scope a < rfc_scope b \<and> rfc_scope d \<le> rfc_scope a \<or>
        rfc_scope b < rfc_scope a \<and> rfc_scope b < rfc_scope d \<or>
        rfc_scope a = rfc_scope b \<and> (\<exists>m\<le>l. leading m a = leading m d \<and> leading m b \<noteq> leading m d))"

text \<open>Unicast addresses of the blocks whose scope \<open>in6_getscope\<close> knows, and the destinations
  it knows besides.\<close>

definition known_unicast :: "bytes \<Rightarrow> bool" where
  "known_unicast b \<longleftrightarrow> 0x20 \<le> b ! 0 \<and> b ! 0 < 0x40 \<or> 0xFC \<le> b ! 0 \<and> b ! 0 < 0xFE \<or> b ! 0 = 0xFE \<and> 0x80 \<le> b ! 1"

definition known_destination :: "bytes \<Rightarrow> bool" where
  "known_destination d \<longleftrightarrow>
     known_unicast d \<or> d = loopback6 \<or> d ! 0 = 0xFF \<and> (d ! 1 = 1 \<or> d ! 1 = 2 \<or> d ! 1 = 5 \<or> d ! 1 = 14)"

definition octets6 :: "string \<Rightarrow> bytes" where
  "octets6 a = (case pton6 a of Inr b \<Rightarrow> b | Inl _ \<Rightarrow> [])"

lemma octet_cmp:
  fixes w :: byte
  shows "0x20 \<le> w \<longleftrightarrow> 32 \<le> unat w" "w < 0x40 \<longleftrightarrow> unat w < 64" "0xFC \<le> w \<longleftrightarrow> 252 \<le> unat w" "w < 0xFE \<longleftrightarrow> unat w < 254"
    "0x80 \<le> w \<longleftrightarrow> 128 \<le> unat w" "w < 0xC0 \<longleftrightarrow> unat w < 192" "w = 0xFE \<longleftrightarrow> unat w = 254" "w = 0xFF \<longleftrightarrow> unat w = 255"
    "w = 1 \<longleftrightarrow> unat w = 1" "w = 2 \<longleftrightarrow> unat w = 2" "w = 5 \<longleftrightarrow> unat w = 5" "w = 14 \<longleftrightarrow> unat w = 14"
  by (simp_all add: word_le_nat_alt word_less_nat_alt word_unat_eq_iff)

lemma rank_of_octets:
  assumes "pton6 a = Inr (a0 # a1 # r)"
  shows "rank_of a =
    (if 32 \<le> unat a0 \<and> unat a0 < 64 \<or> 252 \<le> unat a0 \<and> unat a0 < 254 then 4
     else if unat a0 = 254 \<and> 128 \<le> unat a1 then (if unat a1 < 192 then 2 else 3)
     else if unat a0 = 255 then (if unat a1 = 14 then 4 else if unat a1 = 2 then 2 else if unat a1 = 5 then 3 else 1)
     else 1)"
  using in6_getscope_octets [OF assms] by (simp add: rank_of_def scope_rank_def scope_defs Let_def)

lemma scope_loopback: "rfc_scope loopback6 = 2"
  by code_simp

text \<open>On these the code's ranks order the scopes as the RFC does.\<close>

lemma rank_known:
  assumes "pton6 a = Inr b" "known_unicast b"
  shows "rank_of a = (if rfc_scope b = 2 then 2 else if rfc_scope b = 5 then 3 else 4)" "rfc_scope b \<in> {2, 5, 14}"
proof -
  obtain a0 a1 r where b: "b = a0 # a1 # r" using pton6_octetsE [OF assms(1)] by metis
  have "b ! 0 \<noteq> 0" using assms(2) by (auto simp: known_unicast_def octet_cmp)
  then have n: "b \<noteq> loopback6" "take 12 b \<noteq> replicate 10 0 @ [0xFF, 0xFF]"
    by (auto simp: b loopback6_def numeral_eq_Suc)
  show "rank_of a = (if rfc_scope b = 2 then 2 else if rfc_scope b = 5 then 3 else 4)" "rfc_scope b \<in> {2, 5, 14}"
    using rank_of_octets [OF assms(1) [unfolded b]] assms(2) n
    by (auto simp: rfc_scope_def known_unicast_def b octet_cmp)
qed

lemma rank_destination:
  assumes "pton6 dst = Inr d" "known_destination d"
  shows "rank_of dst = (if d = loopback6 then 1 else if rfc_scope d = 1 then 1 else if rfc_scope d = 2 then 2
      else if rfc_scope d = 5 then 3 else 4)" "rfc_scope d \<in> {1, 2, 5, 14}"
proof -
  obtain d0 d1 r where d: "d = d0 # d1 # r" using pton6_octetsE [OF assms(1)] by metis
  have z: "d0 = 0" if "d = loopback6" using that by (simp add: d loopback6_def numeral_eq_Suc)
  have l: "d \<noteq> loopback6" if "known_unicast d" using that z by (auto simp: d known_unicast_def octet_cmp)
  have "rank_of dst = (if d = loopback6 then 1 else if rfc_scope d = 1 then 1 else if rfc_scope d = 2 then 2
      else if rfc_scope d = 5 then 3 else 4) \<and> rfc_scope d \<in> {1, 2, 5, 14}"
  proof (cases "known_unicast d")
    case True
    then show ?thesis using rank_known [OF assms(1) True] l by auto
  next
    case False
    then consider "d = loopback6" | "d ! 0 = 0xFF" "d ! 1 = 1 \<or> d ! 1 = 2 \<or> d ! 1 = 5 \<or> d ! 1 = 14"
      using assms(2) by (auto simp: known_destination_def)
    then show ?thesis
    proof cases
      case 1
      then show ?thesis using rank_of_octets [OF assms(1) [unfolded d]] z by (simp add: scope_loopback)
    next
      case 2
      then have "d \<noteq> loopback6" using z by (auto simp: d)
      with 2 show ?thesis using rank_of_octets [OF assms(1) [unfolded d]] by (auto simp: rfc_scope_def d)
    qed
  qed
  then show "rank_of dst = (if d = loopback6 then 1 else if rfc_scope d = 1 then 1 else if rfc_scope d = 2 then 2
      else if rfc_scope d = 5 then 3 else 4)" "rfc_scope d \<in> {1, 2, 5, 14}" by simp_all
qed

lemma plen_longer:
  assumes "pton6 dst = Inr d" "pton6 a = Inr x" "pton6 b = Inr y"
  shows "plen_of dst b < plen_of dst a \<longleftrightarrow> (\<exists>m\<le>128. leading m x = leading m d \<and> leading m y \<noteq> leading m d)"
proof -
  have k: "int m \<le> plen_of dst a \<longleftrightarrow> leading m x = leading m d" "int m \<le> plen_of dst b \<longleftrightarrow> leading m y = leading m d"
    if "m \<le> 128" for m
    using common_plen_bits [OF assms(2,1)] common_plen_bits [OF assms(3,1)] that by (auto simp: plen_of_def leading_def)
  note p = rank_plen_of [OF assms(1,2)] rank_plen_of [OF assms(1,3)]
  show ?thesis
  proof
    assume "plen_of dst b < plen_of dst a"
    then show "\<exists>m\<le>128. leading m x = leading m d \<and> leading m y \<noteq> leading m d"
      using k [of "nat (plen_of dst a)"] p by (intro exI [of _ "nat (plen_of dst a)"]) auto
  next
    assume "\<exists>m\<le>128. leading m x = leading m d \<and> leading m y \<noteq> leading m d"
    then show "plen_of dst b < plen_of dst a" using k by force
  qed
qed

lemma leading_all: "length x = 16 \<Longrightarrow> length y = 16 \<Longrightarrow> leading 128 x = leading 128 y \<longleftrightarrow> x = y"
  using from_be_inject [of x y] by (simp add: leading_def)

text \<open>Where the scopes are known, beating is being preferred, except that the code tells two
  spellings of the destination apart.\<close>

lemma beats_prefers:
  assumes "pton6 dst = Inr d" "known_destination d" "pton6 a = Inr x" "pton6 b = Inr y"
    "known_unicast x \<or> x = d" "known_unicast y \<or> y = d"
  shows "beats dst a b \<Longrightarrow> rfc_prefers 128 d x y \<or> x = d \<and> y = d"
    "rfc_prefers 128 d x y \<Longrightarrow> beats dst a b"
proof -
  have dst: "z = dst \<Longrightarrow> pton6 z = Inr w \<Longrightarrow> w = d" for z w using assms(1) by simp
  have same: "rank_of z = rank_of dst" "plen_of dst z = 128" if "pton6 z = Inr d" for z
  proof -
    obtain d0 d1 r where "d = d0 # d1 # r" using pton6_octetsE [OF assms(1)] by metis
    with that assms(1) show "rank_of z = rank_of dst" using rank_of_octets [of _ d0 d1 r] by simp
    from common_plen_bits [OF that assms(1)] obtain p where
      p: "in6_get_common_plen z dst = Inr p" "p \<le> 128" "int 128 \<le> p \<longleftrightarrow> True" by fastforce
    then show "plen_of dst z = 128" by (simp add: plen_of_def)
  qed
  have short: "plen_of dst z < 128" if "pton6 z = Inr w" "w \<noteq> d" for z w
  proof -
    from common_plen_bits [OF that(1) assms(1)] obtain p where
      p: "in6_get_common_plen z dst = Inr p" "p \<le> 128" "int 128 \<le> p \<longleftrightarrow> leading 128 w = leading 128 d"
      by (auto simp: leading_def)
    then show ?thesis using leading_all [of w d] that pton6_length assms(1) by (simp add: plen_of_def)
  qed
  note r = rank_plen_of [OF assms(1,3)] rank_plen_of [OF assms(1,4)]
  note rd = rank_destination [OF assms(1,2)]
  have "(beats dst a b \<longrightarrow> rfc_prefers 128 d x y \<or> x = d \<and> y = d) \<and> (rfc_prefers 128 d x y \<longrightarrow> beats dst a b)"
  proof (cases "x = d")
    case True
    show ?thesis
    proof (cases "y = d")
      case True
      with \<open>x = d\<close> show ?thesis by (simp add: rfc_prefers_def)
    next
      case False
      with assms(4) have "b \<noteq> dst" "plen_of dst b < 128" using dst short by auto
      with True False same [of a] assms(3) show ?thesis by (auto simp: rfc_prefers_def beats_def)
    qed
  next
    case x: False
    then have na: "a \<noteq> dst" "plen_of dst a < 128" "known_unicast x" using assms(3,5) dst short by auto
    show ?thesis
    proof (cases "y = d")
      case True
      with x na same [of b] assms(4) show ?thesis by (auto simp: rfc_prefers_def beats_def)
    next
      case False
      then have nb: "b \<noteq> dst" "known_unicast y" using assms(4,6) dst by auto
      have scopes: "rfc_scope x = 2 \<or> rfc_scope x = 5 \<or> rfc_scope x = 14" "rfc_scope y = 2 \<or> rfc_scope y = 5 \<or> rfc_scope y = 14"
        "rfc_scope d = 1 \<or> rfc_scope d = 2 \<or> rfc_scope d = 5 \<or> rfc_scope d = 14"
        using rank_known(2) [OF assms(3) na(3)] rank_known(2) [OF assms(4) nb(2)] rd(2) by simp_all
      note k = rank_known(1) [OF assms(3) na(3)] rank_known(1) [OF assms(4) nb(2)] rd(1)
      have "rank_of a < rank_of b \<longleftrightarrow> rfc_scope x < rfc_scope y" "rank_of b < rank_of a \<longleftrightarrow> rfc_scope y < rfc_scope x"
        "rank_of a = rank_of b \<longleftrightarrow> rfc_scope x = rfc_scope y" "rank_of dst \<le> rank_of a \<longleftrightarrow> rfc_scope d \<le> rfc_scope x"
        "rank_of b < rank_of dst \<longleftrightarrow> rfc_scope y < rfc_scope d"
        by (use scopes in \<open>elim disjE; cases "d = loopback6"; simp add: k scope_loopback\<close>)+
      then show ?thesis
        using x False na nb plen_longer [OF assms(1,3,4)] by (simp add: rfc_prefers_def beats_def)
    qed
  qed
  then show "beats dst a b \<Longrightarrow> rfc_prefers 128 d x y \<or> x = d \<and> y = d" "rfc_prefers 128 d x y \<Longrightarrow> beats dst a b" by blast+
qed

lemma rfc_prefers_mono: "rfc_prefers l d a b \<Longrightarrow> l \<le> l' \<Longrightarrow> rfc_prefers l' d a b"
  unfolding rfc_prefers_def by (meson le_trans)

text \<open>C8: of candidates in the unicast blocks the code knows the scope of,
  \<open>get_source_addr_from_candidate_set\<close> returns one that no other is preferred to by rules 1,
  2 and 8 of RFC 6724, whatever prefix length they share, and of the candidates none is
  preferred to it takes the first, unless an earlier one spells the destination differently.\<close>

theorem source_selection:
  assumes "pton6 dst = Inr d" "known_destination d"
    "\<forall>a\<in>set cs. \<exists>b. pton6 a = Inr b \<and> (known_unicast b \<or> b = d)" "cs \<noteq> []"
  shows "\<exists>pre x post. get_source_addr_from_candidate_set dst cs = Inr x \<and> cs = pre @ x # post \<and>
    (\<forall>y\<in>set cs. \<forall>l\<le>128. \<not> rfc_prefers l d (octets6 y) (octets6 x)) \<and>
    (\<forall>y\<in>set pre. rfc_prefers 128 d (octets6 x) (octets6 y) \<or> octets6 x = d \<and> octets6 y = d)"
proof -
  have o: "pton6 a = Inr (octets6 a)" "known_unicast (octets6 a) \<or> octets6 a = d" if "a \<in> set cs" for a
    using assms(3) that by (force simp: octets6_def)+
  obtain pre x post where c: "get_source_addr_from_candidate_set dst cs = Inr x" "cs = pre @ x # post"
    "\<forall>y\<in>set cs. \<not> beats dst y x" "\<forall>y\<in>set pre. beats dst x y"
    using chosen_source [OF assms(1) _ assms(4)] assms(3) by blast
  then have m: "x \<in> set cs" "\<forall>y\<in>set pre. y \<in> set cs" by auto
  have "\<not> rfc_prefers l d (octets6 y) (octets6 x)" if "y \<in> set cs" "l \<le> 128" for y l
    using beats_prefers(2) [OF assms(1,2) o(1) [OF that(1)] o(1) [OF m(1)] o(2) [OF that(1)] o(2) [OF m(1)]]
      c(3) that rfc_prefers_mono by blast
  moreover have "rfc_prefers 128 d (octets6 x) (octets6 y) \<or> octets6 x = d \<and> octets6 y = d" if "y \<in> set pre" for y
  proof -
    have y: "y \<in> set cs" using m(2) that by blast
    show ?thesis
      by (rule beats_prefers(1) [OF assms(1,2) o(1) [OF m(1)] o(1) [OF y] o(2) [OF m(1)] o(2) [OF y]])
        (use c(4) that in blast)
  qed
  ultimately show ?thesis using c(1,2) by blast
qed

text \<open>A link-local source reaches no global destination; of the two global ones the second
  shares more leading bits with it.\<close>

theorem source_selection_witness:
  "get_source_addr_from_candidate_set ''2001:db8::9'' [''fe80::1'', ''2002::1'', ''2001:db8::1''] = Inr ''2001:db8::1''"
proof -
  let ?d = "''2001:db8::9''" and ?cs = "[''fe80::1'', ''2002::1'', ''2001:db8::1'']"
  let ?o = "[0x20, 0x01, 0x0D, 0xB8] @ replicate 11 0 @ [9] :: bytes"
  let ?x1 = "[0xFE, 0x80] @ replicate 13 0 @ [1] :: bytes" and ?x2 = "[0x20, 0x02] @ replicate 13 0 @ [1] :: bytes"
    and ?x3 = "[0x20, 0x01, 0x0D, 0xB8] @ replicate 11 0 @ [1] :: bytes"
  have o: "pton6 ?d = Inr ?o" "pton6 ''fe80::1'' = Inr ?x1" "pton6 ''2002::1'' = Inr ?x2" "pton6 ''2001:db8::1'' = Inr ?x3"
    by code_simp+
  then have k: "octets6 ''fe80::1'' = ?x1" "octets6 ''2002::1'' = ?x2" "octets6 ''2001:db8::1'' = ?x3"
    by (simp_all add: octets6_def)
  have u: "known_destination ?o" "known_unicast ?x1" "known_unicast ?x2" "known_unicast ?x3" by code_simp+
  have l: "leading 16 ?x3 = leading 16 ?o" "leading 16 ?x2 \<noteq> leading 16 ?o" "rfc_scope ?x2 = 14" "rfc_scope ?x3 = 14"
    "rfc_scope ?x1 = 2" "rfc_scope ?o = 14" "?x3 \<noteq> ?o" "?x2 \<noteq> ?o" "?x1 \<noteq> ?o"
    by code_simp+
  have p: "rfc_prefers 128 ?o ?x3 ?x1" "rfc_prefers 128 ?o ?x3 ?x2"
    unfolding rfc_prefers_def using l by (simp_all only: simp_thms) (auto intro: exI [of _ 16])
  from source_selection [OF o(1) u(1), of ?cs] obtain x where
    x: "get_source_addr_from_candidate_set ?d ?cs = Inr x" "x \<in> set ?cs"
      "\<forall>y\<in>set ?cs. \<forall>l\<le>128. \<not> rfc_prefers l ?o (octets6 y) (octets6 x)"
    using o u by fastforce
  have "\<not> rfc_prefers 128 ?o ?x3 (octets6 x)" using x(3) k by (metis le_refl list.set_intros)
  then have "x \<noteq> ''fe80::1''" "x \<noteq> ''2002::1''" using p k by metis+
  then show ?thesis using x by simp
qed

text \<open>Of an address outside those blocks \<open>in6_getscope\<close> answers -1, which ranks below
  link-local. So for a global destination such as the NAT64 prefix's, or any other unicast
  address not in \<open>2000::/3\<close> or \<open>fc00::/7\<close>, every known source has a scope that reaches
  it, and the smallest is taken: a link-local source before a global one, against rule 2.\<close>

lemma unknown_destination_smallest:
  assumes "pton6 dst = Inr d" "\<not> known_unicast d" "d ! 0 \<noteq> 0xFF"
    "\<forall>a\<in>set cs. \<exists>b. pton6 a = Inr b \<and> known_unicast b" "cs \<noteq> []"
  shows "\<exists>x\<in>set cs. get_source_addr_from_candidate_set dst cs = Inr x \<and>
    (\<forall>y\<in>set cs. rfc_scope (octets6 x) \<le> rfc_scope (octets6 y))"
proof -
  obtain d0 d1 r where d: "d = d0 # d1 # r" using pton6_octetsE [OF assms(1)] by metis
  have r1: "rank_of dst = 1"
    using rank_of_octets [OF assms(1) [unfolded d]] assms(2,3) by (auto simp: known_unicast_def d octet_cmp)
  have o: "pton6 a = Inr (octets6 a)" "known_unicast (octets6 a)" "a \<noteq> dst" if "a \<in> set cs" for a
    using assms(1,2,4) that by (force simp: octets6_def)+
  obtain pre x post where c: "get_source_addr_from_candidate_set dst cs = Inr x" "cs = pre @ x # post"
    "\<forall>y\<in>set cs. \<not> beats dst y x"
    using chosen_source [OF assms(1) _ assms(5)] assms(4) by blast
  then have x: "x \<in> set cs" by auto
  have "rfc_scope (octets6 x) \<le> rfc_scope (octets6 y)" if "y \<in> set cs" for y
  proof (rule ccontr)
    assume "\<not> rfc_scope (octets6 x) \<le> rfc_scope (octets6 y)"
    then have "rank_of y < rank_of x"
      using rank_known [OF o(1,2) [OF that]] rank_known [OF o(1,2) [OF x]] by auto
    moreover have "1 \<le> rank_of y" using rank_plen_of [OF assms(1) o(1) [OF that]] by simp
    ultimately show False using c(3) that o(3) [OF that] o(3) [OF x] r1 by (auto simp: beats_def)
  qed
  with c(1) x show ?thesis by blast
qed

text \<open>The NAT64 prefix \<open>64:ff9b::/96\<close>: the RFC wants the global source, the code takes the
  link-local one.\<close>

lemma nat64_source:
  "get_source_addr_from_candidate_set ''64:ff9b::1'' [''fe80::1'', ''2001:db8::1''] = Inr ''fe80::1''"
  "rfc_prefers l (octets6 ''64:ff9b::1'') (octets6 ''2001:db8::1'') (octets6 ''fe80::1'')"
proof -
  let ?d = "''64:ff9b::1''" and ?cs = "[''fe80::1'', ''2001:db8::1'']"
  have o: "pton6 ?d = Inr ([0, 0x64, 0xFF, 0x9B] @ replicate 11 0 @ [1])" "pton6 ''fe80::1'' = Inr ([0xFE, 0x80] @ replicate 13 0 @ [1])"
    "pton6 ''2001:db8::1'' = Inr ([0x20, 0x01, 0x0D, 0xB8] @ replicate 11 0 @ [1])"
    by code_simp+
  have s: "rfc_scope (octets6 ?d) = 14" "rfc_scope (octets6 ''2001:db8::1'') = 14" "rfc_scope (octets6 ''fe80::1'') = 2"
    unfolding octets6_def o sum.case by code_simp+
  have "octets6 ?d \<noteq> octets6 ''2001:db8::1''" "octets6 ?d \<noteq> octets6 ''fe80::1''"
    by (simp_all add: octets6_def o)
  then show "rfc_prefers l (octets6 ?d) (octets6 ''2001:db8::1'') (octets6 ''fe80::1'')"
    using s by (simp add: rfc_prefers_def)
  have "known_unicast ([0xFE, 0x80] @ replicate 13 0 @ [1])" "known_unicast ([0x20, 0x01, 0x0D, 0xB8] @ replicate 11 0 @ [1])"
    "\<not> known_unicast ([0, 0x64, 0xFF, 0x9B] @ replicate 11 0 @ [1])"
    by code_simp+
  with unknown_destination_smallest [OF o(1), of ?cs] o s
  show "get_source_addr_from_candidate_set ?d ?cs = Inr ''fe80::1''" by auto
qed

section \<open>The candidates\<close>

text \<open>whatever the sort does with the comparison, if it returns a permutation then the
  candidates are those whose scope matches the destination's class.\<close>

lemma candidate_scopes:
  assumes "\<And>cmp xs ys. lsort cmp xs = Inr ys \<Longrightarrow> mset ys = mset xs"
    "construct_source_candidate_set lsort lo addr plen laddr = Inr cs" "pton6 addr = Inr (a0 # a1 # r)"
  shows "mset cs = (
    if 32 \<le> unat a0 \<and> unat a0 < 64 \<or> 252 \<le> unat a0 \<and> unat a0 < 254 \<or> a0 = 255 \<and> a1 = 14 \<or> addr = ''::'' \<and> plen = 0
    then mset (map fst (scoped IPV6_ADDR_GLOBAL laddr))
    else if a0 = 254 \<and> 128 \<le> unat a1 \<and> unat a1 < 192 \<or> a0 = 255 \<and> a1 = 2
    then mset (map fst (scoped IPV6_ADDR_LINKLOCAL laddr))
    else if a0 = 254 \<and> 192 \<le> unat a1 \<or> a0 = 255 \<and> a1 = 5 then mset (map fst (scoped IPV6_ADDR_SITELOCAL laddr))
    else if a0 = 255 \<and> a1 = 1 then {#''::1''#}
    else if addr = ''::1'' then mset (map fst (scoped IPV6_ADDR_LOOPBACK laddr)) else {#})"
proof -
  have u: "unat a0 = 254 \<longleftrightarrow> a0 = 254" "unat a0 = 255 \<longleftrightarrow> a0 = 255" "unat a1 = 14 \<longleftrightarrow> a1 = 14"
    "unat a1 = 1 \<longleftrightarrow> a1 = 1" "unat a1 = 2 \<longleftrightarrow> a1 = 2" "unat a1 = 5 \<longleftrightarrow> a1 = 5"
    "unat a1 = Suc 0 \<longleftrightarrow> a1 = 1"
    by (simp_all add: word_unat_eq_iff)
  obtain c where c: "candidate_set lo addr plen laddr = Inr c" "lsort cset_sort (map fst c) = Inr cs"
    using assms(2) by (auto simp: construct_source_candidate_set_def rbind_Inr_iff)
  have z: "a0 = 0" if "addr = ''::'' \<or> addr = ''::1''"
    using that assms(3) prefix_octets(10,11) by (auto simp: numeral_eq_Suc)
  have "mset cs = mset (map fst c)" by (rule assms(1) [OF c(2)])
  with c(1) z show ?thesis
    by (auto simp: candidate_set_def scope_tests [OF assms(3)] orelse_def test_then_def u split: if_splits)
qed

theorem candidate_scopes_witness:
  "construct_source_candidate_set (\<lambda>cmp xs. Inr xs) ''lo'' ''fe80::5'' 64
     [(''2001:db8::1'', 0, ''eth0''), (''fe80::1'', 0x20, ''eth0'')] = Inr [''fe80::1''] \<and>
   mset [''fe80::1''] = mset (map fst (scoped IPV6_ADDR_LINKLOCAL
     [(''2001:db8::1'', 0, ''eth0''), (''fe80::1'', 0x20, ''eth0'')]))"
proof -
  let ?l = "[(''2001:db8::1'', 0, ''eth0''), (''fe80::1'', 0x20, ''eth0'')]"
  have p: "pton6 ''fe80::5'' = Inr (0xFE # 0x80 # replicate 13 0 @ [5])" by code_simp
  have "construct_source_candidate_set (\<lambda>cmp xs. Inr xs) ''lo'' ''fe80::5'' 64 ?l = Inr [''fe80::1'']"
    by (simp add: construct_source_candidate_set_def candidate_set_def scope_tests [OF p] orelse_def test_then_def
      scoped_def scope_defs)
  with candidate_scopes [OF _ this p] show ?thesis by simp
qed

end
