(* ===== verification/In6_Derived.thy ===== *)
theory In6_Derived
  imports In6_Prefix
begin

text \<open>
  Round trips of \<open>utils6.py\<close>: RFC 1924's compact form, EUI-64 interface identifiers and
  6to4 prefixes.
\<close>

section \<open>Compact form\<close>

text \<open>The twenty digits are the base-85 digits of the address, the most significant first.\<close>

lemma digits85_less: "d \<in> set (digits85 k n) \<Longrightarrow> d < 85"
  by (induction k arbitrary: n) auto

lemma length_digits85 [simp]: "length (digits85 k n) = k"
  by (induction k arbitrary: n) auto

lemma digits85_value: "n < 85 ^ k \<Longrightarrow> foldr (\<lambda>d i. 85 * i + d) (digits85 k n) 0 = n"
  by (induction k arbitrary: n) (auto simp: less_mult_imp_div_less mult.commute)

lemma length_rfc1924map: "length rfc1924map = 85"
  by (simp add: rfc1924map_def)

lemma distinct_rfc1924map: "distinct rfc1924map"
  by code_simp

lemma index_of_nth: "distinct s \<Longrightarrow> d < length s \<Longrightarrow> index_of (s ! d) s = d"
proof (induction s arbitrary: d)
  case (Cons x s)
  then show ?case by (cases d) auto
qed simp

lemma foldl_digits:
  assumes "\<forall>d\<in>set ds. d < 85"
  shows "foldl (\<lambda>i c. 85 * i + index_of c rfc1924map) 0 (rev (map (\<lambda>d. rfc1924map ! d) ds)) =
    foldr (\<lambda>d i. 85 * i + d) ds 0"
  using assms
  by (induction ds) (simp_all add: index_of_nth distinct_rfc1924map length_rfc1924map)

text \<open>\<open>in6_ptoc\<close> writes every address in twenty digits that \<open>in6_ctop\<close> reads back as the
  address in its canonical text.\<close>

lemma ctop_ptoc:
  assumes "inet_pton6 addr = Some b"
  shows "\<exists>c. in6_ptoc addr = Some c \<and> length c = 20 \<and> in6_ctop c = Some (ntop6 b)"
proof -
  let ?ds = "digits85 20 (from_be b)"
  define c where "c = rev (map (\<lambda>d. rfc1924map ! d) ?ds)"
  have l: "length b = 16" using assms inet_pton6_length by simp
  then have v: "from_be b < 2 ^ 128" using from_be_less [of b] by simp
  also have "(2 :: nat) ^ 128 \<le> 85 ^ 20" by simp
  finally have "foldr (\<lambda>d i. 85 * i + d) ?ds 0 = from_be b" by (rule digits85_value)
  then have f: "foldl (\<lambda>i c. 85 * i + index_of c rfc1924map) 0 c = from_be b"
    unfolding c_def using foldl_digits [of ?ds] digits85_less by simp
  have n: "length c = 20" by (simp only: c_def length_rev length_map length_digits85)
  have "list_all (\<lambda>x. x \<in> set rfc1924map) c"
    using digits85_less [of _ 20 "from_be b"] length_rfc1924map
    by (auto simp: c_def list_all_iff simp del: digits85.simps)
  then have "in6_ctop c = Some (ntop6 b)"
    using n v l unfolding in6_ctop_def Let_def f by (simp add: to_be_from_be)
  moreover have "in6_ptoc addr = Some c" using assms by (simp only: in6_ptoc_def c_def option.map)
  ultimately show ?thesis using n by blast
qed

theorem ctop_ptoc_witness: "\<exists>c. in6_ptoc ''2001:db8::1'' = Some c \<and> in6_ctop c = Some ''2001:db8::1''"
proof -
  have "inet_pton6 ''2001:db8::1'' = Some ([0x20, 1, 0xD, 0xB8] @ replicate 11 0 @ [1])" by code_simp
  moreover have "ntop6 ([0x20, 1, 0xD, 0xB8] @ replicate 11 0 @ [1]) = ''2001:db8::1''" by code_simp
  ultimately show ?thesis using ctop_ptoc [of "''2001:db8::1''"] by auto
qed

section \<open>6to4\<close>

lemma inet_pton4_length: "inet_pton4 s = Some b \<Longrightarrow> length b = 4"
  using pton4_length [of s b] by (simp add: pton4_def)

text \<open>the IPv4 address in the 6to4 prefix of an address is that address in canonical
  text, and the prefix is recognised.\<close>

lemma extract_6to4:
  assumes "inet_pton4 addr = Some b"
  shows "\<exists>p. in6_get6to4Prefix addr = Some p \<and> in6_isaddr6to4 p = Inr True \<and>
    in6_6to4ExtractAddr p = Some (inet_ntoa b)"
  using inet_pton4_length [OF assms] assms
  by (simp add: in6_get6to4Prefix_def in6_isaddr6to4_def in6_6to4ExtractAddr_def pton6_def inet_pton6_ntop6)

theorem extract_6to4_witness:
  "\<exists>p. in6_get6to4Prefix ''192.0.2.1'' = Some p \<and> in6_6to4ExtractAddr p = Some ''192.0.2.1''"
proof -
  have "inet_pton4 ''192.0.2.1'' = Some [192, 0, 2, 1]" by code_simp
  moreover have "inet_ntoa [192, 0, 2, 1] = ''192.0.2.1''" by code_simp
  ultimately show ?thesis using extract_6to4 [of "''192.0.2.1''"] by auto
qed

section \<open>EUI-64\<close>

text \<open>Two hexadecimal digits, in lower and in upper case.\<close>

lemma hex_str_2: "x < 256 \<Longrightarrow> hex_str 2 x = [digit_char (x div 16), digit_char (x mod 16)]"
  by (auto simp: hex_str_def pad0_def numeral_str.simps [of 16 x] numeral_str.simps [of 16 "x div 16"]
      numeral_str.simps [of 16 x])

definition upper_digit :: "nat \<Rightarrow> char" where
  "upper_digit d = hd (upper_str [digit_char d])"

lemma upper_digits:
  "d < 16 \<Longrightarrow> upper_str (digit_char d # s) = upper_digit d # upper_str s"
  "d < 16 \<Longrightarrow> digit_val (upper_digit d) = Some d" "d < 16 \<Longrightarrow> upper_digit d \<noteq> CHR '':''"
  "d < 16 \<Longrightarrow> upper_digit d \<noteq> CHR ''.''"
proof -
  show "upper_str (digit_char d # s) = upper_digit d # upper_str s" by (simp add: upper_digit_def upper_str_def)
  have "\<forall>d\<in>set [0..<16]. digit_val (upper_digit d) = Some d \<and> upper_digit d \<noteq> CHR '':'' \<and> upper_digit d \<noteq> CHR ''.''"
    by code_simp
  then show "d < 16 \<Longrightarrow> digit_val (upper_digit d) = Some d" "d < 16 \<Longrightarrow> upper_digit d \<noteq> CHR '':''"
    "d < 16 \<Longrightarrow> upper_digit d \<noteq> CHR ''.''" by auto
qed

lemma upper_str_append: "upper_str (s @ t) = upper_str s @ upper_str t"
  by (simp add: upper_str_def)

lemma pton6_group_upper:
  assumes "x < 256" "y < 256"
  shows "pton6_group (upper_str (hex_str 2 x @ hex_str 2 y)) = Some [of_nat x, of_nat y]"
proof -
  have d: "x div 16 < 16" "x mod 16 < 16" "y div 16 < 16" "y mod 16 < 16" using assms by auto
  have v: "x div 16 * 16 + x mod 16 = x" "y div 16 * 16 + y mod 16 = y" by simp_all
  have "((x div 16 * 16 + x mod 16) * 16 + y div 16) * 16 + y mod 16 = x * 256 + y"
  proof -
    have "(x * 16 + q) * 16 + r = x * 256 + (q * 16 + r)" for q r by simp
    then show ?thesis unfolding v(1) by (simp only: v(2))
  qed
  moreover have "(x * 256 + y) div 256 = x" "(x * 256 + y) mod 256 = y" using assms by auto
  ultimately show ?thesis
    using assms d by (simp add: pton6_group_def hex_str_2 upper_digits upper_str_def [of "[]"] to_be_2 del: div_mult_mod_eq)
qed

lemma ul_bit_flip:
  assumes "0 \<le> i" "i < 256"
  shows "(i AND 0xFD) OR ((if i AND 0x02 \<noteq> 0 then 0 else 1) * 2) = i XOR (2 :: int)"
proof -
  have "\<forall>i\<in>set (map int [0..<256]). (i AND 0xFD) OR ((if i AND 0x02 \<noteq> 0 then 0 else 1) * 2) = i XOR (2 :: int)"
    by code_simp
  moreover have "i \<in> set (map int [0..<256])" using assms by (auto simp: image_iff intro!: bexI [of _ "nat i"])
  ultimately show ?thesis by blast
qed

text \<open>\<open>in6_ifaceidtomac\<close> reads back the hardware address \<open>in6_mactoifaceid\<close> makes an
  interface identifier of.\<close>

lemma ifaceidtomac_mactoifaceid:
  assumes "length b = 6"
  shows "\<exists>i. in6_mactoifaceid (str2mac b) None = Inr i \<and> in6_ifaceidtomac i = Some (str2mac b)"
proof -
  obtain b0 b1 b2 b3 b4 b5 where b: "b = [b0, b1, b2, b3, b4, b5]"
    using assms by (auto simp: numeral_eq_Suc length_Suc_conv)
  let ?h = "\<lambda>x. hex_str 2 (unat (x :: byte))" and ?u = "\<lambda>x y. upper_str (hex_str 2 (unat (x :: byte)) @ hex_str 2 (unat (y :: byte)))"
  have h: "length (?h x) = 2" for x by (simp add: hex_str_2)
  have m: "str2mac b = py_join '':'' (map ?h b)" by (simp add: str2mac_def b butlast_append)
  have s: "py_split colon (str2mac b) = map ?h b" unfolding m by (rule py_split_join) (auto simp: b)
  have l: "length (str2mac b) = 17" unfolding m by (simp add: b h)
  let ?m = "concat (map ?h b)"
  have parts: "length ?m = 12" "take 2 ?m = ?h b0" "take 2 (drop 2 ?m) = ?h b1" "take 2 (drop 4 ?m) = ?h b2"
    "take 2 (drop 6 ?m) = ?h b3" "take 4 (drop 8 ?m) = ?h b4 @ ?h b5"
    by (simp_all add: b hex_str_2)
  have f: "nat ((int (unat b0) AND 0xFD) OR ((if int (unat b0) AND 0x02 \<noteq> 0 then 0 else 1) * 2)) = unat (b0 XOR 2)"
    by (simp add: ul_bit_flip unsigned_xor_eq nat_eq_iff of_nat_xor_eq)
  define i where "i = ?u (b0 XOR 2) b1 @ '':'' @ ?u b2 0xFF @ '':'' @ ?u 0xFE b3 @ '':'' @ ?u b4 b5"
  have i: "in6_mactoifaceid (str2mac b) None = Inr i"
  proof -
    have "in6_mactoifaceid (str2mac b) None = Inr (upper_str (?h (b0 XOR 2) @ ?h b1 @ '':'' @ ?h b2 @ ''FF:FE''
        @ ?h b3 @ '':'' @ ?h b4 @ ?h b5))"
      unfolding in6_mactoifaceid_def s Let_def l parts py_int_hex_str option.case f by simp
    moreover have "upper_str (?h 0xFF) = ''FF''" "upper_str (?h 0xFE) = ''FE''" "upper_str ''FF:FE'' = ''FF:FE''"
      "upper_str '':'' = '':''" by code_simp+
    ultimately show ?thesis unfolding i_def by (simp only: upper_str_append append_assoc) simp
  qed
  have ne: "?u x y \<noteq> []" "colon \<notin> set (?u x y)" and dot: "CHR ''.'' \<notin> set (?u x y)" for x y
  proof -
    have d: "unat z div 16 < 16" for z :: byte using byte_less [of z] by linarith
    then have u: "?u x y = map upper_digit [unat x div 16, unat x mod 16, unat y div 16, unat y mod 16]"
      by (simp add: hex_str_2 upper_digits upper_str_def [of "[]"])
    show "?u x y \<noteq> []" unfolding u by simp
    show "colon \<notin> set (?u x y)" "CHR ''.'' \<notin> set (?u x y)"
      unfolding u using upper_digits(3,4) [OF d [of x]] upper_digits(3,4) [OF d [of y]]
        upper_digits(3,4) [of "unat x mod 16"] upper_digits(3,4) [of "unat y mod 16"] by (simp_all add: eq_commute)
  qed
  have j: "''::'' @ i = join6 [] [?u (b0 XOR 2) b1, ?u b2 0xFF, ?u 0xFE b3, ?u b4 b5]"
    by (simp add: join6_def i_def)
  have "inet_pton6 (''::'' @ i) = Some (replicate 8 0 @ [b0 XOR 2, b1, b2, 0xFF, 0xFE, b3, b4, b5])"
    unfolding j
  proof (subst inet_pton6_join6)
    show "pton6_groups True [?u (b0 XOR 2) b1, ?u b2 0xFF, ?u 0xFE b3, ?u b4 b5] =
      Some [b0 XOR 2, b1, b2, 0xFF, 0xFE, b3, b4, b5]" using dot by (simp add: pton6_group_upper)
  qed (use ne ne [of b2 "0xFF"] ne [of "0xFE" b3] in auto)
  then have "in6_ifaceidtomac i = Some (str2mac b)"
    unfolding m by (simp add: in6_ifaceidtomac_def Let_def b xor.assoc)
  with i show ?thesis by blast
qed

theorem ifaceidtomac_mactoifaceid_witness:
  "\<exists>i. in6_mactoifaceid ''00:1b:ff:00:00:01'' None = Inr i \<and> in6_ifaceidtomac i = Some ''00:1b:ff:00:00:01''"
proof -
  have "str2mac [0, 0x1B, 0xFF, 0, 0, 1] = ''00:1b:ff:00:00:01''" by code_simp
  with ifaceidtomac_mactoifaceid [of "[0, 0x1B, 0xFF, 0, 0, 1]"] show ?thesis by simp
qed

end
