(* ===== verification/Py_Str.thy ===== *)
theory Py_Str
  imports Py_Text
begin

text \<open>
  The methods of Python's \<open>str\<close> the routing table and the tables of text use, on Latin-1
  text: splitting at white space and at line ends, case, searching, padding.
\<close>

section \<open>White space and lines\<close>

text \<open>\<open>str.isspace\<close> of one character.\<close>

definition py_ws :: "char \<Rightarrow> bool" where
  "py_ws c \<longleftrightarrow> (let n = of_char c :: nat in 9 \<le> n \<and> n \<le> 13 \<or> 28 \<le> n \<and> n \<le> 32 \<or> n = 0x85 \<or> n = 0xA0)"

text \<open>\<open>s.split()\<close>: the runs of characters that are not white space.\<close>

fun words_acc :: "string \<Rightarrow> string \<Rightarrow> string list" where
  "words_acc w [] = (if w = [] then [] else [w])"
| "words_acc w (c # cs) =
     (if py_ws c then (if w = [] then words_acc [] cs else w # words_acc [] cs)
      else words_acc (w @ [c]) cs)"

definition py_words :: "string \<Rightarrow> string list" where
  "py_words s = words_acc [] s"

text \<open>\<open>s.splitlines()\<close>: a carriage return followed by a line feed is one end, and an end at
  the end of the text starts no line.\<close>

definition line_end :: "char \<Rightarrow> bool" where
  "line_end c \<longleftrightarrow> (let n = of_char c :: nat in 10 \<le> n \<and> n \<le> 13 \<or> 28 \<le> n \<and> n \<le> 30 \<or> n = 0x85)"

fun lines_acc :: "bool \<Rightarrow> string \<Rightarrow> string \<Rightarrow> string list" where
  "lines_acc cr w [] = (if w = [] then [] else [w])"
| "lines_acc cr w (c # cs) =
     (if cr \<and> c = CHR 0x0A then lines_acc False w cs
      else if line_end c then w # lines_acc (c = CHR 0x0D) [] cs
      else lines_acc False (w @ [c]) cs)"

definition splitlines :: "string \<Rightarrow> string list" where
  "splitlines s = lines_acc False [] s"

section \<open>Searching\<close>

definition lower_str :: "string \<Rightarrow> string" where
  "lower_str s = map (\<lambda>c. let n = of_char c :: nat in
     if 65 \<le> n \<and> n \<le> 90 \<or> 192 \<le> n \<and> n \<le> 222 \<and> n \<noteq> 215 then char_of (n + 32) else c) s"

definition starts_with :: "string \<Rightarrow> string \<Rightarrow> bool" where
  "starts_with p s \<longleftrightarrow> take (length p) s = p"

text \<open>\<open>p in s\<close>.\<close>

fun contains :: "string \<Rightarrow> string \<Rightarrow> bool" where
  "contains p [] \<longleftrightarrow> p = []"
| "contains p (c # cs) \<longleftrightarrow> starts_with p (c # cs) \<or> contains p cs"

text \<open>\<open>s.split(c, 1)\<close> as the part before the first \<open>c\<close> and what follows it, if it occurs.\<close>

definition split1 :: "char \<Rightarrow> string \<Rightarrow> string \<times> string option" where
  "split1 c s = (case dropWhile (\<lambda>x. x \<noteq> c) s of
     [] \<Rightarrow> (s, None) | _ # r \<Rightarrow> (takeWhile (\<lambda>x. x \<noteq> c) s, Some r))"

definition replace_char :: "char \<Rightarrow> char \<Rightarrow> string \<Rightarrow> string" where
  "replace_char a b s = map (\<lambda>c. if c = a then b else c) s"

definition ljust :: "nat \<Rightarrow> string \<Rightarrow> string" where
  "ljust n s = s @ replicate (n - length s) (CHR '' '')"

definition rstrip :: "string \<Rightarrow> string" where
  "rstrip s = rev (dropWhile py_ws (rev s))"

section \<open>Sets of addresses\<close>

text \<open>The loop of \<open>Route.route\<close> and \<open>Route6.route\<close> that takes the first address of a set such as
  \<open>192.168.*.1-5\<close>: it cuts from a dash to the separator after it until no dash is left.\<close>

function cut_ranges :: "char \<Rightarrow> string \<Rightarrow> string" where
  "cut_ranges sep s =
     (case dropWhile (\<lambda>c. c \<noteq> CHR ''-'') s of
        [] \<Rightarrow> s
      | d # r \<Rightarrow> cut_ranges sep (takeWhile (\<lambda>c. c \<noteq> CHR ''-'') s @ dropWhile (\<lambda>c. c \<noteq> sep) r))"
  by pat_completeness auto
termination
proof (relation "measure (\<lambda>(sep, s). length s)")
  fix sep d r and s :: string
  assume d: "dropWhile (\<lambda>c. c \<noteq> CHR ''-'') s = d # r"
  have "length s = length (takeWhile (\<lambda>c. c \<noteq> CHR ''-'') s) + length (d # r)"
    by (metis d length_append takeWhile_dropWhile_id)
  moreover have "length (dropWhile (\<lambda>c. c \<noteq> sep) r) \<le> length r" by (rule length_dropWhile_le)
  ultimately show "((sep, takeWhile (\<lambda>c. c \<noteq> CHR ''-'') s @ dropWhile (\<lambda>c. c \<noteq> sep) r), sep, s)
      \<in> measure (\<lambda>(sep, s). length s)" by simp
qed simp

declare cut_ranges.simps [simp del]

lemma cut_ranges_id: "CHR ''-'' \<notin> set s \<Longrightarrow> cut_ranges sep s = s"
proof -
  assume "CHR ''-'' \<notin> set s"
  then have d: "dropWhile (\<lambda>c. c \<noteq> CHR ''-'') s = []" by auto
  show ?thesis unfolding cut_ranges.simps [of sep s] d by simp
qed

lemma cut_ranges_no_dash: "CHR ''-'' \<notin> set (cut_ranges sep s)"
proof (induction sep s rule: cut_ranges.induct)
  case (1 sep s)
  show ?case
  proof (cases "dropWhile (\<lambda>c. c \<noteq> CHR ''-'') s")
    case Nil
    have "cut_ranges sep s = s" unfolding cut_ranges.simps [of sep s] Nil by simp
    moreover have "CHR ''-'' \<notin> set s" using Nil by auto
    ultimately show ?thesis by simp
  next
    case (Cons d r)
    with 1 show ?thesis by (subst cut_ranges.simps) simp
  qed
qed

end
