(* ===== verification/Route_Read.thy ===== *)
theory Route_Read
  imports Py_Str In6_Source
begin

text \<open>
  Reading the routing tables of the host (the first half of \<open>route.py\<close>). What the operating
  system answers is a record: the lines of the files under \<open>/proc\<close> (\<open>None\<close> where they cannot be
  opened), the output of the tools (empty where they are missing), the interface names and
  their addresses, the byte order and the name of the loopback interface. The sort of the
  candidate sets, whose comparison is not an order, is there too.
\<close>

record host =
  h_linux :: bool
  h_bsd :: bool
  h_big :: bool
  h_loopback :: string
  h_if_names :: "string list"
  h_if_addr :: "string \<Rightarrow> string"
  h_proc_route :: "string list option"
  h_proc_if_inet6 :: "string list option"
  h_proc_ipv6_route :: "string list option"
  h_netstat :: string
  h_netstat6 :: string
  h_ifconfig :: string
  h_sort :: "(string \<Rightarrow> string \<Rightarrow> int res) \<Rightarrow> string list \<Rightarrow> string list res"

record ipv4_route =
  r_net :: nat
  r_msk :: nat
  r_gw :: string
  r_iface :: string
  r_addr :: string
  r_metric :: int

record ipv6_route =
  r6_prefix :: string
  r6_plen :: int
  r6_nh :: string
  r6_iface :: string
  r6_cset :: "string list"
  r6_metric :: int

section \<open>IPv4\<close>

definition route_atol :: "string \<Rightarrow> nat res" where
  "route_atol x = (case inet_aton x of None \<Rightarrow> Inl Value_Error | Some b \<Rightarrow> Inr (from_be b))"

definition route_itom :: "int \<Rightarrow> nat res" where
  "route_itom x =
     (if x = 0 then Inr 0
      else if 32 < x then Inl Value_Error
      else Inr (nat (push_bit (nat (32 - x)) 0xFFFFFFFF AND 0xFFFFFFFF)))"

definition proc_addr :: "bool \<Rightarrow> string \<Rightarrow> nat option" where
  "proc_addr big hexfield =
     (case py_int 16 hexfield of
        None \<Rightarrow> None
      | Some v \<Rightarrow> if 0 \<le> v \<and> v < 2 ^ 32
                 then Some (from_be (if big then to_be 4 (nat v) else to_le 4 (nat v))) else None)"

definition proc_route_line :: "host \<Rightarrow> string \<Rightarrow> ipv4_route option" where
  "proc_route_line h line =
     (let f = py_words line in
      if length f < 8 then None
      else (case (proc_addr (h_big h) (f ! 1), proc_addr (h_big h) (f ! 2), py_int 16 (f ! 3),
                  py_int 10 (f ! 6), proc_addr (h_big h) (f ! 7)) of
          (Some dst, Some gw, Some flags, Some metric, Some msk) \<Rightarrow>
            if flags AND 1 = 0 then None
            else Some \<lparr>r_net = dst, r_msk = msk, r_gw = ltoa (int gw), r_iface = f ! 0,
                       r_addr = h_if_addr h (f ! 0), r_metric = metric\<rparr>
        | _ \<Rightarrow> None))"

definition read_routes_proc :: "host \<Rightarrow> ipv4_route list" where
  "read_routes_proc h =
     (case h_proc_route h of None \<Rightarrow> [] | Some ls \<Rightarrow> List.map_filter (proc_route_line h) (drop 1 ls))"

definition netstat_columns :: "string \<Rightarrow> nat" where
  "netstat_columns header =
     (let low = lower_str header; b = (\<lambda>p. if p then 1 else 0) in
      b (contains ''mtu'' low) + b (contains ''prio'' low) + b (contains ''ref'' low)
      + b (contains ''use'' low \<or> contains ''nhop'' low))"

definition netstat_dest :: "string \<Rightarrow> (string \<times> nat) res" where
  "netstat_dest d =
     (case py_split (CHR ''/'') d of
        [_] \<Rightarrow> rbind (route_itom (int ((count_list d (CHR ''.'') + 1) * 8))) (\<lambda>m. Inr (d, m))
      | [d', plen] \<Rightarrow> (case py_int 10 plen of
            None \<Rightarrow> Inl Value_Error
          | Some p \<Rightarrow> rbind (route_itom p) (\<lambda>m. Inr (d', m)))
      | _ \<Rightarrow> Inl Value_Error)"

definition netstat_row :: "host \<Rightarrow> nat \<Rightarrow> string \<Rightarrow> ipv4_route option res" where
  "netstat_row h offset line =
     (let rt = py_words line in
      if length rt < 4 then Inr None
      else (let dst = rt ! 0; gw = rt ! 1; flg = rt ! 2 in
        if length rt \<le> 3 + offset then Inr None
        else (let netif = rt ! (3 + offset) in
          if contains ''lc'' flg then Inr None
          else rbind (if dst = ''default'' then Inr (Some (0, 0))
                      else rbind (netstat_dest dst) (\<lambda>(d, m).
                        case route_atol (d @ concat (replicate (3 - count_list d (CHR ''.'')) ''.0'')) of
                          Inl _ \<Rightarrow> Inr None | Inr dest \<Rightarrow> Inr (Some (dest, m))))
            (\<lambda>r. case r of
               None \<Rightarrow> Inr None
             | Some (dest, netmask) \<Rightarrow>
                 (let gw = (if CHR ''g'' \<in> set flg then gw else ''0.0.0.0'');
                      gw = (case route_atol gw of Inl _ \<Rightarrow> ''0.0.0.0'' | Inr _ \<Rightarrow> gw)
                  in Inr (Some \<lparr>r_net = dest, r_msk = netmask, r_gw = gw, r_iface = netif,
                                r_addr = h_if_addr h netif, r_metric = 1\<rparr>))))))"

fun netstat_loop :: "host \<Rightarrow> nat option \<Rightarrow> string list \<Rightarrow> ipv4_route list res" where
  "netstat_loop h cols [] = Inr []"
| "netstat_loop h cols (raw # raws) =
     (let line = lower_str (py_strip py_ws raw) in
      if line = [] \<or> contains ''----'' line then netstat_loop h cols raws
      else (case cols of
          None \<Rightarrow> netstat_loop h (if starts_with ''destination'' line then Some (netstat_columns line) else None) raws
        | Some offset \<Rightarrow> rbind (netstat_row h offset line) (\<lambda>r.
            rbind (netstat_loop h cols raws) (\<lambda>rs.
              Inr (case r of None \<Rightarrow> rs | Some r \<Rightarrow> r # rs)))))"

definition read_routes_netstat :: "host \<Rightarrow> ipv4_route list res" where
  "read_routes_netstat h = netstat_loop h None (splitlines (h_netstat h))"

definition read_routes_ifaces :: "host \<Rightarrow> ipv4_route list res" where
  "read_routes_ifaces h =
     rmap (\<lambda>name. rbind (route_atol (h_if_addr h name)) (\<lambda>n.
       Inr \<lparr>r_net = n, r_msk = 0xFFFFFFFF, r_gw = ''0.0.0.0'', r_iface = name,
            r_addr = h_if_addr h name, r_metric = 1\<rparr>))
       (filter (\<lambda>name. h_if_addr h name \<noteq> ''0.0.0.0'') (h_if_names h))"

definition read_routes :: "host \<Rightarrow> ipv4_route list res" where
  "read_routes h =
     rbind (if h_linux h then Inr (read_routes_proc h)
            else if h_bsd h then read_routes_netstat h else Inr []) (\<lambda>routes.
       if routes \<noteq> [] then Inr routes else read_routes_ifaces h)"

section \<open>IPv6\<close>

definition in6_valid :: "string \<Rightarrow> bool" where
  "in6_valid addr = (inet_pton6 addr \<noteq> None)"

text \<open>\<open>b[:n]\<close> and \<open>b[n]\<close> for sixteen octets, where Python counts a negative \<open>n\<close> from the end.\<close>

definition upto16 :: "bytes \<Rightarrow> int \<Rightarrow> bytes" where
  "upto16 b n = take (nat (if n < 0 then 16 + n else n)) b"

definition at16 :: "bytes \<Rightarrow> int \<Rightarrow> byte res" where
  "at16 b n = (if -16 \<le> n \<and> n < 16 then Inr (b ! nat (if n < 0 then 16 + n else n)) else Inl Index_Error)"

definition rest_mask :: "int \<Rightarrow> byte" where
  "rest_mask rest = of_int (push_bit (nat (8 - rest)) 0xFF AND 0xFF)"

definition in6_included :: "string \<Rightarrow> string \<Rightarrow> int \<Rightarrow> bool res" where
  "in6_included dst prefix plen =
     (case (inet_pton6 dst, inet_pton6 prefix) of
        (Some d, Some p) \<Rightarrow>
          (let whole = plen div 8; rest = plen mod 8 in
           if upto16 d whole \<noteq> upto16 p whole then Inr False
           else if rest \<noteq> 0 then
             rbind (at16 d whole) (\<lambda>x. rbind (at16 p whole) (\<lambda>y.
               Inr (x AND rest_mask rest = y AND rest_mask rest)))
           else Inr True)
      | _ \<Rightarrow> Inr False)"

fun from_hex :: "string \<Rightarrow> bytes option" where
  "from_hex [] = Some []"
| "from_hex [_] = None"
| "from_hex (a # b # r) =
     (case (digit_val a, digit_val b, from_hex r) of
        (Some x, Some y, Some bs) \<Rightarrow> if x < 16 \<and> y < 16 then Some (of_nat (x * 16 + y) # bs) else None
      | _ \<Rightarrow> None)"

definition hex_addr6 :: "string \<Rightarrow> string option" where
  "hex_addr6 s = (case from_hex s of Some b \<Rightarrow> if length b = 16 then Some (ntop6 b) else None | None \<Rightarrow> None)"

fun if_inet6_lines :: "string list \<Rightarrow> laddr list res" where
  "if_inet6_lines [] = Inr []"
| "if_inet6_lines (line # ls) =
     (let f = py_words line in
      if length f < 6 then if_inet6_lines ls
      else (case hex_addr6 (f ! 0) of
          None \<Rightarrow> if_inet6_lines ls
        | Some addr \<Rightarrow> rbind (in6_getscope addr) (\<lambda>s. rbind (if_inet6_lines ls) (\<lambda>r. Inr ((addr, s, f ! 5) # r)))))"

definition in6_getifaddr_proc :: "host \<Rightarrow> laddr list res" where
  "in6_getifaddr_proc h = (case h_proc_if_inet6 h of None \<Rightarrow> Inr [] | Some ls \<Rightarrow> if_inet6_lines ls)"

fun ifconfig_lines :: "string \<Rightarrow> string list \<Rightarrow> laddr list res" where
  "ifconfig_lines iface [] = Inr []"
| "ifconfig_lines iface (raw # ls) =
     (if raw \<noteq> [] \<and> \<not> py_ws (hd raw) then ifconfig_lines (fst (split1 colon raw)) ls
      else (let parts = py_words raw in
        if 2 \<le> length parts \<and> parts ! 0 = ''inet6'' then
          (case split1 (CHR ''%'') (parts ! 1) of (addr, zone) \<Rightarrow>
            (let dev = (case zone of None \<Rightarrow> iface | Some z \<Rightarrow> z) in
             if in6_valid addr then
               rbind (in6_getscope addr) (\<lambda>s. rbind (ifconfig_lines iface ls) (\<lambda>r. Inr ((addr, s, dev) # r)))
             else ifconfig_lines iface ls))
        else ifconfig_lines iface ls))"

definition in6_getifaddr_ifconfig :: "host \<Rightarrow> laddr list res" where
  "in6_getifaddr_ifconfig h = ifconfig_lines '''' (splitlines (h_ifconfig h))"

definition in6_getifaddr :: "host \<Rightarrow> laddr list res" where
  "in6_getifaddr h = (if h_linux h then in6_getifaddr_proc h else in6_getifaddr_ifconfig h)"

abbreviation devaddrs :: "string \<Rightarrow> laddr list \<Rightarrow> laddr list" where
  "devaddrs dev lifaddr \<equiv> filter (\<lambda>x. snd (snd x) = dev) lifaddr"

definition candidates :: "host \<Rightarrow> string \<Rightarrow> int \<Rightarrow> string \<Rightarrow> laddr list \<Rightarrow> string list res" where
  "candidates h prefix plen dev lifaddr =
     construct_source_candidate_set (h_sort h) (h_loopback h) prefix plen (devaddrs dev lifaddr)"

definition proc_route6_line :: "host \<Rightarrow> laddr list \<Rightarrow> string \<Rightarrow> ipv6_route option res" where
  "proc_route6_line h lifaddr line =
     (let f = py_words line in
      if length f < 10 then Inr None
      else (case (hex_addr6 (f ! 0), py_int 16 (f ! 1), hex_addr6 (f ! 4), py_int 16 (f ! 5), py_int 16 (f ! 8)) of
          (Some prefix, Some plen, Some nh, Some metric, Some flags) \<Rightarrow>
            if flags AND 1 = 0 then Inr None
            else test_then (in6_ismaddr prefix) (Inr None)
              (rbind (candidates h prefix plen (f ! 9) lifaddr) (\<lambda>cset.
                Inr (if cset \<noteq> [] then Some \<lparr>r6_prefix = prefix, r6_plen = plen, r6_nh = nh,
                       r6_iface = f ! 9, r6_cset = cset, r6_metric = metric\<rparr> else None)))
        | _ \<Rightarrow> Inr None))"

definition keep_some :: "'a option list \<Rightarrow> 'a list" where
  "keep_some = List.map_filter (\<lambda>x. x)"

definition read_routes6_proc :: "host \<Rightarrow> ipv6_route list res" where
  "read_routes6_proc h =
     rbind (in6_getifaddr h) (\<lambda>lifaddr.
       case h_proc_ipv6_route h of
         None \<Rightarrow> Inr []
       | Some ls \<Rightarrow> rbind (rmap (proc_route6_line h lifaddr) ls) (\<lambda>rs. Inr (keep_some rs)))"

text \<open>The destination, the interface and the prefix length out of a netstat line.\<close>

definition netstat6_split :: "string \<Rightarrow> string \<Rightarrow> string \<Rightarrow> string \<times> string \<times> string \<times> string" where
  "netstat6_split destination next_hop dev =
     (let (destination, dev, plen) = (case split1 (CHR ''%'') destination of
            (_, None) \<Rightarrow> (destination, dev, ''128'')
          | (d, Some v) \<Rightarrow> (case split1 (CHR ''/'') v of
                (_, None) \<Rightarrow> (d, v, ''128'') | (v', Some p) \<Rightarrow> (d, v', p)));
          (next_hop, dev) = (case split1 (CHR ''%'') next_hop of
            (_, None) \<Rightarrow> (next_hop, dev) | (n, Some v) \<Rightarrow> (n, v));
          next_hop = (if in6_valid next_hop then next_hop else ''::'');
          (destination, plen) = (if destination = ''default'' then (''::'', ''0'')
            else (case split1 (CHR ''/'') destination of (_, None) \<Rightarrow> (destination, plen) | (d, Some p) \<Rightarrow> (d, p)));
          (dev, plen) = (case split1 (CHR ''/'') dev of (_, None) \<Rightarrow> (dev, plen) | (v, Some p) \<Rightarrow> (v, p))
      in (destination, plen, next_hop, dev))"

definition netstat6_row :: "host \<Rightarrow> laddr list \<Rightarrow> string \<Rightarrow> ipv6_route option res" where
  "netstat6_row h lifaddr raw =
     (let parts = py_words raw in
      if length parts < 4 then Inr None
      else (let flags = parts ! 2 in
        if CHR ''U'' \<notin> set flags \<or> CHR ''R'' \<in> set flags \<or> CHR ''m'' \<in> set flags then Inr None
        else (case netstat6_split (parts ! 0) (if contains ''link'' (parts ! 1) then ''::'' else parts ! 1) (parts ! 3) of
            (destination, plen, next_hop, dev) \<Rightarrow>
              if \<not> in6_valid destination then Inr None
              else (case py_int 10 plen of
                  None \<Rightarrow> Inr None
                | Some plen \<Rightarrow> test_then (in6_ismaddr destination) (Inr None)
                    (rbind (if dev = h_loopback h then Inr ([''::1''], ''::'')
                            else rbind (candidates h destination plen dev lifaddr) (\<lambda>c. Inr (c, next_hop)))
                      (\<lambda>(cset, next_hop). Inr (if cset \<noteq> [] then
                         Some \<lparr>r6_prefix = destination, r6_plen = plen, r6_nh = next_hop, r6_iface = dev,
                               r6_cset = cset, r6_metric = 1\<rparr> else None)))))))"

fun netstat6_loop :: "host \<Rightarrow> laddr list \<Rightarrow> bool \<Rightarrow> string list \<Rightarrow> ipv6_route option list res" where
  "netstat6_loop h lifaddr started [] = Inr []"
| "netstat6_loop h lifaddr started (raw # raws) =
     (if \<not> started then netstat6_loop h lifaddr (starts_with ''destination'' (lower_str raw)) raws
      else rbind (netstat6_row h lifaddr raw) (\<lambda>r.
        rbind (netstat6_loop h lifaddr started raws) (\<lambda>rs. Inr (r # rs))))"

definition read_routes6_netstat :: "host \<Rightarrow> ipv6_route list res" where
  "read_routes6_netstat h =
     rbind (in6_getifaddr h) (\<lambda>lifaddr.
       if lifaddr = [] then Inr []
       else rbind (netstat6_loop h lifaddr False (splitlines (h_netstat6 h))) (\<lambda>rs. Inr (keep_some rs)))"

definition read_routes6 :: "host \<Rightarrow> ipv6_route list res" where
  "read_routes6 h =
     (if h_linux h then read_routes6_proc h else if h_bsd h then read_routes6_netstat h else Inr [])"

end
