(* ===== verification/Route4.thy ===== *)
theory Route4
  imports Route_Read
begin

text \<open>
  The IPv4 routing table (class \<open>Route\<close> of \<open>route.py\<close>): the routes, the cache of answers, and
  the operations on them. Operations are stateful computations: an error leaves what was
  changed before it, as an exception does.
\<close>

section \<open>The table\<close>

type_synonym answer = "string \<times> string \<times> string"

record route4 =
  rt_routes :: "ipv4_route list"
  rt_cache :: "(string \<times> string option) \<rightharpoonup> answer"

type_synonym 'a route4_op = "(route4, py_exn, 'a) comp"

definition invalidate_cache :: "unit route4_op" where
  "invalidate_cache st = (Inr (), st\<lparr>rt_cache := Map.empty\<rparr>)"

definition set_routes :: "(ipv4_route list \<Rightarrow> ipv4_route list) \<Rightarrow> unit route4_op" where
  "set_routes f st = (Inr (), st\<lparr>rt_routes := f (rt_routes st)\<rparr>)"

definition route_resync :: "host \<Rightarrow> unit route4_op" where
  "route_resync h = sbind invalidate_cache (\<lambda>_. sbind (lift (read_routes h)) (\<lambda>rs. set_routes (\<lambda>_. rs)))"

definition route_init :: "host \<Rightarrow> bool \<Rightarrow> py_exn + route4" where
  "route_init h autoload =
     (let st = \<lparr>rt_routes = [], rt_cache = Map.empty\<rparr> in
      if autoload then (case route_resync h st of (Inl e, _) \<Rightarrow> Inl e | (Inr _, st) \<Rightarrow> Inr st) else Inr st)"

section \<open>Looking up a destination\<close>

definition first_addr :: "string \<Rightarrow> string" where
  "first_addr dst = cut_ranges (CHR ''.'') (replace_char (CHR ''*'') (CHR ''0'') (hd (py_split (CHR ''/'') dst)))"

type_synonym path = "nat \<times> int \<times> answer"

fun route_paths :: "host \<Rightarrow> nat \<Rightarrow> string option \<Rightarrow> ipv4_route list \<Rightarrow> path list res" where
  "route_paths h d dev [] = Inr []"
| "route_paths h d dev (r # rs) =
     (if r_addr r = [] \<or> (dev \<noteq> None \<and> dev \<noteq> Some (r_iface r)) then route_paths h d dev rs
      else rbind (route_atol (r_addr r)) (\<lambda>aa. rbind (route_paths h d dev rs) (\<lambda>ps.
        Inr ((if aa = d \<and> aa \<noteq> 0 then [(0xFFFFFFFF, 1, (h_loopback h, r_addr r, ''0.0.0.0''))] else [])
             @ (if d AND r_msk r = r_net r AND r_msk r then [(r_msk r, r_metric r, (r_iface r, r_addr r, r_gw r))] else [])
             @ ps))))"

text \<open>\<open>paths.sort(key=lambda x: (-x[0], x[1]))\<close>: stable, by the pair in dictionary order.\<close>

definition path_less :: "('m :: linorder) \<times> int \<times> 'a \<Rightarrow> 'm \<times> int \<times> 'a \<Rightarrow> bool" where
  "path_less p q \<longleftrightarrow> fst q < fst p \<or> fst p = fst q \<and> fst (snd p) < fst (snd q)"

fun path_insert :: "('m :: linorder) \<times> int \<times> 'a \<Rightarrow> ('m \<times> int \<times> 'a) list \<Rightarrow> ('m \<times> int \<times> 'a) list" where
  "path_insert p [] = [p]"
| "path_insert p (q # qs) = (if path_less q p then q # path_insert p qs else p # q # qs)"

fun path_sort :: "(('m :: linorder) \<times> int \<times> 'a) list \<Rightarrow> ('m \<times> int \<times> 'a) list" where
  "path_sort [] = []"
| "path_sort (p # ps) = path_insert p (path_sort ps)"

definition route_with :: "(answer \<Rightarrow> answer route4_op) \<Rightarrow> host \<Rightarrow> string \<Rightarrow> string option \<Rightarrow> answer route4_op" where
  "route_with resolve h dst0 dev =
     (\<lambda>st. let dst = (if dst0 = [] then ''0.0.0.0'' else dst0) in
       case rt_cache st (dst, dev) of
         Some a \<Rightarrow> (Inr a, st)
       | None \<Rightarrow>
           sbind (lift (route_atol (first_addr dst))) (\<lambda>d.
           sbind (lift (route_paths h d dev (rt_routes st))) (\<lambda>paths.
             if paths = [] then ret (case dev of Some (c # v) \<Rightarrow> c # v | _ \<Rightarrow> h_loopback h, ''0.0.0.0'', ''0.0.0.0'')
             else sbind (resolve (snd (snd (hd (path_sort paths))))) (\<lambda>a st.
               (Inr a, st\<lparr>rt_cache := (rt_cache st)((dst, dev) \<mapsto> a)\<rparr>)))) st)"

definition route_internal :: "host \<Rightarrow> string \<Rightarrow> string option \<Rightarrow> answer route4_op" where
  "route_internal h = route_with ret h"

definition route_route :: "host \<Rightarrow> string \<Rightarrow> string option \<Rightarrow> answer route4_op" where
  "route_route h = route_with (\<lambda>(iface, src, gw).
     if src = ''0.0.0.0''
     then sbind (route_internal h gw None) (\<lambda>(_, src, _). ret (iface, src, gw))
     else ret (iface, src, gw)) h"

section \<open>Changing the table\<close>

text \<open>The arguments of \<open>add\<close> and \<open>delt\<close>: \<open>host\<close>, \<open>net\<close>, \<open>gw\<close>, \<open>dev\<close> and \<open>metric\<close>.\<close>

record route_args =
  a_host :: "string option"
  a_net :: "string option"
  a_gw :: "string option"
  a_dev :: "string option"
  a_metric :: int

definition net_and_len :: "route_args \<Rightarrow> (string \<times> int) res" where
  "net_and_len a =
     (case a_host a of
        Some thenet \<Rightarrow> Inr (thenet, 32)
      | None \<Rightarrow> (case a_net a of
            None \<Rightarrow> Inl Value_Error
          | Some net \<Rightarrow> (case py_split (CHR ''/'') net of
                [thenet, msk_b] \<Rightarrow> (case py_int 10 msk_b of None \<Rightarrow> Inl Value_Error | Some m \<Rightarrow> Inr (thenet, m))
              | _ \<Rightarrow> Inl Value_Error)))"

definition make_route :: "host \<Rightarrow> route_args \<Rightarrow> ipv4_route route4_op" where
  "make_route h a =
     sbind (lift (net_and_len a)) (\<lambda>(thenet, msk).
       let gw = (case a_gw a of None \<Rightarrow> ''0.0.0.0'' | Some g \<Rightarrow> g) in
       sbind (case a_dev a of
           None \<Rightarrow> sbind (route_route h (if gw \<noteq> [] then gw else thenet) None) (\<lambda>(dev, ifaddr, _). ret (dev, ifaddr))
         | Some dev \<Rightarrow> ret (dev, ''0.0.0.0'')) (\<lambda>(dev, ifaddr).
       sbind (lift (route_atol thenet)) (\<lambda>n. sbind (lift (route_itom msk)) (\<lambda>m.
         ret \<lparr>r_net = n, r_msk = m, r_gw = gw, r_iface = dev, r_addr = ifaddr, r_metric = a_metric a\<rparr>))))"

definition route_add :: "host \<Rightarrow> route_args \<Rightarrow> unit route4_op" where
  "route_add h a =
     sbind invalidate_cache (\<lambda>_. sbind (make_route h a) (\<lambda>r. set_routes (\<lambda>rs. rs @ [r])))"

definition route_delt :: "host \<Rightarrow> route_args \<Rightarrow> unit route4_op" where
  "route_delt h a =
     sbind invalidate_cache (\<lambda>_. sbind (make_route h a) (\<lambda>r st.
       if r \<in> set (rt_routes st) then set_routes (remove1 r) st else (Inl Value_Error, st)))"

text \<open>\<open>(addr.split("/") + [d])[:2]\<close> and the second part as a number.\<close>

definition addr_and_len :: "string \<Rightarrow> int \<Rightarrow> (string \<times> int) res" where
  "addr_and_len addr d =
     (case py_split (CHR ''/'') addr of
        a # l # _ \<Rightarrow> (case py_int 10 l of None \<Rightarrow> Inl Value_Error | Some n \<Rightarrow> Inr (a, n))
      | _ \<Rightarrow> Inr (addr, d))"

definition ifchange_route :: "string \<Rightarrow> string \<Rightarrow> nat \<Rightarrow> nat \<Rightarrow> ipv4_route \<Rightarrow> ipv4_route" where
  "ifchange_route ifn the_addr the_net the_msk r =
     (if ifn \<noteq> r_iface r then r
      else if r_gw r = ''0.0.0.0'' then r\<lparr>r_net := the_net, r_msk := the_msk, r_addr := the_addr\<rparr>
      else r\<lparr>r_addr := the_addr\<rparr>)"

definition if_net :: "string \<Rightarrow> (string \<times> nat \<times> nat) res" where
  "if_net addr = rbind (addr_and_len addr 32) (\<lambda>(the_addr, l). rbind (route_itom l) (\<lambda>the_msk.
     rbind (route_atol the_addr) (\<lambda>n. Inr (the_addr, n AND the_msk, the_msk))))"

definition route_ifchange :: "string \<Rightarrow> string \<Rightarrow> unit route4_op" where
  "route_ifchange ifn addr =
     sbind invalidate_cache (\<lambda>_. sbind (lift (if_net addr)) (\<lambda>(the_addr, the_net, the_msk).
       set_routes (map (ifchange_route ifn the_addr the_net the_msk))))"

definition route_ifdel :: "string \<Rightarrow> unit route4_op" where
  "route_ifdel ifn = sbind invalidate_cache (\<lambda>_. set_routes (filter (\<lambda>r. r_iface r \<noteq> ifn)))"

definition route_ifadd :: "string \<Rightarrow> string \<Rightarrow> unit route4_op" where
  "route_ifadd ifn addr =
     sbind invalidate_cache (\<lambda>_. sbind (lift (if_net addr)) (\<lambda>(the_addr, the_net, the_msk).
       set_routes (\<lambda>rs. rs @ [\<lparr>r_net = the_net, r_msk = the_msk, r_gw = ''0.0.0.0'', r_iface = ifn,
                               r_addr = the_addr, r_metric = 1\<rparr>])))"

section \<open>Reading the table\<close>

definition get_if_bcast :: "route4 \<Rightarrow> string \<Rightarrow> string list" where
  "get_if_bcast st ifn =
     map (\<lambda>r. ltoa (int (r_net r) OR (NOT (int (r_msk r)) AND 0xFFFFFFFF)))
       (filter (\<lambda>r. \<not> (r_net r = 0 \<or> r_msk r = 0xFFFFFFFF \<or> ifn \<noteq> r_iface r)) (rt_routes st))"

definition int_str :: "int \<Rightarrow> string" where
  "int_str i = (if i < 0 then ''-'' @ dec_str (nat (- i)) else dec_str (nat i))"

fun widen :: "nat list \<Rightarrow> string list \<Rightarrow> nat list" where
  "widen (w # ws) (c # cs) = max w (length c) # widen ws cs"
| "widen ws cs = ws"

definition pretty :: "string list list \<Rightarrow> string list \<Rightarrow> string" where
  "pretty rows header =
     (let widths = foldl widen (map length header) rows;
          line = (\<lambda>cells. rstrip (py_join ''  '' (map (\<lambda>(c, w). ljust w c) (zip cells widths))))
      in py_join [CHR 0x0A] (map line (header # rows)))"

definition route_repr :: "route4 \<Rightarrow> string" where
  "route_repr st =
     pretty (map (\<lambda>r. [ltoa (int (r_net r)), ltoa (int (r_msk r)), r_gw r, r_iface r, r_addr r, int_str (r_metric r)])
         (rt_routes st))
       [''Network'', ''Netmask'', ''Gateway'', ''Iface'', ''Output IP'', ''Metric'']"

end
