(* ===== verification/Cached_Table.thy ===== *)
theory Cached_Table
  imports Prelude
begin

text \<open>
  The contract of a table that caches its answers: a lookup in a coherent state answers what
  the table says without the cache, keeps the state coherent and changes no answer; a change
  of the table ends in a coherent state. The routing tables for IPv4 and IPv6 are its two
  instances.
\<close>

locale cached_table =
  fixes lookup :: "'k \<Rightarrow> ('s, 'e, 'v) comp"
    and answer :: "'s \<Rightarrow> 'k \<Rightarrow> 'e + 'v"
    and coherent :: "'s \<Rightarrow> bool"
    and change :: "'s \<Rightarrow> 's \<Rightarrow> bool"
  assumes lookup_answer: "coherent s \<Longrightarrow> fst (lookup k s) = answer s k"
    and lookup_coherent: "coherent s \<Longrightarrow> coherent (snd (lookup k s))"
    and lookup_frame: "answer (snd (lookup k s)) = answer s"
    and change_coherent: "coherent s \<Longrightarrow> change s t \<Longrightarrow> coherent t"
begin

definition step :: "'s \<Rightarrow> 's \<Rightarrow> bool" where
  "step s t \<longleftrightarrow> change s t \<or> (\<exists>k. t = snd (lookup k s))"

lemma reachable_coherent: "step\<^sup>*\<^sup>* s t \<Longrightarrow> coherent s \<Longrightarrow> coherent t"
  by (induction rule: rtranclp_induct) (auto simp: step_def change_coherent lookup_coherent)

text \<open>Whatever lookups and changes came before, a lookup answers what the table says.\<close>

lemma reachable_answer: "step\<^sup>*\<^sup>* s t \<Longrightarrow> coherent s \<Longrightarrow> fst (lookup k t) = answer t k"
  using reachable_coherent lookup_answer by blast

text \<open>Asking again, after any lookups, gives the same answer.\<close>

lemma lookups_frame:
  assumes "coherent s"
  shows "coherent (foldl (\<lambda>s k. snd (lookup k s)) s ks) \<and> answer (foldl (\<lambda>s k. snd (lookup k s)) s ks) = answer s"
  using assms by (induction ks arbitrary: s) (simp_all add: lookup_coherent lookup_frame)

lemma lookup_stable: "coherent s \<Longrightarrow> fst (lookup k (foldl (\<lambda>s k. snd (lookup k s)) s ks)) = fst (lookup k s)"
  using lookups_frame [of s ks] lookup_answer by simp

end

end
