(* ===== verification/Route4_Correct.thy ===== *)
theory Route4_Correct
  imports Route4 Cached_Table
begin

text \<open>
  The IPv4 table answers by longest prefix and then lowest metric, and its cache changes no
  answer as long as every gateway has a source address of its own and the interface is
  named when a route is added or removed; two counterexamples show why both are needed.
\<close>

section \<open>The best path\<close>

lemma set_path_insert [simp]: "set (path_insert p ps) = insert p (set ps)"
  by (induction ps) auto

lemma set_path_sort [simp]: "set (path_sort ps) = set ps"
  by (induction ps) auto

lemma path_sort_empty [simp]: "path_sort ps = [] \<longleftrightarrow> ps = []"
  by (metis set_path_sort set_empty)

lemma path_less_trans: "path_less p q \<Longrightarrow> path_less q r \<Longrightarrow> path_less p r"
  and path_not_less_trans: "\<not> path_less q p \<Longrightarrow> \<not> path_less r q \<Longrightarrow> \<not> path_less r p"
  by (auto simp: path_less_def)

lemma path_insert_sorted:
  "sorted_wrt (\<lambda>p q. \<not> path_less q p) ps \<Longrightarrow> sorted_wrt (\<lambda>p q. \<not> path_less q p) (path_insert p ps)"
  by (induction ps) (auto simp: path_less_def)

lemma path_sort_sorted: "sorted_wrt (\<lambda>p q. \<not> path_less q p) (path_sort ps)"
  by (induction ps) (auto intro: path_insert_sorted)

lemma hd_path_sort:
  assumes "ps \<noteq> []"
  shows "hd (path_sort ps) \<in> set ps" "q \<in> set ps \<Longrightarrow> \<not> path_less q (hd (path_sort ps))"
proof -
  have "path_sort ps \<noteq> []" using assms by simp
  then obtain p qs where e: "path_sort ps = p # qs" by (cases "path_sort ps") auto
  then have s: "set ps = insert p (set qs)" by (metis list.set(2) set_path_sort)
  then show "hd (path_sort ps) \<in> set ps" using e by simp
  show "q \<in> set ps \<Longrightarrow> \<not> path_less q (hd (path_sort ps))"
    using path_sort_sorted [of ps] e s by (auto simp: path_less_def)
qed

text \<open>What the routes offer for a destination: their own prefix, and the loopback interface
  for an address of the host.\<close>

definition offers :: "host \<Rightarrow> nat \<Rightarrow> string option \<Rightarrow> ipv4_route list \<Rightarrow> path \<Rightarrow> bool" where
  "offers h d dev rs p \<longleftrightarrow> (\<exists>r\<in>set rs. r_addr r \<noteq> [] \<and> (dev = None \<or> dev = Some (r_iface r)) \<and>
     (route_atol (r_addr r) = Inr d \<and> d \<noteq> 0 \<and> p = (0xFFFFFFFF, 1, (h_loopback h, r_addr r, ''0.0.0.0'')) \<or>
      d AND r_msk r = r_net r AND r_msk r \<and> p = (r_msk r, r_metric r, (r_iface r, r_addr r, r_gw r))))"

lemma route_paths_offers: "route_paths h d dev rs = Inr ps \<Longrightarrow> p \<in> set ps \<longleftrightarrow> offers h d dev rs p"
proof (induction rs arbitrary: ps)
  case (Cons r rs)
  show ?case
  proof (cases "r_addr r = [] \<or> (dev \<noteq> None \<and> dev \<noteq> Some (r_iface r))")
    case True
    with Cons show ?thesis by (auto simp: offers_def)
  next
    case False
    then obtain aa qs where q: "route_atol (r_addr r) = Inr aa" "route_paths h d dev rs = Inr qs"
      "ps = (if aa = d \<and> aa \<noteq> 0 then [(0xFFFFFFFF, 1, (h_loopback h, r_addr r, ''0.0.0.0''))] else [])
         @ (if d AND r_msk r = r_net r AND r_msk r then [(r_msk r, r_metric r, (r_iface r, r_addr r, r_gw r))] else []) @ qs"
      using Cons.prems by (auto simp: rbind_Inr_iff)
    have "offers h d dev (r # rs) p \<longleftrightarrow> offers h d dev [r] p \<or> offers h d dev rs p"
      by (auto simp: offers_def)
    moreover have "offers h d dev [r] p \<longleftrightarrow>
        aa = d \<and> aa \<noteq> 0 \<and> p = (0xFFFFFFFF, 1, (h_loopback h, r_addr r, ''0.0.0.0'')) \<or>
        d AND r_msk r = r_net r AND r_msk r \<and> p = (r_msk r, r_metric r, (r_iface r, r_addr r, r_gw r))"
      using False q(1) by (auto simp: offers_def)
    ultimately show ?thesis using Cons.IH [OF q(2)] q(3) by auto
  qed
qed (simp add: offers_def)

lemma route_paths_ok: "\<forall>r\<in>set rs. r_addr r \<noteq> [] \<longrightarrow> (\<exists>n. route_atol (r_addr r) = Inr n) \<Longrightarrow> \<exists>ps. route_paths h d dev rs = Inr ps"
  by (induction rs) auto

definition no_route :: "host \<Rightarrow> string option \<Rightarrow> answer" where
  "no_route h dev = (case dev of Some (c # v) \<Rightarrow> c # v | _ \<Rightarrow> h_loopback h, ''0.0.0.0'', ''0.0.0.0'')"

definition best_path :: "host \<Rightarrow> ipv4_route list \<Rightarrow> string \<Rightarrow> string option \<Rightarrow> answer option res" where
  "best_path h rs dst dev = rbind (route_atol (first_addr dst)) (\<lambda>d. rbind (route_paths h d dev rs) (\<lambda>ps.
     Inr (if ps = [] then None else Some (snd (snd (hd (path_sort ps)))))))"

lemma best_path_offers:
  assumes "route_atol (first_addr dst) = Inr d" "\<forall>r\<in>set rs. r_addr r \<noteq> [] \<longrightarrow> (\<exists>n. route_atol (r_addr r) = Inr n)"
  shows "(\<nexists>p. offers h d dev rs p) \<and> best_path h rs dst dev = Inr None \<or>
    (\<exists>m me a. best_path h rs dst dev = Inr (Some a) \<and> offers h d dev rs (m, me, a) \<and>
      (\<forall>m' me' a'. offers h d dev rs (m', me', a') \<longrightarrow> m' < m \<or> m' = m \<and> me \<le> me'))"
proof -
  obtain ps where ps: "route_paths h d dev rs = Inr ps" using route_paths_ok [OF assms(2)] by blast
  note o = route_paths_offers [OF ps]
  show ?thesis
  proof (cases "ps = []")
    case True
    with ps assms(1) have "best_path h rs dst dev = Inr None" by (simp add: best_path_def)
    moreover have "\<nexists>p. offers h d dev rs p" using o True by simp
    ultimately show ?thesis by blast
  next
    case False
    obtain m me a where p: "hd (path_sort ps) = (m, me, a)" by (metis prod_cases3)
    have "best_path h rs dst dev = Inr (Some a)" using ps assms(1) p False by (simp add: best_path_def)
    moreover have "offers h d dev rs (m, me, a)" using hd_path_sort(1) [OF False] p o by simp
    moreover have "m' < m \<or> m' = m \<and> me \<le> me'" if "offers h d dev rs (m', me', a')" for m' me' a'
      using hd_path_sort(2) [OF False, of "(m', me', a')"] that p o by (auto simp: path_less_def)
    ultimately show ?thesis by blast
  qed
qed

section \<open>The answers without a cache\<close>

definition dst_key :: "string \<Rightarrow> string" where
  "dst_key dst = (if dst = [] then ''0.0.0.0'' else dst)"

lemma dst_key_key [simp]: "dst_key (dst_key dst) = dst_key dst"
  by (simp add: dst_key_def)

definition direct :: "host \<Rightarrow> ipv4_route list \<Rightarrow> string \<Rightarrow> string option \<Rightarrow> answer res" where
  "direct h rs dst dev = rbind (best_path h rs (dst_key dst) dev) (\<lambda>b.
     Inr (case b of None \<Rightarrow> no_route h dev | Some a \<Rightarrow> a))"

definition resolved :: "host \<Rightarrow> ipv4_route list \<Rightarrow> string \<Rightarrow> string option \<Rightarrow> answer res" where
  "resolved h rs dst dev = rbind (best_path h rs (dst_key dst) dev) (\<lambda>b.
     case b of
       None \<Rightarrow> Inr (no_route h dev)
     | Some (iface, src, gw) \<Rightarrow>
         if src = ''0.0.0.0'' then rbind (direct h rs gw None) (\<lambda>(_, src, _). Inr (iface, src, gw))
         else Inr (iface, src, gw))"

lemma resolved_key [simp]: "resolved h rs (dst_key dst) dev = resolved h rs dst dev"
  by (simp add: resolved_def)

text \<open>Every gateway a route without a source relies on has one, or no route at all.\<close>

definition gw_sourced :: "host \<Rightarrow> ipv4_route list \<Rightarrow> string \<Rightarrow> bool" where
  "gw_sourced h rs gw = (case best_path h rs (dst_key gw) None of
     Inr (Some (_, src, _)) \<Rightarrow> src \<noteq> ''0.0.0.0'' | _ \<Rightarrow> True)"

definition sourced :: "host \<Rightarrow> ipv4_route list \<Rightarrow> bool" where
  "sourced h rs \<longleftrightarrow> (\<forall>r\<in>set rs. r_addr r = ''0.0.0.0'' \<longrightarrow> gw_sourced h rs (r_gw r))"

definition cache_ok :: "host \<Rightarrow> route4 \<Rightarrow> bool" where
  "cache_ok h st \<longleftrightarrow> sourced h (rt_routes st) \<and>
     (\<forall>dst dev a. rt_cache st (dst, dev) = Some a \<longrightarrow> dst_key dst = dst \<and> resolved h (rt_routes st) dst dev = Inr a)"

lemma gw_sourced_direct: "gw_sourced h rs gw \<Longrightarrow> resolved h rs gw None = direct h rs gw None"
  by (auto simp: gw_sourced_def resolved_def direct_def rbind_def split: sum.splits option.splits)

text \<open>A lookup that misses the cache finds the best path and settles it.\<close>

lemma route_with_cases:
  "route_with resolve h dst dev st =
    (case rt_cache st (dst_key dst, dev) of
       Some a \<Rightarrow> (Inr a, st)
     | None \<Rightarrow> (case best_path h (rt_routes st) (dst_key dst) dev of
           Inl e \<Rightarrow> (Inl e, st)
         | Inr None \<Rightarrow> (Inr (no_route h dev), st)
         | Inr (Some b) \<Rightarrow> sbind (resolve b) (\<lambda>a st.
             (Inr a, st\<lparr>rt_cache := (rt_cache st)((dst_key dst, dev) \<mapsto> a)\<rparr>)) st))"
proof -
  let ?d = "dst_key dst"
  have d: "(if dst = [] then ''0.0.0.0'' else dst) = ?d" by (simp add: dst_key_def)
  show ?thesis
  proof (cases "rt_cache st (?d, dev)")
    case None
    show ?thesis
    proof (cases "route_atol (first_addr ?d)")
      case (Inr a)
      with None show ?thesis
        unfolding route_with_def d
        by (cases "route_paths h a dev (rt_routes st)") (simp_all add: best_path_def no_route_def sbind_def)
    qed (use None in \<open>simp add: route_with_def d best_path_def\<close>)
  qed (simp add: route_with_def d)
qed

lemma best_path_route:
  assumes "best_path h rs dst dev = Inr (Some (i, s, g))"
  shows "(\<exists>r\<in>set rs. s = r_addr r \<and> g = r_gw r) \<or> g = ''0.0.0.0'' \<and> s \<noteq> ''0.0.0.0''"
proof -
  obtain d ps where ps: "route_atol (first_addr dst) = Inr d" "route_paths h d dev rs = Inr ps" "ps \<noteq> []"
    "snd (snd (hd (path_sort ps))) = (i, s, g)"
    using assms by (auto simp: best_path_def rbind_Inr_iff split: if_splits)
  then have "offers h d dev rs (fst (hd (path_sort ps)), fst (snd (hd (path_sort ps))), (i, s, g))"
    using hd_path_sort(1) [OF ps(3)] route_paths_offers [OF ps(2)] by (metis prod.collapse)
  moreover have "route_atol ''0.0.0.0'' = Inr 0" by code_simp
  ultimately show ?thesis by (auto simp: offers_def)
qed

lemma best_path_sourced:
  assumes "sourced h rs" "best_path h rs dst dev = Inr (Some (i, ''0.0.0.0'', g))"
  shows "gw_sourced h rs g"
  using best_path_route [OF assms(2)] assms(1) by (auto simp: sourced_def)

section \<open>The cache changes no answer\<close>

lemma cache_ok_insert:
  assumes "cache_ok h st" "resolved h (rt_routes st) dst dev = Inr a"
  shows "cache_ok h (st\<lparr>rt_cache := (rt_cache st)((dst_key dst, dev) \<mapsto> a)\<rparr>)"
  using assms unfolding cache_ok_def by (simp del: split_paired_All)

lemma route_internal_ok:
  assumes "cache_ok h st" "gw_sourced h (rt_routes st) gw"
  shows "fst (route_internal h gw None st) = direct h (rt_routes st) gw None"
    "cache_ok h (snd (route_internal h gw None st))"
    "rt_routes (snd (route_internal h gw None st)) = rt_routes st"
proof -
  note r = gw_sourced_direct [OF assms(2)]
  note c = assms(1) [unfolded cache_ok_def]
  consider (hit) a where "rt_cache st (dst_key gw, None) = Some a"
    | (err) e where "rt_cache st (dst_key gw, None) = None" "best_path h (rt_routes st) (dst_key gw) None = Inl e"
    | (none) "rt_cache st (dst_key gw, None) = None" "best_path h (rt_routes st) (dst_key gw) None = Inr None"
    | (path) b where "rt_cache st (dst_key gw, None) = None" "best_path h (rt_routes st) (dst_key gw) None = Inr (Some b)"
    by (metis old.sum.exhaust option.exhaust)
  then have "fst (route_internal h gw None st) = direct h (rt_routes st) gw None \<and>
    cache_ok h (snd (route_internal h gw None st)) \<and> rt_routes (snd (route_internal h gw None st)) = rt_routes st"
  proof cases
    case hit
    then have "resolved h (rt_routes st) (dst_key gw) None = Inr a" using c by blast
    then have "resolved h (rt_routes st) gw None = Inr a" by simp
    with hit r assms(1) show ?thesis by (simp add: route_internal_def route_with_cases)
  next
    case path
    then have d: "direct h (rt_routes st) gw None = Inr b" by (simp add: direct_def)
    then have "resolved h (rt_routes st) gw None = Inr b" using r by simp
    from cache_ok_insert [OF assms(1) this] path d show ?thesis
      by (simp add: route_internal_def route_with_cases sbind_def)
  qed (use assms(1) in \<open>simp_all add: route_internal_def route_with_cases direct_def\<close>)
  then show "fst (route_internal h gw None st) = direct h (rt_routes st) gw None"
    "cache_ok h (snd (route_internal h gw None st))"
    "rt_routes (snd (route_internal h gw None st)) = rt_routes st" by simp_all
qed

lemma route_route_ok:
  assumes "cache_ok h st"
  shows "fst (route_route h dst dev st) = resolved h (rt_routes st) dst dev"
    "cache_ok h (snd (route_route h dst dev st))"
proof -
  note c = assms [unfolded cache_ok_def]
  have "fst (route_route h dst dev st) = resolved h (rt_routes st) dst dev \<and> cache_ok h (snd (route_route h dst dev st))"
  proof (cases "rt_cache st (dst_key dst, dev)")
    case (Some a)
    then have "resolved h (rt_routes st) (dst_key dst) dev = Inr a" using c by blast
    then have "resolved h (rt_routes st) dst dev = Inr a" by simp
    with Some assms show ?thesis by (simp add: route_route_def route_with_cases)
  next
    case None
    show ?thesis
    proof (cases "\<exists>i g. best_path h (rt_routes st) (dst_key dst) dev = Inr (Some (i, ''0.0.0.0'', g))")
      case True
      then obtain i g where b: "best_path h (rt_routes st) (dst_key dst) dev = Inr (Some (i, ''0.0.0.0'', g))" by blast
      note k = route_internal_ok [OF assms best_path_sourced [OF conjunct1 [OF c] b]]
      obtain x st' where i: "route_internal h g None st = (x, st')" by fastforce
      have x: "x = direct h (rt_routes st) g None" "cache_ok h st'" "rt_routes st' = rt_routes st" using k i by simp_all
      show ?thesis
      proof (cases x)
        case (Inl e)
        then have "direct h (rt_routes st) g None = Inl e" "route_internal h g None st = (Inl e, st')" using x i by simp_all
        with x(2) b None show ?thesis
          by (simp add: route_route_def route_with_cases sbind_def resolved_def)
      next
        case (Inr a)
        obtain i2 s2 g2 where a: "a = (i2, s2, g2)" by (cases a)
        have d: "direct h (rt_routes st) g None = Inr a" "route_internal h g None st = (Inr a, st')" using x i Inr by simp_all
        have "resolved h (rt_routes st') dst dev = Inr (i, s2, g)"
          using b d x(3) a by (simp add: resolved_def)
        from cache_ok_insert [OF x(2) this] this x(3) d(2) b None a show ?thesis
          by (simp add: route_route_def route_with_cases sbind_def)
      qed
    next
      case False
      show ?thesis
      proof (cases "best_path h (rt_routes st) (dst_key dst) dev")
        case (Inr ob)
        show ?thesis
        proof (cases ob)
          case (Some b)
          obtain i s g where "b = (i, s, g)" by (cases b)
          with Some Inr False have "s \<noteq> ''0.0.0.0''" by auto
          with Some Inr \<open>b = (i, s, g)\<close> have "resolved h (rt_routes st) dst dev = Inr (i, s, g)"
            by (simp add: resolved_def)
          from cache_ok_insert [OF assms this] this Some Inr None \<open>b = (i, s, g)\<close> \<open>s \<noteq> ''0.0.0.0''\<close> show ?thesis
            by (simp add: route_route_def route_with_cases sbind_def)
        qed (use Inr None assms in \<open>simp add: route_route_def route_with_cases resolved_def\<close>)
      qed (use None assms in \<open>simp add: route_route_def route_with_cases resolved_def\<close>)
    qed
  qed
  then show "fst (route_route h dst dev st) = resolved h (rt_routes st) dst dev"
    "cache_ok h (snd (route_route h dst dev st))" by simp_all
qed

lemma route_with_routes:
  assumes "\<And>b s. rt_routes (snd (resolve b s)) = rt_routes s"
  shows "rt_routes (snd (route_with resolve h dst dev st)) = rt_routes st"
proof -
  have "rt_routes (snd (sbind (resolve b) (\<lambda>a st. (Inr a, st\<lparr>rt_cache := f a st\<rparr>)) st)) = rt_routes st" for b f
    using assms [of b st] by (auto simp: sbind_def split: prod.splits sum.splits)
  then show ?thesis unfolding route_with_cases by (auto split: option.splits sum.splits)
qed

lemma route_routes [simp]: "rt_routes (snd (route_route h dst dev st)) = rt_routes st"
proof -
  have i: "rt_routes (snd (route_internal h g None s)) = rt_routes s" for g s
    unfolding route_internal_def by (rule route_with_routes) simp
  show ?thesis
    unfolding route_route_def
  proof (rule route_with_routes)
    fix b :: answer and s
    obtain x y z where "b = (x, y, z)" by (cases b)
    then show "rt_routes (snd ((case b of (iface, src, gw) \<Rightarrow> if src = ''0.0.0.0'' then
        sbind (route_internal h gw None) (\<lambda>(_, src, _). ret (iface, src, gw)) else ret (iface, src, gw)) s)) = rt_routes s"
      using i [of z s] by (auto simp: sbind_def split: prod.splits sum.splits)
  qed
qed

section \<open>Changes of the table\<close>

inductive route_change :: "host \<Rightarrow> route4 \<Rightarrow> route4 \<Rightarrow> bool" for h where
  change_resync: "t = snd (route_resync h' s) \<Longrightarrow> sourced h (rt_routes t) \<Longrightarrow> route_change h s t"
| change_add: "t = snd (route_add h a s) \<Longrightarrow> a_dev a \<noteq> None \<Longrightarrow> sourced h (rt_routes t) \<Longrightarrow> route_change h s t"
| change_delt: "t = snd (route_delt h a s) \<Longrightarrow> a_dev a \<noteq> None \<Longrightarrow> sourced h (rt_routes t) \<Longrightarrow> route_change h s t"
| change_ifchange: "t = snd (route_ifchange ifn addr s) \<Longrightarrow> sourced h (rt_routes t) \<Longrightarrow> route_change h s t"
| change_ifdel: "t = snd (route_ifdel ifn s) \<Longrightarrow> sourced h (rt_routes t) \<Longrightarrow> route_change h s t"
| change_ifadd: "t = snd (route_ifadd ifn addr s) \<Longrightarrow> sourced h (rt_routes t) \<Longrightarrow> route_change h s t"

text \<open>Each of them empties the cache, also when it raises.\<close>

definition clears :: "unit route4_op \<Rightarrow> bool" where
  "clears m \<longleftrightarrow> (\<forall>s. rt_cache (snd (m s)) = Map.empty)"

lemma clears_after:
  assumes "\<And>x s. rt_cache (snd (m x s)) = rt_cache s"
  shows "clears (sbind invalidate_cache m)"
  using assms by (simp add: clears_def sbind_def invalidate_cache_def)

lemma sbind_cache:
  assumes "\<And>s. rt_cache (snd (m s)) = rt_cache s" "\<And>x s. rt_cache (snd (f x s)) = rt_cache s"
  shows "rt_cache (snd (sbind m f s)) = rt_cache s"
  using assms(1) [of s] assms(2) by (auto simp: sbind_def split: prod.splits sum.splits)

lemma set_routes_cache [simp]: "rt_cache (snd (set_routes f s)) = rt_cache s"
  by (simp add: set_routes_def)

lemma make_route_cache: "a_dev a \<noteq> None \<Longrightarrow> rt_cache (snd (make_route h a s)) = rt_cache s"
  unfolding make_route_def Let_def
  by (rule sbind_cache, simp) (auto intro!: sbind_cache split: prod.splits option.splits)

lemma changes_clear:
  "clears (route_resync h)" "clears (route_ifchange ifn addr)" "clears (route_ifdel ifn)" "clears (route_ifadd ifn addr)"
  "a_dev a \<noteq> None \<Longrightarrow> clears (route_add h a)" "a_dev a \<noteq> None \<Longrightarrow> clears (route_delt h a)"
  unfolding route_resync_def route_ifchange_def route_ifdel_def route_ifadd_def route_add_def route_delt_def
  by (rule clears_after; (auto intro!: sbind_cache make_route_cache split: prod.splits)?)+

lemma route_change_ok: "route_change h s t \<Longrightarrow> cache_ok h t"
  by (erule route_change.cases) (use changes_clear in \<open>simp_all add: clears_def cache_ok_def\<close>)

interpretation rt4: cached_table "\<lambda>(dst, dev). route_route h dst dev" "\<lambda>st (dst, dev). resolved h (rt_routes st) dst dev"
  "cache_ok h" "route_change h" for h
  by unfold_locales (auto simp: route_route_ok route_change_ok fun_eq_iff)

section \<open>Properties\<close>

text \<open>C11: a lookup that is not cached answers the interface and gateway of the route with the
  greatest mask and, among those, the lowest metric, out of the routes that match the
  destination and the loopback route of the host's own addresses; the source is the route's
  or, when it has none, that of its gateway. With no such route the answer is the loopback
  interface (or the one asked for) and no addresses.\<close>

theorem route_longest_prefix:
  assumes "rt_cache st (dst, dev) = None" "dst \<noteq> []" "route_atol (first_addr dst) = Inr d"
    "\<forall>r\<in>set (rt_routes st). r_addr r \<noteq> [] \<longrightarrow> (\<exists>n. route_atol (r_addr r) = Inr n)"
  shows "(\<nexists>p. offers h d dev (rt_routes st) p) \<and> route_route h dst dev st = (Inr (no_route h dev), st) \<or>
    (\<exists>m me i s g. offers h d dev (rt_routes st) (m, me, (i, s, g)) \<and>
      (\<forall>m' me' a'. offers h d dev (rt_routes st) (m', me', a') \<longrightarrow> m' < m \<or> m' = m \<and> me \<le> me') \<and>
      fst (route_route h dst dev st) = (if s \<noteq> ''0.0.0.0'' then Inr (i, s, g)
        else rbind (fst (route_internal h g None st)) (\<lambda>(_, s', _). Inr (i, s', g))))"
proof -
  have k: "dst_key dst = dst" using assms(2) by (simp add: dst_key_def)
  note r = route_with_cases [of _ h dst dev st, unfolded k, unfolded assms(1) option.case]
  from best_path_offers [OF assms(3,4), of h dev] show ?thesis
  proof (elim disjE exE conjE)
    fix m me a
    assume b: "best_path h (rt_routes st) dst dev = Inr (Some a)" and o: "offers h d dev (rt_routes st) (m, me, a)"
      "\<forall>m' me' a'. offers h d dev (rt_routes st) (m', me', a') \<longrightarrow> m' < m \<or> m' = m \<and> me \<le> me'"
    obtain i s g where a: "a = (i, s, g)" by (cases a)
    have "fst (route_route h dst dev st) = (if s \<noteq> ''0.0.0.0'' then Inr (i, s, g)
        else rbind (fst (route_internal h g None st)) (\<lambda>(_, s', _). Inr (i, s', g)))"
      unfolding route_route_def r b a by (auto simp: sbind_def rbind_def split: prod.splits sum.splits)
    with o a show ?thesis by blast
  qed (auto simp: route_route_def r)
qed

text \<open>A table with a network and a default route.\<close>

definition sample_host :: host where
  "sample_host = \<lparr>h_linux = True, h_bsd = False, h_big = False, h_loopback = ''lo'', h_if_names = [],
     h_if_addr = (\<lambda>_. ''0.0.0.0''), h_proc_route = None, h_proc_if_inet6 = None, h_proc_ipv6_route = None,
     h_netstat = '''', h_netstat6 = '''', h_ifconfig = '''', h_sort = rsort\<rparr>"

definition lan :: ipv4_route where
  "lan = \<lparr>r_net = 0xC0A80000, r_msk = 0xFFFFFF00, r_gw = ''0.0.0.0'', r_iface = ''eth0'', r_addr = ''192.168.0.2'', r_metric = 1\<rparr>"

definition deflt :: ipv4_route where
  "deflt = \<lparr>r_net = 0, r_msk = 0, r_gw = ''192.168.0.1'', r_iface = ''eth0'', r_addr = ''192.168.0.2'', r_metric = 1\<rparr>"

definition empty4 :: route4 where
  "empty4 = \<lparr>rt_routes = [], rt_cache = Map.empty\<rparr>"

theorem route_longest_prefix_witness:
  "fst (route_route sample_host ''192.168.0.7'' None (empty4\<lparr>rt_routes := [deflt, lan]\<rparr>)) =
    Inr (''eth0'', ''192.168.0.2'', ''0.0.0.0'')"
proof -
  let ?st = "empty4\<lparr>rt_routes := [deflt, lan]\<rparr>"
  have d: "route_atol (first_addr ''192.168.0.7'') = Inr 0xC0A80007" "route_atol ''192.168.0.2'' = Inr 0xC0A80002"
    by code_simp+
  have o: "offers sample_host 0xC0A80007 None [deflt, lan] p \<longleftrightarrow>
      p = (0, 1, (''eth0'', ''192.168.0.2'', ''192.168.0.1'')) \<or> p = (0xFFFFFF00, 1, (''eth0'', ''192.168.0.2'', ''0.0.0.0''))" for p
    using d(2) by (auto simp: offers_def deflt_def lan_def)
  have r: "rt_routes ?st = [deflt, lan]" by simp
  have "(\<nexists>p. offers sample_host 0xC0A80007 None (rt_routes ?st) p) \<and>
      route_route sample_host ''192.168.0.7'' None ?st = (Inr (no_route sample_host None), ?st) \<or>
    (\<exists>m me i s g. offers sample_host 0xC0A80007 None (rt_routes ?st) (m, me, (i, s, g)) \<and>
      (\<forall>m' me' a'. offers sample_host 0xC0A80007 None (rt_routes ?st) (m', me', a') \<longrightarrow> m' < m \<or> m' = m \<and> me \<le> me') \<and>
      fst (route_route sample_host ''192.168.0.7'' None ?st) = (if s \<noteq> ''0.0.0.0'' then Inr (i, s, g)
        else rbind (fst (route_internal sample_host g None ?st)) (\<lambda>(_, s', _). Inr (i, s', g))))"
    by (rule route_longest_prefix) (use d in \<open>auto simp: empty4_def deflt_def lan_def\<close>)
  moreover have "\<exists>p. offers sample_host 0xC0A80007 None (rt_routes ?st) p" unfolding r o by blast
  ultimately obtain m me i s g where b: "offers sample_host 0xC0A80007 None (rt_routes ?st) (m, me, (i, s, g))"
      "\<forall>m' me' a'. offers sample_host 0xC0A80007 None (rt_routes ?st) (m', me', a') \<longrightarrow> m' < m \<or> m' = m \<and> me \<le> me'"
      "fst (route_route sample_host ''192.168.0.7'' None ?st) = (if s \<noteq> ''0.0.0.0'' then Inr (i, s, g)
        else rbind (fst (route_internal sample_host g None ?st)) (\<lambda>(_, s', _). Inr (i, s', g)))" by blast
  then show ?thesis unfolding r o by auto
qed

text \<open>C3: whatever lookups and changes of the table came before, a lookup answers what the
  routes say without the cache, provided every table on the way gives its gateways a source
  and routes are added and removed with their interface named.\<close>

theorem route_cache_transparent:
  assumes "(\<lambda>s t. route_change h s t \<or> (\<exists>dst dev. t = snd (route_route h dst dev s)))\<^sup>*\<^sup>* empty4 st"
  shows "fst (route_route h dst dev st) = resolved h (rt_routes st) dst dev"
proof -
  have "(\<lambda>s t. route_change h s t \<or> (\<exists>dst dev. t = snd (route_route h dst dev s))) = rt4.step h"
    by (auto simp: rt4.step_def fun_eq_iff)
  moreover have "cache_ok h empty4" by (simp add: cache_ok_def empty4_def sourced_def)
  ultimately show ?thesis using rt4.reachable_answer [of h empty4 st "(dst, dev)"] assms by simp
qed

theorem route_cache_transparent_witness:
  "fst (route_route sample_host ''10.0.0.1'' None (snd (route_ifadd ''eth0'' ''192.168.0.2/24'' empty4))) =
    resolved sample_host (rt_routes (snd (route_ifadd ''eth0'' ''192.168.0.2/24'' empty4))) ''10.0.0.1'' None"
proof -
  have "rt_routes (snd (route_ifadd ''eth0'' ''192.168.0.2/24'' empty4)) = [lan]" by code_simp
  then have "route_change sample_host empty4 (snd (route_ifadd ''eth0'' ''192.168.0.2/24'' empty4))"
    by (intro change_ifadd) (simp_all add: sourced_def lan_def)
  then show ?thesis by (intro route_cache_transparent r_into_rtranclp) blast
qed

definition via_args :: route_args where
  "via_args = \<lparr>a_host = None, a_net = Some ''10.0.0.0/24'', a_gw = Some ''10.0.0.1'', a_dev = None, a_metric = 1\<rparr>"

text \<open>The gateway \<open>make_route\<close> looks up.\<close>

definition asked_gw :: "route_args \<Rightarrow> string" where
  "asked_gw a = (case a_gw a of None \<Rightarrow> ''0.0.0.0'' | Some g \<Rightarrow> g)"

lemma route_route_caches:
  assumes "route_route h dst dev st = (Inr x, st')" "best_path h (rt_routes st) (dst_key dst) dev \<noteq> Inr None"
  shows "rt_cache st' (dst_key dst, dev) = Some x"
  using assms unfolding route_route_def route_with_cases
  by (auto simp: sbind_def split: sum.splits option.splits prod.splits if_splits)

text \<open>A route built without a named interface has the interface and address the table
  answered for the gateway, and that answer stays in the cache.\<close>

lemma make_route_asks:
  assumes "make_route h a st = (Inr r, st')" "a_dev a = None" "asked_gw a \<noteq> []"
  obtains x where "route_route h (asked_gw a) None st = (Inr x, st')" "r_iface r = fst x" "r_addr r = fst (snd x)"
    "r_gw r = asked_gw a"
  using assms unfolding make_route_def Let_def asked_gw_def
  by (auto simp: sbind_def lift_def split: sum.splits prod.splits if_splits)

lemma best_path_found:
  assumes "route_atol (first_addr dst) = Inr d" "offers h d dev rs p"
  shows "best_path h rs dst dev \<noteq> Inr None"
  using assms by (auto simp: best_path_def rbind_def dest: route_paths_offers [where p = p] split: sum.splits) (metis prod.collapse)

text \<open>C34: adding a route without naming the interface leaves the answer for its gateway in
  the cache. Where the old table had a route to the gateway, the gateway is afterwards looked
  up as if the new route were not there: the table has the route at its end, and the answer
  is the one an uncached lookup gave before, whatever the new route covers.\<close>

theorem route_add_stale:
  assumes "route_add h a st = (Inr (), st')" "a_dev a = None" "asked_gw a \<noteq> []"
    "route_atol (first_addr (asked_gw a)) = Inr d" "offers h d None (rt_routes st) p"
  shows "\<exists>r i s g. rt_routes st' = rt_routes st @ [r] \<and> r_gw r = asked_gw a \<and> r_iface r = i \<and> r_addr r = s \<and>
    fst (route_route h (asked_gw a) None (st\<lparr>rt_cache := Map.empty\<rparr>)) = Inr (i, s, g) \<and>
    fst (route_route h (asked_gw a) None st') = Inr (i, s, g)"
proof -
  let ?e = "st\<lparr>rt_cache := Map.empty\<rparr>" and ?g = "asked_gw a"
  obtain r s1 where m: "make_route h a ?e = (Inr r, s1)" "st' = s1\<lparr>rt_routes := rt_routes s1 @ [r]\<rparr>"
    using assms(1) by (auto simp: route_add_def sbind_def invalidate_cache_def set_routes_def split: prod.splits sum.splits)
  obtain x where x: "route_route h ?g None ?e = (Inr x, s1)" "r_iface r = fst x" "r_addr r = fst (snd x)" "r_gw r = ?g"
    using make_route_asks [OF m(1) assms(2,3)] .
  have k: "dst_key ?g = ?g" using assms(3) by (simp add: dst_key_def)
  have "rt_cache s1 (?g, None) = Some x"
    using route_route_caches [OF x(1)] best_path_found [OF assms(4,5)] k by simp
  then have "route_route h ?g None st' = (Inr x, st')"
    using m(2) k by (simp add: route_route_def route_with_cases)
  moreover have "rt_routes s1 = rt_routes st" using route_routes [of h ?g None ?e] x(1) by simp
  ultimately show ?thesis using x m(2) by (cases x) simp
qed

text \<open>A default route over a network, and a new route for the network of its gateway: asked for
  the gateway, the table answers the default route's gateway; without the cache it answers
  the new route's.\<close>

theorem route_add_stale_witness:
  "(let st = snd (route_add sample_host via_args (empty4\<lparr>rt_routes := [deflt, lan]\<rparr>)) in
    fst (route_route sample_host ''10.0.0.1'' None st) = Inr (''eth0'', ''192.168.0.2'', ''192.168.0.1'') \<and>
    fst (route_route sample_host ''10.0.0.1'' None (st\<lparr>rt_cache := Map.empty\<rparr>)) = Inr (''eth0'', ''192.168.0.2'', ''10.0.0.1''))"
proof -
  let ?s = "empty4\<lparr>rt_routes := [deflt, lan]\<rparr>"
  have e: "?s\<lparr>rt_cache := Map.empty\<rparr> = ?s" by (simp add: empty4_def)
  have g: "asked_gw via_args = ''10.0.0.1''" "a_dev via_args = None" by (simp_all add: asked_gw_def via_args_def)
  have d: "route_atol (first_addr ''10.0.0.1'') = Inr 0x0A000001" by code_simp
  have f: "offers sample_host 0x0A000001 None (rt_routes ?s) (0, 1, (''eth0'', ''192.168.0.2'', ''192.168.0.1''))"
    by (simp add: offers_def deflt_def)
  have ok: "fst (route_add sample_host via_args ?s) = Inr ()" by code_simp
  have old: "fst (route_route sample_host ''10.0.0.1'' None ?s) = Inr (''eth0'', ''192.168.0.2'', ''192.168.0.1'')"
    by code_simp
  have new: "fst (route_route sample_host ''10.0.0.1'' None
      ((snd (route_add sample_host via_args ?s))\<lparr>rt_cache := Map.empty\<rparr>)) = Inr (''eth0'', ''192.168.0.2'', ''10.0.0.1'')"
    by code_simp
  have "route_add sample_host via_args ?s = (Inr (), snd (route_add sample_host via_args ?s))"
    using ok by (metis prod.collapse)
  from route_add_stale [OF this g(2), unfolded g(1), OF _ d f] old e
  have "fst (route_route sample_host ''10.0.0.1'' None (snd (route_add sample_host via_args ?s))) =
      Inr (''eth0'', ''192.168.0.2'', ''192.168.0.1'')" by force
  with new show ?thesis by (simp add: Let_def)
qed

definition via :: "nat \<Rightarrow> string \<Rightarrow> ipv4_route" where
  "via n g = \<lparr>r_net = n, r_msk = 0xFFFFFF00, r_gw = g, r_iface = ''eth0'', r_addr = ''0.0.0.0'', r_metric = 1\<rparr>"

text \<open>an answer depends on the lookups before it where a gateway's own route has no source:
  the lookup of the gateway inside that of another address is cached unresolved.\<close>

lemma route_internal_cached:
  "(let st = empty4\<lparr>rt_routes := [lan, via 0x0A000000 ''192.168.0.1'', via 0x0B000000 ''10.0.0.1'']\<rparr> in
    fst (route_route sample_host ''10.0.0.1'' None st) = Inr (''eth0'', ''192.168.0.2'', ''192.168.0.1'') \<and>
    fst (route_route sample_host ''10.0.0.1'' None (snd (route_route sample_host ''11.0.0.1'' None st))) =
      Inr (''eth0'', ''0.0.0.0'', ''192.168.0.1''))"
  by code_simp

end
