(* ===== verification/Route6.thy ===== *)
theory Route6
  imports Route4
begin

text \<open>
  The IPv6 routing table (class \<open>Route6\<close> of \<open>route.py\<close>). A route carries the candidate source
  addresses of its interface; \<open>ipv6_ifaces\<close> is the set of interfaces that have a route.
\<close>

record route6 =
  t6_routes :: "ipv6_route list"
  t6_ifaces :: "string set"
  t6_cache :: "string \<rightharpoonup> answer"

type_synonym 'a route6_op = "(route6, py_exn, 'a) comp"

definition invalidate6 :: "unit route6_op" where
  "invalidate6 st = (Inr (), st\<lparr>t6_cache := Map.empty\<rparr>)"

definition route6_flush :: "unit route6_op" where
  "route6_flush = sbind invalidate6 (\<lambda>_ st. (Inr (), st\<lparr>t6_routes := [], t6_ifaces := {}\<rparr>))"

definition put_routes6 :: "ipv6_route list \<Rightarrow> unit route6_op" where
  "put_routes6 rs st = (Inr (), st\<lparr>t6_routes := rs, t6_ifaces := set (map r6_iface rs)\<rparr>)"

definition route6_resync :: "host \<Rightarrow> unit route6_op" where
  "route6_resync h = sbind invalidate6 (\<lambda>_. sbind (lift (read_routes6 h)) put_routes6)"

definition route6_init :: "host \<Rightarrow> bool \<Rightarrow> py_exn + route6" where
  "route6_init h autoload =
     (let st = \<lparr>t6_routes = [], t6_ifaces = {}, t6_cache = Map.empty\<rparr> in
      if autoload then (case route6_resync h st of (Inl e, _) \<Rightarrow> Inl e | (Inr _, st) \<Rightarrow> Inr st) else Inr st)"

section \<open>Looking up a destination\<close>

definition first_addr6 :: "string \<Rightarrow> string" where
  "first_addr6 dst = cut_ranges colon (replace_char (CHR ''*'') (CHR ''0'')
     (hd (py_split (CHR ''/'') (if dst = [] then ''::/0'' else dst))))"

definition cache_key6 :: "string \<Rightarrow> string option \<Rightarrow> string" where
  "cache_key6 dst dev = (case dev of None \<Rightarrow> dst | Some d \<Rightarrow> dst @ ''%%'' @ d)"

definition link_scope :: "string \<Rightarrow> bool res" where
  "link_scope a = rbind (in6_getscope a) (\<lambda>s. Inr (s = int IPV6_ADDR_LINKLOCAL))"

definition path6_wanted :: "string \<Rightarrow> ipv6_route \<Rightarrow> bool res" where
  "path6_wanted dst r =
     orelse (in6_included dst (r6_prefix r) (r6_plen r))
       (test_then (in6_ismaddr dst)
          (test_then (link_scope (r6_prefix r))
             (case r6_cset r of [] \<Rightarrow> Inr False | c # _ \<Rightarrow> link_scope c)
             (Inr False))
          (Inr False))"

fun route6_paths ::
  "string \<Rightarrow> string option \<Rightarrow> ipv6_route list \<Rightarrow> (int \<times> int \<times> string \<times> string list \<times> string) list res" where
  "route6_paths dst dev [] = Inr []"
| "route6_paths dst dev (r # rs) =
     (if dev \<noteq> None \<and> dev \<noteq> Some (r6_iface r) then route6_paths dst dev rs
      else rbind (path6_wanted dst r) (\<lambda>w. rbind (route6_paths dst dev rs) (\<lambda>ps.
        Inr (if w then (r6_plen r, r6_metric r, r6_iface r, r6_cset r, r6_nh r) # ps else ps))))"

text \<open>The paths as good as the best, and the source each gives.\<close>

definition best_paths6 :: "(int \<times> int \<times> 'a) list \<Rightarrow> (int \<times> int \<times> 'a) list" where
  "best_paths6 ps =
     (let s = path_sort ps in filter (\<lambda>x. fst x = fst (hd s) \<and> fst (snd x) = fst (snd (hd s))) s)"

definition sources6 :: "string \<Rightarrow> (int \<times> int \<times> string \<times> string list \<times> string) list \<Rightarrow> answer list res" where
  "sources6 dst ps =
     rbind (rmap (\<lambda>(_, _, iface, cset, gw). rbind (get_source_addr_from_candidate_set dst cset) (\<lambda>src.
       Inr (iface, src, gw))) ps) (\<lambda>rs. Inr (filter (\<lambda>(_, src, _). src \<noteq> []) rs))"

definition route6_route :: "host \<Rightarrow> string \<Rightarrow> string option \<Rightarrow> answer route6_op" where
  "route6_route h dst0 dev =
     (\<lambda>st. let dst = first_addr6 dst0; k = cache_key6 dst dev in
       if \<not> in6_valid dst then (Inl Value_Error, st)
       else (case t6_cache st k of
           Some a \<Rightarrow> (Inr a, st)
         | None \<Rightarrow>
             sbind (lift (route6_paths dst dev (t6_routes st))) (\<lambda>paths.
               if paths = [] then
                 ret (if dst = ''::1'' then (h_loopback h, ''::1'', ''::'')
                      else (case dev of Some (c # v) \<Rightarrow> c # v | _ \<Rightarrow> h_loopback h, ''::'', ''::''))
               else sbind (lift (sources6 dst (best_paths6 paths))) (\<lambda>rs.
                 case rs of
                   [] \<Rightarrow> ret (h_loopback h, ''::'', ''::'')
                 | a # _ \<Rightarrow> (\<lambda>st. (Inr a, st\<lparr>t6_cache := (t6_cache st)(k \<mapsto> a)\<rparr>)))) st))"

section \<open>Changing the table\<close>

definition make_route6 :: "host \<Rightarrow> string \<Rightarrow> string option \<Rightarrow> string option \<Rightarrow> ipv6_route route6_op" where
  "make_route6 h dst gw dev =
     sbind (lift (addr_and_len dst 128)) (\<lambda>(prefix, plen).
       let gw = (case gw of None \<Rightarrow> ''::'' | Some g \<Rightarrow> g) in
       sbind (case dev of
           None \<Rightarrow> sbind (route6_route h gw None) (\<lambda>(dev, src, _). ret (dev, [src]))
         | Some dev \<Rightarrow> sbind (lift (in6_getifaddr h)) (\<lambda>l. sbind (lift (candidates h prefix plen dev l)) (\<lambda>c.
             ret (dev, c)))) (\<lambda>(dev, ifaddr) st.
       (Inr \<lparr>r6_prefix = prefix, r6_plen = plen, r6_nh = gw, r6_iface = dev, r6_cset = ifaddr, r6_metric = 1\<rparr>,
        st\<lparr>t6_ifaces := insert dev (t6_ifaces st)\<rparr>)))"

definition route6_add :: "host \<Rightarrow> string \<Rightarrow> string option \<Rightarrow> string option \<Rightarrow> unit route6_op" where
  "route6_add h dst gw dev =
     sbind invalidate6 (\<lambda>_. sbind (make_route6 h dst gw dev) (\<lambda>r st.
       (Inr (), st\<lparr>t6_routes := t6_routes st @ [r]\<rparr>)))"

text \<open>\<open>[x for x in xs if p(x)]\<close> where the test may raise.\<close>

fun rfilter :: "('a \<Rightarrow> bool res) \<Rightarrow> 'a list \<Rightarrow> 'a list res" where
  "rfilter p [] = Inr []"
| "rfilter p (x # xs) = rbind (p x) (\<lambda>b. rbind (rfilter p xs) (\<lambda>ys. Inr (if b then x # ys else ys)))"

definition delt6_matches :: "string \<Rightarrow> string option \<Rightarrow> ipv6_route list \<Rightarrow> ipv6_route list res" where
  "delt6_matches dst gw rs =
     rbind (addr_and_len dst 128) (\<lambda>(prefix, plen). rbind (pton6 prefix) (\<lambda>want.
     rbind (rfilter (\<lambda>x. rbind (pton6 (r6_prefix x)) (\<lambda>b. Inr (b = want \<and> r6_plen x = plen))) rs) (\<lambda>to_del.
       case gw of
         Some (c # g) \<Rightarrow> rbind (pton6 (c # g)) (\<lambda>gwb.
           rfilter (\<lambda>x. rbind (pton6 (r6_nh x)) (\<lambda>b. Inr (b = gwb))) to_del)
       | _ \<Rightarrow> Inr to_del)))"

definition route6_delt :: "string \<Rightarrow> string option \<Rightarrow> unit route6_op" where
  "route6_delt dst gw =
     (\<lambda>st. sbind (lift (delt6_matches dst gw (t6_routes st))) (\<lambda>to_del.
       if length to_del \<noteq> 1 then raise Value_Error
       else sbind invalidate6 (\<lambda>_. put_routes6 (remove1 (hd to_del) (t6_routes st)))) st)"

definition ifchange_route6 :: "string \<Rightarrow> string \<Rightarrow> string \<Rightarrow> int \<Rightarrow> ipv6_route \<Rightarrow> ipv6_route" where
  "ifchange_route6 ifn the_addr the_net plen r =
     (if r6_iface r \<noteq> ifn then r
      else if r6_nh r = ''::'' then r\<lparr>r6_prefix := the_net, r6_plen := plen, r6_cset := [the_addr]\<rparr>
      else r\<lparr>r6_cset := [the_addr]\<rparr>)"

definition route6_ifchange :: "string \<Rightarrow> string \<Rightarrow> unit route6_op" where
  "route6_ifchange ifn addr =
     sbind (lift (addr_and_len addr 128)) (\<lambda>(the_addr, plen).
     sbind (lift (in6_cidr2mask plen)) (\<lambda>m. sbind (lift (pton6 the_addr)) (\<lambda>b.
       let the_net = ntop6 (in6_and m b) in
       sbind (\<lambda>st. (Inr (), st\<lparr>t6_routes := map (ifchange_route6 ifn the_addr the_net plen) (t6_routes st),
              t6_ifaces := (if ifn \<in> set (map r6_iface (t6_routes st)) then insert ifn (t6_ifaces st) else t6_ifaces st)\<rparr>))
         (\<lambda>_. invalidate6))))"

definition route6_ifdel :: "string \<Rightarrow> unit route6_op" where
  "route6_ifdel ifn = sbind invalidate6 (\<lambda>_ st. put_routes6 (filter (\<lambda>r. r6_iface r \<noteq> ifn) (t6_routes st)) st)"

definition mask_prefix :: "bytes \<Rightarrow> int \<Rightarrow> bytes res" where
  "mask_prefix raw plen =
     (let whole = plen div 8; rest = plen mod 8; head = upto16 raw whole;
          masked = head @ replicate (16 - length head) 0
      in if rest = 0 then Inr masked
         else rbind (at16 raw whole) (\<lambda>x.
           Inr (masked [nat (if whole < 0 then 16 + whole else whole) := x AND rest_mask rest])))"

definition route6_ifadd :: "string \<Rightarrow> string \<Rightarrow> unit route6_op" where
  "route6_ifadd ifn addr0 =
     sbind (lift (addr_and_len addr0 128)) (\<lambda>(addr, plen).
     sbind (lift (pton6 addr)) (\<lambda>raw. sbind (lift (mask_prefix raw plen)) (\<lambda>masked.
     sbind invalidate6 (\<lambda>_ st.
       (Inr (), st\<lparr>t6_routes := t6_routes st @ [\<lparr>r6_prefix = ntop6 masked, r6_plen = plen, r6_nh = ''::'',
                    r6_iface = ifn, r6_cset = [addr], r6_metric = 1\<rparr>],
                  t6_ifaces := insert ifn (t6_ifaces st)\<rparr>)))))"

definition route6_repr :: "route6 \<Rightarrow> string" where
  "route6_repr st =
     pretty (map (\<lambda>r. [r6_prefix r @ ''/'' @ int_str (r6_plen r), r6_nh r, r6_iface r, py_join '','' (r6_cset r),
                      int_str (r6_metric r)]) (t6_routes st))
       [''Destination'', ''Next Hop'', ''Iface'', ''Src candidates'', ''Metric'']"

end
