(* ===== verification/Route6_Correct.thy ===== *)
theory Route6_Correct
  imports Route6 Route4_Correct
begin

text \<open>
  The IPv6 table: the octet-wise prefix test compares leading bits, the cache changes no
  answer as long as routes are added with their interface named, and every interface with
  a route is in \<open>ipv6_ifaces\<close>.
\<close>

section \<open>The prefix test\<close>

lemma from_be_take:
  assumes "length b = n" "w \<le> n"
  shows "from_be b div 256 ^ (n - w) = from_be (take w b)"
proof -
  have "from_be b = from_be (take w b) * 256 ^ (n - w) + from_be (drop w b)"
    using from_be_append [of "take w b" "drop w b"] assms by simp
  moreover have "from_be (drop w b) < 256 ^ (n - w)" using from_be_less [of "drop w b"] assms by simp
  ultimately show ?thesis by simp
qed

lemma take_eq_div:
  assumes "length a = n" "length b = n" "w \<le> n"
  shows "take w a = take w b \<longleftrightarrow> from_be a div 256 ^ (n - w) = from_be b div 256 ^ (n - w)"
  using assms by (simp add: from_be_take from_be_inject)

lemma rest_mask_and:
  assumes "0 < r" "r < 8"
  shows "x AND rest_mask (int r) = y AND rest_mask (int r) \<longleftrightarrow> unat x div 2 ^ (8 - r) = unat y div 2 ^ (8 - r)"
proof -
  have "unat (rest_mask (int r)) = (2 ^ 8 - 1) XOR (2 ^ (8 - r) - 1)"
  proof -
    have "r \<in> set [1..<8]" using assms by simp
    moreover have "\<forall>r\<in>set [1..<8]. unat (rest_mask (int r)) = (2 ^ 8 - 1) XOR (2 ^ (8 - r) - 1)" by code_simp
    ultimately show ?thesis by blast
  qed
  then have "unat (z AND rest_mask (int r)) = unat z div 2 ^ (8 - r) * 2 ^ (8 - r)" for z :: byte
    using mask_keeps [of "unat z" 8 r] assms by (simp add: unsigned_and_eq)
  then show ?thesis by (simp add: word_unat_eq_iff)
qed

lemma in6_included_top:
  assumes "inet_pton6 dst = Some d" "inet_pton6 prefix = Some p" "0 \<le> plen" "plen \<le> 128"
  shows "in6_included dst prefix plen =
    Inr (from_be d div 2 ^ (128 - nat plen) = from_be p div 2 ^ (128 - nat plen))"
proof -
  define w r where "w = nat plen div 8" and "r = nat plen mod 8"
  have n: "nat plen = 8 * w + r" "r < 8" by (simp_all add: w_def r_def)
  have i: "plen div 8 = int w" "plen mod 8 = int r"
    using assms(3) by (simp_all add: w_def r_def zdiv_int zmod_int)
  have l: "length d = 16" "length p = 16" using assms inet_pton6_length by simp_all
  have w16: "w \<le> 16" using n assms(4) by simp
  have t: "upto16 d (int w) = upto16 p (int w) \<longleftrightarrow> from_be d div 256 ^ (16 - w) = from_be p div 256 ^ (16 - w)"
    using take_eq_div [OF l w16] by (simp add: upto16_def)
  show ?thesis
  proof (cases "r = 0")
    case True
    have "(2 :: nat) ^ (128 - nat plen) = 256 ^ (16 - w)"
    proof -
      have "128 - nat plen = 8 * (16 - w)" using n True by simp
      then show ?thesis by (simp add: power_mult)
    qed
    with t True show ?thesis using assms i by (simp add: in6_included_def Let_def)
  next
    case False
    then have w: "w < 16" using n assms(4) by simp
    define k where "k = 8 - r"
    have e: "(2 :: nat) ^ (128 - nat plen) = 256 ^ (16 - Suc w) * 2 ^ k"
    proof -
      have "128 - nat plen = 8 * (16 - Suc w) + k" using n w False by (simp add: k_def)
      then show ?thesis by (simp add: power_add power_mult)
    qed
    have s: "from_be b div 2 ^ (128 - nat plen) = from_be (take w b) * 2 ^ r + unat (b ! w) div 2 ^ k"
      if "length b = 16" for b
    proof -
      have "from_be b div 2 ^ (128 - nat plen) = (from_be (take w b) * 256 + unat (b ! w)) div 2 ^ k"
        using from_be_take [OF that, of "Suc w"] w that by (simp add: e div_mult2_eq take_Suc_conv_app_nth)
      moreover have "(256 :: nat) = 2 ^ r * 2 ^ k" using n(2) by (simp add: k_def flip: power_add)
      ultimately show ?thesis by (simp add: mult.assoc [symmetric])
    qed
    have small: "unat (b ! w) div 2 ^ k < 2 ^ r" for b :: bytes
    proof -
      have "unat (b ! w) < 2 ^ k * 2 ^ r" using n(2) by (simp add: k_def flip: power_add)
      then show ?thesis by (simp add: less_mult_imp_div_less mult.commute)
    qed
    have u: "x * 2 ^ r + c = y * 2 ^ r + d \<longleftrightarrow> x = y \<and> c = d" if "c < 2 ^ r" "d < 2 ^ r" for x y c d :: nat
    proof
      assume h: "x * 2 ^ r + c = y * 2 ^ r + d"
      have "(x * 2 ^ r + c) div 2 ^ r = x" "(y * 2 ^ r + d) div 2 ^ r = y" using that by simp_all
      with h show "x = y \<and> c = d" by simp
    qed simp
    have "from_be d div 2 ^ (128 - nat plen) = from_be p div 2 ^ (128 - nat plen) \<longleftrightarrow>
        take w d = take w p \<and> unat (d ! w) div 2 ^ k = unat (p ! w) div 2 ^ k"
      unfolding s [OF l(1)] s [OF l(2)] u [OF small small] using from_be_inject [of "take w d" "take w p"] l by simp
    moreover have "d ! w AND rest_mask (int r) = p ! w AND rest_mask (int r) \<longleftrightarrow>
        unat (d ! w) div 2 ^ k = unat (p ! w) div 2 ^ k"
      using rest_mask_and [of r] False n(2) by (simp add: k_def)
    ultimately show ?thesis
      using assms(1,2) i w False by (simp add: in6_included_def Let_def upto16_def at16_def)
  qed
qed

text \<open>the octet-wise test of the table agrees with comparing the leading bits, for every
  prefix length of 0 to 128.\<close>

lemma in6_included_bits:
  assumes "inet_pton6 dst = Some d" "inet_pton6 prefix = Some p" "0 \<le> plen" "plen \<le> 128"
  shows "in6_included dst prefix plen =
    Inr (from_be d div 2 ^ (128 - nat plen) = from_be p div 2 ^ (128 - nat plen))"
  by (rule in6_included_top [OF assms])

theorem in6_included_bits_witness:
  "in6_included ''2001:db8::9'' ''2001:db8::'' 125 = Inr False"
proof -
  have "inet_pton6 ''2001:db8::9'' = Some ([0x20, 1, 0xD, 0xB8] @ replicate 11 0 @ [9])"
    "inet_pton6 ''2001:db8::'' = Some ([0x20, 1, 0xD, 0xB8] @ replicate 12 0)" by code_simp+
  from in6_included_bits [OF this, of 125] show ?thesis
    by (simp only: from_be_append from_be_zeros) (simp add: from_be_Cons)
qed

section \<open>Cache keys\<close>

text \<open>An address holds no percent sign, so the key of an address and an interface is not the
  key of anything else.\<close>

lemma digits_while_all:
  "digits_while b n s = (v, []) \<Longrightarrow> c \<in> set s \<Longrightarrow> digit_val c \<noteq> None"
  by (induction b n s rule: digits_while.induct) (auto split: option.splits if_splits)

lemma pton6_group_chars: "pton6_group w = Some b \<Longrightarrow> c \<in> set w \<Longrightarrow> digit_val c \<noteq> None"
  using digits_while_all [of 16 0 w] by (auto simp: pton6_group_def split: if_splits prod.splits list.splits)

lemma percent: "digit_val (CHR ''%'') = None"
  by code_simp

lemma py_split_chars: "c \<in> set s \<Longrightarrow> c \<noteq> sep \<Longrightarrow> \<exists>w\<in>set (py_split sep s). c \<in> set w"
proof -
  assume "c \<in> set s" "c \<noteq> sep"
  then have "c \<in> set (py_join [sep] (py_split sep s))" by simp
  then show ?thesis using set_py_join [of "[sep]" "py_split sep s"] \<open>c \<noteq> sep\<close> by auto
qed

lemma inet_pton4_chars:
  assumes "inet_pton4 s = Some b" "c \<in> set s" "c \<noteq> CHR ''.''"
  shows "digit_val c \<noteq> None"
proof -
  obtain w where w: "w \<in> set (py_split (CHR ''.'') s)" "c \<in> set w" using py_split_chars [OF assms(2,3)] by blast
  with assms(1) obtain v where "pton4_part w = Some v" by (auto simp: inet_pton4_def Let_def split: if_splits)
  then show ?thesis using w(2) digits_while_all [of 10 0 w] by (auto simp: pton4_part_def split: if_splits prod.splits list.splits)
qed

lemma pton6_groups_chars:
  "pton6_groups v4 ws = Some b \<Longrightarrow> w \<in> set ws \<Longrightarrow> c \<in> set w \<Longrightarrow> c \<noteq> CHR ''.'' \<Longrightarrow> digit_val c \<noteq> None"
proof (induction v4 ws arbitrary: b rule: pton6_groups.induct)
  case (2 v4 x ws)
  show ?case
  proof (cases "v4 \<and> ws = [] \<and> CHR ''.'' \<in> set x")
    case True
    with 2 show ?thesis using inet_pton4_chars by auto
  next
    case False
    then obtain y z where "pton6_group x = Some y" "pton6_groups v4 ws = Some z"
      using 2(2) by (auto split: option.splits)
    with 2 False show ?thesis using pton6_group_chars by auto
  qed
qed simp

lemma trim_ends_words:
  assumes "trim_ends ws = Some vs" "w \<in> set ws" "w \<noteq> []"
  shows "w \<in> set vs"
proof -
  define us where "us = (if 3 \<le> length ws \<and> ws ! 0 = [] then tl ws else ws)"
  have "w \<in> set us" using assms(2,3) by (cases ws) (auto simp: us_def)
  moreover have "vs = us \<or> vs = butlast us \<and> last us = []"
    using assms(1) by (auto simp: trim_ends_def Let_def us_def split: if_splits)
  ultimately show ?thesis using assms(3)
    by (metis append_butlast_last_id in_set_conv_decomp_last last_snoc rotate1.simps(2) set_ConsD set_rotate1 list.set_cases empty_iff set_empty)
qed

lemma inet_pton6_chars:
  assumes "inet_pton6 s = Some b"
  shows "CHR ''%'' \<notin> set s"
proof
  assume "CHR ''%'' \<in> set s"
  then obtain w where w: "w \<in> set (py_split colon s)" "CHR ''%'' \<in> set w" using py_split_chars [of _ s colon] by auto
  obtain vs where vs: "trim_ends (py_split colon s) = Some vs" and
    b: "(if [] \<in> set vs then
        (case (pton6_groups False (takeWhile (\<lambda>w. w \<noteq> []) vs), pton6_groups True (tl (dropWhile (\<lambda>w. w \<noteq> []) vs))) of
           (Some a, Some b) \<Rightarrow> if length a + length b \<le> 14 then Some (a @ replicate (16 - length a - length b) 0 @ b) else None
         | _ \<Rightarrow> None)
      else (case pton6_groups True vs of Some a \<Rightarrow> if length a = 16 then Some a else None | None \<Rightarrow> None)) = Some b"
    using assms unfolding inet_pton6_def Let_def by (auto split: list.splits option.splits)
  then have "w \<in> set vs" using trim_ends_words w by fastforce
  let ?l = "takeWhile (\<lambda>w. w \<noteq> []) vs" and ?d = "dropWhile (\<lambda>w. w \<noteq> []) vs"
  have "\<exists>v ws x. pton6_groups v ws = Some x \<and> w \<in> set ws"
  proof (cases "[] \<in> set vs")
    case True
    then obtain x y where xy: "pton6_groups False ?l = Some x" "pton6_groups True (tl ?d) = Some y"
      using b by (auto split: option.splits)
    have d: "?d \<noteq> []" using True by auto
    have "hd ?d = []" using hd_dropWhile [OF d] by blast
    then obtain q where q: "?d = [] # q" using d by (metis list.collapse)
    have "set vs = set ?l \<union> set ?d" by (metis set_append takeWhile_dropWhile_id)
    then have "w \<in> set ?l \<or> w \<in> set (tl ?d)" using \<open>w \<in> set vs\<close> w(2) unfolding q by auto
    then show ?thesis using xy by blast
  next
    case False
    then have "\<exists>x. pton6_groups True vs = Some x"
      using b by (auto split: option.splits)
    then show ?thesis using \<open>w \<in> set vs\<close> by blast
  qed
  then show False using pton6_groups_chars w(2) percent by fastforce
qed

lemma cache_key6_inject:
  assumes "CHR ''%'' \<notin> set a" "CHR ''%'' \<notin> set b" "cache_key6 a v = cache_key6 b w"
  shows "a = b \<and> v = w"
proof -
  have t: "takeWhile (\<lambda>c. c \<noteq> CHR ''%'') (cache_key6 a v) = a" if "CHR ''%'' \<notin> set a" for a v
  proof -
    have "takeWhile (\<lambda>c. c \<noteq> CHR ''%'') (a @ CHR ''%'' # r) = a" for r using that by (induction a) auto
    moreover have "takeWhile (\<lambda>c. c \<noteq> CHR ''%'') a = a" using that by (induction a) auto
    ultimately show ?thesis by (simp add: cache_key6_def split: option.split)
  qed
  have "a = b" using t [OF assms(1), of v] t [OF assms(2), of w] assms(3) by simp
  with assms(3) show ?thesis by (auto simp: cache_key6_def split: option.splits)
qed

section \<open>The cache changes no answer\<close>

definition lookup6 :: "host \<Rightarrow> ipv6_route list \<Rightarrow> string \<Rightarrow> string option \<Rightarrow> answer res" where
  "lookup6 h rs dst dev = rbind (route6_paths dst dev rs) (\<lambda>ps.
     if ps = [] then Inr (if dst = ''::1'' then (h_loopback h, ''::1'', ''::'')
        else (case dev of Some (c # v) \<Rightarrow> c # v | _ \<Rightarrow> h_loopback h, ''::'', ''::''))
     else rbind (sources6 dst (best_paths6 ps)) (\<lambda>as.
       Inr (case as of [] \<Rightarrow> (h_loopback h, ''::'', ''::'') | a # _ \<Rightarrow> a)))"

definition answer6 :: "host \<Rightarrow> ipv6_route list \<Rightarrow> string \<Rightarrow> string option \<Rightarrow> answer res" where
  "answer6 h rs dst dev = (if in6_valid (first_addr6 dst) then lookup6 h rs (first_addr6 dst) dev else Inl Value_Error)"

definition cache_ok6 :: "host \<Rightarrow> route6 \<Rightarrow> bool" where
  "cache_ok6 h st \<longleftrightarrow> (\<forall>dst dev a. in6_valid dst \<longrightarrow> t6_cache st (cache_key6 dst dev) = Some a \<longrightarrow>
     lookup6 h (t6_routes st) dst dev = Inr a)"

lemma cache_ok6_insert:
  assumes "cache_ok6 h st" "in6_valid dst" "lookup6 h (t6_routes st) dst dev = Inr a"
  shows "cache_ok6 h (st\<lparr>t6_cache := (t6_cache st)(cache_key6 dst dev \<mapsto> a)\<rparr>)"
proof -
  have "x = dst \<and> v = dev" if "in6_valid x" "cache_key6 x v = cache_key6 dst dev" for x v
    using cache_key6_inject [OF _ _ that(2)] inet_pton6_chars that(1) assms(2) by (auto simp: in6_valid_def)
  then show ?thesis using assms unfolding cache_ok6_def
    by (simp del: split_paired_All) metis
qed

lemma route6_route_ok:
  assumes "cache_ok6 h st"
  shows "fst (route6_route h dst dev st) = answer6 h (t6_routes st) dst dev"
    "cache_ok6 h (snd (route6_route h dst dev st))"
    "t6_routes (snd (route6_route h dst dev st)) = t6_routes st"
proof -
  let ?d = "first_addr6 dst"
  have "fst (route6_route h dst dev st) = answer6 h (t6_routes st) dst dev \<and>
    cache_ok6 h (snd (route6_route h dst dev st)) \<and> t6_routes (snd (route6_route h dst dev st)) = t6_routes st"
  proof (cases "in6_valid ?d")
    case v: True
    show ?thesis
    proof (cases "t6_cache st (cache_key6 ?d dev)")
      case (Some a)
      then have "lookup6 h (t6_routes st) ?d dev = Inr a" using assms v unfolding cache_ok6_def by blast
      with Some v assms show ?thesis by (simp add: route6_route_def answer6_def Let_def)
    next
      case None
      note i = cache_ok6_insert [OF assms v, of dev]
      show ?thesis
        using None v assms i
        by (auto simp: route6_route_def answer6_def lookup6_def Let_def sbind_def rbind_def
            split: sum.splits list.splits)
    qed
  qed (use assms in \<open>simp add: route6_route_def answer6_def\<close>)
  then show "fst (route6_route h dst dev st) = answer6 h (t6_routes st) dst dev"
    "cache_ok6 h (snd (route6_route h dst dev st))"
    "t6_routes (snd (route6_route h dst dev st)) = t6_routes st" by simp_all
qed

lemma route6_routes [simp]: "t6_routes (snd (route6_route h dst dev st)) = t6_routes st"
  by (auto simp: route6_route_def Let_def sbind_def split: sum.splits list.splits option.splits)

inductive route6_change :: "host \<Rightarrow> route6 \<Rightarrow> route6 \<Rightarrow> bool" for h where
  change6_flush: "t = snd (route6_flush s) \<Longrightarrow> route6_change h s t"
| change6_resync: "t = snd (route6_resync h' s) \<Longrightarrow> route6_change h s t"
| change6_add: "t = snd (route6_add h dst gw (Some dev) s) \<Longrightarrow> route6_change h s t"
| change6_delt: "t = snd (route6_delt dst gw s) \<Longrightarrow> route6_change h s t"
| change6_ifchange: "t = snd (route6_ifchange ifn addr s) \<Longrightarrow> route6_change h s t"
| change6_ifdel: "t = snd (route6_ifdel ifn s) \<Longrightarrow> route6_change h s t"
| change6_ifadd: "t = snd (route6_ifadd ifn addr s) \<Longrightarrow> route6_change h s t"

lemmas ops6 = route6_flush_def route6_resync_def route6_add_def route6_delt_def route6_ifchange_def
  route6_ifdel_def route6_ifadd_def put_routes6_def invalidate6_def

text \<open>Each of them leaves the state as it was or empties the cache.\<close>

lemma route6_change_cases: "route6_change h s t \<Longrightarrow> t = s \<or> t6_cache t = Map.empty"
  by (erule route6_change.cases)
    (auto simp: ops6 make_route6_def sbind_def Let_def split: sum.splits prod.splits if_splits)

interpretation rt6: cached_table "\<lambda>(dst, dev). route6_route h dst dev"
  "\<lambda>st (dst, dev). answer6 h (t6_routes st) dst dev" "cache_ok6 h" "route6_change h" for h
proof unfold_locales
  show "cache_ok6 h t" if "cache_ok6 h s" "route6_change h s t" for s t
    using route6_change_cases [OF that(2)] that(1) by (auto simp: cache_ok6_def)
qed (auto simp: route6_route_ok fun_eq_iff)

section \<open>Properties\<close>

definition empty6 :: route6 where
  "empty6 = \<lparr>t6_routes = [], t6_ifaces = {}, t6_cache = Map.empty\<rparr>"

text \<open>C26: whatever lookups and changes of the IPv6 table came before, a lookup answers what the
  routes say without the cache, provided routes are added with their interface named.\<close>

theorem route6_cache_transparent:
  assumes "(\<lambda>s t. route6_change h s t \<or> (\<exists>dst dev. t = snd (route6_route h dst dev s)))\<^sup>*\<^sup>* empty6 st"
  shows "fst (route6_route h dst dev st) = answer6 h (t6_routes st) dst dev"
proof -
  have "(\<lambda>s t. route6_change h s t \<or> (\<exists>dst dev. t = snd (route6_route h dst dev s))) = rt6.step h"
    by (auto simp: rt6.step_def fun_eq_iff)
  moreover have "cache_ok6 h empty6" by (simp add: cache_ok6_def empty6_def)
  ultimately show ?thesis using rt6.reachable_answer [of h empty6 st "(dst, dev)"] assms by simp
qed

theorem route6_cache_transparent_witness:
  "fst (route6_route sample_host ''::1'' None (snd (route6_ifadd ''lo'' ''::1'' empty6))) =
    answer6 sample_host (t6_routes (snd (route6_ifadd ''lo'' ''::1'' empty6))) ''::1'' None"
  by (rule route6_cache_transparent) (blast intro: change6_ifadd)

text \<open>The interfaces with a route are in \<open>ipv6_ifaces\<close>.\<close>

definition covered :: "route6 \<Rightarrow> bool" where
  "covered st \<longleftrightarrow> r6_iface ` set (t6_routes st) \<subseteq> t6_ifaces st"

lemma route6_ifaces [simp]: "t6_ifaces (snd (route6_route h dst dev st)) = t6_ifaces st"
  by (auto simp: route6_route_def Let_def sbind_def split: sum.splits list.splits option.splits)

lemma ifchange_route6_iface [simp]: "r6_iface (ifchange_route6 ifn a n p r) = r6_iface r"
  by (simp add: ifchange_route6_def)

lemma remove1_iface: "x \<in> set (remove1 r rs) \<Longrightarrow> x \<in> set rs"
  using set_remove1_subset by fastforce

lemma make_route6_iface:
  assumes "make_route6 h dst gw dev s = (x, t)"
  shows "t6_routes t = t6_routes s" "t6_ifaces s \<subseteq> t6_ifaces t" "x = Inr r \<Longrightarrow> r6_iface r \<in> t6_ifaces t"
proof -
  obtain y u where r: "route6_route h (case gw of None \<Rightarrow> ''::'' | Some g \<Rightarrow> g) None s = (y, u)" by fastforce
  then have u: "t6_routes u = t6_routes s" "t6_ifaces u = t6_ifaces s"
    using route6_routes route6_ifaces by (metis snd_conv)+
  show "t6_routes t = t6_routes s" "t6_ifaces s \<subseteq> t6_ifaces t" "x = Inr r \<Longrightarrow> r6_iface r \<in> t6_ifaces t"
    using assms r u
    by (auto simp: make_route6_def sbind_def Let_def split: sum.splits prod.splits option.splits)
qed

lemma covered_steps:
  assumes "covered s"
  shows "covered (snd (route6_flush s))" "covered (snd (route6_resync h s))" "covered (snd (route6_delt dst gw s))"
    "covered (snd (route6_ifchange ifn addr s))" "covered (snd (route6_ifdel ifn s))"
    "covered (snd (route6_ifadd ifn addr s))" "covered (snd (route6_route h dst dev s))"
    "covered (snd (route6_add h dst gw dev s))"
proof -
  show "covered (snd (route6_add h dst gw dev s))"
  proof -
    obtain x t where m: "make_route6 h dst gw dev (s\<lparr>t6_cache := Map.empty\<rparr>) = (x, t)" by fastforce
    from make_route6_iface [OF m] assms m show ?thesis
      by (cases x) (auto simp: route6_add_def invalidate6_def sbind_def covered_def)
  qed
qed (use assms in \<open>auto simp: ops6 sbind_def Let_def covered_def dest: remove1_iface split: sum.splits prod.splits\<close>)

inductive reach6 :: "host \<Rightarrow> route6 \<Rightarrow> bool" for h where
  reach6_init: "reach6 h empty6"
| reach6_flush: "reach6 h s \<Longrightarrow> reach6 h (snd (route6_flush s))"
| reach6_resync: "reach6 h s \<Longrightarrow> reach6 h (snd (route6_resync h s))"
| reach6_add: "reach6 h s \<Longrightarrow> reach6 h (snd (route6_add h dst gw dev s))"
| reach6_delt: "reach6 h s \<Longrightarrow> reach6 h (snd (route6_delt dst gw s))"
| reach6_ifchange: "reach6 h s \<Longrightarrow> reach6 h (snd (route6_ifchange ifn addr s))"
| reach6_ifdel: "reach6 h s \<Longrightarrow> reach6 h (snd (route6_ifdel ifn s))"
| reach6_ifadd: "reach6 h s \<Longrightarrow> reach6 h (snd (route6_ifadd ifn addr s))"
| reach6_route: "reach6 h s \<Longrightarrow> reach6 h (snd (route6_route h dst dev s))"

text \<open>C33: in every state reached by any operations, failed ones included, every interface that
  has a route is in \<open>ipv6_ifaces\<close>.\<close>

theorem route6_ifaces_cover:
  assumes "reach6 h st"
  shows "r6_iface ` set (t6_routes st) \<subseteq> t6_ifaces st"
proof -
  have "covered st" using assms by induction (simp_all add: covered_steps, simp add: covered_def empty6_def)
  then show ?thesis by (simp add: covered_def)
qed

theorem route6_ifaces_cover_witness:
  "r6_iface ` set (t6_routes (snd (route6_ifadd ''lo'' ''::1'' empty6))) \<subseteq> t6_ifaces (snd (route6_ifadd ''lo'' ''::1'' empty6)) \<and>
   length (t6_routes (snd (route6_ifadd ''lo'' ''::1'' empty6))) = 1"
proof
  show "r6_iface ` set (t6_routes (snd (route6_ifadd ''lo'' ''::1'' empty6))) \<subseteq> t6_ifaces (snd (route6_ifadd ''lo'' ''::1'' empty6))"
    by (rule route6_ifaces_cover [OF reach6_ifadd [OF reach6_init [of sample_host]]])
  show "length (t6_routes (snd (route6_ifadd ''lo'' ''::1'' empty6))) = 1" by code_simp
qed

end
