(* ===== verification/Pcapng.thy ===== *)
theory Pcapng
  imports Prelude Py_Text
begin

text \<open>
  Reading pcapng metadata (\<open>RawPcapNgReader\<close> of \<open>pcapio.py\<close>): the option lists, the walk over the
  blocks of a file and what each block adds to the reader's state. Offsets are those of the
  whole file. Warnings are left out.
\<close>

section \<open>Octets\<close>

text \<open>\<open>struct.unpack\<close> of one unsigned field and \<open>blob[at:at + n]\<close>.\<close>

definition unpack :: "bool \<Rightarrow> bytes \<Rightarrow> nat" where
  "unpack big b = (if big then from_be b else from_le b)"

definition octets :: "bytes \<Rightarrow> nat \<Rightarrow> nat \<Rightarrow> bytes" where
  "octets b i n = take n (drop i b)"

definition pad4 :: "nat \<Rightarrow> nat" where
  "pad4 n = n + nat ((- int n) mod 4)"

section \<open>Options\<close>

datatype optval = One bytes | Many "bytes list"

type_synonym optdict = "(nat \<times> optval) list"

definition REPEATABLE :: "nat set" where
  "REPEATABLE = {1, 2988, 2989, 19372, 19373}"

text \<open>\<open>opts[code] = value\<close> and \<open>opts.setdefault(code, []).append(value)\<close>: a new key goes last, an
  old one keeps its place.\<close>

fun opt_put :: "nat \<Rightarrow> bytes \<Rightarrow> optdict \<Rightarrow> optdict" where
  "opt_put code v [] = [(code, if code \<in> REPEATABLE then Many [v] else One v)]"
| "opt_put code v ((c, x) # d) =
     (if c = code
      then (c, if code \<in> REPEATABLE then (case x of Many vs \<Rightarrow> Many (vs @ [v]) | One _ \<Rightarrow> Many [v]) else One v) # d
      else (c, x) # opt_put code v d)"

function read_options_from :: "bool \<Rightarrow> bytes \<Rightarrow> nat \<Rightarrow> optdict \<Rightarrow> optdict" where
  "read_options_from big options at opts =
     (if length options < at + 4 then opts
      else (let code = unpack big (octets options at 2); len = unpack big (octets options (at + 2) 2);
                opts' = (if code \<noteq> 0 \<and> at + 4 + len \<le> length options
                         then opt_put code (octets options (at + 4) len) opts else opts)
            in if code = 0 then opts'
               else read_options_from big options (at + (4 + pad4 len)) opts'))"
  by pat_completeness auto
termination
  by (relation "measure (\<lambda>(big, options, at, opts). length options - at)") auto

declare read_options_from.simps [simp del]

definition read_options :: "bool \<Rightarrow> bytes \<Rightarrow> optdict" where
  "read_options big options = read_options_from big options 0 []"

definition first_val :: "optval \<Rightarrow> bytes" where
  "first_val v = (case v of One b \<Rightarrow> b | Many vs \<Rightarrow> hd vs)"

section \<open>The reader's state\<close>

record ifopts =
  if_tsresol :: nat
  if_name :: "bytes option"
  if_comment :: "bytes option"

type_synonym iface = "nat \<times> nat \<times> ifopts"

record pinfo =
  pi_id :: nat
  pi_name :: "string option"
  pi_uuid :: "string option"

record meta =
  m_linktype :: nat
  m_tsresol :: nat
  m_tshigh :: "nat option"
  m_tslow :: "nat option"
  m_wirelen :: nat
  m_comments :: "bytes list option"
  m_ifname :: "bytes option"
  m_direction :: "nat option"
  m_proc :: "(string \<times> pinfo) list"

record ng =
  ng_big :: bool
  ng_interfaces :: "iface list"
  ng_procs :: "pinfo list"
  ng_meta :: "nat \<rightharpoonup> meta"

definition ng_init :: ng where
  "ng_init = \<lparr>ng_big = False, ng_interfaces = [], ng_procs = [], ng_meta = Map.empty\<rparr>"

definition default_options :: ifopts where
  "default_options = \<lparr>if_tsresol = 1000000, if_name = None, if_comment = None\<rparr>"

section \<open>The blocks\<close>

definition idb_option :: "ifopts \<Rightarrow> nat \<times> optval \<Rightarrow> ifopts" where
  "idb_option o1 cv =
     (case cv of (code, x) \<Rightarrow> let v = first_val x in
        if code = 9 \<and> length v = 1
        then o1\<lparr>if_tsresol := (if unat (hd v) AND 128 \<noteq> 0 then 2 else 10) ^ (unat (hd v) AND 127)\<rparr>
        else if code = 2 then o1\<lparr>if_name := Some v\<rparr>
        else if code = 1 then o1\<lparr>if_comment := Some v\<rparr>
        else o1)"

definition idb :: "bool \<Rightarrow> bytes \<Rightarrow> iface option" where
  "idb big body =
     (if length body < 8 then None
      else Some (unpack big (octets body 0 2), unpack big (octets body 4 4),
                 foldl idb_option default_options (read_options big (drop 8 body))))"

definition proc_of :: "bool \<Rightarrow> pinfo list \<Rightarrow> optdict \<Rightarrow> nat \<times> string \<Rightarrow> (string \<times> pinfo) list" where
  "proc_of big procs options ck =
     (case map_of options (fst ck) of
        Some (One v) \<Rightarrow>
          if length v = 4 \<and> unpack big v < length procs then [(snd ck, procs ! unpack big v)] else []
      | _ \<Rightarrow> [])"

definition packet_meta :: "ng \<Rightarrow> nat \<Rightarrow> bytes \<Rightarrow> iface list \<Rightarrow> meta option" where
  "packet_meta st btype body sec =
     (if length body < 20 then None
      else (let big = ng_big st;
                intid = unpack big (if btype = 2 then octets body 0 2 else octets body 0 4);
                caplen = unpack big (octets body 12 4) in
        if length sec \<le> intid then None
        else (case sec ! intid of (linktype, _, o1) \<Rightarrow>
          (let options = (if btype = 6 then read_options big (drop (20 + pad4 caplen) body) else []) in
           Some \<lparr>m_linktype = linktype, m_tsresol = if_tsresol o1,
                 m_tshigh = Some (unpack big (octets body 4 4)), m_tslow = Some (unpack big (octets body 8 4)),
                 m_wirelen = unpack big (octets body 16 4),
                 m_comments = (case map_of options 1 of Some (Many vs) \<Rightarrow> Some vs | _ \<Rightarrow> None),
                 m_ifname = if_name o1,
                 m_direction = (case map_of options 2 of
                     Some (One v) \<Rightarrow> if length v = 4 then Some (unpack big v AND 3) else None
                   | _ \<Rightarrow> None),
                 m_proc = concat (map (proc_of big (ng_procs st) options) [(0x8001, ''proc''), (0x8003, ''eproc'')])\<rparr>))))"

definition packet_block :: "ng \<Rightarrow> nat \<Rightarrow> bytes \<Rightarrow> nat \<Rightarrow> iface list \<Rightarrow> ng" where
  "packet_block st btype body data_at sec =
     (case packet_meta st btype body sec of
        None \<Rightarrow> st
      | Some m \<Rightarrow> st\<lparr>ng_meta := (ng_meta st)(data_at \<mapsto> m)\<rparr>)"

text \<open>\<open>value.decode("ascii", "backslashreplace")\<close> and the text of a UUID.\<close>

definition decode_ascii :: "bytes \<Rightarrow> string" where
  "decode_ascii v = concat (map (\<lambda>b. if unat b < 128 then [char_of (unat b)]
     else [CHR 0x5C, CHR ''x''] @ hex_str 2 (unat b)) v)"

definition uuid_str :: "bytes \<Rightarrow> string" where
  "uuid_str b = (let h = (\<lambda>i n. concat (map (\<lambda>x. hex_str 2 (unat x)) (octets b i n))) in
     h 0 4 @ ''-'' @ h 4 2 @ ''-'' @ h 6 2 @ ''-'' @ h 8 2 @ ''-'' @ h 10 6)"

definition pib_option :: "pinfo \<Rightarrow> nat \<times> optval \<Rightarrow> pinfo" where
  "pib_option info cv =
     (case cv of (code, x) \<Rightarrow> let v = first_val x in
        if code = 2 then info\<lparr>pi_name := Some (decode_ascii v)\<rparr>
        else if code = 4 \<and> length v = 16 then info\<lparr>pi_uuid := Some (uuid_str v)\<rparr>
        else info)"

definition pib :: "ng \<Rightarrow> bytes \<Rightarrow> ng" where
  "pib st body =
     (if length body < 4 then st
      else st\<lparr>ng_procs := ng_procs st @ [foldl pib_option
        \<lparr>pi_id = unpack (ng_big st) (octets body 0 4), pi_name = None, pi_uuid = None\<rparr>
        (read_options (ng_big st) (drop 4 body))]\<rparr>)"

section \<open>The walk\<close>

definition PCAPNG_MAGIC :: bytes where
  "PCAPNG_MAGIC = [0x0A, 0x0D, 0x0D, 0x0A]"

definition walk_section :: "bytes \<Rightarrow> nat \<Rightarrow> ng \<Rightarrow> iface list \<Rightarrow> (ng \<times> iface list) option" where
  "walk_section blob at st sec =
     (if octets blob at 4 = PCAPNG_MAGIC then
        (if octets blob (at + 8) 4 = [0x1A, 0x2B, 0x3C, 0x4D] then Some (st\<lparr>ng_big := True\<rparr>, [])
         else if octets blob (at + 8) 4 = [0x4D, 0x3C, 0x2B, 0x1A] then Some (st\<lparr>ng_big := False\<rparr>, [])
         else None)
      else Some (st, sec))"

definition walk_block :: "nat \<Rightarrow> nat \<Rightarrow> bytes \<Rightarrow> ng \<Rightarrow> iface list \<Rightarrow> ng \<times> iface list" where
  "walk_block at btype body st sec =
     (if btype = 1 then
        (case idb (ng_big st) body of
           None \<Rightarrow> (st, sec)
         | Some i \<Rightarrow> (st\<lparr>ng_interfaces := ng_interfaces st @ [i]\<rparr>, sec @ [i]))
      else if btype = 2 \<or> btype = 6 then (packet_block st btype body (at + 28) sec, sec)
      else if btype = 3 \<and> sec \<noteq> [] \<and> 4 \<le> length body then
        (case hd sec of (linktype, _, o1) \<Rightarrow>
          (st\<lparr>ng_meta := (ng_meta st)(at + 12 \<mapsto>
             \<lparr>m_linktype = linktype, m_tsresol = if_tsresol o1, m_tshigh = None, m_tslow = None,
              m_wirelen = unpack (ng_big st) (octets body 0 4), m_comments = None, m_ifname = None,
              m_direction = None, m_proc = []\<rparr>)\<rparr>, sec))
      else if btype = 0x80000001 then (pib st body, sec)
      else (st, sec))"

function walk :: "bytes \<Rightarrow> nat \<Rightarrow> ng \<Rightarrow> iface list \<Rightarrow> ng" where
  "walk blob at st sec =
     (if length blob < at + 12 then st
      else (case walk_section blob at st sec of
          None \<Rightarrow> st
        | Some (st, sec) \<Rightarrow>
            (let btype = unpack (ng_big st) (octets blob at 4); declared = unpack (ng_big st) (octets blob (at + 4) 4);
                 total = pad4 declared
             in if declared < 12 \<or> length blob < at + total
                   \<or> unpack (ng_big st) (octets blob (at + total - 4) 4) \<noteq> declared then st
                else (case walk_block at btype (octets blob (at + 8) (total - 12)) st sec of
                    (st, sec) \<Rightarrow> walk blob (at + total) st sec))))"
  by pat_completeness auto
termination
  by (relation "measure (\<lambda>(blob, at, st, sec). length blob - at)") (auto simp: pad4_def)

declare walk.simps [simp del]

definition pcapng_metadata :: "bytes \<Rightarrow> nat \<rightharpoonup> meta" where
  "pcapng_metadata blob = ng_meta (walk blob 0 ng_init [])"

end
