(* ===== verification/Pcap_Write.thy ===== *)
theory Pcap_Write
  imports Pcapng
begin

text \<open>
  The capture writers of \<open>pcapio.py\<close> that write through a Python file object, \<open>RawPcapWriter\<close>
  and \<open>RawPcapNgWriter\<close>, and the readers' record interface. A writer's
  state holds the octets written so far, so that what a failing call has already written is
  seen. Times are integers: the rounding of floating-point seconds to ticks is done before.
\<close>

section \<open>Packing\<close>

text \<open>\<open>struct.pack\<close> of one unsigned field of \<open>n\<close> octets.\<close>

definition pack :: "bool \<Rightarrow> nat \<Rightarrow> int \<Rightarrow> bytes res" where
  "pack big n v =
     (if 0 \<le> v \<and> v < 256 ^ n then Inr (if big then to_be n (nat v) else to_le n (nat v)) else Inl Struct_Error)"

fun packs :: "bool \<Rightarrow> (nat \<times> int) list \<Rightarrow> bytes res" where
  "packs big [] = Inr []"
| "packs big ((n, v) # fs) = rbind (pack big n v) (\<lambda>b. rbind (packs big fs) (\<lambda>r. Inr (b @ r)))"

definition add_padding :: "bytes \<Rightarrow> bytes" where
  "add_padding raw = raw @ replicate (nat ((- int (length raw)) mod 4)) 0"

section \<open>pcapng blocks\<close>

definition build_block :: "bytes \<Rightarrow> bytes \<Rightarrow> bytes \<Rightarrow> bytes res" where
  "build_block block_type body options =
     (let block_body = add_padding body @ options in
      rbind (pack False 4 (12 + int (length block_body))) (\<lambda>total.
        Inr (block_type @ total @ block_body @ total)))"

definition block_shb :: "bytes res" where
  "block_shb = rbind (packs False [(2, 1), (2, 0)]) (\<lambda>v.
     build_block PCAPNG_MAGIC ([0x4D, 0x3C, 0x2B, 0x1A] @ v @ replicate 8 0xFF) [])"

definition ng_option :: "int \<Rightarrow> bytes \<Rightarrow> bytes res" where
  "ng_option code v = rbind (packs False [(2, code), (2, int (length v))]) (\<lambda>h. Inr (h @ add_padding v))"

definition block_idb :: "int \<Rightarrow> bytes option \<Rightarrow> bytes res" where
  "block_idb linktype ifname =
     rbind (packs False [(2, linktype), (2, 0), (4, 262144)]) (\<lambda>body.
     rbind (case ifname of
              None \<Rightarrow> Inr []
            | Some n \<Rightarrow> rbind (ng_option 2 n) (\<lambda>o1. rbind (packs False [(2, 0), (2, 0)]) (\<lambda>e. Inr (o1 @ e)))) (\<lambda>opts.
     rbind (pack False 4 1) (\<lambda>t. build_block t body opts)))"

definition block_spb :: "bytes \<Rightarrow> bytes res" where
  "block_spb raw = rbind (pack False 4 (int (length raw))) (\<lambda>l. rbind (pack False 4 3) (\<lambda>t.
     build_block t (l @ raw) []))"

definition or_len :: "int option \<Rightarrow> bytes \<Rightarrow> int" where
  "or_len n raw = (case n of None \<Rightarrow> int (length raw) | Some v \<Rightarrow> if v = 0 then int (length raw) else v)"

definition epb_options :: "bytes list \<Rightarrow> int option \<Rightarrow> bytes res" where
  "epb_options comments flags =
     rbind (rmap (ng_option 1) comments) (\<lambda>cs.
     rbind (case flags of None \<Rightarrow> Inr [] | Some f \<Rightarrow> packs False [(2, 2), (2, 4), (4, f)]) (\<lambda>fs.
       let opts = concat cs @ fs in
       if opts = [] then Inr [] else rbind (packs False [(2, 0), (2, 0)]) (\<lambda>e. Inr (opts @ e))))"

definition block_epb ::
  "bytes \<Rightarrow> int \<Rightarrow> int \<Rightarrow> int option \<Rightarrow> int option \<Rightarrow> bytes list \<Rightarrow> int option \<Rightarrow> bytes res" where
  "block_epb raw ifid ticks caplen orglen comments flags =
     rbind (packs False [(4, ifid), (4, drop_bit 32 ticks AND 0xFFFFFFFF), (4, ticks AND 0xFFFFFFFF),
                         (4, or_len caplen raw), (4, or_len orglen raw)]) (\<lambda>h.
     rbind (epb_options comments flags) (\<lambda>opts.
     rbind (pack False 4 6) (\<lambda>t. build_block t (h @ raw) opts)))"

section \<open>The pcapng writer\<close>

text \<open>A packet as \<open>write_packet\<close> sees it: its octets, its time in ticks, its wire length (0 for not
  truncated), and the attributes a packet may carry; \<open>bytes\<close> carry none.\<close>

record wpkt =
  p_raw :: bytes
  p_ticks :: int
  p_wirelen :: nat
  p_ifname :: "bytes option"
  p_direction :: "int option"
  p_comments :: "bytes list"
  p_linktype :: "int option"

record ngw =
  w_header :: bool
  w_linktype :: "int option"
  w_ids :: "(bytes option \<times> nat) list"
  w_out :: bytes

type_synonym 'a ngw_op = "(ngw, py_exn, 'a) comp"

definition ngw_init :: ngw where
  "ngw_init = \<lparr>w_header = False, w_linktype = None, w_ids = [(None, 0)], w_out = []\<rparr>"

definition emit :: "bytes res \<Rightarrow> unit ngw_op" where
  "emit b = sbind (lift b) (\<lambda>b st. (Inr (), st\<lparr>w_out := w_out st @ b\<rparr>))"

text \<open>\<open>write_header\<close>: the link type is the first packet's, or Ethernet's.\<close>

definition ngw_write_header :: "wpkt option \<Rightarrow> unit ngw_op" where
  "ngw_write_header pkt =
     (\<lambda>st. let lt = (case w_linktype st of
            Some l \<Rightarrow> l
          | None \<Rightarrow> (case pkt of None \<Rightarrow> 1 | Some p \<Rightarrow> (case p_linktype p of None \<Rightarrow> 1 | Some l \<Rightarrow> l)));
          st = st\<lparr>w_linktype := Some lt\<rparr>
      in if w_header st then (Inr (), st)
         else sbind (emit block_shb) (\<lambda>_. emit (block_idb lt None)) (st\<lparr>w_header := True\<rparr>))"

definition next_id :: "(bytes option \<times> nat) list \<Rightarrow> nat" where
  "next_id ids = Suc (foldr max (map snd ids) 0)"

definition ngw_interface :: "int \<Rightarrow> bytes option \<Rightarrow> nat ngw_op" where
  "ngw_interface linktype ifname =
     (\<lambda>st. case map_of (w_ids st) ifname of
        Some i \<Rightarrow> (Inr i, st)
      | None \<Rightarrow> (let i = next_id (w_ids st) in
          sbind (emit (block_idb linktype ifname)) (\<lambda>_. ret i) (st\<lparr>w_ids := w_ids st @ [(ifname, i)]\<rparr>)))"

definition ngw_write_packet :: "wpkt \<Rightarrow> unit ngw_op" where
  "ngw_write_packet p =
     (\<lambda>st. let caplen = int (length (p_raw p));
          wirelen = (if p_wirelen p = 0 then caplen else int (p_wirelen p));
          linktype = (case p_linktype p of Some l \<Rightarrow> if l = 0 then the (w_linktype st) else l | None \<Rightarrow> the (w_linktype st))
      in sbind (ngw_interface linktype (p_ifname p)) (\<lambda>ifid.
        emit (block_epb (p_raw p) (int ifid) (p_ticks p) (Some caplen) (Some wirelen) (p_comments p)
                (map_option (\<lambda>d. d AND 3) (p_direction p)))) st)"

fun ngw_write :: "wpkt list \<Rightarrow> unit ngw_op" where
  "ngw_write [] = ret ()"
| "ngw_write (p # ps) =
     sbind (\<lambda>st. if w_header st then (Inr (), st) else ngw_write_header (Some p) st) (\<lambda>_.
     sbind (ngw_write_packet p) (\<lambda>_. ngw_write ps))"

definition ngw_close :: "unit ngw_op" where
  "ngw_close = (\<lambda>st. if w_header st then (Inr (), st) else ngw_write_header None st)"

section \<open>The pcap writer\<close>

record pcapw =
  c_big :: bool
  c_nano :: bool
  c_append :: bool
  c_snaplen :: int
  c_linktype :: "int option"
  c_header :: bool
  c_out :: bytes

type_synonym 'a pcapw_op = "(pcapw, py_exn, 'a) comp"

definition pcap_header :: "bool \<Rightarrow> bool \<Rightarrow> int \<Rightarrow> int \<Rightarrow> bytes res" where
  "pcap_header big nano snaplen linktype =
     packs big [(4, if nano then 0xA1B23C4D else 0xA1B2C3D4), (2, 2), (2, 4), (4, 0), (4, 0), (4, snaplen), (4, linktype)]"

text \<open>In append mode a file that already has octets keeps the header it has.\<close>

definition pcapw_write_header :: "int option \<Rightarrow> unit pcapw_op" where
  "pcapw_write_header pkt_linktype =
     (\<lambda>st. let lt = (case c_linktype st of Some l \<Rightarrow> l | None \<Rightarrow> (case pkt_linktype of None \<Rightarrow> 1 | Some l \<Rightarrow> l));
          st = st\<lparr>c_linktype := Some lt, c_header := True\<rparr>
      in if c_append st \<and> c_out st \<noteq> [] then (Inr (), st)
         else sbind (lift (pcap_header (c_big st) (c_nano st) (c_snaplen st) lt)) (\<lambda>b st.
           (Inr (), st\<lparr>c_out := c_out st @ b\<rparr>)) st)"

definition pcapw_write_packet :: "bytes \<Rightarrow> int \<Rightarrow> int \<Rightarrow> nat \<Rightarrow> unit pcapw_op" where
  "pcapw_write_packet raw sec usec wirelen0 =
     (\<lambda>st. let caplen = int (length raw); wirelen = (if wirelen0 = 0 then caplen else int wirelen0) in
       sbind (lift (packs (c_big st) [(4, sec), (4, usec), (4, caplen), (4, max wirelen caplen)])) (\<lambda>h st.
         (Inr (), st\<lparr>c_out := c_out st @ h @ raw\<rparr>)) st)"

section \<open>The pcap reader\<close>

definition PCAP_MAGICS :: "bytes \<Rightarrow> (bool \<times> bool) option" where
  "PCAP_MAGICS head =
     (if head = [0xA1, 0xB2, 0xC3, 0xD4] then Some (True, False)
      else if head = [0xD4, 0xC3, 0xB2, 0xA1] then Some (False, False)
      else if head = [0xA1, 0xB2, 0x3C, 0x4D] then Some (True, True)
      else if head = [0x4D, 0x3C, 0xB2, 0xA1] then Some (False, True)
      else None)"

text \<open>What \<open>_load\<close> reads of a pcap file's first 24 octets: byte order, nanoseconds, snapshot
  length and link type.\<close>

definition pcap_load :: "bool \<Rightarrow> bytes \<Rightarrow> (bool \<times> bool \<times> nat \<times> nat) res" where
  "pcap_load rust_nano head =
     (if length head < 24 then Inl Value_Error
      else (case (case PCAP_MAGICS (take 4 head) of Some x \<Rightarrow> x | None \<Rightarrow> (False, rust_nano)) of (big, nano) \<Rightarrow>
        Inr (big, nano, unpack big (octets head 16 4), unpack big (octets head 20 4))))"

text \<open>A record of the index: the offset of its octets, the captured length, the time and the
  original length. The octets of a record come from the index.\<close>

type_synonym index_entry = "nat \<times> nat \<times> nat \<times> nat \<times> nat"

record reader =
  rd_index :: "index_entry list"
  rd_i :: nat

definition next_index :: "(reader, py_exn, nat) comp" where
  "next_index st = (if length (rd_index st) \<le> rd_i st then (Inl EOF_Error, st)
     else (Inr (rd_i st), st\<lparr>rd_i := Suc (rd_i st)\<rparr>))"

definition read_packet :: "(nat \<Rightarrow> bytes) \<Rightarrow> nat \<Rightarrow> (reader, py_exn, bytes \<times> nat \<times> nat \<times> nat \<times> nat) comp" where
  "read_packet raw_at size1 = sbind next_index (\<lambda>i st.
     case rd_index st ! i of (_, caplen, sec, frac, origlen) \<Rightarrow>
       (Inr (take size1 (raw_at i), sec, frac, origlen, caplen), st))"

definition ng_read_packet ::
  "(nat \<Rightarrow> bytes) \<Rightarrow> ng \<Rightarrow> bool \<Rightarrow> nat \<Rightarrow> nat \<Rightarrow> (reader, py_exn, bytes \<times> meta) comp" where
  "ng_read_packet raw_at w nano linktype size1 = sbind next_index (\<lambda>i st.
     case rd_index st ! i of (off, _, sec, frac, origlen) \<Rightarrow>
       (Inr (take size1 (raw_at i),
          case ng_meta w off of
            Some m \<Rightarrow> m
          | None \<Rightarrow> (let res = (if nano then 10 ^ 9 else 10 ^ 6); ticks = sec * res + frac in
              \<lparr>m_linktype = linktype, m_tsresol = res, m_tshigh = Some (drop_bit 32 ticks),
               m_tslow = Some (ticks AND 0xFFFFFFFF), m_wirelen = origlen, m_comments = None, m_ifname = None,
               m_direction = None, m_proc = []\<rparr>)), st))"

text \<open>\<open>read_all(count)\<close>: which records it takes.\<close>

definition read_all :: "int \<Rightarrow> reader \<Rightarrow> nat list \<times> reader" where
  "read_all count st =
     (let total = length (rd_index st);
          stop = (if count < 0 then total else min total (rd_i st + nat count))
      in ([rd_i st..<stop], st\<lparr>rd_i := stop\<rparr>))"

section \<open>Octets of a file in parts\<close>

lemma octets_skip: "octets (pre @ b) (length pre + i) n = octets b i n"
  by (simp add: octets_def)

lemma octets_skip0: "octets (pre @ b) (length pre) n = octets b 0 n"
  using octets_skip [of pre b 0 n] by simp

lemma octets_here: "length a = n \<Longrightarrow> octets (a @ b) 0 n = a"
  by (simp add: octets_def)

lemma octets_next: "length a \<le> i \<Longrightarrow> octets (a @ b) i n = octets b (i - length a) n"
  by (simp add: octets_def)

end
