(* ===== verification/Pcapng_Correct.thy ===== *)
theory Pcapng_Correct
  imports Pcap_Write
begin

text \<open>
  The metadata walk over a file the pcapng writer wrote finds every packet, at the offset of
  its octets, with the attributes it was written with.
\<close>

section \<open>Packing\<close>

lemma from_le_pack [simp]: "v < 256 ^ n \<Longrightarrow> unpack False (to_le n v) = v"
  by (simp add: unpack_def)

lemma pack_le: "v < 256 ^ n \<Longrightarrow> pack False n (int v) = Inr (to_le n v)"
proof -
  assume "v < 256 ^ n"
  then have "int v < 256 ^ n" by (metis of_nat_less_iff of_nat_numeral of_nat_power)
  then show ?thesis by (simp add: pack_def)
qed

lemma pad4_mod: "pad4 n mod 4 = 0" "n \<le> pad4 n" "n mod 4 = 0 \<Longrightarrow> pad4 n = n" "pad4 n \<le> n + 3"
proof -
  have "(int n + (- int n) mod 4) mod 4 = 0" by presburger
  moreover have e: "int (pad4 n) = int n + (- int n) mod 4" by (simp add: pad4_def)
  ultimately show "pad4 n mod 4 = 0" by presburger
  show "n \<le> pad4 n" by (simp add: pad4_def)
  show "pad4 n = n" if "n mod 4 = 0"
  proof -
    have "int n mod 4 = 0" using that by presburger
    then have "(- int n) mod 4 = 0" by presburger
    with e show ?thesis by simp
  qed
  have "(- int n) mod 4 \<le> 3" by presburger
  with e show "pad4 n \<le> n + 3" by linarith
qed

lemma length_add_padding [simp]: "length (add_padding v) = pad4 (length v)"
  by (simp add: add_padding_def pad4_def)

lemma add_padding_take: "take (length v) (add_padding v) = v" "length v - pad4 (length v) = 0"
  using pad4_mod(2) [of "length v"] by (simp_all add: add_padding_def)

section \<open>Options\<close>

definition option_octets :: "nat \<Rightarrow> bytes \<Rightarrow> bytes" where
  "option_octets code v = to_le 2 code @ to_le 2 (length v) @ add_padding v"

lemma length_option_octets [simp]: "length (option_octets code v) = 4 + pad4 (length v)"
  by (simp add: option_octets_def)

lemma option_octets_mod [simp]: "length (option_octets code v) mod 4 = 0"
  using pad4_mod(1) [of "length v"] by (simp add: mod_add_right_eq [symmetric])

lemma ng_option_ok: "code < 65536 \<Longrightarrow> length v < 65536 \<Longrightarrow> ng_option (int code) v = Inr (option_octets code v)"
  by (simp add: ng_option_def pack_le option_octets_def)

lemma read_option:
  assumes "0 < code" "code < 65536" "length v < 65536"
  shows "read_options_from False (pre @ option_octets code v @ rest) (length pre) opts =
    read_options_from False (pre @ option_octets code v @ rest) (length (pre @ option_octets code v)) (opt_put code v opts)"
proof -
  define d where "d = pre @ option_octets code v @ rest"
  have d: "d = pre @ to_le 2 code @ to_le 2 (length v) @ add_padding v @ rest" by (simp add: d_def option_octets_def)
  have c: "unpack False (octets d (length pre) 2) = code" "unpack False (octets d (length pre + 2) 2) = length v"
    "octets d (length pre + 4) (length v) = v"
    unfolding d octets_skip0 octets_skip using assms
    by (simp_all add: octets_next octets_here octets_def add_padding_take)
  have n: "\<not> length d < length pre + 4" "length pre + 4 + length v \<le> length d"
    using pad4_mod(2) [of "length v"] by (simp_all add: d)
  have "read_options_from False d (length pre) opts =
      read_options_from False d (length pre + (4 + pad4 (length v))) (opt_put code v opts)"
    unfolding read_options_from.simps [of False d "length pre"] using n assms(1) by (simp only: if_False if_True simp_thms Let_def c) simp
  then show ?thesis by (simp add: d_def)
qed

lemma read_options_end: "read_options_from False (pre @ [0, 0, 0, 0]) (length pre) opts = opts"
proof -
  have "unpack False (octets (pre @ [0, 0, 0, 0]) (length pre) 2) = 0"
    unfolding octets_skip0 by (simp add: octets_def unpack_def from_le_def from_be_def)
  then show ?thesis by (subst read_options_from.simps) (simp add: Let_def)
qed

lemma read_options_nil: "read_options_from False pre (length pre) opts = opts"
  by (subst read_options_from.simps) simp

lemma read_options_list:
  assumes "\<forall>(c, v)\<in>set cvs. 0 < c \<and> c < 65536 \<and> length v < 65536"
  shows "read_options_from False (pre @ concat (map (\<lambda>(c, v). option_octets c v) cvs) @ rest) (length pre) opts =
    read_options_from False (pre @ concat (map (\<lambda>(c, v). option_octets c v) cvs) @ rest)
      (length (pre @ concat (map (\<lambda>(c, v). option_octets c v) cvs))) (foldl (\<lambda>o1 (c, v). opt_put c v o1) opts cvs)"
  using assms
proof (induction cvs arbitrary: pre opts)
  case (Cons cv cvs)
  obtain c v where cv: "cv = (c, v)" by (cases cv)
  let ?rest = "concat (map (\<lambda>(c, v). option_octets c v) cvs) @ rest"
  have "read_options_from False (pre @ option_octets c v @ ?rest) (length pre) opts =
      read_options_from False ((pre @ option_octets c v) @ ?rest) (length (pre @ option_octets c v)) (opt_put c v opts)"
    using read_option [of c v pre ?rest opts] Cons.prems cv by simp
  also have "\<dots> = read_options_from False ((pre @ option_octets c v) @ ?rest)
      (length ((pre @ option_octets c v) @ concat (map (\<lambda>(c, v). option_octets c v) cvs)))
      (foldl (\<lambda>o1 (c, v). opt_put c v o1) (opt_put c v opts) cvs)"
    by (rule Cons.IH) (use Cons.prems in simp)
  finally show ?case by (simp add: cv)
qed simp

text \<open>An option list as the writer ends it.\<close>

definition option_list :: "(nat \<times> bytes) list \<Rightarrow> bytes" where
  "option_list cvs = (if cvs = [] then [] else concat (map (\<lambda>(c, v). option_octets c v) cvs) @ [0, 0, 0, 0])"

lemma read_option_list:
  assumes "\<forall>(c, v)\<in>set cvs. 0 < c \<and> c < 65536 \<and> length v < 65536"
  shows "read_options False (option_list cvs) = foldl (\<lambda>o1 (c, v). opt_put c v o1) [] cvs"
  using read_options_list [OF assms, of "[]" "[0, 0, 0, 0]" "[]"] read_options_end read_options_nil [of "[]"]
  by (simp add: read_options_def option_list_def)

lemma option_list_mod [simp]: "length (option_list cvs) mod 4 = 0"
proof -
  have "length (concat (map (\<lambda>(c, v). option_octets c v) cvs)) mod 4 = 0"
  proof (induction cvs)
    case (Cons cv cvs)
    then show ?case using option_octets_mod by (cases cv) (simp add: mod_add_eq [symmetric] del: length_option_octets)
  qed simp
  then show ?thesis by (simp add: option_list_def mod_add_left_eq [symmetric])
qed

lemma comments_dict: "foldl (\<lambda>o1 (c, v). opt_put c v o1) [(1, Many vs)] (map (Pair 1) cs) = [(1, Many (vs @ cs))]"
  by (induction cs arbitrary: vs) (simp_all add: REPEATABLE_def)

section \<open>Blocks\<close>

definition block :: "bytes \<Rightarrow> bytes \<Rightarrow> bytes" where
  "block t b = t @ to_le 4 (12 + length b) @ b @ to_le 4 (12 + length b)"

lemma length_block [simp]: "length t = 4 \<Longrightarrow> length (block t b) = 12 + length b"
  by (simp add: block_def)

lemma build_block_ok:
  assumes "12 + pad4 (length body) + length opts < 2 ^ 32"
  shows "build_block t body opts = Inr (block t (add_padding body @ opts))"
proof -
  have l: "12 + length (add_padding body @ opts) < 256 ^ 4" using assms by simp
  from pack_le [OF l] have "pack False 4 (12 + int (length (add_padding body @ opts))) =
      Inr (to_le 4 (12 + length (add_padding body @ opts)))" by simp
  then show ?thesis by (simp only: build_block_def Let_def rbind_simps block_def append_assoc)
qed

lemma walk_frame:
  assumes "length t = 4" "length b mod 4 = 0" "12 + length b < 2 ^ 32"
    "walk_section (pre @ block t b @ rest) (length pre) st sec = Some (st1, sec1)" "\<not> ng_big st1"
  shows "walk (pre @ block t b @ rest) (length pre) st sec =
    (case walk_block (length pre) (from_le t) b st1 sec1 of
       (st2, sec2) \<Rightarrow> walk (pre @ block t b @ rest) (length (pre @ block t b)) st2 sec2)"
proof -
  define d where "d = pre @ block t b @ rest"
  define l where "l = 12 + length b"
  have l: "l < 256 ^ 4" "12 \<le> l" "pad4 l = l" using assms(2,3) pad4_mod(3) by (simp_all add: l_def mod_add_eq [symmetric])
  have o: "octets d (length pre) 4 = t" "octets d (length pre + 4) 4 = to_le 4 l"
    "octets d (length pre + l - 4) 4 = to_le 4 l" "octets d (length pre + 8) (l - 12) = b"
  proof -
    have e: "length pre + l - 4 = length pre + (8 + length b)" by (simp add: l_def)
    show "octets d (length pre) 4 = t" "octets d (length pre + 4) 4 = to_le 4 l"
      "octets d (length pre + l - 4) 4 = to_le 4 l" "octets d (length pre + 8) (l - 12) = b"
      unfolding e d_def octets_skip0 octets_skip block_def using assms(1) by (simp_all add: octets_def l_def)
  qed
  have n: "\<not> length d < length pre + 12" "\<not> length d < length pre + l"
    using assms(1) by (simp_all add: d_def l_def)
  have u: "unpack (ng_big st1) t = from_le t" "unpack (ng_big st1) (to_le 4 l) = l"
    using assms(5) l(1) by (simp_all add: unpack_def)
  have "walk d (length pre) st sec = (case walk_block (length pre) (from_le t) b st1 sec1 of
       (st2, sec2) \<Rightarrow> walk d (length pre + l) st2 sec2)"
    unfolding walk.simps [of d "length pre" st sec] assms(4) [folded d_def]
    using n l(2) by (simp only: if_False if_True simp_thms option.case prod.case Let_def o u l(3)) simp
  then show ?thesis using assms(1) by (simp add: d_def l_def)
qed

section \<open>The reader and the writer in step\<close>

text \<open>The reader, having walked what is written so far, has state \<open>w\<close> and the current section's
  interfaces, which are the writer's.\<close>

definition synced :: "ngw \<Rightarrow> ng \<Rightarrow> iface list \<Rightarrow> bool" where
  "synced st w sec \<longleftrightarrow> w_header st \<and> \<not> ng_big w \<and> ng_procs w = [] \<and>
     (\<forall>rest. walk (w_out st @ rest) 0 ng_init [] = walk (w_out st @ rest) (length (w_out st)) w sec) \<and>
     (\<forall>n i. map_of (w_ids st) n = Some i \<longrightarrow>
        i < length sec \<and> if_name (snd (snd (sec ! i))) = n \<and> if_tsresol (snd (snd (sec ! i))) = 1000000) \<and>
     next_id (w_ids st) = length sec"

lemma magic_octets: "PCAPNG_MAGIC = [0x0A, 0x0D, 0x0D, 0x0A]" "length PCAPNG_MAGIC = 4"
  by (simp_all add: PCAPNG_MAGIC_def)

lemma walk_section_none:
  assumes "length t = 4" "t \<noteq> PCAPNG_MAGIC"
  shows "walk_section (pre @ block t b @ rest) (length pre) st sec = Some (st, sec)"
  using assms by (simp add: walk_section_def octets_skip0 block_def octets_def)

lemma type_octets:
  "length (to_le 4 n) = 4" "to_le 4 1 \<noteq> PCAPNG_MAGIC" "to_le 4 6 \<noteq> PCAPNG_MAGIC"
  "from_le (to_le 4 1) = 1" "from_le (to_le 4 6) = 6"
proof -
  have "from_le PCAPNG_MAGIC = 168627466" by (simp add: magic_octets from_le_def from_be_def)
  moreover have "from_le (to_le 4 1) = 1" "from_le (to_le 4 6) = 6" by simp_all
  ultimately have "from_le (to_le 4 1) \<noteq> from_le PCAPNG_MAGIC" "from_le (to_le 4 6) \<noteq> from_le PCAPNG_MAGIC"
    by linarith+
  then show "to_le 4 1 \<noteq> PCAPNG_MAGIC" "to_le 4 6 \<noteq> PCAPNG_MAGIC" by metis+
qed simp_all

lemma synced_emit:
  assumes "synced st w sec" "length t = 4" "t \<noteq> PCAPNG_MAGIC" "length b mod 4 = 0" "12 + length b < 2 ^ 32"
    "walk_block (length (w_out st)) (from_le t) b w sec = (w', sec')"
  shows "walk ((w_out st @ block t b) @ rest) 0 ng_init [] =
    walk ((w_out st @ block t b) @ rest) (length (w_out st @ block t b)) w' sec'"
proof -
  have s: "walk (w_out st @ block t b @ rest) 0 ng_init [] = walk (w_out st @ block t b @ rest) (length (w_out st)) w sec"
    and big: "\<not> ng_big w"
    using assms(1) by (simp_all add: synced_def)
  show ?thesis
    using walk_frame [OF assms(2,4,5) walk_section_none [OF assms(2,3)] big] s assms(6) by simp
qed

section \<open>The interface block\<close>

definition idb_body :: "nat \<Rightarrow> bytes option \<Rightarrow> bytes" where
  "idb_body lt n = to_le 2 lt @ [0, 0] @ to_le 4 262144 @ option_list (case n of None \<Rightarrow> [] | Some n \<Rightarrow> [(2, n)])"

lemma zero_le [simp]: "to_le 2 0 = [0, 0]" "to_le 4 0 = [0, 0, 0, 0]"
  by code_simp+

lemma block_idb_ok:
  assumes "lt < 65536" "\<And>n. ifname = Some n \<Longrightarrow> length n < 65536"
  shows "block_idb (int lt) ifname = Inr (block (to_le 4 1) (idb_body lt ifname))"
proof -
  have p: "packs False [(2, int lt), (2, 0), (4, 262144)] = Inr (to_le 2 lt @ [0, 0] @ to_le 4 262144)"
    using pack_le [of lt 2] pack_le [of 0 2] pack_le [of 262144 4] assms(1) by simp
  have e: "packs False [(2, 0), (2, 0)] = Inr [0, 0, 0, 0]" using pack_le [of 0 2] by simp
  have t: "pack False 4 1 = Inr (to_le 4 1)" using pack_le [of 1 4] by simp
  let ?h = "to_le 2 lt @ [0, 0] @ to_le 4 262144"
  have h: "length ?h = 8" "add_padding ?h = ?h" by (simp_all add: add_padding_def)
  show ?thesis
  proof (cases ifname)
    case None
    have "build_block (to_le 4 1) ?h [] = Inr (block (to_le 4 1) (add_padding ?h @ []))"
      by (rule build_block_ok) (simp add: h pad4_def)
    with None show ?thesis by (simp only: block_idb_def p t rbind_simps option.case h idb_body_def option_list_def) simp
  next
    case (Some n)
    then have n: "length n < 65536" using assms(2) by blast
    have o: "ng_option 2 n = Inr (option_octets 2 n)" using ng_option_ok [of 2 n] n by simp
    have "build_block (to_le 4 1) ?h (option_octets 2 n @ [0, 0, 0, 0]) =
        Inr (block (to_le 4 1) (add_padding ?h @ option_octets 2 n @ [0, 0, 0, 0]))"
      by (rule build_block_ok) (use n pad4_mod(4) [of "length n"] in \<open>simp add: h pad4_def [of 8]\<close>)
    with Some show ?thesis
      by (simp only: block_idb_def p t e o rbind_simps option.case h idb_body_def option_list_def) simp
  qed
qed

lemma idb_body_read:
  assumes "lt < 65536" "\<And>n. ifname = Some n \<Longrightarrow> length n < 65536"
  shows "idb False (idb_body lt ifname) =
    Some (lt, 262144, \<lparr>if_tsresol = 1000000, if_name = ifname, if_comment = None\<rparr>)"
proof -
  let ?o = "case ifname of None \<Rightarrow> [] | Some n \<Rightarrow> [(2, n)]"
  have f: "unpack False (octets (idb_body lt ifname) 0 2) = lt" "unpack False (octets (idb_body lt ifname) 4 4) = 262144"
    "drop 8 (idb_body lt ifname) = option_list ?o" "\<not> length (idb_body lt ifname) < 8"
    using assms(1) by (simp_all add: idb_body_def octets_def)
  have "read_options False (option_list ?o) = foldl (\<lambda>o1 (c, v). opt_put c v o1) [] ?o"
    by (rule read_option_list) (use assms(2) in \<open>auto split: option.splits\<close>)
  then show ?thesis
    by (simp add: idb_def f default_options_def idb_option_def first_val_def REPEATABLE_def split: option.split)
qed

lemma idb_body_size:
  assumes "\<And>n. ifname = Some n \<Longrightarrow> length n < 65536"
  shows "length (idb_body lt ifname) mod 4 = 0" "12 + length (idb_body lt ifname) < 2 ^ 32"
proof -
  show "length (idb_body lt ifname) mod 4 = 0"
    by (simp add: idb_body_def mod_add_left_eq [symmetric])
  show "12 + length (idb_body lt ifname) < 2 ^ 32"
  proof (cases ifname)
    case (Some n)
    then have "pad4 (length n) < 65540" using assms [of n] pad4_mod(4) [of "length n"] by simp
    with Some show ?thesis by (simp add: idb_body_def option_list_def)
  qed (simp add: idb_body_def option_list_def)
qed

section \<open>The packet block\<close>

definition epb_list :: "bytes list \<Rightarrow> nat option \<Rightarrow> (nat \<times> bytes) list" where
  "epb_list cs fl = map (Pair 1) cs @ (case fl of None \<Rightarrow> [] | Some f \<Rightarrow> [(2, to_le 4 f)])"

definition epb_body :: "bytes \<Rightarrow> nat \<Rightarrow> nat \<Rightarrow> nat \<Rightarrow> nat \<Rightarrow> bytes list \<Rightarrow> nat option \<Rightarrow> bytes" where
  "epb_body raw ifid hi lo wl cs fl =
     add_padding ((to_le 4 ifid @ to_le 4 hi @ to_le 4 lo @ to_le 4 (length raw) @ to_le 4 wl) @ raw)
     @ option_list (epb_list cs fl)"

lemma epb_options_ok:
  assumes "\<forall>c\<in>set cs. length c < 65536" "\<And>f. fl = Some f \<Longrightarrow> f < 2 ^ 32"
  shows "epb_options cs (map_option int fl) = Inr (option_list (epb_list cs fl))"
proof -
  have c: "rmap (ng_option 1) cs = Inr (map (option_octets 1) cs)"
    by (rule rmap_Inr) (use assms(1) ng_option_ok [of 1] in auto)
  have e: "packs False [(2, 0), (2, 0)] = Inr [0, 0, 0, 0]" using pack_le [of 0 2] by simp
  have t: "pack False 2 2 = Inr (to_le 2 2)" "pack False 2 4 = Inr (to_le 2 4)" using pack_le [of 2 2] pack_le [of 4 2] by simp_all
  have p: "add_padding (to_le 4 f) = to_le 4 f" for f by (simp add: add_padding_def)
  have m: "map (\<lambda>(c, v). option_octets c v) (map (Pair 1) cs) = map (option_octets 1) cs" by simp
  have n: "concat (map (option_octets 1) cs) = [] \<longleftrightarrow> cs = []"
    by (cases cs) (auto simp: option_octets_def dest: arg_cong [of _ _ length])
  show ?thesis
  proof (cases fl)
    case None
    then show ?thesis using n
      unfolding epb_options_def c rbind_simps option_list_def epb_list_def e by (simp add: Let_def e m comp_def)
  next
    case (Some f)
    then have "pack False 4 (int f) = Inr (to_le 4 f)" using assms(2) [of f] pack_le [of f 4] by simp
    then have q: "packs False [(2, 2), (2, 4), (4, int f)] = Inr (option_octets 2 (to_le 4 f))"
      by (simp add: t option_octets_def p)
    have "option_octets 2 (to_le 4 f) \<noteq> []" by (auto dest: arg_cong [of _ _ length])
    then show ?thesis
      unfolding epb_options_def c rbind_simps option_list_def epb_list_def Some option.map option.case q Let_def e
      by (simp add: m comp_def)
  qed
qed

lemma epb_dict:
  shows "map_of (foldl (\<lambda>o1 (c, v). opt_put c v o1) [] (epb_list cs fl)) 1 = (if cs = [] then None else Some (Many cs))"
    "map_of (foldl (\<lambda>o1 (c, v). opt_put c v o1) [] (epb_list cs fl)) 2 = map_option (\<lambda>f. One (to_le 4 f)) fl"
    "c \<noteq> 1 \<Longrightarrow> c \<noteq> 2 \<Longrightarrow> map_of (foldl (\<lambda>o1 (c, v). opt_put c v o1) [] (epb_list cs fl)) c = None"
proof -
  have "foldl (\<lambda>o1 (c, v). opt_put c v o1) [] (map (Pair 1) cs) = (if cs = [] then [] else [(1, Many cs)])"
  proof (cases cs)
    case (Cons x xs)
    then show ?thesis using comments_dict [of "[x]" xs] by (simp add: REPEATABLE_def)
  qed simp
  then have "foldl (\<lambda>o1 (c, v). opt_put c v o1) [] (epb_list cs fl) =
      (if cs = [] then [] else [(1, Many cs)]) @ (case fl of None \<Rightarrow> [] | Some f \<Rightarrow> [(2, One (to_le 4 f))])"
    by (auto simp: epb_list_def REPEATABLE_def split: option.split)
  then show "map_of (foldl (\<lambda>o1 (c, v). opt_put c v o1) [] (epb_list cs fl)) 1 = (if cs = [] then None else Some (Many cs))"
    "map_of (foldl (\<lambda>o1 (c, v). opt_put c v o1) [] (epb_list cs fl)) 2 = map_option (\<lambda>f. One (to_le 4 f)) fl"
    "c \<noteq> 1 \<Longrightarrow> c \<noteq> 2 \<Longrightarrow> map_of (foldl (\<lambda>o1 (c, v). opt_put c v o1) [] (epb_list cs fl)) c = None"
    by (auto split: option.split)
qed

definition packet_ok :: "wpkt \<Rightarrow> bool" where
  "packet_ok p \<longleftrightarrow> p_wirelen p < 2 ^ 32 \<and> (\<forall>c\<in>set (p_comments p). length c < 65536) \<and>
     (\<forall>n. p_ifname p = Some n \<longrightarrow> length n < 65536) \<and> (\<forall>l. p_linktype p = Some l \<longrightarrow> 0 \<le> l \<and> l < 65536) \<and>
     64 + length (p_raw p) + sum_list (map (\<lambda>c. 8 + length c) (p_comments p)) < 2 ^ 32"

definition wire_of :: "wpkt \<Rightarrow> nat" where
  "wire_of p = (if p_wirelen p = 0 then length (p_raw p) else p_wirelen p)"

definition flags_of :: "wpkt \<Rightarrow> nat option" where
  "flags_of p = map_option (\<lambda>d. nat (d AND 3)) (p_direction p)"

definition hi_of :: "wpkt \<Rightarrow> nat" where "hi_of p = nat (drop_bit 32 (p_ticks p) AND 0xFFFFFFFF)"
definition lo_of :: "wpkt \<Rightarrow> nat" where "lo_of p = nat (p_ticks p AND 0xFFFFFFFF)"

abbreviation body_of :: "wpkt \<Rightarrow> nat \<Rightarrow> bytes" where
  "body_of p i \<equiv> epb_body (p_raw p) i (hi_of p) (lo_of p) (wire_of p) (p_comments p) (flags_of p)"

lemma flags_less: "flags_of p = Some f \<Longrightarrow> f < 4"
proof -
  have "(d :: int) AND 3 = d mod 4" for d using take_bit_eq_mask [of 2 d] by (simp add: take_bit_eq_mod mask_eq_exp_minus_1)
  moreover assume "flags_of p = Some f"
  ultimately show "f < 4" by (auto simp: flags_of_def)
qed

lemma ticks_less: "hi_of p < 2 ^ 32" "lo_of p < 2 ^ 32"
  by (simp_all add: hi_of_def lo_of_def and_masks nat_less_iff)

lemma option_list_size:
  "length (option_list (epb_list cs fl)) \<le> sum_list (map (\<lambda>c. 8 + length c) cs) + 12"
proof -
  have "length (concat (map (option_octets 1) cs)) \<le> sum_list (map (\<lambda>c. 8 + length c) cs)"
  proof (induction cs)
    case (Cons c cs)
    then show ?case using pad4_mod(4) [of "length c"] by simp
  qed simp
  moreover have "pad4 4 = 4" by (simp add: pad4_def)
  ultimately show ?thesis by (auto simp: option_list_def epb_list_def comp_def split: option.split)
qed

lemma epb_body_size:
  assumes "packet_ok p"
  shows "length (body_of p i) mod 4 = 0" "12 + length (body_of p i) < 2 ^ 32"
    "12 + pad4 (20 + length (p_raw p)) + length (option_list (epb_list (p_comments p) (flags_of p))) < 2 ^ 32"
proof -
  show a: "12 + pad4 (20 + length (p_raw p)) + length (option_list (epb_list (p_comments p) (flags_of p))) < 2 ^ 32"
    using assms option_list_size [of "p_comments p" "flags_of p"] pad4_mod(4) [of "20 + length (p_raw p)"]
    unfolding packet_ok_def by linarith
  then show "12 + length (body_of p i) < 2 ^ 32" by (simp add: epb_body_def)
  show "length (body_of p i) mod 4 = 0"
    using pad4_mod(1) [of "20 + length (p_raw p)"] option_list_mod [of "epb_list (p_comments p) (flags_of p)"]
    by (simp add: epb_body_def mod_add_eq [symmetric])
qed

lemma block_epb_ok:
  assumes "packet_ok p" "i < 2 ^ 32"
  shows "block_epb (p_raw p) (int i) (p_ticks p) (Some (int (length (p_raw p))))
    (Some (if p_wirelen p = 0 then int (length (p_raw p)) else int (p_wirelen p))) (p_comments p)
    (map_option (\<lambda>d. d AND 3) (p_direction p)) = Inr (block (to_le 4 6) (body_of p i))"
proof -
  have r: "length (p_raw p) < 256 ^ 4" "wire_of p < 256 ^ 4" "i < 256 ^ 4"
    "hi_of p < 256 ^ 4" "lo_of p < 256 ^ 4"
    using assms ticks_less [of p] by (auto simp: packet_ok_def wire_of_def)
  have t: "drop_bit 32 (p_ticks p) AND 0xFFFFFFFF = int (hi_of p)" "p_ticks p AND 0xFFFFFFFF = int (lo_of p)"
    by (simp_all add: hi_of_def lo_of_def and_masks)
  have o: "or_len (Some (int (length (p_raw p)))) (p_raw p) = int (length (p_raw p))"
    "or_len (Some (if p_wirelen p = 0 then int (length (p_raw p)) else int (p_wirelen p))) (p_raw p) = int (wire_of p)"
    by (simp_all add: or_len_def wire_of_def)
  have f: "map_option (\<lambda>d. d AND 3) (p_direction p) = map_option int (flags_of p)"
    by (cases "p_direction p") (simp_all add: flags_of_def)
  have e: "epb_options (p_comments p) (map_option int (flags_of p)) = Inr (option_list (epb_list (p_comments p) (flags_of p)))"
    by (rule epb_options_ok) (use assms(1) flags_less in \<open>force simp: packet_ok_def\<close>)+
  have six: "pack False 4 6 = Inr (to_le 4 6)" using pack_le [of 6 4] by simp
  let ?h = "to_le 4 i @ to_le 4 (hi_of p) @ to_le 4 (lo_of p) @ to_le 4 (length (p_raw p)) @ to_le 4 (wire_of p)"
  have "build_block (to_le 4 6) (?h @ p_raw p) (option_list (epb_list (p_comments p) (flags_of p))) =
      Inr (block (to_le 4 6) (body_of p i))"
    unfolding epb_body_def by (rule build_block_ok) (use epb_body_size(3) [OF assms(1)] in simp)
  then show ?thesis
    unfolding block_epb_def t o f e using r by (simp add: pack_le six)
qed

definition meta_of :: "wpkt \<Rightarrow> iface \<Rightarrow> meta" where
  "meta_of p f = \<lparr>m_linktype = fst f, m_tsresol = if_tsresol (snd (snd f)), m_tshigh = Some (hi_of p),
     m_tslow = Some (lo_of p), m_wirelen = wire_of p,
     m_comments = (if p_comments p = [] then None else Some (p_comments p)), m_ifname = if_name (snd (snd f)),
     m_direction = map_option (\<lambda>d. nat (d AND 3)) (p_direction p), m_proc = []\<rparr>"

lemma packet_meta_epb:
  assumes "packet_ok p" "i < length sec" "i < 2 ^ 32" "\<not> ng_big w"
  shows "packet_meta w 6 (body_of p i) sec = Some (meta_of p (sec ! i))"
proof -
  let ?h = "to_le 4 i @ to_le 4 (hi_of p) @ to_le 4 (lo_of p) @ to_le 4 (length (p_raw p)) @ to_le 4 (wire_of p)"
  let ?o = "option_list (epb_list (p_comments p) (flags_of p))"
  have r: "length (p_raw p) < 256 ^ 4" "wire_of p < 256 ^ 4" "i < 256 ^ 4" "hi_of p < 256 ^ 4" "lo_of p < 256 ^ 4"
    using assms ticks_less [of p] by (auto simp: packet_ok_def wire_of_def)
  obtain z where b: "body_of p i = ?h @ p_raw p @ z @ ?o" "length (p_raw p) + length z = pad4 (length (p_raw p))"
  proof
    let ?z = "replicate (nat ((- int (length (?h @ p_raw p))) mod 4)) (0 :: byte)"
    show "body_of p i = ?h @ p_raw p @ ?z @ ?o" by (simp add: epb_body_def add_padding_def)
    have "(- int (20 + length (p_raw p))) mod 4 = (- int (length (p_raw p))) mod 4" by presburger
    then show "length (p_raw p) + length ?z = pad4 (length (p_raw p))" by (simp add: pad4_def)
  qed
  have u: "unpack False (octets (body_of p i) 0 4) = i" "unpack False (octets (body_of p i) 4 4) = hi_of p"
    "unpack False (octets (body_of p i) 8 4) = lo_of p" "unpack False (octets (body_of p i) 12 4) = length (p_raw p)"
    "unpack False (octets (body_of p i) 16 4) = wire_of p"
    using r unfolding b by (simp_all add: octets_def)
  have d: "drop (20 + pad4 (length (p_raw p))) (body_of p i) = ?o"
    unfolding b using b(2) by simp
  have l: "\<not> length (body_of p i) < 20" unfolding b by simp
  have o: "read_options False ?o = foldl (\<lambda>o1 (c, v). opt_put c v o1) [] (epb_list (p_comments p) (flags_of p))"
    by (rule read_option_list) (use assms(1) in \<open>auto simp: epb_list_def packet_ok_def split: option.splits\<close>)
  have fl: "f < 256 ^ 4 \<and> f AND 3 = f" if "flags_of p = Some f" for f
  proof -
    have "f AND 3 = f mod 4" using take_bit_eq_mask [of 2 f] by (simp add: take_bit_eq_mod mask_eq_exp_minus_1)
    then show ?thesis using flags_less [OF that] by simp
  qed
  have dir: "(case map_option (\<lambda>f. One (to_le 4 f)) (flags_of p) of
        Some (One v) \<Rightarrow> if length v = 4 then Some (unpack False v AND 3) else None | _ \<Rightarrow> None) = flags_of p"
    using fl by (cases "flags_of p") simp_all
  obtain lt sl o1 where f: "sec ! i = (lt, sl, o1)" by (cases "sec ! i")
  have pr: "concat (map (proc_of False (ng_procs w) (read_options False ?o)) [(0x8001, ''proc''), (0x8003, ''eproc'')]) = []"
    by (simp add: proc_of_def o epb_dict)
  have big: "ng_big w = False" using assms(4) by simp
  show ?thesis
    unfolding packet_meta_def big Let_def using assms(2) l pr dir
    by (simp add: u d f meta_of_def o epb_dict epb_dict(1) [unfolded One_nat_def] flags_of_def [symmetric])
qed

section \<open>Writing a packet\<close>

lemma emit_ok: "emit (Inr b) st = (Inr (), st\<lparr>w_out := w_out st @ b\<rparr>)"
  by (simp add: emit_def sbind_apply)

lemma next_id_snoc: "next_id (ids @ [(n, next_id ids)]) = Suc (next_id ids)"
proof -
  have "foldr max xs (m :: nat) = max (foldr max xs 0) m" for xs m by (induction xs) auto
  from this [of "map snd ids" "next_id ids"] show ?thesis by (simp add: next_id_def)
qed

lemma interface_synced:
  assumes "synced st w sec" "lt < 65536" "\<And>n. ifname = Some n \<Longrightarrow> length n < 65536"
  shows "\<exists>i st1 w1 sec1. ngw_interface (int lt) ifname st = (Inr i, st1) \<and> synced st1 w1 sec1 \<and> i < length sec1 \<and>
    if_name (snd (snd (sec1 ! i))) = ifname \<and> if_tsresol (snd (snd (sec1 ! i))) = 1000000 \<and>
    ng_meta w1 = ng_meta w \<and> length sec1 \<le> Suc (length sec) \<and> w_linktype st1 = w_linktype st \<and>
    (\<exists>ext. w_out st1 = w_out st @ ext)"
proof (cases "map_of (w_ids st) ifname")
  case (Some i)
  then have "i < length sec \<and> if_name (snd (snd (sec ! i))) = ifname \<and> if_tsresol (snd (snd (sec ! i))) = 1000000"
    using assms(1) unfolding synced_def by blast
  with Some assms(1) show ?thesis by (intro exI [of _ i] exI [of _ st] exI [of _ w] exI [of _ sec]) (simp add: ngw_interface_def)
next
  case None
  let ?i = "next_id (w_ids st)" and ?b = "idb_body lt ifname"
  let ?f = "(lt, 262144, \<lparr>if_tsresol = 1000000, if_name = ifname, if_comment = None\<rparr>) :: iface"
  define st1 where "st1 = st\<lparr>w_ids := w_ids st @ [(ifname, ?i)], w_out := w_out st @ block (to_le 4 1) ?b\<rparr>"
  define w1 where "w1 = w\<lparr>ng_interfaces := ng_interfaces w @ [?f]\<rparr>"
  have s: "w_header st" "\<not> ng_big w" "ng_procs w = []" "?i = length sec"
    "\<And>n i. map_of (w_ids st) n = Some i \<Longrightarrow>
       i < length sec \<and> if_name (snd (snd (sec ! i))) = n \<and> if_tsresol (snd (snd (sec ! i))) = 1000000"
    using assms(1) unfolding synced_def by blast+
  have r: "ngw_interface (int lt) ifname st = (Inr ?i, st1)"
    using None block_idb_ok [OF assms(2,3)] by (simp add: ngw_interface_def Let_def sbind_apply emit_ok st1_def)
  have wb: "walk_block (length (w_out st)) (from_le (to_le 4 1)) ?b w sec = (w1, sec @ [?f])"
    using idb_body_read [OF assms(2,3)] s(2) by (simp add: walk_block_def w1_def type_octets)
  have "walk (w_out st1 @ rest) 0 ng_init [] = walk (w_out st1 @ rest) (length (w_out st1)) w1 (sec @ [?f])" for rest
    using synced_emit [OF assms(1) type_octets(1,2) idb_body_size [OF assms(3)] wb] by (simp add: st1_def)
  moreover have "i < length (sec @ [?f]) \<and> if_name (snd (snd ((sec @ [?f]) ! i))) = n \<and>
      if_tsresol (snd (snd ((sec @ [?f]) ! i))) = 1000000" if "map_of (w_ids st1) n = Some i" for n i
  proof (cases "map_of (w_ids st) n")
    case None
    with that have "n = ifname" "i = length sec" using s(4) by (auto simp: st1_def map_add_def split: if_splits option.splits)
    then show ?thesis by simp
  next
    case (Some j)
    moreover have "n \<noteq> ifname" using Some None by auto
    ultimately have "j = i" using that by (auto simp: st1_def map_add_def split: if_splits)
    with s(5) [OF Some] show ?thesis by (simp add: nth_append)
  qed
  moreover have "next_id (w_ids st1) = length (sec @ [?f])" using next_id_snoc [of "w_ids st" ifname] s(4) by (simp add: st1_def)
  ultimately have "synced st1 w1 (sec @ [?f])"
    using s(1-3) by (simp add: synced_def w1_def) (simp add: st1_def)
  with r show ?thesis
    by (intro exI [of _ ?i] exI [of _ st1] exI [of _ w1] exI [of _ "sec @ [?f]"]) (simp add: s(4) st1_def w1_def)
qed

text \<open>That a record describes a packet: its time, wire length and attributes.\<close>

definition describes :: "wpkt \<Rightarrow> meta \<Rightarrow> bool" where
  "describes p m \<longleftrightarrow> m_tsresol m = 1000000 \<and> m_tshigh m = Some (hi_of p) \<and> m_tslow m = Some (lo_of p) \<and>
     m_wirelen m = wire_of p \<and> m_comments m = (if p_comments p = [] then None else Some (p_comments p)) \<and>
     m_ifname m = p_ifname p \<and> m_direction m = map_option (\<lambda>d. nat (d AND 3)) (p_direction p) \<and> m_proc m = []"

lemma write_packet_synced:
  assumes "synced st w sec" "packet_ok p" "Suc (length sec) < 2 ^ 32" "w_linktype st = Some (int lt)" "lt < 65536"
  shows "\<exists>st' w' sec' off m ext. ngw_write_packet p st = (Inr (), st') \<and> synced st' w' sec' \<and> length sec' \<le> Suc (length sec) \<and>
    w_linktype st' = w_linktype st \<and> w_out st' = w_out st @ ext \<and> ng_meta w' = (ng_meta w)(off \<mapsto> m) \<and>
    length (w_out st) \<le> off \<and> off + length (p_raw p) < length (w_out st') \<and>
    octets (w_out st') off (length (p_raw p)) = p_raw p \<and> describes p m"
proof -
  obtain l where l: "(case p_linktype p of Some l \<Rightarrow> if l = 0 then the (w_linktype st) else l | None \<Rightarrow> the (w_linktype st)) = int l"
    "l < 65536"
  proof (cases "p_linktype p")
    case (Some k)
    then have "0 \<le> k" "k < 65536" using assms(2) by (auto simp: packet_ok_def)
    with Some that [of "nat k"] that [of lt] assms(4,5) show ?thesis by (cases "k = 0") auto
  qed (use that assms in auto)
  have n: "\<And>n. p_ifname p = Some n \<Longrightarrow> length n < 65536" using assms(2) by (simp add: packet_ok_def)
  obtain i st1 w1 sec1 e1 where i: "ngw_interface (int l) (p_ifname p) st = (Inr i, st1)" "synced st1 w1 sec1" "i < length sec1"
    "if_name (snd (snd (sec1 ! i))) = p_ifname p" "if_tsresol (snd (snd (sec1 ! i))) = 1000000" "ng_meta w1 = ng_meta w"
    "length sec1 \<le> Suc (length sec)" "w_linktype st1 = w_linktype st" "w_out st1 = w_out st @ e1"
    using interface_synced [OF assms(1) l(2) n] by blast
  have i32: "i < 2 ^ 32" using i(3,7) assms(3) by linarith
  have s: "w_header st1" "\<not> ng_big w1" using i(2) by (simp_all add: synced_def)
  let ?b = "body_of p i" and ?off = "length (w_out st1) + 28" and ?m = "meta_of p (sec1 ! i)"
  define st2 where "st2 = st1\<lparr>w_out := w_out st1 @ block (to_le 4 6) ?b\<rparr>"
  define w2 where "w2 = w1\<lparr>ng_meta := (ng_meta w1)(?off \<mapsto> ?m)\<rparr>"
  have "ngw_write_packet p st = (Inr (), st2)"
    using i(1) block_epb_ok [OF assms(2) i32] l(1)
    by (simp add: ngw_write_packet_def Let_def sbind_apply emit_ok st2_def)
  moreover have wb: "walk_block (length (w_out st1)) (from_le (to_le 4 6)) ?b w1 sec1 = (w2, sec1)"
    using packet_meta_epb [OF assms(2) i(3) i32 s(2)]
    by (simp add: walk_block_def packet_block_def w2_def type_octets)
  have "walk (w_out st2 @ rest) 0 ng_init [] = walk (w_out st2 @ rest) (length (w_out st2)) w2 sec1" for rest
    using synced_emit [OF i(2) type_octets(1,3) epb_body_size(1,2) [OF assms(2)] wb] by (simp add: st2_def)
  then have "synced st2 w2 sec1" using i(2) by (simp add: synced_def w2_def) (simp add: st2_def)
  moreover have "octets (w_out st2) ?off (length (p_raw p)) = p_raw p" "?off + length (p_raw p) < length (w_out st2)"
  proof -
    have e: "?off = length (w_out st1) + 28" ..
    show "octets (w_out st2) ?off (length (p_raw p)) = p_raw p"
      unfolding st2_def ngw.select_convs ngw.simps octets_skip
      by (simp add: block_def epb_body_def add_padding_def octets_def)
    show "?off + length (p_raw p) < length (w_out st2)"
      using pad4_mod(2) [of "20 + length (p_raw p)"] by (simp add: st2_def epb_body_def)
  qed
  moreover have "describes p ?m" using i(4,5) by (simp add: describes_def meta_of_def)
  ultimately show ?thesis
    using i(6-9) by (intro exI [of _ st2] exI [of _ w2] exI [of _ sec1] exI [of _ ?off] exI [of _ ?m]
        exI [of _ "e1 @ block (to_le 4 6) ?b"]) (simp add: st2_def w2_def)
qed

section \<open>Writing a file\<close>

definition shb_body :: bytes where
  "shb_body = [0x4D, 0x3C, 0x2B, 0x1A] @ to_le 2 1 @ [0, 0] @ replicate 8 0xFF"

lemma header_synced:
  assumes "lt < 65536" "case p_linktype p of None \<Rightarrow> lt = 1 | Some l \<Rightarrow> l = int lt"
  shows "\<exists>st w sec. ngw_write_header (Some p) ngw_init = (Inr (), st) \<and> synced st w sec \<and> length sec = 1 \<and>
    w_linktype st = Some (int lt) \<and> ng_meta w = Map.empty"
proof -
  let ?f = "(lt, 262144, \<lparr>if_tsresol = 1000000, if_name = None, if_comment = None\<rparr>) :: iface"
  define o1 where "o1 = block PCAPNG_MAGIC shb_body"
  define o2 where "o2 = block (to_le 4 1) (idb_body lt None)"
  define st where "st = \<lparr>w_header = True, w_linktype = Some (int lt), w_ids = [(None, 0)], w_out = o1 @ o2\<rparr>"
  define w where "w = ng_init\<lparr>ng_interfaces := [?f]\<rparr>"
  have lt: "(case p_linktype p of None \<Rightarrow> 1 | Some l \<Rightarrow> l) = int lt" using assms(2) by (auto split: option.splits)
  have shb: "block_shb = Inr o1"
  proof -
    have v: "packs False [(2, 1), (2, 0)] = Inr (to_le 2 1 @ [0, 0])" using pack_le [of 1 2] pack_le [of 0 2] by simp
    have l: "length shb_body = 16" by (simp add: shb_body_def)
    have "build_block PCAPNG_MAGIC shb_body [] = Inr (block PCAPNG_MAGIC (add_padding shb_body @ []))"
      by (rule build_block_ok) (simp add: l pad4_def)
    moreover have "add_padding shb_body = shb_body" by (simp add: add_padding_def l)
    ultimately show ?thesis by (simp only: block_shb_def v rbind_simps o1_def) (simp add: shb_body_def)
  qed
  have r: "ngw_write_header (Some p) ngw_init = (Inr (), st)"
    using block_idb_ok [OF assms(1), of None] lt
    by (simp add: ngw_write_header_def ngw_init_def Let_def sbind_apply shb emit_ok st_def o2_def)
  have sz: "length shb_body mod 4 = 0" "12 + length shb_body < 2 ^ 32" by (simp_all add: shb_body_def)
  have f: "walk (o1 @ o2 @ rest) 0 ng_init [] = walk (o1 @ o2 @ rest) (length o1) ng_init []" for rest
  proof -
    have "octets (block PCAPNG_MAGIC shb_body @ o2 @ rest) 0 4 = PCAPNG_MAGIC"
      by (simp add: block_def octets_def magic_octets)
    moreover have "octets (block PCAPNG_MAGIC shb_body @ o2 @ rest) (0 + 8) 4 = [0x4D, 0x3C, 0x2B, 0x1A]"
      by (simp add: block_def octets_def magic_octets shb_body_def)
    ultimately have sec: "walk_section ([] @ block PCAPNG_MAGIC shb_body @ o2 @ rest) (length ([] :: bytes)) ng_init [] = Some (ng_init, [])"
      by (simp add: walk_section_def ng_init_def)
    have big: "\<not> ng_big ng_init" by (simp add: ng_init_def)
    have "walk_block 0 (from_le PCAPNG_MAGIC) shb_body ng_init [] = (ng_init, [])"
      by (simp add: walk_block_def magic_octets from_le_def from_be_def)
    with walk_frame [OF magic_octets(2) sz sec big] show ?thesis by (simp add: o1_def)
  qed
  have "walk (w_out st @ rest) 0 ng_init [] = walk (w_out st @ rest) (length (w_out st)) w [?f]" for rest
  proof -
    have "walk (o1 @ o2 @ rest) (length o1) ng_init [] =
        (case walk_block (length o1) (from_le (to_le 4 1)) (idb_body lt None) ng_init [] of
          (st2, sec2) \<Rightarrow> walk (o1 @ o2 @ rest) (length (o1 @ o2)) st2 sec2)"
      unfolding o2_def
      by (rule walk_frame [OF type_octets(1) idb_body_size walk_section_none [OF type_octets(1,2)]]) (simp_all add: ng_init_def)
    moreover have "walk_block (length o1) (from_le (to_le 4 1)) (idb_body lt None) ng_init [] = (w, [?f])"
      using idb_body_read [OF assms(1), of None] by (simp add: walk_block_def type_octets w_def) (simp add: ng_init_def)
    ultimately show ?thesis using f [of rest] by (simp add: st_def)
  qed
  then have "synced st w [?f]"
    by (auto simp: synced_def w_def ng_init_def st_def next_id_def split: if_splits)
  with r show ?thesis by (intro exI [of _ st] exI [of _ w] exI [of _ "[?f]"]) (simp add: w_def st_def ng_init_def)
qed

text \<open>Every packet of the list is described at its offset, and nothing else is.\<close>

definition all_described :: "wpkt list \<Rightarrow> nat list \<Rightarrow> bytes \<Rightarrow> (nat \<rightharpoonup> meta) \<Rightarrow> bool" where
  "all_described ps offs out m \<longleftrightarrow> length offs = length ps \<and> dom m = set offs \<and> sorted_wrt (<) offs \<and>
     (\<forall>o1\<in>set offs. o1 < length out) \<and>
     (\<forall>i<length ps. octets out (offs ! i) (length (p_raw (ps ! i))) = p_raw (ps ! i) \<and>
        offs ! i + length (p_raw (ps ! i)) \<le> length out \<and> (\<exists>d. m (offs ! i) = Some d \<and> describes (ps ! i) d))"

lemma all_described_snoc:
  assumes "all_described ps offs out m" "length out \<le> off" "off + length (p_raw p) < length (out @ ext)"
    "octets (out @ ext) off (length (p_raw p)) = p_raw p" "describes p d"
  shows "all_described (ps @ [p]) (offs @ [off]) (out @ ext) (m(off \<mapsto> d))"
proof -
  have a: "length offs = length ps" "dom m = set offs" "sorted_wrt (<) offs" "\<forall>o1\<in>set offs. o1 < length out"
    using assms(1) by (simp_all add: all_described_def)
  have lt: "\<forall>o1\<in>set offs. o1 < off" using a(4) assms(2) by auto
  have k: "octets (out @ ext) (offs ! i) (length (p_raw (ps ! i))) = p_raw (ps ! i) \<and>
      offs ! i + length (p_raw (ps ! i)) \<le> length (out @ ext) \<and>
      (\<exists>e. (m(off \<mapsto> d)) (offs ! i) = Some e \<and> describes (ps ! i) e)" if "i < length ps" for i
  proof -
    have o: "octets out (offs ! i) (length (p_raw (ps ! i))) = p_raw (ps ! i)"
      "offs ! i + length (p_raw (ps ! i)) \<le> length out" "\<exists>e. m (offs ! i) = Some e \<and> describes (ps ! i) e"
      using assms(1) that unfolding all_described_def by blast+
    have "offs ! i < off" using lt that a(1) by simp
    then show ?thesis using o by (simp add: octets_def)
  qed
  have "\<forall>i<length (ps @ [p]). octets (out @ ext) ((offs @ [off]) ! i) (length (p_raw ((ps @ [p]) ! i))) = p_raw ((ps @ [p]) ! i) \<and>
      (offs @ [off]) ! i + length (p_raw ((ps @ [p]) ! i)) \<le> length (out @ ext) \<and>
      (\<exists>e. (m(off \<mapsto> d)) ((offs @ [off]) ! i) = Some e \<and> describes ((ps @ [p]) ! i) e)"
  proof (intro allI impI)
    fix i assume "i < length (ps @ [p])"
    then consider "i < length ps" | "i = length ps" by fastforce
    then show "octets (out @ ext) ((offs @ [off]) ! i) (length (p_raw ((ps @ [p]) ! i))) = p_raw ((ps @ [p]) ! i) \<and>
      (offs @ [off]) ! i + length (p_raw ((ps @ [p]) ! i)) \<le> length (out @ ext) \<and>
      (\<exists>e. (m(off \<mapsto> d)) ((offs @ [off]) ! i) = Some e \<and> describes ((ps @ [p]) ! i) e)"
    proof cases
      case 1
      then have "(ps @ [p]) ! i = ps ! i" "(offs @ [off]) ! i = offs ! i" using a(1) by (simp_all add: nth_append)
      then show ?thesis using k [OF 1] by simp
    next
      case 2
      then have "(ps @ [p]) ! i = p" "(offs @ [off]) ! i = off" using a(1) by (simp_all add: nth_append)
      then show ?thesis using assms(3-5) by simp
    qed
  qed
  then show ?thesis
    using a lt assms(3) by (auto simp: all_described_def sorted_wrt_append)
qed

lemma write_synced:
  assumes "synced st w sec" "\<forall>p\<in>set ps. packet_ok p" "length sec + length ps < 2 ^ 32" "w_linktype st = Some (int lt)"
    "lt < 65536" "all_described qs offs (w_out st) (ng_meta w)"
  shows "\<exists>st' offs' w' sec'. ngw_write ps st = (Inr (), st') \<and> synced st' w' sec' \<and>
    all_described (qs @ ps) offs' (w_out st') (ng_meta w')"
  using assms
proof (induction ps arbitrary: st w sec qs offs)
  case Nil
  then show ?case by auto
next
  case (Cons p ps)
  have "packet_ok p" "Suc (length sec) < 2 ^ 32" using Cons.prems by auto
  from write_packet_synced [OF Cons.prems(1) this Cons.prems(4,5)]
  obtain st1 w1 sec1 off m ext where s: "ngw_write_packet p st = (Inr (), st1)" "synced st1 w1 sec1"
    "length sec1 \<le> Suc (length sec)" "w_linktype st1 = w_linktype st" "w_out st1 = w_out st @ ext"
    "ng_meta w1 = (ng_meta w)(off \<mapsto> m)" "length (w_out st) \<le> off" "off + length (p_raw p) < length (w_out st1)"
    "octets (w_out st1) off (length (p_raw p)) = p_raw p" "describes p m" by blast
  have h: "w_header st" using Cons.prems(1) by (simp add: synced_def)
  have "all_described (qs @ [p]) (offs @ [off]) (w_out st1) (ng_meta w1)"
    unfolding s(5,6) by (rule all_described_snoc [OF Cons.prems(6)]) (use s in simp_all)
  with Cons.IH [OF s(2), of "qs @ [p]" "offs @ [off]"] Cons.prems s(3,4)
  obtain st' offs' w' sec' where "ngw_write ps st1 = (Inr (), st')" "synced st' w' sec'"
    "all_described ((qs @ [p]) @ ps) offs' (w_out st') (ng_meta w')" by auto
  with s(1) h show ?case by (auto simp: sbind_apply)
qed

text \<open>C4: writing packets that fit their blocks raises nothing, and the metadata of the file then
  has exactly one entry for each packet, at the offset of its octets and in order, with the
  time, wire length, comments, interface name and direction it was written with.\<close>

theorem pcapng_roundtrip:
  assumes "\<forall>p\<in>set ps. packet_ok p" "length ps < 2 ^ 31"
  shows "\<exists>st offs. ngw_write ps ngw_init = (Inr (), st) \<and>
    all_described ps offs (w_out st) (pcapng_metadata (w_out st))"
proof (cases ps)
  case Nil
  have "pcapng_metadata [] = Map.empty" by (simp add: pcapng_metadata_def walk.simps ng_init_def)
  with Nil show ?thesis by (auto simp: ngw_init_def all_described_def)
next
  case (Cons p qs)
  obtain lt where lt: "lt < 65536" "case p_linktype p of None \<Rightarrow> lt = 1 | Some l \<Rightarrow> l = int lt"
  proof (cases "p_linktype p")
    case (Some l)
    then have "0 \<le> l" "l < 65536" using assms(1) Cons by (auto simp: packet_ok_def)
    with Some that [of "nat l"] show ?thesis by auto
  qed (use that [of 1] in simp)
  obtain st w sec where h: "ngw_write_header (Some p) ngw_init = (Inr (), st)" "synced st w sec" "length sec = 1"
    "w_linktype st = Some (int lt)" "ng_meta w = Map.empty" using header_synced [OF lt] by blast
  have hd: "w_header st" using h(2) by (simp add: synced_def)
  have "all_described [] [] (w_out st) (ng_meta w)" by (simp add: all_described_def h(5))
  from write_synced [OF h(2) assms(1) _ h(4) lt(1) this] assms(2) h(3)
  obtain st' offs w' sec' where r: "ngw_write ps st = (Inr (), st')" "synced st' w' sec'"
    "all_described ps offs (w_out st') (ng_meta w')" by auto
  have "ngw_write ps ngw_init = ngw_write ps st"
    using h(1) hd unfolding Cons by (simp add: sbind_apply ngw_init_def)
  moreover have "pcapng_metadata (w_out st') = ng_meta w'"
  proof -
    have "walk (w_out st' @ []) 0 ng_init [] = walk (w_out st' @ []) (length (w_out st')) w' sec'"
      using r(2) unfolding synced_def by blast
    then show ?thesis by (simp add: pcapng_metadata_def walk.simps [of "w_out st'" "length (w_out st')"])
  qed
  ultimately show ?thesis using r(1,3) by auto
qed

definition sample_pkt :: wpkt where
  "sample_pkt = \<lparr>p_raw = [1, 2, 3], p_ticks = 1700000000000000, p_wirelen = 60, p_ifname = Some [0x65, 0x30],
     p_direction = Some 1, p_comments = [[0x68, 0x69]], p_linktype = Some 1\<rparr>"

theorem pcapng_roundtrip_witness:
  "\<exists>st offs. ngw_write [sample_pkt, sample_pkt] ngw_init = (Inr (), st) \<and>
    all_described [sample_pkt, sample_pkt] offs (w_out st) (pcapng_metadata (w_out st))"
  by (rule pcapng_roundtrip) (simp_all add: packet_ok_def sample_pkt_def)

end
