(* ===== verification/Pcap_Correct.thy ===== *)
theory Pcap_Correct
  imports Pcapng_Correct
begin

text \<open>
  The file header of the pcap writer, as the reader loads it.
\<close>

lemma pack_any:
  assumes "0 \<le> v" "v < 256 ^ n"
  shows "pack big n v = Inr (if big then to_be n (nat v) else to_le n (nat v))"
  using assms by (simp add: pack_def)

lemma unpack_any: "v < 256 ^ n \<Longrightarrow> unpack big (if big then to_be n v else to_le n v) = v"
  by (simp add: unpack_def)

lemma magic_of:
  "PCAP_MAGICS (if big then to_be 4 (if nano then 0xA1B23C4D else 0xA1B2C3D4)
     else to_le 4 (if nano then 0xA1B23C4D else 0xA1B2C3D4)) = Some (big, nano)"
  by (induct big rule: bool.induct; induct nano rule: bool.induct; code_simp)

text \<open>the reader loads the byte order, the resolution, the snapshot length and the link type
  the writer put into the file header, whichever they are.\<close>

lemma pcap_header_load:
  assumes "0 \<le> snaplen" "snaplen < 2 ^ 32" "0 \<le> linktype" "linktype < 2 ^ 32"
  shows "\<exists>b. pcap_header big nano snaplen linktype = Inr b \<and> length b = 24 \<and>
    pcap_load rust_nano b = Inr (big, nano, nat snaplen, nat linktype)"
proof -
  let ?p = "\<lambda>n v. if big then to_be n v else to_le n v"
  let ?m = "if nano then 0xA1B23C4D else 0xA1B2C3D4 :: nat"
  let ?b = "?p 4 ?m @ ?p 2 2 @ ?p 2 4 @ ?p 4 0 @ ?p 4 0 @ ?p 4 (nat snaplen) @ ?p 4 (nat linktype)"
  have m: "pack big 4 (if nano then 0xA1B23C4D else 0xA1B2C3D4) = Inr (?p 4 ?m)"
    by (induct big rule: bool.induct; induct nano rule: bool.induct; code_simp)
  have "pack big 2 2 = Inr (?p 2 2)" "pack big 2 4 = Inr (?p 2 4)" "pack big 4 0 = Inr (?p 4 0)"
    "pack big 4 snaplen = Inr (?p 4 (nat snaplen))" "pack big 4 linktype = Inr (?p 4 (nat linktype))"
    using assms pack_any [of 2 2 big] pack_any [of 4 2 big] pack_any [of 0 4 big] pack_any [of snaplen 4 big]
      pack_any [of linktype 4 big] by simp_all
  then have h: "pcap_header big nano snaplen linktype = Inr ?b"
    unfolding pcap_header_def packs.simps m by simp
  have l: "length (?p n v) = n" for n v by simp
  have "length ?b = 24" by simp
  moreover have "take 4 ?b = ?p 4 ?m" using l [of 4] by simp
  moreover have "octets ?b 16 4 = ?p 4 (nat snaplen)" "octets ?b 20 4 = ?p 4 (nat linktype)"
    by (simp_all add: octets_def)
  moreover have "unpack big (?p 4 (nat snaplen)) = nat snaplen" "unpack big (?p 4 (nat linktype)) = nat linktype"
    by (rule unpack_any, use assms in \<open>simp add: nat_less_iff\<close>)+
  ultimately have "pcap_load rust_nano ?b = Inr (big, nano, nat snaplen, nat linktype)"
    unfolding pcap_load_def using magic_of [of big nano] by simp
  with h \<open>length ?b = 24\<close> show ?thesis by blast
qed

theorem pcap_header_load_witness:
  "\<exists>b. pcap_header False True 65535 1 = Inr b \<and> length b = 24 \<and> pcap_load False b = Inr (False, True, 65535, 1)"
  using pcap_header_load [of 65535 1 False True False] by simp

end
