(* ===== verification/Net.thy ===== *)
theory Net
  imports In6_Source Py_Str
begin

text \<open>
  Ranges of addresses (\<open>Net\<close> and \<open>Net6\<close> of \<open>volatile.py\<close>). An address is parsed and printed as
  the standard library's \<open>ipaddress\<close> does: a strict dotted quad, or an IPv6 address with an
  optional zone, which is dropped; IPv6 is printed in compressed form without a dotted
  part. The family is a parameter: \<open>True\<close> is IPv6.
\<close>

section \<open>Addresses\<close>

definition addr_int :: "bool \<Rightarrow> string \<Rightarrow> nat res" where
  "addr_int six text =
     (let s = py_strip py_ws text;
          b = (if six then (case split1 (CHR ''%'') s of
                   (_, None) \<Rightarrow> inet_pton6 s
                 | (a, Some zone) \<Rightarrow> if zone = [] \<or> CHR ''%'' \<in> set zone then None else inet_pton6 a)
               else inet_pton4 s)
      in case b of None \<Rightarrow> Inl Value_Error | Some b \<Rightarrow> Inr (from_be b))"

definition ip6_str :: "bytes \<Rightarrow> string" where
  "ip6_str b =
     (let ws = words16 b; (s, n) = best_run 0 ws in
      if n < 2 then py_join [colon] (hex_words ws)
      else join6 (hex_words (take s ws)) (hex_words (drop (s + n) ws)))"

definition net_bits :: "bool \<Rightarrow> nat" where
  "net_bits six = (if six then 128 else 32)"

definition net_str_of :: "bool \<Rightarrow> nat \<Rightarrow> string" where
  "net_str_of six n = (if six then ip6_str (to_be 16 n) else inet_ntoa (to_be 4 n))"

section \<open>The range\<close>

record net =
  n_six :: bool
  n_lo :: nat
  n_hi :: nat
  n_scope :: "string option"

definition parse_cidr :: "bool \<Rightarrow> string \<Rightarrow> (nat \<times> nat) res" where
  "parse_cidr six text =
     (case split1 (CHR ''/'') text of (addr, plen) \<Rightarrow>
        rbind (addr_int six addr) (\<lambda>base.
          case plen of
            None \<Rightarrow> Inr (base, base)
          | Some p \<Rightarrow> (case py_int 10 p of
                None \<Rightarrow> Inl Value_Error
              | Some bits \<Rightarrow>
                  if \<not> (0 \<le> bits \<and> bits \<le> int (net_bits six)) then Inl Value_Error
                  else (let host = push_bit (nat (int (net_bits six) - bits)) 1 - 1;
                            lo = nat (int base AND NOT (int host))
                        in Inr (lo, lo OR host)))))"

definition net_init :: "bool \<Rightarrow> string \<Rightarrow> string option \<Rightarrow> string option \<Rightarrow> net res" where
  "net_init six n stop scope =
     (case stop of
        Some s \<Rightarrow> rbind (addr_int six n) (\<lambda>lo. rbind (addr_int six s) (\<lambda>hi.
          Inr (if hi < lo then \<lparr>n_six = six, n_lo = hi, n_hi = lo, n_scope = scope\<rparr>
               else \<lparr>n_six = six, n_lo = lo, n_hi = hi, n_scope = scope\<rparr>)))
      | None \<Rightarrow>
          (let (text, scope) = (case split1 (CHR ''%'') n of
                 (_, None) \<Rightarrow> (n, scope)
               | (t, Some inline) \<Rightarrow> (t, case scope of None \<Rightarrow> Some inline | Some s \<Rightarrow> Some s))
           in rbind (parse_cidr six text) (\<lambda>(lo, hi). Inr \<lparr>n_six = six, n_lo = lo, n_hi = hi, n_scope = scope\<rparr>)))"

definition net_gen :: "net \<Rightarrow> string \<times> nat \<times> nat \<times> nat" where
  "net_gen x = (''addrs'', n_lo x, n_hi x, if n_six x then 16 else 4)"

definition net_iter :: "net \<Rightarrow> string list" where
  "net_iter x = map (net_str_of (n_six x)) [n_lo x..<n_hi x + 1]"

definition net_iterlen :: "net \<Rightarrow> int" where
  "net_iterlen x = int (n_hi x) - int (n_lo x) + 1"

definition net_getitem :: "net \<Rightarrow> int \<Rightarrow> string res" where
  "net_getitem x i =
     (let n = net_iterlen x in
      if \<not> (- n \<le> i \<and> i < n) then Inl Index_Error
      else Inr (net_str_of (n_six x) (n_lo x + nat (i mod n))))"

text \<open>\<open>_as_net\<close> and \<open>in\<close>: the other operand is a range, or text that is made one.\<close>

definition as_net :: "net \<Rightarrow> net + string \<Rightarrow> net option" where
  "as_net x other =
     (case other of
        Inl y \<Rightarrow> if n_six y = n_six x then Some y else None
      | Inr text \<Rightarrow> (case net_init (n_six x) text None None of Inr y \<Rightarrow> Some y | Inl _ \<Rightarrow> None))"

definition net_contains :: "net \<Rightarrow> net + string \<Rightarrow> bool" where
  "net_contains x other =
     (case as_net x other of None \<Rightarrow> False | Some y \<Rightarrow> n_lo x \<le> n_lo y \<and> n_hi y \<le> n_hi x)"

definition net_eq :: "net \<Rightarrow> net \<Rightarrow> bool" where
  "net_eq x y \<longleftrightarrow> n_six x = n_six y \<and> n_lo x = n_lo y \<and> n_hi x = n_hi y"

text \<open>The arguments \<open>__repr__\<close> shows, and the text.\<close>

definition net_repr_args :: "net \<Rightarrow> string \<times> string option" where
  "net_repr_args x =
     (let span = nat (net_iterlen x); bits = bit_length span - 1; s = net_str_of (n_six x) in
      if span = push_bit bits 1 \<and> n_lo x AND (span - 1) = 0
      then (s (n_lo x) @ ''/'' @ dec_str (net_bits (n_six x) - bits), None)
      else (s (n_lo x), Some (s (n_hi x))))"

abbreviation quoted :: "string \<Rightarrow> string" where
  "quoted s \<equiv> [CHR 0x22] @ s @ [CHR 0x22]"

definition net_repr :: "net \<Rightarrow> string" where
  "net_repr x =
     (if n_six x then ''Net6'' else ''Net'') @
     (case net_repr_args x of
        (a, None) \<Rightarrow> ''('' @ quoted a @ '')''
      | (a, Some b) \<Rightarrow> ''('' @ quoted a @ '', '' @ quoted b @ '')'')"

definition net_text :: "net \<Rightarrow> string" where
  "net_text x = net_str_of (n_six x) (n_lo x)"

section \<open>Printing and parsing\<close>

lemma split1_none: "c \<notin> set s \<Longrightarrow> split1 c s = (s, None)"
proof -
  assume "c \<notin> set s"
  then have d: "dropWhile (\<lambda>x. x \<noteq> c) s = []" by auto
  show ?thesis unfolding split1_def d by simp
qed

lemma split1_some: "c \<notin> set a \<Longrightarrow> split1 c (a @ c # r) = (a, Some r)"
  by (induction a) (auto simp: split1_def split: list.splits)

lemma py_strip_none: "\<forall>c\<in>set s. \<not> p c \<Longrightarrow> py_strip p s = s"
  by (rule py_strip_id) (metis hd_in_set last_in_set)

lemma inet_pton6_words:
  assumes "length ws = 8" "\<forall>w\<in>set ws. w < 65536"
  shows "inet_pton6 (py_join [colon] (hex_words ws)) = Some (words_bytes ws)"
proof -
  have "py_split colon (py_join [colon] (hex_words ws)) = hex_words ws"
    using assms(1) hex_words_ok [of ws] by (intro py_split_join) (auto simp: hex_words_def)
  moreover obtain x y z rest where "hex_words ws = x # y # z # rest"
    using assms(1) by (auto simp: hex_words_def numeral_eq_Suc length_Suc_conv)
  moreover have ne: "[] \<notin> set (hex_words ws)" using hex_words_ok [of ws] by auto
  moreover note trim_ends_id [OF ne]
  ultimately show ?thesis
    using assms pton6_groups_hex [of ws True] by (simp add: inet_pton6_def)
qed

lemma inet_pton6_str:
  assumes "length b = 16"
  shows "inet_pton6 (ip6_str b) = Some b"
proof -
  define ws where "ws = words16 b"
  obtain s n where sn: "best_run 0 ws = (s, n)" by fastforce
  have ws: "length ws = 8" "\<forall>w\<in>set ws. w < 65536" "words_bytes ws = b"
    using assms words16_less by (auto simp: ws_def words16_length words_bytes_words16)
  have l: "s + n \<le> 8" using best_run_spec [OF sn] ws(1) by simp
  show ?thesis
  proof (cases "n < 2")
    case True
    with sn inet_pton6_words [OF ws(1,2)] ws(3) show ?thesis
      by (simp add: ip6_str_def ws_def [symmetric])
  next
    case False
    let ?l = "take s ws" and ?r = "drop (s + n) ws"
    have lr: "\<forall>w\<in>set ?l. w < 65536" "\<forall>w\<in>set ?r. w < 65536"
      using ws(2) by (meson in_set_dropD in_set_takeD)+
    have "ip6_str b = join6 (hex_words ?l) (hex_words ?r)"
      using False sn by (simp add: ip6_str_def ws_def [symmetric])
    moreover have "inet_pton6 (join6 (hex_words ?l) (hex_words ?r)) =
        Some (words_bytes ?l @ replicate (16 - length (words_bytes ?l) - length (words_bytes ?r)) 0 @ words_bytes ?r)"
      using hex_words_ok [of ?l] hex_words_ok [of ?r] False l ws(1)
      by (intro inet_pton6_join6) (auto simp: pton6_groups_hex [OF lr(1)] pton6_groups_hex [OF lr(2)])
    moreover have "16 - length (words_bytes ?l) - length (words_bytes ?r) = 2 * n"
      using l ws(1) by simp
    moreover have "b = words_bytes ?l @ replicate (2 * n) 0 @ words_bytes ?r"
      using arg_cong [OF elided_words [OF sn], of words_bytes] ws(3) by (simp add: words_bytes_zeros)
    ultimately show ?thesis by simp
  qed
qed

text \<open>A printed address holds digits and separators only.\<close>

lemma join6_chars:
  assumes "c \<in> set (py_join [colon] (hex_words ws)) \<or> c \<in> set (join6 (hex_words a) (hex_words b))"
  shows "c = colon \<or> (\<exists>d<16. c = digit_char d)"
proof -
  have w: "\<exists>d<16. c = digit_char d" if "w \<in> set (hex_words ws)" "c \<in> set w" for w ws
    using that numeral_str_digits [of 16] by (auto simp: hex_words_def)
  let ?j = "(if hex_words a = [] then [[]] else hex_words a) @ [[]] @
    (if hex_words b = [] then [[]] else hex_words b)"
  have "(\<Union>w\<in>set ?j. set w) = (\<Union>w\<in>set (hex_words a). set w) \<union> (\<Union>w\<in>set (hex_words b). set w)"
    by auto
  with assms have "c = colon \<or> c \<in> (\<Union>w\<in>set (hex_words ws) \<union> set (hex_words a) \<union> set (hex_words b). set w)"
    using set_py_join [of "[colon]" "hex_words ws"] set_py_join [of "[colon]" ?j]
    unfolding join6_def by auto
  with w show ?thesis by auto
qed

lemma addr_chars:
  assumes "c \<in> set (net_str_of six n)"
  shows "c = colon \<or> c = CHR ''.'' \<or> (\<exists>d<16. c = digit_char d)"
proof (cases six)
  case True
  define ws where "ws = words16 (to_be 16 n)"
  obtain s k where "best_run 0 ws = (s, k)" by fastforce
  with True assms have "c \<in> set (py_join [colon] (hex_words ws)) \<or>
      c \<in> set (join6 (hex_words (take s ws)) (hex_words (drop (s + k) ws)))"
    by (simp add: net_str_of_def ip6_str_def Let_def flip: ws_def split: if_splits)
  then show ?thesis using join6_chars by blast
next
  case False
  with assms have "c = CHR ''.'' \<or> (\<exists>v. c \<in> set (dec_str v))"
    using set_py_join [of "''.''" "map (\<lambda>c. dec_str (unat c)) (to_be 4 n)"]
    by (auto simp: net_str_of_def inet_ntoa_def)
  moreover have "\<exists>d<16. c = digit_char d" if v: "c \<in> set (dec_str v)" for v
  proof -
    obtain d where "d < 10" "c = digit_char d" using numeral_str_digits [OF _ v] by auto
    then show ?thesis by (intro exI [of _ d]) simp
  qed
  ultimately show ?thesis by blast
qed

lemma digit_char_plain:
  assumes "d < 16"
  shows "digit_char d \<noteq> CHR ''%'' \<and> digit_char d \<noteq> CHR ''/'' \<and> \<not> py_ws (digit_char d)"
proof -
  have "\<forall>d\<in>set [0..<16]. digit_char d \<noteq> CHR ''%'' \<and> digit_char d \<noteq> CHR ''/'' \<and> \<not> py_ws (digit_char d)"
    by code_simp
  with assms show ?thesis by simp
qed

lemma addr_no_sep:
  "CHR ''%'' \<notin> set (net_str_of six n)" "CHR ''/'' \<notin> set (net_str_of six n)"
  "\<forall>c\<in>set (net_str_of six n). \<not> py_ws c"
proof -
  have "\<not> py_ws colon \<and> \<not> py_ws (CHR ''.'')" by code_simp
  then have *: "c \<noteq> CHR ''%'' \<and> c \<noteq> CHR ''/'' \<and> \<not> py_ws c" if "c \<in> set (net_str_of six n)" for c
    using addr_chars [OF that] digit_char_plain by auto
  from * show "CHR ''%'' \<notin> set (net_str_of six n)" "CHR ''/'' \<notin> set (net_str_of six n)"
      "\<forall>c\<in>set (net_str_of six n). \<not> py_ws c"
    by blast+
qed

lemma addr_int_str: "n < 2 ^ net_bits six \<Longrightarrow> addr_int six (net_str_of six n) = Inr n"
proof -
  assume n: "n < 2 ^ net_bits six"
  have s: "py_strip py_ws (net_str_of six n) = net_str_of six n"
    by (rule py_strip_none) (rule addr_no_sep)
  note sp = split1_none [OF addr_no_sep(1) [of six n]]
  show ?thesis
    using n unfolding addr_int_def s sp Let_def
    by (cases six) (simp_all add: net_str_of_def net_bits_def inet_pton4_ntoa inet_pton6_str)
qed

lemma bit_length_pow: "bit_length (2 ^ k) = Suc k"
proof (induction k)
  case 0
  show ?case by (simp add: bit_length.simps)
next
  case (Suc k)
  have "bit_length (2 ^ Suc k) = Suc (bit_length (2 ^ k))"
    by (subst bit_length.simps) simp
  with Suc show ?case by simp
qed

text \<open>A base whose host bits are zero is what the prefix length gives back.\<close>

lemma and_not_disjoint:
  fixes a b :: int
  assumes "a AND b = 0"
  shows "a AND NOT b = a"
proof (rule bit_eqI)
  fix n
  have "\<not> bit (a AND b) n" using assms by simp
  then show "bit (a AND NOT b) n = bit a n" by (auto simp: bit_and_iff bit_not_iff)
qed

lemma cidr_range:
  assumes "lo AND (2 ^ k - 1) = (0 :: nat)"
  shows "nat (int lo AND NOT (int (2 ^ k - 1))) = lo" "lo OR (2 ^ k - 1) = lo + (2 ^ k - 1)"
proof -
  have z: "lo mod 2 ^ k = 0"
    using assms by (metis mask_eq_exp_minus_1 take_bit_eq_mask take_bit_eq_mod)
  then obtain q where q: "lo = q * 2 ^ k" by (metis mult.commute dvd_def mod_0_imp_dvd)
  have "int lo AND int (2 ^ k - 1) = 0"
    using arg_cong [OF assms, of int] by (simp only: of_nat_and_eq of_nat_0)
  then have "int lo AND NOT (int (2 ^ k - 1)) = int lo" by (rule and_not_disjoint)
  then show "nat (int lo AND NOT (int (2 ^ k - 1))) = lo" by simp
  show "lo OR (2 ^ k - 1) = lo + (2 ^ k - 1)"
    unfolding q by (rule or_disjoint_nat) simp
qed

text \<open>C35: The arguments that \<open>repr\<close> of a range shows make the same range again, in either
  family and whether it is shown as a prefix or as two addresses; the zone is not shown.\<close>

theorem net_repr_roundtrip:
  assumes "n_lo x \<le> n_hi x" "n_hi x < 2 ^ net_bits (n_six x)"
  shows "case net_repr_args x of (a, b) \<Rightarrow> net_init (n_six x) a b None = Inr (x\<lparr>n_scope := None\<rparr>)"
proof -
  let ?six = "n_six x"
  define span where "span = n_hi x - n_lo x + 1"
  define k where "k = bit_length span - 1"
  have span: "nat (net_iterlen x) = span" using assms(1) by (simp add: net_iterlen_def span_def)
  have lo: "addr_int ?six (net_str_of ?six (n_lo x)) = Inr (n_lo x)"
    using assms by (intro addr_int_str) simp
  have hi: "addr_int ?six (net_str_of ?six (n_hi x)) = Inr (n_hi x)"
    using assms by (intro addr_int_str) simp
  show ?thesis
  proof (cases "span = push_bit k 1 \<and> n_lo x AND (span - 1) = 0")
    case False
    then have "net_repr_args x = (net_str_of ?six (n_lo x), Some (net_str_of ?six (n_hi x)))"
      by (simp add: net_repr_args_def span k_def Let_def)
    with lo hi assms(1) show ?thesis by (simp add: net_init_def)
  next
    case True
    then have p: "span = 2 ^ k" by (simp add: push_bit_eq_mult)
    then have "2 ^ k \<le> (2 :: nat) ^ net_bits ?six" using assms unfolding span_def by linarith
    then have k: "k \<le> net_bits ?six" by simp
    let ?p = "dec_str (net_bits ?six - k)"
    have a: "net_repr_args x = (net_str_of ?six (n_lo x) @ CHR ''/'' # ?p, None)"
      using True by (simp add: net_repr_args_def span k_def Let_def)
    have "CHR ''%'' \<notin> set ?p"
      by (rule digit_char_not_in_numeral) (use digit_char_plain in auto)
    then have s: "split1 (CHR ''%'') (net_str_of ?six (n_lo x) @ CHR ''/'' # ?p) =
        (net_str_of ?six (n_lo x) @ CHR ''/'' # ?p, None)"
      by (intro split1_none) (simp add: addr_no_sep)
    have "nat (int (net_bits ?six) - int (net_bits ?six - k)) = k" using k by simp
    moreover have "n_lo x + (2 ^ k - 1) = n_hi x" using p assms(1) unfolding span_def by simp
    moreover have "n_lo x AND (2 ^ k - 1) = 0" using True p by simp
    note cidr_range [OF this]
    ultimately have "parse_cidr ?six (net_str_of ?six (n_lo x) @ CHR ''/'' # ?p) = Inr (n_lo x, n_hi x)"
      by (simp add: parse_cidr_def split1_some addr_no_sep lo push_bit_eq_mult)
    with a s show ?thesis by (simp add: net_init_def)
  qed
qed

lemma net_repr_roundtrip_witness:
  "net_init False ''10.0.0.0/29'' None None = Inr \<lparr>n_six = False, n_lo = 167772160, n_hi = 167772167, n_scope = None\<rparr>"
proof -
  let ?x = "\<lparr>n_six = False, n_lo = 167772160, n_hi = 167772167, n_scope = Some ''eth0''\<rparr>"
  have "net_repr_args ?x = (''10.0.0.0/29'', None)" by code_simp
  with net_repr_roundtrip [of ?x] show ?thesis by (simp add: net_bits_def)
qed

section \<open>What a range made by the constructor holds\<close>

definition net_ok :: "net \<Rightarrow> bool" where
  "net_ok x \<longleftrightarrow> n_lo x \<le> n_hi x \<and> n_hi x < 2 ^ net_bits (n_six x)"

lemma addr_int_less: "addr_int six s = Inr n \<Longrightarrow> n < 2 ^ net_bits six"
proof -
  assume a: "addr_int six s = Inr n"
  then obtain b where b: "n = from_be b" "length b = (if six then 16 else 4)"
    by (auto simp: addr_int_def Let_def inet_pton4_def split: option.splits prod.splits if_splits
        dest!: inet_pton6_length)
  with from_be_less [of b] show ?thesis by (auto simp: net_bits_def split: if_splits)
qed

lemma low_le:
  fixes b h :: nat
  shows "nat (int b AND NOT (int h)) \<le> b"
proof -
  have "int b AND NOT (int h) \<le> int b" by (rule AND_upper1) simp
  then show ?thesis by (simp only: nat_le_iff)
qed

lemma parse_cidr_range:
  assumes "parse_cidr six text = Inr (lo, hi)"
  shows "lo \<le> hi \<and> hi < 2 ^ net_bits six"
proof -
  obtain addr plen where s: "split1 (CHR ''/'') text = (addr, plen)" by fastforce
  from assms obtain base where b: "addr_int six addr = Inr base"
    by (auto simp: parse_cidr_def s rbind_Inr_iff)
  note lt = addr_int_less [OF b]
  show ?thesis
  proof (cases plen)
    case None
    with assms lt show ?thesis by (auto simp: parse_cidr_def s b)
  next
    case (Some p)
    with assms obtain bits where bits: "0 \<le> bits" "bits \<le> int (net_bits six)"
      and lo: "lo = nat (int base AND NOT (int (push_bit (nat (int (net_bits six) - bits)) 1 - 1)))"
      and hi: "hi = lo OR (push_bit (nat (int (net_bits six) - bits)) 1 - 1)"
      by (auto simp: parse_cidr_def s b Let_def split: option.splits if_splits)
    define h where "h = push_bit (nat (int (net_bits six) - bits)) (1 :: nat) - 1"
    define m where "m = nat (int (net_bits six) - bits)"
    have "(2 :: nat) ^ m \<le> 2 ^ net_bits six"
      using bits(1) by (intro power_increasing) (auto simp: m_def)
    moreover have "h = 2 ^ m - 1" "0 < (2 :: nat) ^ m" by (simp_all add: h_def m_def push_bit_eq_mult)
    ultimately have h: "h < 2 ^ net_bits six" by linarith
    have l: "lo < 2 ^ net_bits six" using low_le [of base h] lt lo unfolding h_def by simp
    have "take_bit (net_bits six) hi = hi"
      using l h hi unfolding h_def [symmetric] by (simp add: take_bit_or take_bit_nat_eq_self_iff [THEN iffD2])
    then have "hi < 2 ^ net_bits six" by (metis take_bit_nat_less_exp)
    moreover have "int lo \<le> int lo OR int h" by (rule or_greater_eq) simp
    then have "lo \<le> lo OR h" by (simp flip: of_nat_or_eq)
    ultimately show ?thesis using hi unfolding h_def by simp
  qed
qed

text \<open>C36: Whatever text the constructor accepts, one address, a prefix of any length or two
  addresses in either order, the range it makes is not empty and lies within the
  addresses of its family.\<close>

theorem net_init_ok:
  assumes "net_init six n stop scope = Inr x"
  shows "net_ok x \<and> n_six x = six"
proof (cases stop)
  case None
  with assms obtain t sc lo hi where "parse_cidr six t = Inr (lo, hi)"
      "x = \<lparr>n_six = six, n_lo = lo, n_hi = hi, n_scope = sc\<rparr>"
    by (auto simp: net_init_def Let_def rbind_Inr_iff split: prod.splits)
  then show ?thesis using parse_cidr_range by (simp add: net_ok_def)
next
  case (Some s)
  with assms obtain lo hi where "addr_int six n = Inr lo" "addr_int six s = Inr hi"
    and x: "x = (if hi < lo then \<lparr>n_six = six, n_lo = hi, n_hi = lo, n_scope = scope\<rparr>
               else \<lparr>n_six = six, n_lo = lo, n_hi = hi, n_scope = scope\<rparr>)"
    unfolding net_init_def by (simp add: rbind_Inr_iff) blast
  then have "lo < 2 ^ net_bits six" "hi < 2 ^ net_bits six" by (blast intro: addr_int_less)+
  with x show ?thesis by (simp add: net_ok_def)
qed

lemma net_init_ok_witness: "net_ok \<lparr>n_six = True, n_lo = 1, n_hi = 0x1FFFF, n_scope = None\<rparr>"
proof -
  have "net_init True ''::1:ffff'' (Some ''::1'') None =
      Inr \<lparr>n_six = True, n_lo = 1, n_hi = 0x1FFFF, n_scope = None\<rparr>" by code_simp
  then show ?thesis using net_init_ok by blast
qed

lemma net_str_of_inj:
  "a < 2 ^ net_bits six \<Longrightarrow> b < 2 ^ net_bits six \<Longrightarrow> net_str_of six a = net_str_of six b \<Longrightarrow> a = b"
  by (metis addr_int_str sum.inject(2))

lemma net_contains_addr:
  assumes "k < 2 ^ net_bits (n_six x)"
  shows "net_contains x (Inr (net_str_of (n_six x) k)) \<longleftrightarrow> n_lo x \<le> k \<and> k \<le> n_hi x"
proof -
  have "net_init (n_six x) (net_str_of (n_six x) k) None None =
      Inr \<lparr>n_six = n_six x, n_lo = k, n_hi = k, n_scope = None\<rparr>"
    using addr_int_str [OF assms]
    by (simp add: net_init_def parse_cidr_def split1_none addr_no_sep)
  then show ?thesis by (simp add: net_contains_def as_net_def)
qed

lemma net_seq_facts:
  assumes "net_ok x"
  shows "int (length (net_iter x)) = net_iterlen x" "distinct (net_iter x)"
    "- net_iterlen x \<le> i \<Longrightarrow> i < net_iterlen x \<Longrightarrow>
       net_getitem x i = Inr (net_iter x ! nat (i mod net_iterlen x))"
    "k < 2 ^ net_bits (n_six x) \<Longrightarrow>
       net_contains x (Inr (net_str_of (n_six x) k)) \<longleftrightarrow> net_str_of (n_six x) k \<in> set (net_iter x)"
proof -
  have lh: "n_lo x \<le> n_hi x" "n_hi x < 2 ^ net_bits (n_six x)" using assms by (simp_all add: net_ok_def)
  then show l: "int (length (net_iter x)) = net_iterlen x" by (simp add: net_iter_def net_iterlen_def)
  show "distinct (net_iter x)"
    unfolding net_iter_def distinct_map using lh by (auto intro!: inj_onI dest!: net_str_of_inj [rotated 2])
  show "net_getitem x i = Inr (net_iter x ! nat (i mod net_iterlen x))"
    if i: "- net_iterlen x \<le> i" "i < net_iterlen x"
  proof -
    have n: "0 < net_iterlen x" using lh by (simp add: net_iterlen_def)
    then have "0 \<le> i mod net_iterlen x" "i mod net_iterlen x < net_iterlen x" by simp_all
    then have "nat (i mod net_iterlen x) < length (net_iter x)" using l by linarith
    with i show ?thesis
      by (simp add: net_getitem_def Let_def net_iter_def del: upt_Suc)
  qed
  show "net_contains x (Inr (net_str_of (n_six x) k)) \<longleftrightarrow> net_str_of (n_six x) k \<in> set (net_iter x)"
    if k: "k < 2 ^ net_bits (n_six x)"
  proof -
    have "net_str_of (n_six x) k \<in> set (net_iter x) \<longleftrightarrow> n_lo x \<le> k \<and> k \<le> n_hi x"
    proof
      assume "net_str_of (n_six x) k \<in> set (net_iter x)"
      then obtain m where m: "n_lo x \<le> m" "m \<le> n_hi x" "net_str_of (n_six x) k = net_str_of (n_six x) m"
        by (auto simp: net_iter_def simp del: upt_Suc)
      with net_str_of_inj [OF k _ m(3)] lh show "n_lo x \<le> k \<and> k \<le> n_hi x" by simp
    qed (auto simp: net_iter_def simp del: upt_Suc)
    with net_contains_addr [OF k] show ?thesis by simp
  qed
qed

text \<open>A range is the sequence of its addresses: as many as its length says, all
  different, each found by the index from either end, and the addresses the range
  contains are exactly these.\<close>

lemma net_sequence:
  assumes "net_ok x"
  shows "int (length (net_iter x)) = net_iterlen x \<and> distinct (net_iter x) \<and>
    (\<forall>i. - net_iterlen x \<le> i \<and> i < net_iterlen x \<longrightarrow>
       net_getitem x i = Inr (net_iter x ! nat (i mod net_iterlen x))) \<and>
    (\<forall>k<2 ^ net_bits (n_six x).
       net_contains x (Inr (net_str_of (n_six x) k)) \<longleftrightarrow> net_str_of (n_six x) k \<in> set (net_iter x))"
  using net_seq_facts [OF assms] by blast

lemma net_sequence_witness:
  "net_getitem \<lparr>n_six = False, n_lo = 255, n_hi = 257, n_scope = None\<rparr> (- 1) = Inr ''0.0.1.1''"
proof -
  let ?x = "\<lparr>n_six = False, n_lo = 255, n_hi = 257, n_scope = None\<rparr>"
  have "net_ok ?x" "- net_iterlen ?x \<le> - 1" "- 1 < net_iterlen ?x" by code_simp+
  then have "net_getitem ?x (- 1) = Inr (net_iter ?x ! nat (- 1 mod net_iterlen ?x))"
    using net_sequence [of ?x] by blast
  moreover have "net_iter ?x ! nat (- 1 mod net_iterlen ?x) = ''0.0.1.1''" by code_simp
  ultimately show ?thesis by simp
qed

end
