(* ===== verification/Str_Buffer.thy ===== *)
theory Str_Buffer
  imports Prelude
begin

text \<open>
  The buffer that puts stream fragments in order (\<open>StringBuffer\<close> of \<open>_pysupport.py\<close>). The
  \<open>bytearray\<close> and the two counters are kept apart as in the class; a fragment that is
  dropped leaves the buffer, a failed assertion or slice assignment is an error.
\<close>

section \<open>The class\<close>

record sbuf =
  sb_content :: bytes
  sb_len :: int
  sb_noff :: int
  sb_gap :: int

definition sb_init :: "int \<Rightarrow> sbuf" where
  "sb_init gap = \<lparr>sb_content = [], sb_len = 0, sb_noff = 0, sb_gap = gap\<rparr>"

text \<open>\<open>memoryview(content)[i:j] = data\<close>: the slice is clamped and must be as long as the data.\<close>

definition put_slice :: "bytes \<Rightarrow> nat \<Rightarrow> bytes \<Rightarrow> bytes res" where
  "put_slice c i xs =
     (if length (take (length xs) (drop i c)) = length xs
      then Inr (take i c @ xs @ drop (i + length xs) c) else Inl Value_Error)"

text \<open>The second half of \<open>append\<close>, for a fragment that starts in or after the buffer.\<close>

definition sb_put :: "sbuf \<Rightarrow> bytes \<Rightarrow> int \<Rightarrow> sbuf res" where
  "sb_put b xs i =
     (let n = int (length xs) in
      if i + n > sb_len b then
        (if i - sb_len b > sb_gap b then Inr b
         else (let c = sb_content b @ replicate (nat (i - sb_len b + n)) 0 in
               if int (length c) \<noteq> i + n then Inl Assertion_Error
               else rbind (put_slice c (nat i) xs) (\<lambda>c.
                      Inr (b\<lparr>sb_content := c, sb_len := i + n\<rparr>))))
      else rbind (put_slice (sb_content b) (nat i) xs) (\<lambda>c. Inr (b\<lparr>sb_content := c\<rparr>)))"

definition sb_append :: "sbuf \<Rightarrow> bytes \<Rightarrow> int option \<Rightarrow> sbuf res" where
  "sb_append b xs sq =
     (if xs = [] then Inr b
      else (let i = (case sq of None \<Rightarrow> sb_len b | Some s \<Rightarrow> s) - 1 - sb_noff b in
        if i < 0 then
          (if - i - int (length xs) > sb_gap b then Inr b
           else sb_put (b\<lparr>sb_content := replicate (nat (- i)) 0 @ sb_content b,
                         sb_len := sb_len b - i, sb_noff := sb_noff b + i\<rparr>) xs 0)
        else sb_put b xs i))"

text \<open>\<open>content[i:]\<close> counts a negative \<open>i\<close> from the end.\<close>

definition sb_shiftleft :: "sbuf \<Rightarrow> int \<Rightarrow> sbuf" where
  "sb_shiftleft b i =
     b\<lparr>sb_content := drop (if i < 0 then nat (int (length (sb_content b)) + i) else nat i) (sb_content b),
       sb_len := sb_len b - i\<rparr>"

definition sb_bool :: "sbuf \<Rightarrow> bool" where
  "sb_bool b \<longleftrightarrow> sb_len b \<noteq> 0"

definition sb_full :: "sbuf \<Rightarrow> bool" where
  "sb_full b = sb_bool b"

definition sb_clear :: "sbuf \<Rightarrow> sbuf" where
  "sb_clear b = sb_init 1500"

text \<open>\<open>len(buf)\<close> raises on a negative length.\<close>

definition sb_length :: "sbuf \<Rightarrow> int res" where
  "sb_length b = (if sb_len b < 0 then Inl Value_Error else Inr (sb_len b))"

definition sb_bytes :: "sbuf \<Rightarrow> bytes" where
  "sb_bytes b = sb_content b"

section \<open>The stream it holds\<close>

text \<open>The octet at a stream position, counted from one as sequence numbers are.\<close>

definition sb_ok :: "sbuf \<Rightarrow> bool" where
  "sb_ok b \<longleftrightarrow> sb_len b = int (length (sb_content b)) \<and> sb_noff b \<le> 0 \<and> 0 \<le> sb_len b + sb_noff b"

definition sb_at :: "sbuf \<Rightarrow> int \<Rightarrow> byte option" where
  "sb_at b p = (let i = p - 1 - sb_noff b in
     if 0 \<le> i \<and> i < sb_len b then Some (sb_content b ! nat i) else None)"

lemma put_slice_ok:
  assumes "0 \<le> i" "nat i + length xs \<le> length c"
  shows "\<exists>d. put_slice c (nat i) xs = Inr d \<and> length d = length c \<and>
    (\<forall>k<length c. d ! k = (if nat i \<le> k \<and> k < nat i + length xs then xs ! (k - nat i) else c ! k))"
proof -
  have "length (take (length xs) (drop (nat i) c)) = length xs" using assms(2) by simp
  then have "put_slice c (nat i) xs = Inr (take (nat i) c @ xs @ drop (nat i + length xs) c)"
    unfolding put_slice_def by (rule if_P)
  then show ?thesis using assms(2) by (auto simp: nth_append)
qed

lemma sb_put_ok:
  assumes "sb_ok b" "0 \<le> i" "i - sb_len b \<le> sb_gap b"
  shows "\<exists>d. sb_put b xs i = Inr d \<and> sb_ok d \<and> sb_noff d = sb_noff b \<and> sb_gap d = sb_gap b \<and>
    sb_len d = max (sb_len b) (i + int (length xs)) \<and>
    (\<forall>k. 0 \<le> k \<and> k < sb_len d \<longrightarrow> sb_content d ! nat k =
       (if i \<le> k \<and> k < i + int (length xs) then xs ! nat (k - i)
        else if k < sb_len b then sb_content b ! nat k else 0))"
proof (cases "i + int (length xs) > sb_len b")
  case True
  let ?c = "sb_content b @ replicate (nat (i - sb_len b + int (length xs))) 0"
  have l: "int (length ?c) = i + int (length xs)" using assms True by (simp add: sb_ok_def)
  then have lc: "nat i + length xs \<le> length ?c" using assms(2) by linarith
  obtain d where d: "put_slice ?c (nat i) xs = Inr d" "length d = length ?c"
    "\<forall>k<length ?c. d ! k = (if nat i \<le> k \<and> k < nat i + length xs then xs ! (k - nat i) else ?c ! k)"
    using put_slice_ok [OF assms(2), of xs ?c] lc by blast
  have "sb_put b xs i = Inr (b\<lparr>sb_content := d, sb_len := i + int (length xs)\<rparr>)"
    using True assms(3) l d(1) by (simp add: sb_put_def Let_def)
  moreover have "sb_ok (b\<lparr>sb_content := d, sb_len := i + int (length xs)\<rparr>)"
    using assms l d(2) True by (simp add: sb_ok_def)
  moreover have "d ! nat k = (if i \<le> k \<and> k < i + int (length xs) then xs ! nat (k - i)
        else if k < sb_len b then sb_content b ! nat k else 0)"
    if k: "0 \<le> k" "k < i + int (length xs)" for k
  proof -
    have "nat k < length ?c" using k l by linarith
    moreover have "nat k - nat i = nat (k - i)" using k assms(2) by linarith
    moreover have "nat i \<le> nat k \<longleftrightarrow> i \<le> k" "nat k < nat i + length xs" if "i \<le> k"
      using k assms(2) that by linarith+
    ultimately show ?thesis
      using d(3) k assms(1,2) by (auto simp: nth_append sb_ok_def)
  qed
  ultimately show ?thesis using True by auto
next
  case False
  then obtain d where d: "put_slice (sb_content b) (nat i) xs = Inr d" "length d = length (sb_content b)"
    "\<forall>k<length (sb_content b). d ! k =
       (if nat i \<le> k \<and> k < nat i + length xs then xs ! (k - nat i) else sb_content b ! k)"
    using put_slice_ok [OF assms(2), of xs "sb_content b"] False assms(1,2) by (fastforce simp: sb_ok_def)
  have "sb_put b xs i = Inr (b\<lparr>sb_content := d\<rparr>)"
    using False d(1) by (simp add: sb_put_def Let_def)
  moreover have "sb_ok (b\<lparr>sb_content := d\<rparr>)" using assms(1) d(2) by (simp add: sb_ok_def)
  moreover have "d ! nat k = (if i \<le> k \<and> k < i + int (length xs) then xs ! nat (k - i) else sb_content b ! nat k)"
    if k: "0 \<le> k" "k < sb_len b" for k
  proof -
    have "nat k < length (sb_content b)" using k assms(1) by (simp add: sb_ok_def)
    moreover have "nat k - nat i = nat (k - i)" using k assms(2) by linarith
    ultimately show ?thesis using d(3) k assms(2) by auto
  qed
  ultimately show ?thesis using False by auto
qed

text \<open>A fragment within the gap is written at its place; the buffer grows to hold it and keeps
  what it held, and octets nobody sent are zero.\<close>

definition sb_written :: "sbuf \<Rightarrow> int \<Rightarrow> bytes \<Rightarrow> int \<Rightarrow> byte option" where
  "sb_written b sq xs p =
     (if sq \<le> p \<and> p < sq + int (length xs) then Some (xs ! nat (p - sq))
      else if sb_at b p \<noteq> None then sb_at b p
      else if min sq (1 + sb_noff b) \<le> p \<and> p < max (sq + int (length xs)) (1 + sb_noff b + sb_len b) then Some 0
      else None)"

lemma sb_append_ok:
  assumes "sb_ok b" "xs \<noteq> []" "1 - sb_gap b \<le> sq + int (length xs)" "sq - 1 \<le> sb_gap b"
  shows "\<exists>d. sb_append b xs (Some sq) = Inr d \<and> sb_ok d \<and> sb_gap d = sb_gap b \<and> (\<forall>p. sb_at d p = sb_written b sq xs p)"
proof (cases "sq - 1 - sb_noff b < 0")
  case False
  have g: "sq - 1 - sb_noff b - sb_len b \<le> sb_gap b" using assms(1,4) by (simp add: sb_ok_def)
  from sb_put_ok [OF assms(1) _ g, of xs] False obtain d where
    d: "sb_put b xs (sq - 1 - sb_noff b) = Inr d" "sb_ok d" "sb_noff d = sb_noff b" "sb_gap d = sb_gap b"
      "sb_len d = max (sb_len b) (sq - 1 - sb_noff b + int (length xs))"
      "\<forall>k. 0 \<le> k \<and> k < sb_len d \<longrightarrow> sb_content d ! nat k =
       (if sq - 1 - sb_noff b \<le> k \<and> k < sq - 1 - sb_noff b + int (length xs) then xs ! nat (k - (sq - 1 - sb_noff b))
        else if k < sb_len b then sb_content b ! nat k else 0)" by auto
  have "sb_append b xs (Some sq) = Inr d" using assms(2) False d(1) by (simp add: sb_append_def Let_def)
  moreover have "sb_at d p = sb_written b sq xs p" for p
    using d(6) [rule_format, of "p - 1 - sb_noff b"] d(3,5) False assms(1)
    by (auto simp: sb_at_def sb_written_def Let_def sb_ok_def)
  ultimately show ?thesis using d(2,4) by blast
next
  case True
  define i where "i = sq - 1 - sb_noff b"
  define c where "c = b\<lparr>sb_content := replicate (nat (- i)) 0 @ sb_content b,
    sb_len := sb_len b - i, sb_noff := sb_noff b + i\<rparr>"
  have c: "sb_ok c" "sb_noff c = sq - 1" "sb_gap c = sb_gap b" "sb_len c = sb_len b - i"
    using assms(1) True by (auto simp: sb_ok_def c_def i_def)
  have g: "0 - sb_len c \<le> sb_gap c" using assms(1,4) c by (simp add: sb_ok_def i_def)
  from sb_put_ok [OF c(1) _ g, of xs] obtain d where
    d: "sb_put c xs 0 = Inr d" "sb_ok d" "sb_noff d = sb_noff c" "sb_gap d = sb_gap c"
      "sb_len d = max (sb_len c) (int (length xs))"
      "\<forall>k. 0 \<le> k \<and> k < sb_len d \<longrightarrow> sb_content d ! nat k =
       (if 0 \<le> k \<and> k < int (length xs) then xs ! nat k else if k < sb_len c then sb_content c ! nat k else 0)" by auto
  have "sb_append b xs (Some sq) = Inr d"
    using assms True d(1) by (simp add: sb_append_def Let_def c_def i_def sb_ok_def)
  moreover have "sb_at d p = sb_written b sq xs p" for p
  proof -
    have e: "sb_content c ! nat (p - sq) = (if p - sq < - i then 0 else sb_content b ! nat (p - sq + i))"
      if "0 \<le> p - sq" "p - sq < sb_len c"
    proof -
      have "nat (p - sq) - nat (- i) = nat (p - sq + i)" if "\<not> p - sq < - i"
        using that \<open>0 \<le> p - sq\<close> True unfolding i_def by linarith
      moreover have "nat (p - sq) < nat (- i) \<longleftrightarrow> p - sq < - i" using that True by (simp add: i_def)
      ultimately show ?thesis by (auto simp: c_def nth_append)
    qed
    have [simp]: "nat (p + (- 1 - sb_noff b)) = nat (p - 1 - sb_noff b)" by (rule arg_cong [of _ _ nat]) simp
    show ?thesis
      using d(6) [rule_format, of "p - sq"] e d(3,5) c True assms(1)
      by (auto simp: sb_at_def sb_written_def Let_def sb_ok_def i_def)
  qed
  ultimately show ?thesis using d(2,4) c(3) by auto
qed

section \<open>Streams put together\<close>

fun sb_appends :: "sbuf \<Rightarrow> (int \<times> bytes) list \<Rightarrow> sbuf res" where
  "sb_appends b [] = Inr b"
| "sb_appends b ((sq, xs) # fs) = rbind (sb_append b xs (Some sq)) (\<lambda>b. sb_appends b fs)"

definition covers :: "(int \<times> bytes) list \<Rightarrow> int \<Rightarrow> bool" where
  "covers fs p \<longleftrightarrow> (\<exists>(sq, xs)\<in>set fs. sq \<le> p \<and> p < sq + int (length xs))"

definition cut_of :: "(int \<Rightarrow> byte) \<Rightarrow> int \<Rightarrow> int \<times> bytes \<Rightarrow> bool" where
  "cut_of m gap = (\<lambda>(sq, xs). xs \<noteq> [] \<and> 1 - gap \<le> sq + int (length xs) \<and> sq - 1 \<le> gap \<and>
     (\<forall>k<length xs. xs ! k = m (sq + int k)))"

lemma sb_appends_inv:
  assumes "sb_ok b" "\<forall>f\<in>set fs. cut_of m (sb_gap b) f"
    "\<forall>p. if C p then sb_at b p = Some (m p) else sb_at b p \<in> {None, Some 0}"
  shows "\<exists>d. sb_appends b fs = Inr d \<and> sb_ok d \<and>
    (\<forall>p. if C p \<or> covers fs p then sb_at d p = Some (m p) else sb_at d p \<in> {None, Some 0})"
  using assms
proof (induction fs arbitrary: b C)
  case Nil
  then show ?case by (simp add: covers_def)
next
  case (Cons f fs)
  obtain sq xs where f: "f = (sq, xs)" by fastforce
  with Cons.prems(2) have c: "xs \<noteq> []" "1 - sb_gap b \<le> sq + int (length xs)" "sq - 1 \<le> sb_gap b"
    and m: "\<forall>k<length xs. xs ! k = m (sq + int k)" by (simp_all add: cut_of_def)
  from sb_append_ok [OF Cons.prems(1) c] obtain d where
    d: "sb_append b xs (Some sq) = Inr d" "sb_ok d" "sb_gap d = sb_gap b" "\<forall>p. sb_at d p = sb_written b sq xs p" by blast
  let ?C = "\<lambda>p. C p \<or> (sq \<le> p \<and> p < sq + int (length xs))"
  have "if ?C p then sb_at d p = Some (m p) else sb_at d p \<in> {None, Some 0}" for p
    using Cons.prems(3) [rule_format, of p] d(4) m
    by (auto simp: sb_written_def split: if_splits)
  with Cons.IH [of d ?C] Cons.prems(2) d(2,3) obtain e where
    e: "sb_appends d fs = Inr e" "sb_ok e"
      "\<forall>p. if ?C p \<or> covers fs p then sb_at e p = Some (m p) else sb_at e p \<in> {None, Some 0}" by auto
  moreover have "?C p \<or> covers fs p \<longleftrightarrow> C p \<or> covers (f # fs) p" for p
    by (auto simp: covers_def f)
  ultimately show ?case using d(1) by (simp add: f)
qed

text \<open>C12: Fragments of one stream that all lie within the allowed gap are put together whatever
  their order, their overlaps and repetitions: nothing is dropped and no assertion fails, every
  octet some fragment carried stands at its position, and the others are zero or absent.\<close>

theorem stringbuffer_reassembles:
  assumes "\<forall>f\<in>set fs. cut_of m gap f"
  shows "\<exists>b. sb_appends (sb_init gap) fs = Inr b \<and> sb_len b = int (length (sb_content b)) \<and>
    (\<forall>p. if covers fs p then sb_at b p = Some (m p) else sb_at b p \<in> {None, Some 0})"
proof -
  have "sb_ok (sb_init gap)" "sb_gap (sb_init gap) = gap" "sb_at (sb_init gap) p = None" for p
    by (simp_all add: sb_init_def sb_ok_def sb_at_def)
  with sb_appends_inv [of "sb_init gap" fs m "\<lambda>_. False"] assms obtain d where
    "sb_appends (sb_init gap) fs = Inr d" "sb_ok d"
    "\<forall>p. if covers fs p then sb_at d p = Some (m p) else sb_at d p \<in> {None, Some 0}" by auto
  then show ?thesis unfolding sb_ok_def by blast
qed

lemma stringbuffer_reassembles_witness:
  "\<exists>b. sb_appends (sb_init 1500) [(4, [14, 15]), (1, [11, 12]), (2, [12, 13, 14])] = Inr b \<and>
     sb_at b 5 = Some 15 \<and> sb_at b 3 = Some 13"
proof -
  let ?fs = "[(4, [14, 15]), (1, [11, 12]), (2, [12, 13, 14 :: byte])]" and ?m = "\<lambda>p. of_int (10 + p) :: byte"
  have "\<forall>f\<in>set ?fs. cut_of ?m 1500 f" by (auto simp: cut_of_def less_Suc_eq numeral_eq_Suc)
  from stringbuffer_reassembles [OF this] obtain b where b: "sb_appends (sb_init 1500) ?fs = Inr b"
      "\<forall>p. if covers ?fs p then sb_at b p = Some (?m p) else sb_at b p \<in> {None, Some 0}" by blast
  have "covers ?fs 5" "covers ?fs 3" by (auto simp: covers_def)
  with b show ?thesis by (metis (mono_tags, lifting) of_int_numeral of_int_add numeral_plus_numeral add_num_simps(1-9))
qed

text \<open>Without a sequence number the data does not go to the end of a buffer that was filled
  from position one: it starts on the last octet and overwrites it.\<close>

lemma stringbuffer_append_overwrites:
  assumes "sb_ok b" "sb_noff b = 0" "sb_content b \<noteq> []" "0 \<le> sb_gap b" "xs \<noteq> []"
  shows "\<exists>d. sb_append b xs None = Inr d \<and> sb_content d = butlast (sb_content b) @ xs"
proof -
  define n where "n = length (sb_content b)"
  have n: "sb_len b = int n" "0 < n" using assms(1,3) by (simp_all add: sb_ok_def n_def)
  let ?c = "sb_content b @ replicate (nat (int n - 1 - int n + int (length xs))) 0"
  have l: "length ?c = n - 1 + length xs" using n(2) assms(5) by (cases xs) (simp_all add: n_def)
  have i: "nat (int n - 1) = n - 1" by simp
  have "take (n - 1) ?c = butlast (sb_content b)"
    using n(2) by (simp add: n_def butlast_conv_take)
  with l assms n show ?thesis
    by (auto simp: sb_append_def sb_put_def put_slice_def Let_def i n_def [symmetric])
qed

lemma stringbuffer_append_overwrites_witness:
  "sb_appends (sb_init 1500) [(1, [1, 2, 3])] = Inr \<lparr>sb_content = [1, 2, 3], sb_len = 3, sb_noff = 0, sb_gap = 1500\<rparr> \<and>
   (\<exists>d. sb_append \<lparr>sb_content = [1, 2, 3], sb_len = 3, sb_noff = 0, sb_gap = 1500\<rparr> [7, 8] None = Inr d \<and>
      sb_content d = [1, 2, 7, 8])"
proof
  show "sb_appends (sb_init 1500) [(1, [1, 2, 3])] = Inr \<lparr>sb_content = [1, 2, 3], sb_len = 3, sb_noff = 0, sb_gap = 1500\<rparr>"
    by code_simp
  show "\<exists>d. sb_append \<lparr>sb_content = [1, 2, 3], sb_len = 3, sb_noff = 0, sb_gap = 1500\<rparr> [7, 8] None = Inr d \<and>
      sb_content d = [1, 2, 7, 8]"
    using stringbuffer_append_overwrites [of "\<lparr>sb_content = [1, 2, 3], sb_len = 3, sb_noff = 0, sb_gap = 1500\<rparr>" "[7, 8]"]
    by (simp add: sb_ok_def)
qed

end
