(* ===== verification/Ntlm_Payload.thy ===== *)
theory Ntlm_Payload
  imports Str_Buffer "HOL-Library.Multiset"
begin

text \<open>
  The payload of NTLM messages (\<open>_NTLMPayloadField\<close>, \<open>_NTLMPayloadPacket\<close> and
  \<open>_NTLM_post_build\<close> of \<open>layers/ntlm.py\<close>): values placed by offset and length. The fields
  inside the payload are given to the class; a field is the functions the class calls on it.
  What the packet answers for the offset and length fields of a name is an argument.
\<close>

section \<open>The field\<close>

record 'v pfield =
  pf_name :: string
  pf_addfield :: "bytes \<Rightarrow> 'v \<Rightarrow> bytes"
  pf_getfield :: "bytes \<Rightarrow> 'v"
  pf_len :: "'v \<Rightarrow> nat"
  pf_count :: "'v \<Rightarrow> nat"

record 'v payload =
  py_offset :: int
  py_fields :: "'v pfield list"
  py_pad :: int
  py_order :: "string list"

definition fields_map :: "'v payload \<Rightarrow> string \<Rightarrow> 'v pfield option" where
  "fields_map P = map_of (map (\<lambda>f. (pf_name f, f)) (rev (py_fields P)))"

fun list_index :: "'a list \<Rightarrow> 'a \<Rightarrow> nat option" where
  "list_index [] x = None"
| "list_index (y # ys) x = (if y = x then Some 0 else map_option Suc (list_index ys x))"

definition order_values :: "'v payload \<Rightarrow> (string \<times> 'v) list \<Rightarrow> (string \<times> 'v) list res" where
  "order_values P vals =
     (if py_order P = [] then Inr vals
      else if \<exists>(n, v)\<in>set vals. list_index (py_order P) n = None then Inl Value_Error
      else Inr (sort_key (\<lambda>(n, v). the (list_index (py_order P) n)) vals))"

text \<open>One turn of the loop of \<open>addfield\<close>: \<open>off\<close> is the value of the offset field, if it has one.\<close>

definition add_value :: "'v payload \<Rightarrow> int \<Rightarrow> (string \<Rightarrow> int option) \<Rightarrow> sbuf \<Rightarrow> string \<times> 'v \<Rightarrow> sbuf res" where
  "add_value P r_off off b nv =
     (case nv of (name, v) \<Rightarrow>
      case fields_map P name of None \<Rightarrow> Inr b
      | Some f \<Rightarrow>
        rbind (sb_length b) (\<lambda>n.
        rbind (case off name of
            None \<Rightarrow>
              (if py_pad P \<noteq> 0 then
                 (let pad = (- n) mod py_pad P in
                  rbind (sb_append b (replicate (nat pad) 0) (Some n)) (\<lambda>b. Inr (b, n + pad)))
               else Inr (b, n))
          | Some o' \<Rightarrow>
              (let offset = o' - r_off; pad = offset + 1 - n in
               if pad > 0 then rbind (sb_append b (replicate (nat pad) 0) (Some n)) (\<lambda>b. Inr (b, offset))
               else Inr (b, offset)))
          (\<lambda>(b, offset). rbind (sb_length b) (\<lambda>n.
             sb_append b (drop (nat n) (pf_addfield f (sb_bytes b) v)) (Some (offset + 1))))))"

fun add_values :: "'v payload \<Rightarrow> int \<Rightarrow> (string \<Rightarrow> int option) \<Rightarrow> sbuf \<Rightarrow> (string \<times> 'v) list \<Rightarrow> sbuf res" where
  "add_values P r_off off b [] = Inr b"
| "add_values P r_off off b (nv # vals) =
     rbind (add_value P r_off off b nv) (\<lambda>b. add_values P r_off off b vals)"

definition payload_addfield :: "'v payload \<Rightarrow> (string \<Rightarrow> int option) \<Rightarrow> bytes \<Rightarrow> (string \<times> 'v) list \<Rightarrow> bytes res" where
  "payload_addfield P off s vals =
     rbind (sb_append (sb_init 1500) s (Some 1)) (\<lambda>b.
     rbind (order_values P vals) (\<lambda>vals.
     rbind (add_values P (py_offset P - int (length s)) off b vals) (\<lambda>b. Inr (sb_bytes b))))"

text \<open>Reading: \<open>off\<close> and \<open>len\<close> are the offset and length fields of the packet, the latter
  missing where the packet has no such field. A field that starts before the payload is
  passed over; what no field reaches is left.\<close>

definition value_length :: "int list \<Rightarrow> int \<Rightarrow> nat option \<Rightarrow> int \<Rightarrow> int" where
  "value_length offsets n len offset =
     (case len of Some l \<Rightarrow> int l
      | None \<Rightarrow> (case [x - offset. x \<leftarrow> offsets, offset < x] of
            [] \<Rightarrow> n - offset
          | d # ds \<Rightarrow> min (n - offset) (fold min ds d)))"

definition cut_value :: "bytes \<Rightarrow> int \<Rightarrow> int \<Rightarrow> bytes" where
  "cut_value r i j = take (nat j - nat i) (drop (nat i) r)"

fun get_values :: "'v pfield list \<Rightarrow> int list \<Rightarrow> (string \<Rightarrow> int) \<Rightarrow> (string \<Rightarrow> nat option) \<Rightarrow> bytes
    \<Rightarrow> (int \<times> string \<times> 'v) list \<Rightarrow> int \<Rightarrow> (int \<times> string \<times> 'v) list \<times> int" where
  "get_values [] offsets off len r acc m = (acc, m)"
| "get_values (f # fs) offsets off len r acc m =
     (let offset = off (pf_name f);
          n = value_length offsets (int (length r)) (len (pf_name f)) offset in
      if offset < 0 then get_values fs offsets off len r acc m
      else (let m = max (offset + n) m; x = cut_value r offset (offset + n) in
        get_values fs offsets off len r
          (if x \<noteq> [] then acc @ [(offset, pf_name f, pf_getfield f x)] else acc) m))"

definition payload_getfield ::
  "'v payload \<Rightarrow> nat option \<Rightarrow> (string \<Rightarrow> int) \<Rightarrow> (string \<Rightarrow> nat option) \<Rightarrow> bytes \<Rightarrow> bytes \<times> (string \<times> 'v) list" where
  "payload_getfield P len_pkt off len s =
     (let (ret, remain) = (case len_pkt of None \<Rightarrow> ([], s) | Some n \<Rightarrow> (drop n s, take n s)) in
      if remain = [] then (s, [])
      else (let off = (\<lambda>n. off n - py_offset P);
                (results, m) = get_values (py_fields P) (map (off \<circ> pf_name) (py_fields P)) off len remain [] 0
            in (ret @ drop (nat m) remain, map snd (sort_key fst results))))"

section \<open>The packet\<close>

text \<open>\<open>getfieldval\<close> and \<open>setfieldval\<close> look in the packet's own fields first and then in the
  payload; setting replaces the first entry of the name by one at the end.\<close>

definition getfieldval :: "(string \<Rightarrow> 'v option) \<Rightarrow> (string \<times> 'v) list \<Rightarrow> string \<Rightarrow> 'v res" where
  "getfieldval own payload attr =
     (case own attr of Some v \<Rightarrow> Inr v
      | None \<Rightarrow> (case map_of payload attr of Some v \<Rightarrow> Inr v | None \<Rightarrow> Inl Attribute_Error))"

fun pop_first :: "string \<Rightarrow> (string \<times> 'v) list \<Rightarrow> (string \<times> 'v) list" where
  "pop_first a [] = []"
| "pop_first a (x # xs) = (if fst x = a then xs else x # pop_first a xs)"

definition setfieldval ::
  "(string \<Rightarrow> 'v option) \<Rightarrow> 'v payload \<Rightarrow> (string \<times> 'v) list \<Rightarrow> string \<Rightarrow> 'v \<Rightarrow>
     ((string \<Rightarrow> 'v option) \<times> (string \<times> 'v) list) res" where
  "setfieldval own P payload attr v =
     (if own attr \<noteq> None then Inr (own(attr \<mapsto> v), payload)
      else if fields_map P attr = None then Inl Attribute_Error
      else Inr (own, pop_first attr payload @ [(attr, v)]))"

section \<open>Lengths and offsets filled in\<close>

datatype ntlm_enum = LEN | MAXLEN | OFFSET | COUNT

text \<open>An entry of the configuration: the suffix, what it is, whether it is padded to eight, and
  the size of the field. \<open>unset\<close> says whether the packet leaves the field to be computed.\<close>

record cfg =
  c_suffix :: string
  c_kind :: "string \<Rightarrow> ntlm_enum"
  c_pad8 :: "string \<Rightarrow> bool"
  c_size :: "string \<Rightarrow> nat"

definition pack_le :: "nat \<Rightarrow> nat \<Rightarrow> bytes res" where
  "pack_le sz v =
     (if sz \<notin> {2, 4, 8} then Inl Key_Error
      else if v < 256 ^ sz then Inr (to_le sz v) else Inl Struct_Error)"

fun write_cfg :: "cfg list \<Rightarrow> string \<Rightarrow> (string \<Rightarrow> bool) \<Rightarrow> nat \<Rightarrow> nat \<Rightarrow> nat \<Rightarrow> nat \<Rightarrow> bytes \<Rightarrow> (bytes \<times> nat) res" where
  "write_cfg [] name unset length' num pos pay p = Inr (p, pay)"
| "write_cfg (c # cs) name unset length' num pos pay p =
     (let fval = (case c_kind c name of LEN \<Rightarrow> length' | MAXLEN \<Rightarrow> length' | OFFSET \<Rightarrow> pay | COUNT \<Rightarrow> num);
          pad = (if c_pad8 c name then (8 - fval mod 8) mod 8 else 0);
          sz = c_size c name in
      rbind (if unset (name @ c_suffix c)
             then rbind (pack_le sz (fval + pad)) (\<lambda>x. Inr (take pos p @ x @ drop (pos + sz) p)) else Inr p)
        (\<lambda>p. write_cfg cs name unset length' num (pos + sz) (pay + pad) p))"

fun ntlm_post_build ::
  "'v payload \<Rightarrow> cfg list \<Rightarrow> (string \<Rightarrow> nat option) \<Rightarrow> (string \<Rightarrow> bool) \<Rightarrow> bytes \<Rightarrow> nat \<Rightarrow> (string \<times> 'v) list \<Rightarrow> bytes res" where
  "ntlm_post_build P cs at unset p pay [] = Inr p"
| "ntlm_post_build P cs at unset p pay ((name, v) # vals) =
     (case (fields_map P name, at name) of
        (Some f, Some pos) \<Rightarrow>
          rbind (write_cfg cs name unset (pf_len f v) (pf_count f v) pos pay p)
            (\<lambda>(p, pay). ntlm_post_build P cs at unset p (pay + pf_len f v) vals)
      | _ \<Rightarrow> Inl Key_Error)"

definition NTLM_CONFIG :: "cfg list" where
  "NTLM_CONFIG =
     [\<lparr>c_suffix = ''Len'', c_kind = \<lambda>_. LEN, c_pad8 = \<lambda>_. False, c_size = \<lambda>_. 2\<rparr>,
      \<lparr>c_suffix = ''MaxLen'', c_kind = \<lambda>_. MAXLEN, c_pad8 = \<lambda>_. False, c_size = \<lambda>_. 2\<rparr>,
      \<lparr>c_suffix = ''BufferOffset'', c_kind = \<lambda>_. OFFSET, c_pad8 = \<lambda>_. False, c_size = \<lambda>_. 4\<rparr>]"

section \<open>Building\<close>

lemma sb_append_end:
  assumes "sb_ok b" "sb_noff b = 0" "0 \<le> sb_gap b"
  shows "sb_append b xs (Some (sb_len b + 1)) =
    Inr (b\<lparr>sb_content := sb_content b @ xs, sb_len := sb_len b + int (length xs)\<rparr>)"
proof (cases "xs = []")
  case True
  then show ?thesis by (simp add: sb_append_def)
next
  case False
  with assms show ?thesis
    by (simp add: sb_append_def sb_put_def put_slice_def sb_ok_def Let_def)
qed

text \<open>What the payload field relies on of the fields inside it: building appends the value's
  encoding, which is not empty and reads back.\<close>

definition encodes :: "'v payload \<Rightarrow> (string \<Rightarrow> 'v \<Rightarrow> bytes) \<Rightarrow> (string \<times> 'v) list \<Rightarrow> bool" where
  "encodes P enc vals \<longleftrightarrow> (\<forall>(n, v)\<in>set vals. \<exists>f. fields_map P n = Some f \<and>
     (\<forall>s. pf_addfield f s v = s @ enc n v) \<and> enc n v \<noteq> [] \<and> pf_getfield f (enc n v) = v \<and>
     pf_len f v = length (enc n v))"

definition enc_all :: "(string \<Rightarrow> 'v \<Rightarrow> bytes) \<Rightarrow> (string \<times> 'v) list \<Rightarrow> bytes" where
  "enc_all enc vals = concat (map (\<lambda>(n, v). enc n v) vals)"

lemma encodes_Cons: "encodes P enc ((n, v) # vals) \<longleftrightarrow> (\<exists>f. fields_map P n = Some f \<and>
     (\<forall>s. pf_addfield f s v = s @ enc n v) \<and> enc n v \<noteq> [] \<and> pf_getfield f (enc n v) = v \<and>
     pf_len f v = length (enc n v)) \<and> encodes P enc vals"
  by (simp add: encodes_def)

lemma add_values_appends:
  assumes "encodes P enc vals" "\<forall>(n, v)\<in>set vals. off n = None" "py_pad P = 0"
    "sb_ok b" "sb_noff b = 0" "0 \<le> sb_gap b"
  shows "\<exists>d. add_values P r off b vals = Inr d \<and> sb_bytes d = sb_bytes b @ enc_all enc vals"
  using assms
proof (induction vals arbitrary: b)
  case (Cons nv vals)
  obtain n v where nv: "nv = (n, v)" by fastforce
  with Cons.prems(1) obtain f where f: "fields_map P n = Some f" "pf_addfield f (sb_bytes b) v = sb_bytes b @ enc n v"
    by (auto simp: encodes_Cons)
  let ?b = "b\<lparr>sb_content := sb_content b @ enc n v, sb_len := sb_len b + int (length (enc n v))\<rparr>"
  have l: "sb_length b = Inr (sb_len b)" "nat (sb_len b) = length (sb_bytes b)"
    using Cons.prems(4) by (simp_all add: sb_length_def sb_ok_def sb_bytes_def)
  have "add_value P r off b nv = Inr ?b"
    using Cons.prems(2,3) f l sb_append_end [OF Cons.prems(4-6), of "enc n v"] by (simp add: add_value_def nv)
  moreover have "sb_ok ?b" using Cons.prems(4) by (simp add: sb_ok_def)
  ultimately show ?case
    using Cons.IH [of ?b] Cons.prems by (auto simp: nv encodes_Cons enc_all_def sb_bytes_def)
qed (simp add: enc_all_def)

lemma sb_start: "sb_append (sb_init 1500) s (Some 1) = Inr \<lparr>sb_content = s, sb_len = int (length s), sb_noff = 0, sb_gap = 1500\<rparr>"
  using sb_append_end [of "sb_init 1500" s] by (simp add: sb_init_def sb_ok_def)

lemma payload_addfield_appends:
  assumes "encodes P enc vals" "\<forall>(n, v)\<in>set vals. off n = None" "py_pad P = 0" "py_order P = []"
  shows "payload_addfield P off s vals = Inr (s @ enc_all enc vals)"
proof -
  let ?b = "\<lparr>sb_content = s, sb_len = int (length s), sb_noff = 0, sb_gap = 1500\<rparr>"
  obtain d where "add_values P (py_offset P - int (length s)) off ?b vals = Inr d" "sb_bytes d = s @ enc_all enc vals"
    using add_values_appends [of P enc vals off ?b "py_offset P - int (length s)"] assms
    by (auto simp: sb_ok_def sb_bytes_def)
  then show ?thesis by (simp add: payload_addfield_def sb_start order_values_def assms(4))
qed

text \<open>A value whose offset field says that it starts where the message ends so far costs the
  octet before it: the padding is written one position too early and zeroes it.\<close>

lemma ntlm_offset_zeroes_octet:
  assumes "fields_map P name = Some f" "\<forall>s. pf_addfield f s v = s @ x" "off name = Some (py_offset P)"
    "py_order P = []" "s \<noteq> []"
  shows "payload_addfield P off s [(name, v)] = Inr (butlast s @ [0] @ x)"
proof -
  define n where "n = length s"
  have n: "0 < n" "length s = n" using assms(5) by (simp_all add: n_def)
  let ?b = "\<lparr>sb_content = s, sb_len = int n, sb_noff = 0, sb_gap = 1500\<rparr>"
  let ?c = "?b\<lparr>sb_content := butlast s @ [0]\<rparr>"
  have "nat (int n - 1) = n - 1" by simp
  then have "sb_append ?b [0] (Some (int n)) = Inr ?c"
    using n by (simp add: sb_append_def sb_put_def put_slice_def Let_def butlast_conv_take)
  moreover have "sb_append ?c x (Some (sb_len ?c + 1)) =
      Inr (?c\<lparr>sb_content := sb_content ?c @ x, sb_len := sb_len ?c + int (length x)\<rparr>)"
    using n by (intro sb_append_end) (simp_all add: sb_ok_def)
  ultimately have "add_value P (py_offset P - int n) off ?b (name, v) =
      Inr (?c\<lparr>sb_content := sb_content ?c @ x, sb_len := sb_len ?c + int (length x)\<rparr>)"
    using n assms(1-3) by (simp add: add_value_def Let_def sb_length_def sb_bytes_def)
  then show ?thesis
    by (simp add: payload_addfield_def sb_start order_values_def assms(4) sb_bytes_def n)
qed

lemma ntlm_offset_zeroes_octet_witness:
  "payload_addfield \<lparr>py_offset = 8, py_fields =
       [\<lparr>pf_name = ''Name'', pf_addfield = (@), pf_getfield = id, pf_len = length, pf_count = length\<rparr>],
     py_pad = 0, py_order = []\<rparr> (\<lambda>_. Some 8) [1, 2, 3, 4, 5, 6, 7, 9] [(''Name'', [65 :: byte])] =
   Inr [1, 2, 3, 4, 5, 6, 7, 0, 65]"
  by (subst ntlm_offset_zeroes_octet
      [where f = "\<lparr>pf_name = ''Name'', pf_addfield = (@), pf_getfield = id, pf_len = length, pf_count = length\<rparr>"
         and x = "[65]"])
    (simp_all add: fields_map_def)

section \<open>Lengths and offsets\<close>

text \<open>The place of each value: its position from the start of the message and its length.\<close>

fun placed :: "(string \<Rightarrow> 'v \<Rightarrow> bytes) \<Rightarrow> nat \<Rightarrow> (string \<times> 'v) list \<Rightarrow> string \<Rightarrow> (nat \<times> nat) option" where
  "placed enc pos [] m = None"
| "placed enc pos ((n, v) # vals) m =
     (if n = m then Some (pos, length (enc n v)) else placed enc (pos + length (enc n v)) vals m)"

lemma placed_None: "placed enc pos vals m = None \<longleftrightarrow> m \<notin> fst ` set vals"
proof (induction vals arbitrary: pos)
  case (Cons x vals)
  then show ?case by (cases x) auto
qed simp

lemma placed_bounds:
  "placed enc pos vals m = Some (i, n) \<Longrightarrow> pos \<le> i \<and> i + n \<le> pos + length (enc_all enc vals)"
  by (induction vals arbitrary: pos) (force simp: enc_all_def split: if_splits)+

definition slot :: "nat \<times> nat \<Rightarrow> bytes" where
  "slot = (\<lambda>(i, n). to_le 2 n @ to_le 2 n @ to_le 4 i)"

lemma write_slot:
  assumes "\<forall>s. unset (name @ s)" "n < 65536" "pay < 4294967296" "pos + 8 \<le> length p"
  shows "write_cfg NTLM_CONFIG name unset n num pos pay p =
    Inr (take pos p @ slot (pay, n) @ drop (pos + 8) p, pay)"
  using assms
  by (simp add: NTLM_CONFIG_def Let_def pack_le_def slot_def take_drop_append add.commute)

lemma post_build_writes:
  assumes "encodes P enc vals" "distinct (map fst vals)" "\<forall>s. unset s"
    "\<forall>(n, v)\<in>set vals. length (enc n v) < 65536"
    "pay + length (enc_all enc vals) < 4294967296"
    "\<forall>n\<in>fst ` set vals. \<exists>a. at n = Some a \<and> a + 8 \<le> length p"
    "\<forall>n\<in>fst ` set vals. \<forall>m\<in>fst ` set vals. n \<noteq> m \<longrightarrow> the (at n) + 8 \<le> the (at m) \<or> the (at m) + 8 \<le> the (at n)"
  shows "\<exists>q. ntlm_post_build P NTLM_CONFIG at unset p pay vals = Inr q \<and> length q = length p \<and>
    (\<forall>n\<in>fst ` set vals. take 8 (drop (the (at n)) q) = slot (the (placed enc pay vals n))) \<and>
    (\<forall>k<length p. (\<forall>n\<in>fst ` set vals. k < the (at n) \<or> the (at n) + 8 \<le> k) \<longrightarrow> q ! k = p ! k)"
  using assms
proof (induction vals arbitrary: p pay)
  case (Cons nv vals)
  obtain n v where nv: "nv = (n, v)" by fastforce
  with Cons.prems(1) obtain f where f: "fields_map P n = Some f" "pf_len f v = length (enc n v)"
    by (auto simp: encodes_Cons)
  let ?l = "length (enc n v)"
  obtain a where a: "at n = Some a" "a + 8 \<le> length p" using Cons.prems(6) by (auto simp: nv)
  let ?s = "slot (pay, ?l)"
  define p1 where "p1 = take a p @ ?s @ drop (a + 8) p"
  have s: "length ?s = 8" by (simp add: slot_def)
  have lp: "length p1 = length p" using a(2) s by (simp add: p1_def)
  have w: "write_cfg NTLM_CONFIG n unset ?l (pf_count f v) a pay p = Inr (p1, pay)"
    unfolding p1_def using Cons.prems(3-5) a(2) by (intro write_slot) (auto simp: nv)
  have k: "p1 ! k = p ! k" if "k < length p" "k < a \<or> a + 8 \<le> k" for k
    using that a(2) s by (auto simp: nth_append p1_def)
  have "\<exists>q. ntlm_post_build P NTLM_CONFIG at unset p1 (pay + ?l) vals = Inr q \<and> length q = length p1 \<and>
    (\<forall>n\<in>fst ` set vals. take 8 (drop (the (at n)) q) = slot (the (placed enc (pay + ?l) vals n))) \<and>
    (\<forall>k<length p1. (\<forall>n\<in>fst ` set vals. k < the (at n) \<or> the (at n) + 8 \<le> k) \<longrightarrow> q ! k = p1 ! k)"
  proof (rule Cons.IH)
    show "encodes P enc vals" using Cons.prems(1) by (simp add: nv encodes_Cons)
    show "pay + ?l + length (enc_all enc vals) < 4294967296" using Cons.prems(5) by (simp add: nv enc_all_def)
    show "\<forall>n\<in>fst ` set vals. \<exists>a. at n = Some a \<and> a + 8 \<le> length p1" using Cons.prems(6) by (simp add: nv lp)
    show "\<forall>n\<in>fst ` set vals. \<forall>m\<in>fst ` set vals. n \<noteq> m \<longrightarrow> the (at n) + 8 \<le> the (at m) \<or> the (at m) + 8 \<le> the (at n)"
      using Cons.prems(7) by simp
  qed (use Cons.prems in auto)
  then obtain q where q: "ntlm_post_build P NTLM_CONFIG at unset p1 (pay + ?l) vals = Inr q" "length q = length p"
    and qs: "\<forall>n\<in>fst ` set vals. take 8 (drop (the (at n)) q) = slot (the (placed enc (pay + ?l) vals n))"
    and qk: "\<forall>k<length p. (\<forall>n\<in>fst ` set vals. k < the (at n) \<or> the (at n) + 8 \<le> k) \<longrightarrow> q ! k = p1 ! k"
    unfolding lp by blast
  have new: "n \<notin> fst ` set vals" using Cons.prems(2) by (simp add: nv)
  have sep: "\<forall>m\<in>fst ` set vals. a + 8 \<le> the (at m) \<or> the (at m) + 8 \<le> a"
  proof
    fix m assume m: "m \<in> fst ` set vals"
    with new have "n \<noteq> m" by blast
    moreover have "n \<in> fst ` set (nv # vals)" "m \<in> fst ` set (nv # vals)" using m by (simp_all add: nv)
    ultimately have "the (at n) + 8 \<le> the (at m) \<or> the (at m) + 8 \<le> the (at n)" using Cons.prems(7) by blast
    with a(1) show "a + 8 \<le> the (at m) \<or> the (at m) + 8 \<le> a" by simp
  qed
  have "take 8 (drop a q) = ?s"
  proof (rule nth_equalityI)
    show "length (take 8 (drop a q)) = length ?s" using q(2) a(2) s by simp
    fix i assume "i < length (take 8 (drop a q))"
    then have i: "i < 8" by simp
    have "\<forall>m\<in>fst ` set vals. a + i < the (at m) \<or> the (at m) + 8 \<le> a + i"
    proof
      fix m assume "m \<in> fst ` set vals"
      with sep have "a + 8 \<le> the (at m) \<or> the (at m) + 8 \<le> a" by blast
      with i show "a + i < the (at m) \<or> the (at m) + 8 \<le> a + i" by linarith
    qed
    then have "q ! (a + i) = p1 ! (a + i)" using qk i a(2) by simp
    also have "\<dots> = ?s ! i" using i s a(2) by (simp add: nth_append p1_def)
    finally show "take 8 (drop a q) ! i = ?s ! i" using i q(2) a(2) by simp
  qed
  moreover have "q ! k = p ! k" if "k < length p" "\<forall>m\<in>insert n (fst ` set vals). k < the (at m) \<or> the (at m) + 8 \<le> k" for k
    using that qk a(1) k [of k] by auto
  moreover have "ntlm_post_build P NTLM_CONFIG at unset p pay (nv # vals) = Inr q"
    using f a(1) w q(1) by (simp add: nv)
  moreover have "\<forall>m\<in>fst ` set vals. n \<noteq> m" using new by auto
  ultimately show ?case using q(2) qs a(1) by (auto simp: nv)
qed simp


text \<open>C16: The header tells where the values are: after building, the eight octets each name has
  in the header hold its value's length twice and its position, and nothing else has
  changed.\<close>

theorem ntlm_post_build_slots:
  assumes "encodes P enc vals" "distinct (map fst vals)" "\<forall>s. unset s"
    "\<forall>(n, v)\<in>set vals. length (enc n v) < 65536"
    "pay + length (enc_all enc vals) < 4294967296"
    "\<forall>n\<in>fst ` set vals. \<exists>a. at n = Some a \<and> a + 8 \<le> length p"
    "\<forall>n\<in>fst ` set vals. \<forall>m\<in>fst ` set vals. n \<noteq> m \<longrightarrow> the (at n) + 8 \<le> the (at m) \<or> the (at m) + 8 \<le> the (at n)"
  shows "\<exists>q. ntlm_post_build P NTLM_CONFIG at unset p pay vals = Inr q \<and> length q = length p \<and>
    (\<forall>n\<in>fst ` set vals. take 8 (drop (the (at n)) q) = slot (the (placed enc pay vals n))) \<and>
    (\<forall>k<length p. (\<forall>n\<in>fst ` set vals. k < the (at n) \<or> the (at n) + 8 \<le> k) \<longrightarrow> q ! k = p ! k)"
  using assms by (rule post_build_writes)

section \<open>Reading back\<close>

lemma get_values_eq:
  "\<exists>m'. get_values fs offsets off len r acc m =
     (acc @ concat (map (\<lambda>f. let i = off (pf_name f);
        x = cut_value r i (i + value_length offsets (int (length r)) (len (pf_name f)) i) in
        if i < 0 \<or> x = [] then [] else [(i, pf_name f, pf_getfield f x)]) fs), m') \<and> m \<le> m' \<and>
     (\<forall>f\<in>set fs. 0 \<le> off (pf_name f) \<longrightarrow>
        off (pf_name f) + value_length offsets (int (length r)) (len (pf_name f)) (off (pf_name f)) \<le> m')"
proof (induction fs arbitrary: acc m)
  case (Cons f fs)
  let ?i = "off (pf_name f)" and ?n = "value_length offsets (int (length r)) (len (pf_name f)) (off (pf_name f))"
  let ?x = "cut_value r ?i (?i + ?n)"
  show ?case
  proof (cases "?i < 0")
    case True
    with Cons.IH [of acc m] show ?thesis by (auto simp: Let_def)
  next
    case False
    with Cons.IH [of "if ?x \<noteq> [] then acc @ [(?i, pf_name f, pf_getfield f ?x)] else acc" "max (?i + ?n) m"]
    show ?thesis by (auto simp: Let_def)
  qed
qed simp

lemma placed_cut:
  assumes "placed enc pos vals m = Some (i, n)" "distinct (map fst vals)" "(m, v) \<in> set vals"
  shows "take n (drop (i - pos) (enc_all enc vals)) = enc m v \<and> n = length (enc m v)"
  using assms
proof (induction vals arbitrary: pos)
  case (Cons x vals)
  obtain k w where x: "x = (k, w)" by fastforce
  show ?case
  proof (cases "k = m")
    case True
    with Cons.prems have "w = v" by (auto simp: x image_iff)
    with True Cons.prems show ?thesis by (simp add: x enc_all_def)
  next
    case False
    with Cons.prems have p: "placed enc (pos + length (enc k w)) vals m = Some (i, n)" by (simp add: x)
    with placed_bounds [OF p] Cons.IH [OF p] False Cons.prems show ?thesis
      by (auto simp: x enc_all_def)
  qed
qed simp

lemma placed_sorted:
  assumes "encodes P enc vals" "distinct (map fst vals)"
  shows "sorted_wrt (<) (map (\<lambda>y. fst (the (placed enc pos vals (fst y)))) vals) \<and>
    (\<forall>y\<in>set vals. pos \<le> fst (the (placed enc pos vals (fst y))))"
  using assms
proof (induction vals arbitrary: pos)
  case (Cons x vals)
  obtain k w where x: "x = (k, w)" by fastforce
  have e: "enc k w \<noteq> []" "encodes P enc vals" using Cons.prems(1) by (auto simp: x encodes_Cons)
  let ?p = "pos + length (enc k w)"
  let ?g = "\<lambda>y. fst (the (placed enc ?p vals (fst y)))" and ?h = "\<lambda>y. fst (the (placed enc pos (x # vals) (fst y)))"
  have gh: "?h y = ?g y" if "y \<in> set vals" for y
    using Cons.prems(2) that by (auto simp: x)
  then have m: "map ?h (x # vals) = pos # map ?g vals" by (simp add: x)
  have IH: "sorted_wrt (<) (map ?g vals)" "\<forall>y\<in>set vals. ?p \<le> ?g y"
    using Cons.IH [OF e(2), of ?p] Cons.prems(2) by simp_all
  have gt: "pos < ?g y" if "y \<in> set vals" for y
    using bspec [OF IH(2) that] e(1) by (cases "enc k w") simp_all
  have "sorted_wrt (<) (map ?h (x # vals))" unfolding m using IH(1) gt by simp
  moreover have "\<forall>y\<in>set (x # vals). pos \<le> ?h y"
  proof
    fix y assume "y \<in> set (x # vals)"
    then consider "y = x" | "y \<in> set vals" by auto
    then show "pos \<le> ?h y"
    proof cases
      case 2
      with gh [OF 2] gt [OF 2] show ?thesis by simp
    qed (simp add: x)
  qed
  ultimately show ?case by (rule conjI)
qed simp

lemma placed_last:
  "n \<notin> fst ` set vals \<Longrightarrow> placed enc pos (vals @ [(n, v)]) n = Some (pos + length (enc_all enc vals), length (enc n v))"
proof (induction vals arbitrary: pos)
  case (Cons x vals)
  then show ?case by (cases x) (auto simp: enc_all_def)
qed (simp add: enc_all_def)

lemma distinct_parts:
  assumes "\<forall>f\<in>set fs. g f = [] \<or> (\<exists>x. g f = [x] \<and> nm x = h f)" "distinct (map h fs)"
  shows "distinct (concat (map g fs))"
proof -
  have "distinct (map nm (concat (map g fs))) \<and> nm ` set (concat (map g fs)) \<subseteq> h ` set fs"
    using assms by (induction fs) fastforce+
  then show ?thesis by (simp add: distinct_map)
qed

lemma fields_map_mem: "fields_map P n = Some f \<Longrightarrow> f \<in> set (py_fields P) \<and> pf_name f = n"
  by (auto simp: fields_map_def dest: map_of_SomeD)

lemma fields_map_unique:
  "distinct (map pf_name (py_fields P)) \<Longrightarrow> f \<in> set (py_fields P) \<Longrightarrow> fields_map P (pf_name f) = Some f"
  by (auto simp: fields_map_def o_def rev_map [symmetric] intro!: map_of_is_SomeI)

lemma payload_comes_back:
  fixes P :: "'v payload"
  assumes e: "encodes P enc vals" and d: "distinct (map fst vals)" "distinct (map pf_name (py_fields P))"
    and P: "py_offset P = int o'" "py_pad P = 0" "py_order P = []"
    and off: "\<forall>n. case placed enc o' vals n of Some (i, l) \<Rightarrow> off n = int i \<and> len n = Some l | None \<Rightarrow> off n < int o'"
  shows "\<exists>q. payload_addfield P (\<lambda>_. None) s vals = Inr (s @ q) \<and> payload_getfield P None off len q = ([], vals)"
proof (cases "enc_all enc vals = []")
  case True
  then have "vals = []" using e by (cases vals) (auto simp: enc_all_def encodes_Cons)
  with payload_addfield_appends [of P enc vals "\<lambda>_. None" s] e P show ?thesis
    by (simp add: payload_getfield_def enc_all_def)
next
  case False
  let ?r = "enc_all enc vals" and ?off = "\<lambda>n. off n - int o'"
  let ?key = "\<lambda>n. int (fst (the (placed enc o' vals n)) - o')"
  let ?offs = "map (?off \<circ> pf_name) (py_fields P)"
  define res where "res = (\<lambda>f :: 'v pfield. let i = ?off (pf_name f);
      x = cut_value ?r i (i + value_length ?offs (int (length ?r)) (len (pf_name f)) i) in
      if i < 0 \<or> x = [] then [] else [(i, pf_name f, pf_getfield f x)])"
  have has: "res f = [(?key n, n, v)] \<and> ?off n = ?key n \<and> len n = Some (length (enc n v))"
    if "(n, v) \<in> set vals" and f: "fields_map P n = Some f" for n v f
  proof -
    have "n \<in> fst ` set vals" using that(1) by (rule image_eqI [rotated]) simp
    then have "placed enc o' vals n \<noteq> None" by (simp add: placed_None del: image_iff)
    then obtain i l where p: "placed enc o' vals n = Some (i, l)" by auto
    note c = placed_cut [OF p d(1) that(1)] and b = placed_bounds [OF p]
    from off p have o: "off n = int i" "len n = Some l" by (metis (mono_tags) case_prod_conv option.simps(5))+
    have "pf_name f = n" using fields_map_mem [OF f] by simp
    moreover have "enc n v \<noteq> []" "pf_getfield f (enc n v) = v" using e that by (auto simp: encodes_def)
    moreover have "cut_value ?r (int i - int o') (int i - int o' + int l) = enc n v"
      using conjunct1 [OF c] b by (simp add: cut_value_def nat_diff_distrib nat_add_distrib)
    ultimately show ?thesis using p o b c by (simp add: value_length_def Let_def res_def)
  qed
  have none: "res f = []" if "pf_name f \<notin> fst ` set vals" for f
    using off that by (auto simp: Let_def res_def placed_None split: option.splits)
  obtain m where m: "get_values (py_fields P) ?offs ?off len ?r [] 0 = (concat (map res (py_fields P)), m)"
    and ml: "\<forall>f\<in>set (py_fields P). 0 \<le> ?off (pf_name f) \<longrightarrow>
        ?off (pf_name f) + value_length ?offs (int (length ?r)) (len (pf_name f)) (?off (pf_name f)) \<le> m"
    using get_values_eq [of "py_fields P" ?offs ?off len ?r "[]" 0] by (auto simp: res_def)
  define want where "want = map (\<lambda>(n, v). (?key n, n, v)) vals"
  define R where "R = concat (map res (py_fields P))"
  have field: "\<exists>f\<in>set (py_fields P). fields_map P n = Some f" if "(n, v) \<in> set vals" for n v
    using e that fields_map_mem [of P n] by (fastforce simp: encodes_def)
  have part: "res f = [] \<or> (\<exists>v. (pf_name f, v) \<in> set vals \<and> res f = [(?key (pf_name f), pf_name f, v)])"
    if "f \<in> set (py_fields P)" for f
  proof (cases "pf_name f \<in> fst ` set vals")
    case True
    then obtain v where v: "(pf_name f, v) \<in> set vals" by auto
    with has [OF v fields_map_unique [OF d(2) that]] show ?thesis by blast
  next
    case False
    with none [OF this] show ?thesis by blast
  qed
  have "distinct R" unfolding R_def
    by (rule distinct_parts [where nm = "fst \<circ> snd" and h = pf_name]) (use part d(2) in fastforce)+
  moreover have "distinct want" using d(1) by (auto simp: want_def distinct_map inj_on_def)
  moreover have "set R = set want"
  proof (intro equalityI subsetI)
    fix x assume "x \<in> set R"
    then obtain f where "f \<in> set (py_fields P)" "x \<in> set (res f)" by (auto simp: R_def)
    with part [OF this(1)] show "x \<in> set want" by (force simp: want_def image_iff)
  next
    fix x assume "x \<in> set want"
    then obtain n v where x: "x = (?key n, n, v)" "(n, v) \<in> set vals" by (auto simp: want_def)
    from field [OF x(2)] obtain f where f: "f \<in> set (py_fields P)" "fields_map P n = Some f" by blast
    with has [OF x(2) f(2)] x(1) have "x \<in> set (res f)" by simp
    with f(1) show "x \<in> set R" by (auto simp: R_def)
  qed
  ultimately have ms: "mset R = mset want" by (rule iffD1 [OF set_eq_iff_mset_eq_distinct])
  have sw: "sorted_wrt (<) (map fst want)"
  proof -
    let ?at = "\<lambda>y. fst (the (placed enc o' vals (fst y)))"
    have at: "sorted_wrt (\<lambda>x y. ?at x < ?at y) vals" and ge: "\<forall>y\<in>set vals. o' \<le> ?at y"
      using placed_sorted [OF e d(1), of o'] unfolding sorted_wrt_map by blast+
    have "sorted_wrt (\<lambda>x y. int (?at x - o') < int (?at y - o')) vals"
    proof (rule sorted_wrt_mono_rel [OF _ at])
      fix x y assume "x \<in> set vals" "y \<in> set vals" "?at x < ?at y"
      with bspec [OF ge, of x] show "int (?at x - o') < int (?at y - o')" by linarith
    qed
    then show ?thesis by (simp add: want_def sorted_wrt_map split_beta)
  qed
  have "inj_on fst (set R)"
    using sw \<open>set R = set want\<close> by (simp add: strict_sorted_iff distinct_map)
  then have "sort_key fst R = want"
    using ms sw by (intro sort_key_inj_key_eq) (auto simp: strict_sorted_iff)
  moreover have "map snd want = vals" by (simp add: want_def o_def split_beta)
  moreover have "drop (nat m) ?r = []"
  proof -
    obtain ws n v where w: "vals = ws @ [(n, v)]" using False
      by (cases vals rule: rev_cases) (auto simp: enc_all_def)
    then have nv: "(n, v) \<in> set vals" by simp
    have p: "placed enc o' vals n = Some (o' + length (enc_all enc ws), length (enc n v))"
      unfolding w using d(1) by (intro placed_last) (simp add: w)
    from field [OF nv] obtain f where f: "f \<in> set (py_fields P)" "fields_map P n = Some f" by blast
    have "pf_name f = n" using fields_map_mem [OF f(2)] by simp
    with has [OF nv f(2)] ml f(1) p have "int (length (enc_all enc ws)) + int (length (enc n v)) \<le> m"
      by (auto simp: value_length_def)
    moreover have "length ?r = length (enc_all enc ws) + length (enc n v)" by (simp add: w enc_all_def)
    ultimately show ?thesis by simp
  qed
  ultimately have "payload_getfield P None off len ?r = ([], vals)"
    using False m P(1) by (simp add: payload_getfield_def Let_def R_def)
  with payload_addfield_appends [of P enc vals "\<lambda>_. None" s] e P show ?thesis by auto
qed


text \<open>C23: Built and parsed again: values put one after the other come back in order with nothing
  left over, given the offset and length fields that say where they are, whatever the order of
  the fields in the class and however many of them have no value.\<close>

theorem ntlm_payload_roundtrip:
  fixes P :: "'v payload"
  assumes e: "encodes P enc vals" and d: "distinct (map fst vals)" "distinct (map pf_name (py_fields P))"
    and P: "py_offset P = int o'" "py_pad P = 0" "py_order P = []"
    and off: "\<forall>n. case placed enc o' vals n of Some (i, l) \<Rightarrow> off n = int i \<and> len n = Some l | None \<Rightarrow> off n < int o'"
  shows "\<exists>q. payload_addfield P (\<lambda>_. None) s vals = Inr (s @ q) \<and> payload_getfield P None off len q = ([], vals)"
  using e d P off by (rule payload_comes_back)

definition raw_field :: "string \<Rightarrow> bytes pfield" where
  "raw_field n = \<lparr>pf_name = n, pf_addfield = (@), pf_getfield = id, pf_len = length, pf_count = length\<rparr>"

definition two_fields :: "bytes payload" where
  "two_fields = \<lparr>py_offset = 12, py_fields = [raw_field ''A'', raw_field ''B'', raw_field ''C''], py_pad = 0, py_order = []\<rparr>"

lemma two_fields_encodes: "encodes two_fields (\<lambda>_ v. v) [(''B'', [1, 2]), (''A'', [3])]"
  by (simp add: encodes_def two_fields_def raw_field_def fields_map_def)

lemma ntlm_payload_roundtrip_witness:
  "payload_getfield two_fields None (\<lambda>n. if n = ''B'' then 12 else if n = ''A'' then 14 else 0)
     (\<lambda>n. if n = ''B'' then Some 2 else if n = ''A'' then Some 1 else Some 0) [1, 2, 3] =
   ([], [(''B'', [1, 2]), (''A'', [3])])"
proof -
  let ?off = "\<lambda>n. if n = ''B'' then 12 else if n = ''A'' then 14 else 0"
  let ?len = "\<lambda>n. if n = ''B'' then Some 2 else if n = ''A'' then Some 1 else Some 0"
  have "\<exists>q. payload_addfield two_fields (\<lambda>_. None) [9] [(''B'', [1, 2]), (''A'', [3])] = Inr ([9] @ q) \<and>
      payload_getfield two_fields None ?off ?len q = ([], [(''B'', [1, 2]), (''A'', [3])])"
    by (rule ntlm_payload_roundtrip [OF two_fields_encodes, of 12]) (simp_all add: two_fields_def raw_field_def)
  moreover have "payload_addfield two_fields (\<lambda>_. None) [9] [(''B'', [1, 2]), (''A'', [3])] = Inr ([9] @ [1, 2, 3])"
    using payload_addfield_appends [OF two_fields_encodes, of "\<lambda>_. None" "[9]"]
    by (simp add: two_fields_def enc_all_def)
  ultimately show ?thesis by auto
qed

lemma ntlm_post_build_slots_witness:
  "\<exists>q. ntlm_post_build two_fields NTLM_CONFIG (\<lambda>n. if n = ''A'' then Some 8 else Some 0) (\<lambda>_. True)
      (replicate 16 0) 16 [(''B'', [1, 2]), (''A'', [3])] = Inr q \<and>
     take 8 (drop 8 q) = [1, 0, 1, 0, 18, 0, 0, 0]"
proof -
  let ?at = "\<lambda>n :: string. if n = ''A'' then Some (8 :: nat) else Some 0" and ?vals = "[(''B'', [1, 2]), (''A'', [3 :: byte])]"
  have "\<exists>q. ntlm_post_build two_fields NTLM_CONFIG ?at (\<lambda>_. True) (replicate 16 0) 16 ?vals = Inr q \<and>
      length q = length (replicate 16 (0 :: byte)) \<and>
      (\<forall>n\<in>fst ` set ?vals. take 8 (drop (the (?at n)) q) = slot (the (placed (\<lambda>_ v. v) 16 ?vals n))) \<and>
      (\<forall>k<length (replicate 16 (0 :: byte)). (\<forall>n\<in>fst ` set ?vals. k < the (?at n) \<or> the (?at n) + 8 \<le> k) \<longrightarrow>
         q ! k = replicate 16 0 ! k)"
    by (rule ntlm_post_build_slots [OF two_fields_encodes]) (simp_all add: enc_all_def)
  moreover have "slot (the (placed (\<lambda>_ v. v) 16 ?vals ''A'')) = [1, 0, 1, 0, 18, 0, 0, 0]" by code_simp
  ultimately show ?thesis by auto
qed

end
