(* ===== verification/Md4.thy ===== *)
theory Md4
  imports Prelude
begin

text \<open>
  MD4 as \<open>_pysupport.py\<close> has it: the three rounds on 32-bit words, the padding and the
  digest. The object keeps its message and its four words, which \<open>digest\<close> changes.
\<close>

type_synonym w32 = "32 word"

definition md4_F :: "w32 \<Rightarrow> w32 \<Rightarrow> w32 \<Rightarrow> w32" where
  "md4_F x y z = (x AND y) OR (NOT x AND z)"

definition md4_G :: "w32 \<Rightarrow> w32 \<Rightarrow> w32 \<Rightarrow> w32" where
  "md4_G x y z = (x AND y) OR (x AND z) OR (y AND z)"

definition md4_H :: "w32 \<Rightarrow> w32 \<Rightarrow> w32 \<Rightarrow> w32" where
  "md4_H x y z = x XOR y XOR z"

definition lrot :: "w32 \<Rightarrow> nat \<Rightarrow> w32" where
  "lrot v n = push_bit n v OR drop_bit (32 - n) v"

text \<open>One step: \<open>range(-n, -n + 4)\<close> modulo four gives the indices; a round's function, shift,
  word index and constant are its arguments.\<close>

definition md4_idx :: "nat \<Rightarrow> nat list" where
  "md4_idx n = map (\<lambda>d. nat ((d - int n) mod 4)) [0, 1, 2, 3]"

definition md4_step :: "(w32 \<Rightarrow> w32 \<Rightarrow> w32 \<Rightarrow> w32) \<Rightarrow> nat list \<Rightarrow> (nat \<Rightarrow> nat) \<Rightarrow> w32 \<Rightarrow> w32 list \<Rightarrow> nat \<Rightarrow> w32 list \<Rightarrow> w32 list" where
  "md4_step f Xi K c X n h =
     (let ix = md4_idx n; i = ix ! 0; j = ix ! 1; k = ix ! 2; l = ix ! 3;
          hn = h ! i + f (h ! j) (h ! k) (h ! l) + X ! K n + c
      in h[i := lrot hn (Xi ! (n mod 4))])"

definition md4_round1 :: "w32 list \<Rightarrow> w32 list \<Rightarrow> w32 list" where
  "md4_round1 X h = fold (md4_step md4_F [3, 7, 11, 19] (\<lambda>n. n) 0 X) [0..<16] h"

definition md4_round2 :: "w32 list \<Rightarrow> w32 list \<Rightarrow> w32 list" where
  "md4_round2 X h = fold (md4_step md4_G [3, 5, 9, 13] (\<lambda>n. n mod 4 * 4 + n div 4) 0x5A827999 X) [0..<16] h"

definition md4_Ki :: "nat list" where
  "md4_Ki = [0, 8, 4, 12, 2, 10, 6, 14, 1, 9, 5, 13, 3, 11, 7, 15]"

definition md4_round3 :: "w32 list \<Rightarrow> w32 list \<Rightarrow> w32 list" where
  "md4_round3 X h = fold (md4_step md4_H [3, 9, 11, 15] (\<lambda>n. md4_Ki ! n) 0x6ED9EBA1 X) [0..<16] h"

fun le_words :: "bytes \<Rightarrow> w32 list" where
  "le_words (a # b # c # d # r) = of_nat (from_le [a, b, c, d]) # le_words r"
| "le_words _ = []"

definition md4_chunk :: "bytes \<Rightarrow> w32 list \<Rightarrow> w32 list" where
  "md4_chunk chunk h0 =
     (let X = le_words chunk; h = md4_round3 X (md4_round2 X (md4_round1 X h0)) in map2 (+) h0 h)"

function md4_process :: "bytes \<Rightarrow> w32 list \<Rightarrow> w32 list" where
  "md4_process msg h = (if msg = [] then h else md4_process (drop 64 msg) (md4_chunk (take 64 msg) h))"
  by pat_completeness auto
termination by (relation "measure (\<lambda>(msg, h). length msg)") auto

declare md4_process.simps [simp del]

definition md4_h :: "w32 list" where
  "md4_h = [0x67452301, 0xEFCDAB89, 0x98BADCFE, 0x10325476]"

definition md4_pad :: "bytes \<Rightarrow> bytes" where
  "md4_pad msg =
     (let m = msg @ [0x80] in m @ replicate (nat ((- (int (length m) + 8)) mod 64)) 0 @ to_le 8 (length msg * 8))"

record md4 =
  md4_msg :: bytes
  md4_state :: "w32 list"

definition md4_new :: "bytes \<Rightarrow> md4" where
  "md4_new msg = \<lparr>md4_msg = msg, md4_state = md4_h\<rparr>"

definition md4_update :: "md4 \<Rightarrow> bytes \<Rightarrow> md4" where
  "md4_update d msg = d\<lparr>md4_msg := md4_msg d @ msg\<rparr>"

definition md4_digest :: "md4 \<Rightarrow> (bytes \<times> md4) res" where
  "md4_digest d =
     (if 256 ^ 8 \<le> length (md4_msg d) * 8 then Inl Struct_Error
      else (let m = md4_pad (md4_msg d); h = md4_process m (md4_state d)
            in Inr (concat (map (\<lambda>w. to_le 4 (unat w)) h), d\<lparr>md4_msg := m, md4_state := h\<rparr>)))"

definition Hash_MD4 :: "bytes \<Rightarrow> bytes res" where
  "Hash_MD4 data = rbind (md4_digest (md4_new data)) (\<lambda>(x, _). Inr x)"

end
