(* ===== verification/Md4_Correct.thy ===== *)
theory Md4_Correct
  imports Md4
begin

text \<open>
  MD4 is RFC 1320's, and its object does not stand a second digest.
\<close>

section \<open>RFC 1320\<close>

text \<open>The standard's own terms: a round is a list of operations \<open>[abcd k s]\<close>, each of which turns
  the registers \<open>(a, b, c, d)\<close> to \<open>(d, a', b, c)\<close> where \<open>a' = (a + f b c d + X[k] + t) <<< s\<close>; the
  message is padded to 56 octets modulo 64 and followed by its length.\<close>

type_synonym regs = "w32 \<times> w32 \<times> w32 \<times> w32"

fun rfc_round :: "(w32 \<Rightarrow> w32 \<Rightarrow> w32 \<Rightarrow> w32) \<Rightarrow> w32 \<Rightarrow> w32 list \<Rightarrow> (nat \<times> nat) list \<Rightarrow> regs \<Rightarrow> regs" where
  "rfc_round f t X [] r = r"
| "rfc_round f t X ((k, s) # ops) (a, b, c, d) =
     rfc_round f t X ops (d, word_rotl s (a + f b c d + X ! k + t), b, c)"

definition rfc_ops1 :: "(nat \<times> nat) list" where
  "rfc_ops1 = zip [0, 1, 2, 3, 4, 5, 6, 7, 8, 9, 10, 11, 12, 13, 14, 15] (concat (replicate 4 [3, 7, 11, 19]))"

definition rfc_ops2 :: "(nat \<times> nat) list" where
  "rfc_ops2 = zip [0, 4, 8, 12, 1, 5, 9, 13, 2, 6, 10, 14, 3, 7, 11, 15] (concat (replicate 4 [3, 5, 9, 13]))"

definition rfc_ops3 :: "(nat \<times> nat) list" where
  "rfc_ops3 = zip [0, 8, 4, 12, 2, 10, 6, 14, 1, 9, 5, 13, 3, 11, 7, 15] (concat (replicate 4 [3, 9, 11, 15]))"

definition rfc_block :: "w32 list \<Rightarrow> regs \<Rightarrow> regs" where
  "rfc_block X r =
     (case r of (aa, bb, cc, dd) \<Rightarrow>
      case rfc_round (\<lambda>x y z. x XOR y XOR z) 0x6ED9EBA1 X rfc_ops3
          (rfc_round (\<lambda>x y z. (x AND y) OR (x AND z) OR (y AND z)) 0x5A827999 X rfc_ops2
          (rfc_round (\<lambda>x y z. (x AND y) OR (NOT x AND z)) 0 X rfc_ops1 r)) of
        (a, b, c, d) \<Rightarrow> (a + aa, b + bb, c + cc, d + dd))"

fun rfc_blocks :: "nat \<Rightarrow> bytes \<Rightarrow> regs \<Rightarrow> regs" where
  "rfc_blocks 0 m r = r"
| "rfc_blocks (Suc n) m r = rfc_blocks n (drop 64 m) (rfc_block (le_words (take 64 m)) r)"

definition rfc_pad :: "bytes \<Rightarrow> bytes" where
  "rfc_pad m = m @ [0x80] @ replicate (if length m mod 64 < 56 then 55 - length m mod 64 else 119 - length m mod 64) 0 @
     to_le 8 (8 * length m)"

definition rfc1320 :: "bytes \<Rightarrow> bytes" where
  "rfc1320 m =
     (let p = rfc_pad m in
      case rfc_blocks (length p div 64) p (0x67452301, 0xEFCDAB89, 0x98BADCFE, 0x10325476) of
        (a, b, c, d) \<Rightarrow> concat (map (\<lambda>w. to_le 4 (unat w)) [a, b, c, d]))"

text \<open>The rotation.\<close>

lemma lrot_rotl:
  assumes n: "n < 32"
  shows "lrot w n = word_rotl n w"
proof (rule bit_word_eqI)
  fix i assume "i < LENGTH(32)"
  then have i: "i < 32" by simp
  have r: "bit (word_rotl n w) i \<longleftrightarrow> bit w ((i + (32 - n)) mod 32)"
    using n i by (simp add: bit_word_rotl_iff)
  have m: "(i + (32 - n)) mod 32 = (if n \<le> i then i - n else i + (32 - n))"
    using n i by (auto simp: mod_if)
  have l: "bit (lrot w n) i \<longleftrightarrow> (n \<le> i \<and> bit w (i - n)) \<or> bit w (32 - n + i)"
    using i by (simp add: lrot_def bit_or_iff bit_push_bit_iff bit_drop_bit_eq)
  have "\<not> bit w (32 - n + i)" if "n \<le> i"
    using that n bit_imp_le_length [of w "32 - n + i"] by auto
  with l show "bit (lrot w n) i = bit (word_rotl n w) i"
    unfolding r m by (auto simp: ac_simps)
qed

text \<open>The registers as the standard's operation number \<open>n\<close> finds them in the list.\<close>

definition view :: "nat \<Rightarrow> w32 list \<Rightarrow> regs" where
  "view n h = (h ! (md4_idx n ! 0), h ! (md4_idx n ! 1), h ! (md4_idx n ! 2), h ! (md4_idx n ! 3))"

lemma md4_idx_cases:
  "md4_idx n = (if n mod 4 = 0 then [0, 1, 2, 3] else if n mod 4 = 1 then [3, 0, 1, 2]
     else if n mod 4 = 2 then [2, 3, 0, 1] else [1, 2, 3, 0])"
proof -
  have e: "(d - int n) mod 4 = (d - int (n mod 4)) mod 4" for d
    by (simp add: zmod_int mod_diff_right_eq)
  have "n mod 4 < 4" by simp
  then consider "n mod 4 = 0" | "n mod 4 = 1" | "n mod 4 = 2" | "n mod 4 = 3" by linarith
  then show ?thesis by cases (simp_all add: md4_idx_def e)
qed

lemma view_step:
  assumes "length h = 4" "view n h = (a, b, c, d)" "Xi ! (n mod 4) < 32"
  shows "view (Suc n) (md4_step f Xi K t X n h) = (d, word_rotl (Xi ! (n mod 4)) (a + f b c d + X ! K n + t), b, c)"
    "length (md4_step f Xi K t X n h) = 4"
proof -
  have "n mod 4 < 4" by simp
  then consider "n mod 4 = 0" | "n mod 4 = 1" | "n mod 4 = 2" | "n mod 4 = 3" by linarith
  then show "view (Suc n) (md4_step f Xi K t X n h) = (d, word_rotl (Xi ! (n mod 4)) (a + f b c d + X ! K n + t), b, c)"
    using assms by cases (auto simp: view_def md4_step_def md4_idx_cases Let_def lrot_rotl mod_Suc)
  show "length (md4_step f Xi K t X n h) = 4" using assms by (simp add: md4_step_def Let_def)
qed

lemma view_fold:
  assumes "length h = 4" "\<forall>i. Xi ! (i mod 4) < 32"
  shows "length (fold (md4_step f Xi K t X) [n..<n + m] h) = 4 \<and>
    view (n + m) (fold (md4_step f Xi K t X) [n..<n + m] h) =
      rfc_round f t X (map (\<lambda>i. (K i, Xi ! (i mod 4))) [n..<n + m]) (view n h)"
  using assms
proof (induction m arbitrary: n h)
  case (Suc m)
  obtain a b c d where v: "view n h = (a, b, c, d)" by (metis surj_pair)
  let ?h = "md4_step f Xi K t X n h"
  have u: "[n..<n + Suc m] = n # [Suc n..<Suc n + m]" by (simp add: upt_conv_Cons)
  show ?case
    unfolding u using Suc.IH [of ?h "Suc n"] view_step [OF Suc.prems(1) v, of Xi f K t X] Suc.prems(2)
    by (simp add: v)
qed simp

lemma shifts_small: "a < 32 \<Longrightarrow> b < 32 \<Longrightarrow> c < 32 \<Longrightarrow> d < 32 \<Longrightarrow> [a, b, c, d] ! (i mod 4) < (32 :: nat)"
proof -
  assume *: "a < 32" "b < 32" "c < 32" "d < 32"
  have "i mod 4 < 4" by simp
  then consider "i mod 4 = 0" | "i mod 4 = 1" | "i mod 4 = 2" | "i mod 4 = 3" by linarith
  then show ?thesis by cases (use * in simp_all)
qed

lemma view_16: "view 16 h = view 0 h"
  by (simp add: view_def md4_idx_cases)

lemma md4_rounds:
  assumes "length h = 4"
  shows "view 0 (md4_round1 X h) = rfc_round (\<lambda>x y z. (x AND y) OR (NOT x AND z)) 0 X rfc_ops1 (view 0 h)"
    "view 0 (md4_round2 X h) = rfc_round (\<lambda>x y z. (x AND y) OR (x AND z) OR (y AND z)) 0x5A827999 X rfc_ops2 (view 0 h)"
    "view 0 (md4_round3 X h) = rfc_round (\<lambda>x y z. x XOR y XOR z) 0x6ED9EBA1 X rfc_ops3 (view 0 h)"
    "length (md4_round1 X h) = 4" "length (md4_round2 X h) = 4" "length (md4_round3 X h) = 4"
proof -
  have f: "md4_F = (\<lambda>x y z. (x AND y) OR (NOT x AND z))" "md4_G = (\<lambda>x y z. (x AND y) OR (x AND z) OR (y AND z))"
    "md4_H = (\<lambda>x y z. x XOR y XOR z)"
    by (simp_all add: md4_F_def md4_G_def md4_H_def fun_eq_iff)
  have o1: "map (\<lambda>i. (i, [3, 7, 11, 19] ! (i mod 4))) [0..<0 + 16] = rfc_ops1" by code_simp
  have o2: "map (\<lambda>i. (i mod 4 * 4 + i div 4, [3, 5, 9, 13] ! (i mod 4))) [0..<0 + 16] = rfc_ops2" by code_simp
  have o3: "map (\<lambda>i. (md4_Ki ! i, [3, 9, 11, 15] ! (i mod 4))) [0..<0 + 16] = rfc_ops3" by code_simp
  have s: "\<forall>i. [3, 7, 11, 19] ! (i mod 4) < (32 :: nat)" "\<forall>i. [3, 5, 9, 13] ! (i mod 4) < (32 :: nat)"
    "\<forall>i. [3, 9, 11, 15] ! (i mod 4) < (32 :: nat)"
    by (auto intro: shifts_small)
  note v1 = view_fold [OF assms s(1), of md4_F "\<lambda>n. n" 0 X 0 16, unfolded o1]
  note v2 = view_fold [OF assms s(2), of md4_G "\<lambda>n. n mod 4 * 4 + n div 4" "0x5A827999" X 0 16, unfolded o2]
  note v3 = view_fold [OF assms s(3), of md4_H "\<lambda>n. md4_Ki ! n" "0x6ED9EBA1" X 0 16, unfolded o3]
  show "view 0 (md4_round1 X h) = rfc_round (\<lambda>x y z. (x AND y) OR (NOT x AND z)) 0 X rfc_ops1 (view 0 h)"
    "length (md4_round1 X h) = 4"
    using v1 unfolding f(1) md4_round1_def add_0 view_16 by simp_all
  show "view 0 (md4_round2 X h) = rfc_round (\<lambda>x y z. (x AND y) OR (x AND z) OR (y AND z)) 0x5A827999 X rfc_ops2 (view 0 h)"
    "length (md4_round2 X h) = 4"
    using v2 unfolding f(2) md4_round2_def add_0 view_16 by simp_all
  show "view 0 (md4_round3 X h) = rfc_round (\<lambda>x y z. x XOR y XOR z) 0x6ED9EBA1 X rfc_ops3 (view 0 h)"
    "length (md4_round3 X h) = 4"
    using v3 unfolding f(3) md4_round3_def add_0 view_16 by simp_all
qed

lemma view_0: "view 0 h = (h ! 0, h ! 1, h ! 2, h ! 3)"
  by (simp add: view_def md4_idx_cases)

lemma md4_chunk_block:
  assumes "length h = 4"
  shows "view 0 (md4_chunk c h) = rfc_block (le_words c) (view 0 h) \<and> length (md4_chunk c h) = 4"
proof -
  let ?X = "le_words c"
  let ?h = "md4_round3 ?X (md4_round2 ?X (md4_round1 ?X h))"
  have l: "length ?h = 4" using assms by (simp add: md4_rounds)
  have "view 0 (md4_chunk c h) =
      (?h ! 0 + h ! 0, ?h ! 1 + h ! 1, ?h ! 2 + h ! 2, ?h ! 3 + h ! 3)"
    using assms l by (simp add: md4_chunk_def Let_def view_0 add.commute)
  moreover have "rfc_block ?X (view 0 h) =
      (case view 0 ?h of (a, b, c, d) \<Rightarrow> (a + h ! 0, b + h ! 1, c + h ! 2, d + h ! 3))"
  proof -
    have r: "view 0 ?h = rfc_round (\<lambda>x y z. x XOR y XOR z) 0x6ED9EBA1 ?X rfc_ops3
        (rfc_round (\<lambda>x y z. (x AND y) OR (x AND z) OR (y AND z)) 0x5A827999 ?X rfc_ops2
        (rfc_round (\<lambda>x y z. (x AND y) OR (NOT x AND z)) 0 ?X rfc_ops1 (view 0 h)))"
      using assms by (simp only: md4_rounds)
    show ?thesis unfolding rfc_block_def r [symmetric] by (simp add: view_0)
  qed
  ultimately show ?thesis using assms l by (simp add: view_0 md4_chunk_def Let_def)
qed

lemma md4_process_blocks:
  assumes "length p = 64 * n" "length h = 4"
  shows "view 0 (md4_process p h) = rfc_blocks n p (view 0 h) \<and> length (md4_process p h) = 4"
  using assms
proof (induction n arbitrary: p h)
  case 0
  then show ?case by (simp add: md4_process.simps)
next
  case (Suc n)
  then have "p \<noteq> []" by auto
  with Suc md4_chunk_block [OF Suc.prems(2)] show ?case by (simp add: md4_process.simps [of p])
qed

lemma pad_count:
  fixes n :: nat
  shows "nat ((- (int (n + 1) + 8)) mod 64) = (if n mod 64 < 56 then 55 - n mod 64 else 119 - n mod 64)"
proof -
  define r q where "r = int (n mod 64)" and "q = int (n div 64)"
  have n: "int n = 64 * q + r" "0 \<le> r" "r < 64" by (simp_all add: r_def q_def zmod_int zdiv_int)
  have "(- (64 * q + r + 1 + 8)) mod 64 = (if r < 56 then 55 - r else 119 - r)"
  proof -
    have "(- (64 * q + r + 1 + 8)) mod 64 = (- (r + 9)) mod 64"
      using mod_mult_self2 [of "- (r + 9)" 64 "- q"] by (simp add: algebra_simps)
    moreover have "(- (r + 9)) mod 64 = (if r < 56 then 55 - r else 119 - r)"
    proof (cases "r < 56")
      case True
      with n have "(- (r + 9) + 64) mod 64 = 55 - r" by (intro mod_pos_pos_trivial [THEN trans]) auto
      then have "(- (r + 9)) mod 64 = 55 - r" by (simp only: mod_add_self2)
      with True show ?thesis by simp
    next
      case False
      with n have "(- (r + 9) + 64 * 2) mod 64 = 119 - r" by (intro mod_pos_pos_trivial [THEN trans]) auto
      then have "(- (r + 9)) mod 64 = 119 - r" by (simp only: mod_mult_self2)
      with False show ?thesis by simp
    qed
    ultimately show ?thesis by simp
  qed
  moreover have "int (n + 1) + 8 = 64 * q + r + 1 + 8" using n(1) by simp
  ultimately show ?thesis by (simp add: r_def nat_diff_distrib)
qed

lemma md4_pad_rfc: "md4_pad m = rfc_pad m"
  using pad_count [of "length m"] by (simp add: md4_pad_def rfc_pad_def Let_def mult.commute)

lemma length_rfc_pad: "length (rfc_pad m) = 64 * (length (rfc_pad m) div 64)"
proof -
  have "length (rfc_pad m) mod 64 = 0"
  proof -
    define r where "r = length m mod 64"
    have r: "r < 64" by (simp add: r_def)
    have "length (rfc_pad m) = length m + (if r < 56 then 64 - r else 128 - r)"
      using r by (simp add: rfc_pad_def r_def)
    also have "\<dots> = 64 * (length m div 64) + (if r < 56 then 64 else 128)"
      using r mult_div_mod_eq [of 64 "length m"] unfolding r_def [symmetric] by auto
    finally show ?thesis by simp
  qed
  then show ?thesis using mult_div_mod_eq [of 64 "length (rfc_pad m)"] by linarith
qed

lemma md4_new_digest:
  assumes "8 * length m < 2 ^ 64"
  shows "Hash_MD4 m = Inr (rfc1320 m)"
proof -
  let ?p = "rfc_pad m"
  have h: "length md4_h = 4" by (simp add: md4_h_def)
  note b = md4_process_blocks [OF length_rfc_pad h, of m]
  have v: "view 0 md4_h = (0x67452301, 0xEFCDAB89, 0x98BADCFE, 0x10325476)"
    by (simp add: view_0 md4_h_def)
  obtain a b c d where p: "md4_process ?p md4_h = [a, b, c, d]" using b by (auto simp: length_4_conv)
  with b have "rfc_blocks (length ?p div 64) ?p (view 0 md4_h) = (a, b, c, d)" by (simp add: view_0)
  then have "rfc1320 m = concat (map (\<lambda>w. to_le 4 (unat w)) [a, b, c, d])"
    by (simp add: rfc1320_def Let_def v)
  with assms p show ?thesis
    by (simp add: Hash_MD4_def md4_digest_def md4_new_def md4_pad_rfc Let_def)
qed

text \<open>C14: The hash of a message of fewer than \<open>2 ^ 64\<close> bits is RFC 1320's: the steps on a list
  updated in place, with indices running backwards, are the standard's operations on four
  rotating registers, and the padding is its padding.\<close>

theorem md4_is_rfc1320:
  assumes "8 * length m < 2 ^ 64"
  shows "Hash_MD4 m = Inr (rfc1320 m)"
  using assms by (rule md4_new_digest)

lemma md4_is_rfc1320_witness:
  "rfc1320 [0x61, 0x62, 0x63] =
     [0xa4, 0x48, 0x01, 0x7a, 0xaf, 0x21, 0xd8, 0x52, 0x5f, 0xc1, 0x0a, 0xe8, 0x7a, 0xa6, 0x72, 0x9d]"
proof -
  have "Hash_MD4 [0x61, 0x62, 0x63] =
     Inr [0xa4, 0x48, 0x01, 0x7a, 0xaf, 0x21, 0xd8, 0x52, 0x5f, 0xc1, 0x0a, 0xe8, 0x7a, 0xa6, 0x72, 0x9d]"
    by code_simp
  with md4_is_rfc1320 [of "[0x61, 0x62, 0x63]"] show ?thesis by simp
qed

definition once_digested :: md4 where
  "once_digested = \<lparr>md4_msg = 0x80 # replicate 63 0, md4_state = [0xe0cfd631, 0x31e96ad1, 0xd7593cb7, 0xc089c0e0]\<rparr>"

lemma digest_first: "md4_digest (md4_new []) = Inr ([0x31, 0xd6, 0xcf, 0xe0, 0xd1, 0x6a, 0xe9, 0x31, 0xb7, 0x3c, 0x59, 0xd7, 0xe0, 0xc0, 0x89, 0xc0], once_digested)"
  unfolding once_digested_def by code_simp

lemma digest_second: "map_sum id fst (md4_digest once_digested) = Inr [0x83, 0x13, 0x3e, 0x3f, 0xae, 0x01, 0xc9, 0x6b, 0x37, 0x99, 0xb9, 0x58, 0x07, 0x7d, 0x5c, 0x4c]"
proof -
  let ?c = "0x80 # replicate 63 (0 :: byte)" and ?d = "0x80 # replicate 55 0 @ [0, 2, 0, 0, 0, 0, 0, 0 :: byte]"
  have 1: "md4_chunk ?c (md4_state once_digested) = [0xf8f610c9, 0x89059a46, 0x61ea4961, 0x88716551]"
    unfolding once_digested_def by code_simp
  have 2: "md4_chunk ?d [0xf8f610c9, 0x89059a46, 0x61ea4961, 0x88716551] = [0x3f3e1383, 0x6bc901ae, 0x58b99937, 0x4c5c7d07]" by code_simp
  have "md4_pad (md4_msg once_digested) = ?c @ ?d" unfolding once_digested_def by code_simp
  moreover have "md4_process (?c @ ?d) (md4_state once_digested) = [0x3f3e1383, 0x6bc901ae, 0x58b99937, 0x4c5c7d07]"
    by (simp add: md4_process.simps 1 2)
  moreover have "concat (map (\<lambda>w. to_le 4 (unat w)) ([0x3f3e1383, 0x6bc901ae, 0x58b99937, 0x4c5c7d07] :: w32 list)) = [0x83, 0x13, 0x3e, 0x3f, 0xae, 0x01, 0xc9, 0x6b, 0x37, 0x99, 0xb9, 0x58, 0x07, 0x7d, 0x5c, 0x4c]" by code_simp
  moreover have "\<not> 256 ^ 8 \<le> length (md4_msg once_digested) * 8" by (simp add: once_digested_def)
  ultimately show ?thesis by (simp add: md4_digest_def Let_def)
qed

text \<open>Asking the same object for its digest again gives another answer: \<open>digest\<close> keeps the
  padding in the message and the words of the last block in the state.\<close>

lemma md4_digest_not_idempotent:
  "\<exists>x d y e. md4_digest (md4_new []) = Inr (x, d) \<and> md4_digest d = Inr (y, e) \<and> x \<noteq> y"
proof -
  obtain e where "md4_digest once_digested = Inr ([0x83, 0x13, 0x3e, 0x3f, 0xae, 0x01, 0xc9, 0x6b, 0x37, 0x99, 0xb9, 0x58, 0x07, 0x7d, 0x5c, 0x4c], e)"
    using digest_second by (cases "md4_digest once_digested") auto
  with digest_first show ?thesis by force
qed

end
