(* ===== verification/Ntlm_Crypto.thy ===== *)
theory Ntlm_Crypto
  imports Prelude
begin

text \<open>
  NTLM's keys, signatures and sealed messages (\<open>layers/ntlm.py\<close>, [MS-NLMP] 3.4). HMAC-MD5, MD5
  and the RC4 cipher come from \<open>hashlib\<close>, \<open>hmac\<close> and \<open>cryptography\<close> and are arguments: a cipher
  object is a handle whose \<open>update\<close> answers octets and leaves the handle in its next state.
\<close>

record 'h crypto =
  hmac_md5 :: "bytes \<Rightarrow> bytes \<Rightarrow> bytes"
  md5 :: "bytes \<Rightarrow> bytes"
  rc4_new :: "bytes \<Rightarrow> 'h res"
  rc4_update :: "'h \<Rightarrow> bytes \<Rightarrow> bytes \<times> 'h"
  rc4_final :: "'h \<Rightarrow> bytes"

section \<open>Keys\<close>

definition RC4K :: "'h crypto \<Rightarrow> bytes \<Rightarrow> bytes \<Rightarrow> bytes res" where
  "RC4K C key xs = rbind (rc4_new C key) (\<lambda>h. case rc4_update C h xs of (ys, h') \<Rightarrow> Inr (ys @ rc4_final C h'))"

text \<open>Negotiated flags are the names of the set bits.\<close>

type_synonym neg_flags = "string set"

definition ascii :: "string \<Rightarrow> bytes" where
  "ascii s = map of_char s"

definition SIGNKEY :: "'h crypto \<Rightarrow> neg_flags \<Rightarrow> bytes \<Rightarrow> string \<Rightarrow> bytes option res" where
  "SIGNKEY C f key mode =
     (if ''NEGOTIATE_EXTENDED_SESSIONSECURITY'' \<in> f then
        (if mode = ''Client'' then
           Inr (Some (md5 C (key @ ascii ''session key to client-to-server signing key magic constant'' @ [0])))
         else if mode = ''Server'' then
           Inr (Some (md5 C (key @ ascii ''session key to server-to-client signing key magic constant'' @ [0])))
         else Inl Value_Error)
      else Inr None)"

definition SEALKEY :: "'h crypto \<Rightarrow> neg_flags \<Rightarrow> bytes \<Rightarrow> string \<Rightarrow> bytes res" where
  "SEALKEY C f key mode =
     (if ''NEGOTIATE_EXTENDED_SESSIONSECURITY'' \<in> f then
        (let k = (if ''NEGOTIATE_128'' \<in> f then key else if ''NEGOTIATE_56'' \<in> f then take 7 key else take 5 key) in
         if mode = ''Client'' then
           Inr (md5 C (k @ ascii ''session key to client-to-server sealing key magic constant'' @ [0]))
         else if mode = ''Server'' then
           Inr (md5 C (k @ ascii ''session key to server-to-client sealing key magic constant'' @ [0]))
         else Inl Value_Error)
      else if ''NEGOTIATE_LM_KEY'' \<in> f then
        (if ''NEGOTIATE_56'' \<in> f then Inr (take 6 key @ [0xA0]) else Inr (take 4 key @ [0xE5, 0x38, 0xB0]))
      else Inr key)"

section \<open>Signatures\<close>

record signature =
  sg_version :: nat
  sg_checksum :: bytes
  sg_seq :: int

definition pack_i32 :: "int \<Rightarrow> bytes res" where
  "pack_i32 v = (if - (2 ^ 31) \<le> v \<and> v < 2 ^ 31 then Inr (to_le 4 (nat (v mod 2 ^ 32))) else Inl Struct_Error)"

text \<open>Without a key \<open>hmac\<close> raises TypeError.\<close>

definition MAC :: "'h crypto \<Rightarrow> 'h option \<Rightarrow> bytes option \<Rightarrow> int \<Rightarrow> bytes \<Rightarrow> (signature \<times> 'h option) res" where
  "MAC C handle key sq msg =
     rbind (pack_i32 sq) (\<lambda>n.
       case key of None \<Rightarrow> Inl Type_Error
       | Some k \<Rightarrow>
         (let chk = take 8 (hmac_md5 C k (n @ msg)) in
          case handle of
            None \<Rightarrow> Inr (\<lparr>sg_version = 1, sg_checksum = chk, sg_seq = sq\<rparr>, None)
          | Some h \<Rightarrow> (case rc4_update C h chk of (chk, h') \<Rightarrow>
              Inr (\<lparr>sg_version = 1, sg_checksum = chk, sg_seq = sq\<rparr>, Some h'))))"

section \<open>The keys of a context\<close>

text \<open>The slots of the context that hold keys, cipher handles and sequence numbers.\<close>

record 'h keys =
  k_session :: "bytes option"
  k_exported :: "bytes option"
  k_send_sign :: "bytes option"
  k_send_seal :: "bytes option"
  k_recv_sign :: "bytes option"
  k_recv_seal :: "bytes option"
  k_send_handle :: "'h option"
  k_recv_handle :: "'h option"
  k_send_seq :: int
  k_recv_seq :: int

definition no_keys :: "'h keys" where
  "no_keys = \<lparr>k_session = None, k_exported = None, k_send_sign = None, k_send_seal = None, k_recv_sign = None,
     k_recv_seal = None, k_send_handle = None, k_recv_handle = None, k_send_seq = 0, k_recv_seq = 0\<rparr>"

section \<open>Messages signed and sealed\<close>

record gmsg =
  m_conf :: bool
  m_sign :: bool
  m_data :: bytes

definition to_sign :: "gmsg list \<Rightarrow> bytes" where
  "to_sign msgs = concat (map m_data (filter m_sign msgs))"

type_synonym ('h, 'a) kop = "('h keys, py_exn, 'a) comp"

definition gss_getmic :: "'h crypto \<Rightarrow> gmsg list \<Rightarrow> ('h, signature) kop" where
  "gss_getmic C msgs = (\<lambda>k.
     case MAC C (k_send_handle k) (k_send_sign k) (k_send_seq k) (to_sign msgs) of
       Inl e \<Rightarrow> (Inl e, k)
     | Inr (sig, h) \<Rightarrow> (Inr sig, k\<lparr>k_send_handle := h, k_send_seq := k_send_seq k + 1\<rparr>))"

definition gss_verifymic :: "'h crypto \<Rightarrow> gmsg list \<Rightarrow> signature \<Rightarrow> ('h, unit) kop" where
  "gss_verifymic C msgs sig = (\<lambda>k.
     let k = k\<lparr>k_recv_seq := sg_seq sig\<rparr> in
     case MAC C (k_recv_handle k) (k_recv_sign k) (k_recv_seq k) (to_sign msgs) of
       Inl e \<Rightarrow> (Inl e, k)
     | Inr (s, h) \<Rightarrow>
         (if sg_checksum s \<noteq> sg_checksum sig then Inl Value_Error else Inr (), k\<lparr>k_recv_handle := h\<rparr>))"

text \<open>The loop that encrypts or decrypts in place; a missing handle has no \<open>update\<close>.\<close>

fun crypt_msgs :: "'h crypto \<Rightarrow> 'h option \<Rightarrow> gmsg list \<Rightarrow> gmsg list res \<times> 'h option" where
  "crypt_msgs C h [] = (Inr [], h)"
| "crypt_msgs C h (m # ms) =
     (if m_conf m then
        (case h of None \<Rightarrow> (Inl Attribute_Error, None)
         | Some h0 \<Rightarrow> (case rc4_update C h0 (m_data m) of (ys, h1) \<Rightarrow>
             (case crypt_msgs C (Some h1) ms of (r, h2) \<Rightarrow> (rbind r (\<lambda>ms. Inr (m\<lparr>m_data := ys\<rparr> # ms)), h2))))
      else (case crypt_msgs C h ms of (r, h2) \<Rightarrow> (rbind r (\<lambda>ms. Inr (m # ms)), h2)))"

definition gss_wrap :: "'h crypto \<Rightarrow> gmsg list \<Rightarrow> ('h, gmsg list \<times> signature) kop" where
  "gss_wrap C msgs =
     sbind (\<lambda>k. case crypt_msgs C (k_send_handle k) msgs of (r, h) \<Rightarrow> (r, k\<lparr>k_send_handle := h\<rparr>)) (\<lambda>sealed.
     sbind (gss_getmic C msgs) (\<lambda>sig. ret (sealed, sig)))"

definition gss_unwrap :: "'h crypto \<Rightarrow> gmsg list \<Rightarrow> signature \<Rightarrow> ('h, gmsg list) kop" where
  "gss_unwrap C msgs sig =
     sbind (\<lambda>k. case crypt_msgs C (k_recv_handle k) msgs of (r, h) \<Rightarrow> (r, k\<lparr>k_recv_handle := h\<rparr>)) (\<lambda>msgs.
     sbind (gss_verifymic C msgs sig) (\<lambda>_. ret msgs))"

text \<open>The calls for a single message (\<open>SSP\<close> of \<open>gssapi.py\<close>): a wrapped message is the signature with
  the data as its payload, and no payload where there is no data. Unwrapping always deciphers.\<close>

definition GSS_GetMIC :: "'h crypto \<Rightarrow> bytes \<Rightarrow> ('h, signature) kop" where
  "GSS_GetMIC C message = gss_getmic C [\<lparr>m_conf = False, m_sign = True, m_data = message\<rparr>]"

definition GSS_VerifyMIC :: "'h crypto \<Rightarrow> bytes \<Rightarrow> signature \<Rightarrow> ('h, unit) kop" where
  "GSS_VerifyMIC C message sig = gss_verifymic C [\<lparr>m_conf = False, m_sign = True, m_data = message\<rparr>] sig"

definition GSS_Wrap :: "'h crypto \<Rightarrow> bytes \<Rightarrow> bool \<Rightarrow> ('h, signature \<times> bytes) kop" where
  "GSS_Wrap C input conf =
     sbind (gss_wrap C [\<lparr>m_conf = conf, m_sign = True, m_data = input\<rparr>]) (\<lambda>(msgs, sig). ret (sig, m_data (hd msgs)))"

definition GSS_Unwrap :: "'h crypto \<Rightarrow> signature \<times> bytes \<Rightarrow> ('h, bytes) kop" where
  "GSS_Unwrap C w =
     sbind (gss_unwrap C [\<lparr>m_conf = True, m_sign = True, m_data = snd w\<rparr>] (fst w)) (\<lambda>msgs. ret (m_data (hd msgs)))"

text \<open>The list of mechanisms is signed with a fresh handle, and the old one is put back whatever
  happens.\<close>

definition get_mech_list_mic :: "'h crypto \<Rightarrow> bytes \<Rightarrow> ('h, signature) kop" where
  "get_mech_list_mic C input = (\<lambda>k.
     case k_send_seal k of None \<Rightarrow> (Inl Type_Error, k)
     | Some key \<Rightarrow> (case rc4_new C key of
         Inl e \<Rightarrow> (Inl e, k)
       | Inr h \<Rightarrow> (case GSS_GetMIC C input (k\<lparr>k_send_handle := Some h\<rparr>) of
           (r, k') \<Rightarrow> (r, k'\<lparr>k_send_handle := k_send_handle k\<rparr>))))"

definition verify_mech_list_mic :: "'h crypto \<Rightarrow> signature \<Rightarrow> bytes \<Rightarrow> ('h, unit) kop" where
  "verify_mech_list_mic C other input = (\<lambda>k.
     case k_recv_seal k of None \<Rightarrow> (Inl Type_Error, k)
     | Some key \<Rightarrow> (case rc4_new C key of
         Inl e \<Rightarrow> (Inl e, k)
       | Inr h \<Rightarrow> (case GSS_VerifyMIC C input other (k\<lparr>k_recv_handle := Some h\<rparr>) of
           (r, k') \<Rightarrow> (r, k'\<lparr>k_recv_handle := k_recv_handle k\<rparr>))))"

definition set_direction :: "bool \<Rightarrow> bool \<Rightarrow> 'h keys \<Rightarrow> 'h keys \<times> bool" where
  "set_direction is_acceptor wanted k =
     (if is_acceptor \<noteq> wanted then (k, is_acceptor)
      else (k\<lparr>k_send_sign := k_recv_sign k, k_recv_sign := k_send_sign k,
              k_send_seal := k_recv_seal k, k_recv_seal := k_send_seal k,
              k_send_handle := k_recv_handle k, k_recv_handle := k_send_handle k,
              k_send_seq := k_recv_seq k, k_recv_seq := k_send_seq k\<rparr>, \<not> is_acceptor))"

section \<open>What is wrapped is unwrapped\<close>

text \<open>A stream cipher: what a handle encrypts, an equal handle decrypts, and both move on alike.\<close>

definition stream_cipher :: "'h crypto \<Rightarrow> bool" where
  "stream_cipher C \<longleftrightarrow> (\<forall>h xs ys h'. rc4_update C h xs = (ys, h') \<longrightarrow> rc4_update C h ys = (xs, h'))"

definition in_step :: "'h keys \<Rightarrow> 'h keys \<Rightarrow> bool" where
  "in_step a b \<longleftrightarrow> k_send_handle a = k_recv_handle b \<and> k_send_sign a = k_recv_sign b"

lemma stream_cipherD: "stream_cipher C \<Longrightarrow> rc4_update C h xs = (ys, h') \<Longrightarrow> rc4_update C h ys = (xs, h')"
  unfolding stream_cipher_def by blast

lemma crypt_msgs_conf:
  "m_conf m \<Longrightarrow> rc4_update C h (m_data m) = (ys, h1) \<Longrightarrow>
     crypt_msgs C (Some h) (m # ms) =
       (case crypt_msgs C (Some h1) ms of (r, h2) \<Rightarrow> (rbind r (\<lambda>ms. Inr (m\<lparr>m_data := ys\<rparr> # ms)), h2))"
  by simp

lemma crypt_msgs_inverse:
  assumes "stream_cipher C" "crypt_msgs C h ms = (Inr xs, h')"
  shows "crypt_msgs C h xs = (Inr ms, h')"
  using assms(2)
proof (induction ms arbitrary: h xs)
  case (Cons m ms)
  show ?case
  proof (cases "m_conf m")
    case True
    with Cons.prems obtain h0 where h: "h = Some h0" by (cases h) auto
    obtain ys h1 where y: "rc4_update C h0 (m_data m) = (ys, h1)" by fastforce
    obtain r h2 where r: "crypt_msgs C (Some h1) ms = (r, h2)" by fastforce
    have "(rbind r (\<lambda>ms. Inr (m\<lparr>m_data := ys\<rparr> # ms)), h2) = (Inr xs, h')"
      using Cons.prems unfolding h crypt_msgs_conf [OF True y] r by simp
    then obtain zs where z: "r = Inr zs" "h2 = h'" "xs = m\<lparr>m_data := ys\<rparr> # zs"
      unfolding prod.inject rbind_Inr_iff by blast
    have "rc4_update C h0 (m_data (m\<lparr>m_data := ys\<rparr>)) = (m_data m, h1)"
      using stream_cipherD [OF assms(1) y] by simp
    with True have "crypt_msgs C h xs = (case crypt_msgs C (Some h1) zs of
        (r, h2) \<Rightarrow> (rbind r (\<lambda>ms. Inr (m\<lparr>m_data := ys\<rparr>\<lparr>m_data := m_data m\<rparr> # ms)), h2))"
      unfolding h z(3) by (intro crypt_msgs_conf) simp_all
    moreover have "crypt_msgs C (Some h1) zs = (Inr ms, h')" using r z by (intro Cons.IH) simp
    ultimately show ?thesis by simp
  next
    case False
    obtain r h2 where r: "crypt_msgs C h ms = (r, h2)" by fastforce
    with Cons.prems False obtain zs where z: "r = Inr zs" "h2 = h'" "xs = m # zs"
      by (auto simp: rbind_Inr_iff)
    with False r Cons.IH [of h zs] show ?thesis by simp
  qed
qed simp

lemma gss_wrap_eq:
  "gss_wrap C msgs k =
     (case crypt_msgs C (k_send_handle k) msgs of
        (Inl e, h) \<Rightarrow> (Inl e, k\<lparr>k_send_handle := h\<rparr>)
      | (Inr xs, h) \<Rightarrow> (case MAC C h (k_send_sign k) (k_send_seq k) (to_sign msgs) of
            Inl e \<Rightarrow> (Inl e, k\<lparr>k_send_handle := h\<rparr>)
          | Inr (sig, h') \<Rightarrow> (Inr (xs, sig), k\<lparr>k_send_handle := h', k_send_seq := k_send_seq k + 1\<rparr>)))"
  by (simp add: gss_wrap_def sbind_apply gss_getmic_def split: prod.split sum.split)

lemma gss_unwrap_eq:
  "gss_unwrap C msgs sig k =
     (case crypt_msgs C (k_recv_handle k) msgs of
        (Inl e, h) \<Rightarrow> (Inl e, k\<lparr>k_recv_handle := h\<rparr>)
      | (Inr xs, h) \<Rightarrow> (case MAC C h (k_recv_sign k) (sg_seq sig) (to_sign xs) of
            Inl e \<Rightarrow> (Inl e, k\<lparr>k_recv_handle := h, k_recv_seq := sg_seq sig\<rparr>)
          | Inr (s, h') \<Rightarrow> (if sg_checksum s \<noteq> sg_checksum sig then Inl Value_Error else Inr xs,
               k\<lparr>k_recv_handle := h', k_recv_seq := sg_seq sig\<rparr>)))"
  by (simp add: gss_unwrap_def sbind_apply gss_verifymic_def Let_def split: prod.split sum.split)

lemma MAC_seq: "MAC C h key sq msg = Inr (sig, h') \<Longrightarrow> sg_seq sig = sq"
  by (cases h; cases key) (auto simp: MAC_def rbind_Inr_iff Let_def case_prod_beta)

lemma wrap_unwrap:
  assumes "stream_cipher C" "in_step a b" "gss_wrap C msgs a = (Inr (xs, sig), a')"
  shows "\<exists>b'. gss_unwrap C xs sig b = (Inr msgs, b') \<and> in_step a' b'"
proof -
  obtain r h where rh: "crypt_msgs C (k_send_handle a) msgs = (r, h)" by fastforce
  with assms(3) obtain xs' where e: "crypt_msgs C (k_send_handle a) msgs = (Inr xs', h)"
    by (cases r) (simp_all add: gss_wrap_eq)
  with assms(3) obtain s h' where m: "MAC C h (k_send_sign a) (k_send_seq a) (to_sign msgs) = Inr (s, h')"
    by (cases "MAC C h (k_send_sign a) (k_send_seq a) (to_sign msgs)") (auto simp: gss_wrap_eq)
  from assms(3) e m have x: "xs' = xs" "s = sig" "a' = a\<lparr>k_send_handle := h', k_send_seq := k_send_seq a + 1\<rparr>"
    by (simp_all add: gss_wrap_eq)
  have "gss_unwrap C xs sig b = (Inr msgs, b\<lparr>k_recv_handle := h', k_recv_seq := k_send_seq a\<rparr>)"
    using crypt_msgs_inverse [OF assms(1) e] m MAC_seq [OF m] assms(2) x(1,2)
    by (simp add: gss_unwrap_eq in_step_def)
  moreover have "in_step a' (b\<lparr>k_recv_handle := h', k_recv_seq := k_send_seq a\<rparr>)"
    using assms(2) x(3) by (simp add: in_step_def)
  ultimately show ?thesis by blast
qed

lemma GSS_Wrap_roundtrip:
  assumes "stream_cipher C" "in_step a b" "GSS_Wrap C input True a = (Inr w, a')"
  shows "\<exists>b'. GSS_Unwrap C w b = (Inr input, b') \<and> in_step a' b'"
proof -
  let ?ms = "[\<lparr>m_conf = True, m_sign = True, m_data = input\<rparr>]"
  from assms(3) obtain xs sig where w: "gss_wrap C ?ms a = (Inr (xs, sig), a')" "w = (sig, m_data (hd xs))"
    by (auto simp: GSS_Wrap_def sbind_Inr_iff)
  from w(1) obtain h where c: "crypt_msgs C (k_send_handle a) ?ms = (Inr xs, h)"
    by (auto simp: gss_wrap_eq split: prod.splits sum.splits)
  then have "xs = [\<lparr>m_conf = True, m_sign = True, m_data = m_data (hd xs)\<rparr>]"
    by (auto split: option.splits prod.splits)
  with wrap_unwrap [OF assms(1,2) w(1)] w(2) show ?thesis by (auto simp: GSS_Unwrap_def sbind_apply)
qed

text \<open>A message that was only signed is deciphered too: what comes back, if anything, is not it.\<close>

lemma GSS_Wrap_signed_only:
  assumes "GSS_Wrap C input False a = (Inr w, a')" "k_recv_handle b = Some h" "fst (rc4_update C h input) \<noteq> input"
  shows "fst (GSS_Unwrap C w b) \<noteq> Inr input"
proof -
  from assms(1) have "snd w = input"
    by (auto simp: GSS_Wrap_def sbind_Inr_iff gss_wrap_eq split: prod.splits sum.splits)
  with assms(2,3) show ?thesis
    by (auto simp: GSS_Unwrap_def sbind_apply gss_unwrap_eq split: prod.splits sum.splits)
qed

fun wrap_all :: "'h crypto \<Rightarrow> gmsg list list \<Rightarrow> ('h, (gmsg list \<times> signature) list) kop" where
  "wrap_all C [] = ret []"
| "wrap_all C (ms # mss) = sbind (gss_wrap C ms) (\<lambda>x. sbind (wrap_all C mss) (\<lambda>xs. ret (x # xs)))"

fun unwrap_all :: "'h crypto \<Rightarrow> (gmsg list \<times> signature) list \<Rightarrow> ('h, gmsg list list) kop" where
  "unwrap_all C [] = ret []"
| "unwrap_all C ((xs, sig) # ws) = sbind (gss_unwrap C xs sig) (\<lambda>ms. sbind (unwrap_all C ws) (\<lambda>mss. ret (ms # mss)))"

lemma wrap_all_unwrap:
  assumes "stream_cipher C" "in_step a b" "wrap_all C mss a = (Inr ws, a')"
  shows "\<exists>b'. unwrap_all C ws b = (Inr mss, b') \<and> in_step a' b'"
  using assms(2,3)
proof (induction mss arbitrary: a b ws)
  case (Cons ms mss)
  from Cons.prems(2) obtain xs sig a1 ws1 where w: "gss_wrap C ms a = (Inr (xs, sig), a1)"
    "wrap_all C mss a1 = (Inr ws1, a')" "ws = (xs, sig) # ws1"
    by (auto simp: sbind_Inr_iff)
  from wrap_unwrap [OF assms(1) Cons.prems(1) w(1)] obtain b1 where
    b1: "gss_unwrap C xs sig b = (Inr ms, b1)" "in_step a1 b1" by blast
  from Cons.IH [OF b1(2) w(2)] obtain b' where "unwrap_all C ws1 b1 = (Inr mss, b')" "in_step a' b'" by blast
  with b1 w(3) show ?case by (auto simp: sbind_apply)
qed auto

text \<open>A cipher and digests to evaluate with: the stream is the number of octets enciphered so far.\<close>

definition toy_crypto :: "nat crypto" where
  "toy_crypto = \<lparr>hmac_md5 = (\<lambda>k m. replicate 16 (fold (+) (k @ m) 7)), md5 = (\<lambda>m. replicate 16 (fold (+) m 3)),
     rc4_new = (\<lambda>k. Inr (length k)), rc4_update = (\<lambda>h xs. (map (\<lambda>x. x XOR of_nat h) xs, h + length xs)),
     rc4_final = (\<lambda>_. [])\<rparr>"

lemma stream_cipher_toy: "stream_cipher toy_crypto"
  by (auto simp: stream_cipher_def toy_crypto_def o_def ac_simps)

text \<open>C15: Every message of a conversation that one side wraps, sealed or only signed, is unwrapped
  to itself by the other side, for as long as the two sides take them in the same order.\<close>

theorem ntlm_conversation:
  assumes "stream_cipher C" "k_send_handle a = k_recv_handle b" "k_send_sign a = k_recv_sign b"
    "wrap_all C mss a = (Inr ws, a')"
  shows "\<exists>b'. unwrap_all C ws b = (Inr mss, b')"
  using wrap_all_unwrap [OF assms(1) _ assms(4), of b] assms(2,3) by (auto simp: in_step_def)

lemma ntlm_conversation_witness:
  "\<exists>b'. unwrap_all toy_crypto
      [([\<lparr>m_conf = True, m_sign = True, m_data = [68, 70]\<rparr>], \<lparr>sg_version = 1, sg_checksum = replicate 8 0x89, sg_seq = 0\<rparr>)]
      (no_keys\<lparr>k_recv_handle := Some 5, k_recv_sign := Some [1, 2]\<rparr>) =
    (Inr [[\<lparr>m_conf = True, m_sign = True, m_data = [65, 67]\<rparr>]], b')"
proof -
  let ?a = "no_keys\<lparr>k_send_handle := Some 5, k_send_sign := Some [1, 2]\<rparr> :: nat keys"
  have "map_prod id k_send_seq (wrap_all toy_crypto [[\<lparr>m_conf = True, m_sign = True, m_data = [65, 67]\<rparr>]] ?a) =
      (Inr [([\<lparr>m_conf = True, m_sign = True, m_data = [68, 70]\<rparr>], \<lparr>sg_version = 1, sg_checksum = replicate 8 0x89, sg_seq = 0\<rparr>)], 1)"
    by code_simp
  then obtain a' where "wrap_all toy_crypto [[\<lparr>m_conf = True, m_sign = True, m_data = [65, 67]\<rparr>]] ?a =
      (Inr [([\<lparr>m_conf = True, m_sign = True, m_data = [68, 70]\<rparr>], \<lparr>sg_version = 1, sg_checksum = replicate 8 0x89, sg_seq = 0\<rparr>)], a')"
    by (cases "wrap_all toy_crypto [[\<lparr>m_conf = True, m_sign = True, m_data = [65, 67]\<rparr>]] ?a") simp
  from ntlm_conversation [OF stream_cipher_toy _ _ this] show ?thesis by simp
qed

text \<open>C37: What unwrapping returns is authenticated: the checksum that came with it is the one the
  receiver's key gives the plain text that is returned and the number the signature names,
  enciphered with the receiver's stream.\<close>

theorem ntlm_unwrap_authenticated:
  assumes "gss_unwrap C xs sig b = (Inr ms, b')"
  shows "\<exists>k h n. crypt_msgs C (k_recv_handle b) xs = (Inr ms, h) \<and> k_recv_sign b = Some k \<and>
    pack_i32 (sg_seq sig) = Inr n \<and>
    sg_checksum sig = (let c = take 8 (hmac_md5 C k (n @ to_sign ms)) in
      case h of None \<Rightarrow> c | Some h \<Rightarrow> fst (rc4_update C h c))"
proof -
  obtain r h where "crypt_msgs C (k_recv_handle b) xs = (r, h)" by fastforce
  with assms obtain ys where y: "crypt_msgs C (k_recv_handle b) xs = (Inr ys, h)"
    by (cases r) (simp_all add: gss_unwrap_eq)
  with assms obtain s h' where m: "MAC C h (k_recv_sign b) (sg_seq sig) (to_sign ys) = Inr (s, h')"
    by (cases "MAC C h (k_recv_sign b) (sg_seq sig) (to_sign ys)") (auto simp: gss_unwrap_eq)
  with assms y have s: "sg_checksum s = sg_checksum sig" "ys = ms"
    by (simp_all add: gss_unwrap_eq split: if_splits)
  from m obtain k n where "k_recv_sign b = Some k" "pack_i32 (sg_seq sig) = Inr n"
      "sg_checksum s = (let c = take 8 (hmac_md5 C k (n @ to_sign ys)) in
         case h of None \<Rightarrow> c | Some h \<Rightarrow> fst (rc4_update C h c))"
    by (cases "k_recv_sign b"; cases h) (auto simp: MAC_def rbind_Inr_iff Let_def case_prod_beta)
  with y s show ?thesis by auto
qed

lemma ntlm_unwrap_authenticated_witness:
  "\<exists>k. k_recv_sign (no_keys\<lparr>k_recv_handle := Some 5, k_recv_sign := Some [1, 2]\<rparr> :: nat keys) = Some k \<and>
     hd (replicate 8 0x89) = 7 XOR hd (hmac_md5 toy_crypto k ([0, 0, 0, 0] @ [65, 67]))"
proof -
  let ?b = "no_keys\<lparr>k_recv_handle := Some 5, k_recv_sign := Some [1, 2]\<rparr> :: nat keys"
  let ?xs = "[\<lparr>m_conf = True, m_sign = True, m_data = [68, 70]\<rparr>]"
  let ?sig = "\<lparr>sg_version = 1, sg_checksum = replicate 8 0x89, sg_seq = 0\<rparr>"
  let ?ms = "[\<lparr>m_conf = True, m_sign = True, m_data = [65, 67]\<rparr>]"
  have "map_prod id k_recv_seq (gss_unwrap toy_crypto ?xs ?sig ?b) = (Inr ?ms, 0)" by code_simp
  then obtain b' where "gss_unwrap toy_crypto ?xs ?sig ?b = (Inr ?ms, b')"
    by (cases "gss_unwrap toy_crypto ?xs ?sig ?b") simp
  from ntlm_unwrap_authenticated [OF this] have "k_recv_sign ?b = Some [1, 2]" by simp
  moreover have "hd (replicate 8 0x89) = 7 XOR hd (hmac_md5 toy_crypto [1, 2] ([0, 0, 0, 0] @ [65, 67]))"
    by code_simp
  ultimately show ?thesis by blast
qed

end
