(* ===== verification/Ntlm_Ssp.thy ===== *)
theory Ntlm_Ssp
  imports Ntlm_Crypto Md4
begin

text \<open>
  The NTLM security provider (\<open>NTLMSSP\<close> of \<open>layers/ntlm.py\<close>): the three messages as the fields
  the provider reads and writes, and the client's and server's steps on a context. What
  the packets encode to, Unicode's case mappings, the clock and random octets are arguments.
\<close>

section \<open>Text\<close>

text \<open>A string as its code points; encoding a lone surrogate raises UnicodeEncodeError, a
  ValueError.\<close>

type_synonym utext = "nat list"

definition utext :: "string \<Rightarrow> utext" where
  "utext s = map of_char s"

definition utf16_char :: "nat \<Rightarrow> bytes res" where
  "utf16_char c =
     (if 0xD800 \<le> c \<and> c \<le> 0xDFFF then Inl Value_Error
      else if c < 0x10000 then Inr (to_le 2 c)
      else Inr (to_le 2 (0xD800 + (c - 0x10000) div 0x400) @ to_le 2 (0xDC00 + (c - 0x10000) mod 0x400)))"

definition utf16le :: "utext \<Rightarrow> bytes res" where
  "utf16le s = rbind (rmap utf16_char s) (\<lambda>bs. Inr (concat bs))"

definition MD4le :: "utext \<Rightarrow> bytes res" where
  "MD4le x = rbind (utf16le x) Hash_MD4"

text \<open>\<open>user@realm\<close> or \<open>realm\user\<close>; nothing else is a user principal name.\<close>

definition upn_special :: "nat \<Rightarrow> bool" where
  "upn_special c \<longleftrightarrow> c = 0x40 \<or> c = 0x5C \<or> c = 0x2F"

definition parse_upn :: "utext \<Rightarrow> (utext \<times> utext) option" where
  "parse_upn upn =
     (let a = takeWhile (\<lambda>c. \<not> upn_special c) upn in
      case dropWhile (\<lambda>c. \<not> upn_special c) upn of
        [] \<Rightarrow> None
      | sep # b \<Rightarrow>
          if a = [] \<or> b = [] \<or> sep = 0x2F \<or> list_ex upn_special b then None
          else if sep = 0x40 then Some (a, b) else Some (b, a))"

section \<open>The messages\<close>

datatype av_value = Av_Text utext | Av_Num nat | Av_Host bytes bytes | Av_Bytes bytes | Av_None

record av_pair =
  av_id :: nat
  av_val :: av_value

record version =
  vn_major :: nat
  vn_minor :: nat
  vn_build :: nat

record negotiate =
  ng_variant :: nat
  ng_flags :: neg_flags
  ng_version :: version
  ng_domain :: "bytes option"
  ng_work :: "bytes option"

record challenge =
  ch_variant :: nat
  ch_server :: bytes
  ch_flags :: neg_flags
  ch_version :: version
  ch_target :: utext
  ch_info :: "av_pair list"

record nt_response =
  nr_proof :: bytes
  nr_time :: nat
  nr_client :: bytes
  nr_avs :: "av_pair list"

record authenticate =
  au_variant :: nat
  au_flags :: neg_flags
  au_version :: version
  au_user :: "utext option"
  au_domain :: "utext option"
  au_work :: "utext option"
  au_nt :: nt_response
  au_session_key :: "bytes option"
  au_mic :: bytes

datatype token = T_Negotiate negotiate | T_Challenge challenge | T_Authenticate authenticate | T_Other

text \<open>What the provider calls of other code.\<close>

record world =
  w_upper :: "utext \<Rightarrow> utext"
  w_lower :: "utext \<Rightarrow> utext"
  w_neg :: "negotiate \<Rightarrow> bytes"
  w_chal :: "challenge \<Rightarrow> bytes"
  w_auth :: "authenticate \<Rightarrow> bytes"
  w_av :: "av_pair \<Rightarrow> bytes"

definition getAv :: "av_pair list \<Rightarrow> nat \<Rightarrow> av_value res" where
  "getAv avs i = (case find (\<lambda>x. av_id x = i) avs of Some x \<Rightarrow> Inr (av_val x) | None \<Rightarrow> Inl Index_Error)"

text \<open>The value of an AV pair whose identifier makes it text.\<close>

definition getAv_text :: "av_pair list \<Rightarrow> nat \<Rightarrow> utext option" where
  "getAv_text avs i = (case getAv avs i of Inr (Av_Text t) \<Rightarrow> Some t | _ \<Rightarrow> None)"

section \<open>Proofs of possession\<close>

definition NTOWFv2 :: "'h crypto \<Rightarrow> world \<Rightarrow> utext \<Rightarrow> utext \<Rightarrow> utext \<Rightarrow> bytes option \<Rightarrow> bytes res" where
  "NTOWFv2 C W passwd user dom_name hash_nt =
     rbind (case hash_nt of Some h \<Rightarrow> Inr h | None \<Rightarrow> MD4le passwd) (\<lambda>h.
     rbind (utf16le (w_upper W user @ dom_name)) (\<lambda>x. Inr (hmac_md5 C h x)))"

definition session_base_key :: "'h crypto \<Rightarrow> bytes \<Rightarrow> bytes \<Rightarrow> bytes" where
  "session_base_key C key proof_str = hmac_md5 C key proof_str"

definition pack_u64 :: "nat \<Rightarrow> bytes res" where
  "pack_u64 v = (if v < 2 ^ 64 then Inr (to_le 8 v) else Inl Struct_Error)"

definition compute_nt_proof :: "'h crypto \<Rightarrow> world \<Rightarrow> nt_response \<Rightarrow> bytes \<Rightarrow> bytes \<Rightarrow> bytes res" where
  "compute_nt_proof C W r key server_challenge =
     rbind (pack_u64 (nr_time r)) (\<lambda>t.
       Inr (hmac_md5 C key (server_challenge @ [1] @ [1] @ replicate 6 0 @ t @ nr_client r @ replicate 4 0 @
         concat (map (w_av W) (nr_avs r)))))"

definition mic_of :: "'h crypto \<Rightarrow> world \<Rightarrow> authenticate \<Rightarrow> bytes \<Rightarrow> negotiate \<Rightarrow> challenge \<Rightarrow> bytes" where
  "mic_of C W a key neg chal = hmac_md5 C key (w_neg W neg @ w_chal W chal @ w_auth W (a\<lparr>au_mic := replicate 16 0\<rparr>))"

definition compute_mic :: "'h crypto \<Rightarrow> world \<Rightarrow> authenticate \<Rightarrow> bytes \<Rightarrow> negotiate \<Rightarrow> challenge \<Rightarrow> authenticate" where
  "compute_mic C W a key neg chal = a\<lparr>au_mic := mic_of C W a key neg chal\<rparr>"

definition verify_mic :: "'h crypto \<Rightarrow> world \<Rightarrow> authenticate \<Rightarrow> bytes \<Rightarrow> negotiate \<Rightarrow> challenge \<Rightarrow> bool" where
  "verify_mic C W a key neg chal \<longleftrightarrow> au_mic a = mic_of C W a key neg chal"

section \<open>The provider\<close>

text \<open>\<open>NTLM_VALUES\<close>: the keys that replace defaults. An AV key may be given with the value \<open>None\<close>.\<close>

record ntlm_values =
  nv_flags :: "neg_flags option"
  nv_major :: "nat option"
  nv_minor :: "nat option"
  nv_build :: "nat option"
  nv_domain :: "bytes option"
  nv_work :: "bytes option"
  nv_challenge :: "bytes option"
  nv_target :: "utext option"
  nv_av :: "(string \<times> av_value option) list"

definition no_values :: ntlm_values where
  "no_values = \<lparr>nv_flags = None, nv_major = None, nv_minor = None, nv_build = None, nv_domain = None,
     nv_work = None, nv_challenge = None, nv_target = None, nv_av = []\<rparr>"

record ssp =
  ssp_upn :: "utext option"
  ssp_hash :: "bytes option"
  ssp_variant :: nat
  ssp_mic :: bool
  ssp_domain_fqdn :: utext
  ssp_domain_nb :: utext
  ssp_computer_nb :: utext
  ssp_computer_fqdn :: utext
  ssp_identities :: "(utext \<times> bytes) list option"
  ssp_no_check :: bool
  ssp_challenge :: "bytes option"
  ssp_values :: ntlm_values

definition RECENT :: nat where "RECENT = 2"
definition XP_OR_2003 :: nat where "XP_OR_2003 = 1"

record ssp_args =
  sa_upn :: "utext option"
  sa_hash :: "bytes option"
  sa_password :: "utext option"
  sa_mic :: bool
  sa_variant :: nat
  sa_values :: ntlm_values
  sa_domain_fqdn :: "utext option"
  sa_domain_nb :: "utext option"
  sa_computer_nb :: "utext option"
  sa_computer_fqdn :: "utext option"
  sa_identities :: "(utext \<times> bytes) list option"
  sa_no_check :: bool
  sa_challenge :: "bytes option"

text \<open>\<open>x or default\<close> for a text: the empty one is as none.\<close>

definition text_or :: "utext option \<Rightarrow> utext \<Rightarrow> utext" where
  "text_or x d = (case x of None \<Rightarrow> d | Some t \<Rightarrow> if t = [] then d else t)"

definition ssp_init :: "world \<Rightarrow> ssp_args \<Rightarrow> ssp res" where
  "ssp_init W a =
     rbind (case (sa_hash a, sa_password a) of
         (None, Some pw) \<Rightarrow> rbind (MD4le pw) (\<lambda>h. Inr (Some h))
       | (h, _) \<Rightarrow> Inr h) (\<lambda>hash_nt.
     (let upn = (case sa_upn a of None \<Rightarrow> None | Some u \<Rightarrow> parse_upn u);
          fqdn = text_or (case (upn, sa_domain_fqdn a) of (Some (_, realm), None) \<Rightarrow> Some realm | (_, d) \<Rightarrow> d)
            (utext ''WORKGROUP'');
          comp_nb = text_or (case (upn, sa_computer_nb a) of (Some (user, _), None) \<Rightarrow> Some user | (_, c) \<Rightarrow> c)
            (utext ''WIN10'')
      in Inr \<lparr>ssp_upn = sa_upn a, ssp_hash = hash_nt, ssp_variant = sa_variant a,
           ssp_mic = (sa_variant a = RECENT \<and> sa_mic a),
           ssp_domain_fqdn = fqdn,
           ssp_domain_nb = text_or (sa_domain_nb a) (take 15 (w_upper W (takeWhile (\<lambda>c. c \<noteq> 0x2E) fqdn))),
           ssp_computer_nb = comp_nb,
           ssp_computer_fqdn = text_or (sa_computer_fqdn a) (w_lower W comp_nb @ utext ''.'' @ fqdn),
           ssp_identities = (case sa_identities a of None \<Rightarrow> None
             | Some ids \<Rightarrow> Some (rev (map (\<lambda>(u, h). (w_upper W u, h)) ids))),
           ssp_no_check = sa_no_check a, ssp_challenge = sa_challenge a, ssp_values = sa_values a\<rparr>))"

end
