(* ===== verification/Ntlm_Steps.thy ===== *)
theory Ntlm_Steps
  imports Ntlm_Ssp
begin

text \<open>
  The steps of the client (\<open>GSS_Init_sec_context\<close>), of the server (\<open>GSS_Accept_sec_context\<close>) and of
  an observer (\<open>GSS_Passive\<close>) on a security context of NTLM. The clock and the random octets a
  step draws are its argument. Warnings are left out.
\<close>

section \<open>The context\<close>

datatype ssp_state = INIT | CLI_SENT_NEGO | CLI_SENT_AUTH | SRV_SENT_CHAL

record gss_flags =
  g_integ :: bool
  g_conf :: bool
  g_identify :: bool

record 'h ctx =
  cx_state :: ssp_state
  cx_keys :: "'h keys"
  cx_neg :: "negotiate option"
  cx_chal :: "challenge option"
  cx_host :: "utext option"
  cx_dom :: "utext option"
  cx_acceptor :: bool
  cx_flags :: gss_flags
  cx_passive :: bool

definition new_context :: "bool \<Rightarrow> gss_flags option \<Rightarrow> 'h ctx" where
  "new_context acceptor flags =
     \<lparr>cx_state = INIT, cx_keys = no_keys, cx_neg = None, cx_chal = None, cx_host = None, cx_dom = None,
      cx_acceptor = acceptor,
      cx_flags = (case flags of None \<Rightarrow> \<lparr>g_integ = False, g_conf = False, g_identify = False\<rparr> | Some f \<Rightarrow> f),
      cx_passive = False\<rparr>"

definition clifailure :: "'h ctx \<Rightarrow> 'h ctx" where
  "clifailure c = new_context (cx_acceptor c) (Some (cx_flags c))"

datatype status =
    COMPLETE | CONTINUE_NEEDED | DEFECTIVE_TOKEN | DEFECTIVE_CREDENTIAL | BAD_MIC | BAD_BINDINGS

record env =
  e_now :: nat
  e_client_chal :: bytes
  e_machine :: bytes
  e_permanent :: bytes
  e_session_key :: bytes
  e_server_chal :: bytes

type_synonym ('h, 'a) cop = "('h ctx, py_exn, 'a) comp"

definition on_keys :: "('h, 'a) kop \<Rightarrow> ('h, 'a) cop" where
  "on_keys f = (\<lambda>c. case f (cx_keys c) of (r, k) \<Rightarrow> (r, c\<lparr>cx_keys := k\<rparr>))"

text \<open>The keys of one side: it signs as \<open>me\<close> and its peer as \<open>peer\<close>; cipher objects are made in the
  order of the source, and a key the cipher refuses leaves the earlier assignments.\<close>

definition set_key :: "'a res \<Rightarrow> ('a \<Rightarrow> 'h keys \<Rightarrow> 'h keys) \<Rightarrow> ('h, unit) kop" where
  "set_key r upd = (\<lambda>k. case r of Inl e \<Rightarrow> (Inl e, k) | Inr x \<Rightarrow> (Inr (), upd x k))"

definition install_keys :: "'h crypto \<Rightarrow> neg_flags \<Rightarrow> bytes \<Rightarrow> string \<Rightarrow> string \<Rightarrow> ('h, unit) kop" where
  "install_keys C f key me peer =
     sbind (set_key (SIGNKEY C f key me) (\<lambda>x k. k\<lparr>k_send_sign := x\<rparr>)) (\<lambda>_.
     sbind (set_key (SEALKEY C f key me) (\<lambda>x k. k\<lparr>k_send_seal := Some x\<rparr>)) (\<lambda>_.
     sbind (set_key (rbind (SEALKEY C f key me) (rc4_new C)) (\<lambda>x k. k\<lparr>k_send_handle := Some x\<rparr>)) (\<lambda>_.
     sbind (set_key (SIGNKEY C f key peer) (\<lambda>x k. k\<lparr>k_recv_sign := x\<rparr>)) (\<lambda>_.
     sbind (set_key (SEALKEY C f key peer) (\<lambda>x k. k\<lparr>k_recv_seal := Some x\<rparr>)) (\<lambda>_.
            set_key (rbind (SEALKEY C f key peer) (rc4_new C)) (\<lambda>x k. k\<lparr>k_recv_handle := Some x\<rparr>))))))"

definition set_session :: "bytes \<Rightarrow> 'h keys \<Rightarrow> 'h keys" where
  "set_session key k = k\<lparr>k_exported := Some key, k_session := Some key\<rparr>"

section \<open>The client\<close>

definition set_version :: "ntlm_values \<Rightarrow> bool \<Rightarrow> version \<Rightarrow> version" where
  "set_version v with_build n =
     \<lparr>vn_major = case_option (vn_major n) id (nv_major v),
      vn_minor = case_option (vn_minor n) id (nv_minor v),
      vn_build = (if with_build then case_option (vn_build n) id (nv_build v) else vn_build n)\<rparr>"

definition windows_version :: version where
  "windows_version = \<lparr>vn_major = 10, vn_minor = 0, vn_build = 26100\<rparr>"

definition negotiate_flags :: "ssp \<Rightarrow> gss_flags \<Rightarrow> neg_flags" where
  "negotiate_flags P g =
     {''NEGOTIATE_UNICODE'', ''REQUEST_TARGET'', ''NEGOTIATE_NTLM'', ''NEGOTIATE_ALWAYS_SIGN'', ''TARGET_TYPE_DOMAIN'',
      ''NEGOTIATE_EXTENDED_SESSIONSECURITY'', ''NEGOTIATE_TARGET_INFO'', ''NEGOTIATE_128'', ''NEGOTIATE_56''} \<union>
     (if XP_OR_2003 \<le> ssp_variant P then {''NEGOTIATE_VERSION''} else {}) \<union>
     (if g_integ g \<or> g_conf g then {''NEGOTIATE_KEY_EXCH''} else {}) \<union>
     (if g_integ g then {''NEGOTIATE_SIGN''} else {}) \<union>
     (if g_conf g then {''NEGOTIATE_SEAL''} else {}) \<union>
     (if g_identify g then {''NEGOTIATE_IDENTIFY''} else {})"

definition negotiate_token :: "ssp \<Rightarrow> gss_flags \<Rightarrow> negotiate" where
  "negotiate_token P g =
     (let v = ssp_values P in
      \<lparr>ng_variant = ssp_variant P, ng_flags = case_option (negotiate_flags P g) id (nv_flags v),
       ng_version = set_version v True windows_version, ng_domain = nv_domain v, ng_work = nv_work v\<rparr>)"

text \<open>The AV pairs of the response: the server's but the last, and the client's own.\<close>

definition client_avs ::
  "ssp \<Rightarrow> env \<Rightarrow> utext option \<Rightarrow> bytes option \<Rightarrow> utext option \<Rightarrow> av_pair list \<Rightarrow> av_pair list res" where
  "client_avs P e target bindings host info =
     rbind (case target of
         Some t \<Rightarrow> if t \<noteq> [] then Inr t
           else (case host of None \<Rightarrow> Inl Type_Error | Some h \<Rightarrow> Inr (utext ''host/'' @ h))
       | None \<Rightarrow> (case host of None \<Rightarrow> Inl Type_Error | Some h \<Rightarrow> Inr (utext ''host/'' @ h))) (\<lambda>name.
     Inr (butlast info @
       (if ssp_mic P then [\<lparr>av_id = 6, av_val = Av_Num 2\<rparr>] else []) @
       [\<lparr>av_id = 8, av_val = Av_Host (e_machine e) (e_permanent e)\<rparr>] @
       (case bindings of None \<Rightarrow> [] | Some d \<Rightarrow> [\<lparr>av_id = 10, av_val = Av_Bytes d\<rparr>]) @
       [\<lparr>av_id = 9, av_val = Av_Text name\<rparr>, \<lparr>av_id = 0, av_val = Av_Text []\<rparr>]))"

text \<open>The AUTHENTICATE message and the exported session key.\<close>

definition authenticate_token ::
  "'h crypto \<Rightarrow> world \<Rightarrow> ssp \<Rightarrow> env \<Rightarrow> utext \<Rightarrow> bytes \<Rightarrow> utext option \<Rightarrow> bytes option \<Rightarrow> utext option \<Rightarrow> utext option
     \<Rightarrow> negotiate option \<Rightarrow> challenge \<Rightarrow> (authenticate \<times> bytes) res" where
  "authenticate_token C W P e upn hash_nt target bindings host server_dom neg ch =
     (let (user, realm) = (case parse_upn upn of Some (u, r) \<Rightarrow> (u, Some r) | None \<Rightarrow> (upn, server_dom));
          domain_name = (case realm of None \<Rightarrow> ssp_domain_fqdn P | Some r \<Rightarrow> r);
          v = ssp_values P in
      rbind (client_avs P e target bindings host (ch_info ch)) (\<lambda>avs.
      let cr = \<lparr>nr_proof = [], nr_time = e_now e, nr_client = e_client_chal e, nr_avs = avs\<rparr> in
      rbind (NTOWFv2 C W [] user domain_name (Some hash_nt)) (\<lambda>key.
      rbind (compute_nt_proof C W cr key (ch_server ch)) (\<lambda>pr.
      let base = session_base_key C key pr;
          tok = \<lparr>au_variant = ssp_variant P, au_flags = case_option (ch_flags ch) id (nv_flags v),
            au_version = set_version v True windows_version, au_user = Some user, au_domain = Some domain_name,
            au_work = Some (ssp_computer_nb P), au_nt = cr\<lparr>nr_proof := pr\<rparr>, au_session_key = None, au_mic = []\<rparr> in
      rbind (if ''NEGOTIATE_KEY_EXCH'' \<in> ch_flags ch
             then rbind (RC4K C base (e_session_key e)) (\<lambda>x. Inr (tok\<lparr>au_session_key := Some x\<rparr>, e_session_key e))
             else Inr (tok, base)) (\<lambda>(tok, exported).
      if ssp_mic P
      then (case neg of None \<Rightarrow> Inl Type_Error | Some n \<Rightarrow> Inr (compute_mic C W tok exported n ch, exported))
      else Inr (tok, exported))))))"

definition first_some :: "'a option \<Rightarrow> 'a option \<Rightarrow> 'a option" where
  "first_some a b = (case a of Some x \<Rightarrow> Some x | None \<Rightarrow> b)"

definition gss_init ::
  "'h crypto \<Rightarrow> world \<Rightarrow> ssp \<Rightarrow> env \<Rightarrow> utext option \<Rightarrow> bytes option \<Rightarrow> token option \<Rightarrow> ('h, token option \<times> status) cop" where
  "gss_init C W P e target bindings input = (\<lambda>c.
     case cx_state c of
       INIT \<Rightarrow>
         (let tok = negotiate_token P (cx_flags c) in
          (Inr (Some (T_Negotiate tok), CONTINUE_NEEDED),
           c\<lparr>cx_neg := Some tok, cx_keys := (cx_keys c)\<lparr>k_session := None\<rparr>, cx_state := CLI_SENT_NEGO\<rparr>))
     | CLI_SENT_NEGO \<Rightarrow>
         (case (ssp_upn P, ssp_hash P) of
            (Some upn, Some hash_nt) \<Rightarrow>
              (case input of
                 Some (T_Challenge ch) \<Rightarrow>
                   (let c = c\<lparr>cx_host := first_some (getAv_text (ch_info ch) 1) (cx_host c),
                              cx_dom := first_some (getAv_text (ch_info ch) 2) (cx_dom c)\<rparr> in
                    case authenticate_token C W P e upn hash_nt target bindings (cx_host c) (cx_dom c) (cx_neg c) ch of
                       Inl x \<Rightarrow> (Inl x, c)
                     | Inr (tok, exported) \<Rightarrow>
                         sbind (on_keys (\<lambda>k. (Inr (), set_session exported k))) (\<lambda>_.
                         sbind (on_keys (install_keys C (au_flags tok) exported ''Client'' ''Server'')) (\<lambda>_.
                         (\<lambda>c. (Inr (Some (T_Authenticate tok), COMPLETE), c\<lparr>cx_state := CLI_SENT_AUTH\<rparr>)))) c)
               | _ \<Rightarrow> (Inr (None, DEFECTIVE_TOKEN), c))
          | _ \<Rightarrow> (Inl Value_Error, c))
     | CLI_SENT_AUTH \<Rightarrow> (Inr (None, if input \<noteq> None then DEFECTIVE_TOKEN else COMPLETE), c)
     | SRV_SENT_CHAL \<Rightarrow> (Inl Value_Error, c))"

section \<open>The server\<close>

definition challenge_flags :: "ssp \<Rightarrow> neg_flags \<Rightarrow> neg_flags" where
  "challenge_flags P f =
     {''NEGOTIATE_UNICODE'', ''REQUEST_TARGET'', ''NEGOTIATE_NTLM'', ''NEGOTIATE_ALWAYS_SIGN'',
      ''NEGOTIATE_EXTENDED_SESSIONSECURITY'', ''NEGOTIATE_TARGET_INFO'', ''TARGET_TYPE_DOMAIN'', ''NEGOTIATE_128'',
      ''NEGOTIATE_KEY_EXCH'', ''NEGOTIATE_56''} \<union>
     (if XP_OR_2003 \<le> ssp_variant P then {''NEGOTIATE_VERSION''} else {}) \<union>
     (if ''NEGOTIATE_SIGN'' \<in> f then {''NEGOTIATE_SIGN''} else {}) \<union>
     (if ''NEGOTIATE_SEAL'' \<in> f then {''NEGOTIATE_SEAL''} else {})"

definition default_info :: "ssp \<Rightarrow> nat \<Rightarrow> av_pair list" where
  "default_info P now =
     [\<lparr>av_id = 1, av_val = Av_Text (ssp_computer_nb P)\<rparr>, \<lparr>av_id = 2, av_val = Av_Text (ssp_domain_nb P)\<rparr>,
      \<lparr>av_id = 3, av_val = Av_Text (ssp_computer_fqdn P)\<rparr>, \<lparr>av_id = 4, av_val = Av_Text (ssp_domain_fqdn P)\<rparr>,
      \<lparr>av_id = 5, av_val = Av_Text (ssp_domain_fqdn P)\<rparr>, \<lparr>av_id = 7, av_val = Av_Num now\<rparr>,
      \<lparr>av_id = 0, av_val = Av_Text []\<rparr>]"

text \<open>The list of AV pairs rewritten by \<open>NTLM_VALUES\<close>: the default of \<open>get\<close> is looked up in any
  case, and a key given as \<open>None\<close> takes its pair away.\<close>

definition av_names :: "(nat \<times> string option) list" where
  "av_names = [(2, Some ''NetbiosDomainName''), (1, Some ''NetbiosComputerName''), (4, Some ''DnsDomainName''),
     (3, Some ''DnsComputerName''), (5, Some ''DnsTreeName''), (6, Some ''Flags''), (7, Some ''Timestamp''), (0, None)]"

fun override_avs :: "(string \<times> av_value option) list \<Rightarrow> av_pair list \<Rightarrow> (nat \<times> string option) list \<Rightarrow> av_pair list res" where
  "override_avs vals info [] = Inr []"
| "override_avs vals info ((i, x) # names) =
     (let given = (case x of None \<Rightarrow> None | Some k \<Rightarrow> map_of vals k);
          old = map_of (rev (map (\<lambda>p. (av_id p, av_val p)) info)) i in
      if (given \<noteq> None \<or> old \<noteq> None) \<and> given \<noteq> Some None then
        (case old of None \<Rightarrow> Inl Key_Error
         | Some d \<Rightarrow> rbind (override_avs vals info names) (\<lambda>r.
             Inr (\<lparr>av_id = i, av_val = (case given of Some (Some v) \<Rightarrow> v | _ \<Rightarrow> d)\<rparr> # r)))
      else override_avs vals info names)"

definition values_given :: "ntlm_values \<Rightarrow> bool" where
  "values_given v \<longleftrightarrow> nv_flags v \<noteq> None \<or> nv_major v \<noteq> None \<or> nv_minor v \<noteq> None \<or> nv_build v \<noteq> None \<or>
     nv_domain v \<noteq> None \<or> nv_work v \<noteq> None \<or> nv_challenge v \<noteq> None \<or> nv_target v \<noteq> None \<or> nv_av v \<noteq> []"

definition challenge_token :: "ssp \<Rightarrow> env \<Rightarrow> negotiate \<Rightarrow> challenge res" where
  "challenge_token P e neg =
     (let v = ssp_values P;
          tok = \<lparr>ch_variant = ssp_variant P,
            ch_server = (case ssp_challenge P of Some s \<Rightarrow> if s = [] then e_server_chal e else s | None \<Rightarrow> e_server_chal e),
            ch_flags = challenge_flags P (ng_flags neg), ch_version = windows_version, ch_target = [],
            ch_info = default_info P (e_now e)\<rparr> in
      if values_given v then
        (let tok = tok\<lparr>ch_server := case_option (ch_server tok) id (nv_challenge v),
                       ch_flags := case_option (ch_flags tok) id (nv_flags v),
                       ch_version := set_version v False (ch_version tok),
                       ch_target := case_option (ch_target tok) id (nv_target v)\<rparr>
         in rbind (override_avs (nv_av v) (ch_info tok) av_names) (\<lambda>avs. Inr (tok\<lparr>ch_info := avs\<rparr>)))
      else Inr tok)"

text \<open>The user's key from the identities, and the session key from the response.\<close>

definition identity_key :: "'h crypto \<Rightarrow> world \<Rightarrow> ssp \<Rightarrow> authenticate \<Rightarrow> bytes option res" where
  "identity_key C W P a =
     (case (map_option (w_upper W) (au_user a), ssp_identities P) of
        (Some user, Some ids) \<Rightarrow>
          (case map_of ids user of
             None \<Rightarrow> Inr None
           | Some h \<Rightarrow> rbind (NTOWFv2 C W [] user (case_option [] id (au_domain a)) (Some h)) (\<lambda>k. Inr (Some k)))
      | _ \<Rightarrow> Inr None)"

definition get_session_base_key :: "'h crypto \<Rightarrow> world \<Rightarrow> ssp \<Rightarrow> authenticate \<Rightarrow> bytes option res" where
  "get_session_base_key C W P a =
     rbind (identity_key C W P a) (\<lambda>k. Inr (map_option (\<lambda>k. session_base_key C k (nr_proof (au_nt a))) k))"

definition check_login :: "'h crypto \<Rightarrow> world \<Rightarrow> ssp \<Rightarrow> challenge option \<Rightarrow> authenticate \<Rightarrow> bool res" where
  "check_login C W P ch a =
     rbind (if ssp_identities P = None then Inl Type_Error else identity_key C W P a) (\<lambda>k.
       case k of None \<Rightarrow> Inr False
       | Some key \<Rightarrow> (case ch of None \<Rightarrow> Inl Attribute_Error
         | Some ch \<Rightarrow> rbind (compute_nt_proof C W (au_nt a) key (ch_server ch)) (\<lambda>pr.
             Inr (pr = nr_proof (au_nt a)))))"

text \<open>The MIC is checked when the response says it has one.\<close>

definition mic_refused :: "'h crypto \<Rightarrow> world \<Rightarrow> authenticate \<Rightarrow> bytes \<Rightarrow> negotiate option \<Rightarrow> challenge option \<Rightarrow> bool res" where
  "mic_refused C W a key neg ch =
     (case getAv (nr_avs (au_nt a)) 6 of
        Inl _ \<Rightarrow> Inr False
      | Inr (Av_Num f) \<Rightarrow>
          if f AND 2 \<noteq> 0 then
            (case (neg, ch) of (Some n, Some c) \<Rightarrow> Inr (\<not> verify_mic C W a key n c) | _ \<Rightarrow> Inl Type_Error)
          else Inr False
      | Inr _ \<Rightarrow> Inl Type_Error)"

text \<open>\<open>bindings\<close> is the digest the server expects; \<open>allow\<close> is whether \<open>req_flags\<close>, if given, allow
  that the client sent none.\<close>

definition bindings_refused :: "authenticate \<Rightarrow> bytes option \<Rightarrow> bool option \<Rightarrow> bool res" where
  "bindings_refused a bindings allow =
     (case bindings of
        None \<Rightarrow> Inr (allow = Some False)
      | Some d \<Rightarrow> (case getAv (nr_avs (au_nt a)) 10 of
            Inr v \<Rightarrow> Inr (v \<noteq> Av_Bytes d)
          | Inl _ \<Rightarrow> (case allow of None \<Rightarrow> Inl Type_Error | Some b \<Rightarrow> Inr (\<not> b))))"

definition server_session_key :: "'h crypto \<Rightarrow> authenticate \<Rightarrow> bytes \<Rightarrow> bytes res" where
  "server_session_key C a base =
     (if ''NEGOTIATE_KEY_EXCH'' \<in> au_flags a
      then RC4K C base (case au_session_key a of Some x \<Rightarrow> x | None \<Rightarrow> replicate 16 0) else Inr base)"

text \<open>The value of the function, or \<open>None\<close> where it falls off its end.\<close>

type_synonym answer = "(token option \<times> status) option"

definition accept_authenticate ::
  "'h crypto \<Rightarrow> world \<Rightarrow> ssp \<Rightarrow> bool option \<Rightarrow> bytes option \<Rightarrow> authenticate \<Rightarrow> ('h, answer) cop" where
  "accept_authenticate C W P allow bindings a =
     (if ssp_no_check P then ret (Some (None, COMPLETE))
      else sbind (lift (get_session_base_key C W P a)) (\<lambda>base.
        if base = None \<or> base = Some [] then
          (\<lambda>c. (Inr (Some (None, DEFECTIVE_CREDENTIAL)),
                c\<lparr>cx_keys := (cx_keys c)\<lparr>k_session := None\<rparr>, cx_state := INIT\<rparr>))
        else
        sbind (lift (server_session_key C a (the base))) (\<lambda>key.
        sbind (on_keys (\<lambda>k. (Inr (), set_session key k))) (\<lambda>_.
        sbind (\<lambda>c. (mic_refused C W a key (cx_neg c) (cx_chal c), c)) (\<lambda>bad_mic.
        if bad_mic then ret (Some (None, BAD_MIC))
        else
        sbind (lift (bindings_refused a bindings allow)) (\<lambda>bad_bnd.
        if bad_bnd then ret (Some (None, BAD_BINDINGS))
        else
        sbind (on_keys (install_keys C (au_flags a) key ''Server'' ''Client'')) (\<lambda>_.
        sbind (\<lambda>c. (check_login C W P (cx_chal c) a, c)) (\<lambda>ok.
        if ok then
          (\<lambda>c. (Inr (Some (None, COMPLETE)), c\<lparr>cx_flags := (cx_flags c)\<lparr>
             g_integ := g_integ (cx_flags c) \<or> ''NEGOTIATE_SIGN'' \<in> au_flags a,
             g_conf := g_conf (cx_flags c) \<or> ''NEGOTIATE_SEAL'' \<in> au_flags a\<rparr>\<rparr>))
        else ret None))))))))"

definition gss_accept ::
  "'h crypto \<Rightarrow> world \<Rightarrow> ssp \<Rightarrow> env \<Rightarrow> bool option \<Rightarrow> bytes option \<Rightarrow> token option \<Rightarrow> ('h, answer) cop" where
  "gss_accept C W P e allow bindings input = (\<lambda>c.
     case cx_state c of
       INIT \<Rightarrow>
         (case input of
            Some (T_Negotiate neg) \<Rightarrow>
              (case challenge_token P e neg of
                 Inl x \<Rightarrow> (Inl x, c\<lparr>cx_neg := Some neg\<rparr>)
               | Inr tok \<Rightarrow> (Inr (Some (Some (T_Challenge tok), CONTINUE_NEEDED)),
                   c\<lparr>cx_neg := Some neg, cx_chal := Some tok, cx_state := SRV_SENT_CHAL\<rparr>))
          | _ \<Rightarrow> (Inr (Some (None, DEFECTIVE_TOKEN)), c))
     | SRV_SENT_CHAL \<Rightarrow>
         (case input of
            Some (T_Authenticate a) \<Rightarrow> accept_authenticate C W P allow bindings a c
          | _ \<Rightarrow> (Inr (Some (None, DEFECTIVE_TOKEN)), c))
     | _ \<Rightarrow> (Inl Value_Error, c))"

section \<open>The observer\<close>

definition passive_context :: "'h ctx" where
  "passive_context = (new_context True None)\<lparr>cx_passive := True\<rparr>"

text \<open>\<open>None\<close> instead of the context is returned where a message is not the one expected.\<close>

definition gss_passive ::
  "'h crypto \<Rightarrow> world \<Rightarrow> ssp \<Rightarrow> env \<Rightarrow> token option \<Rightarrow> ('h, bool \<times> status) cop" where
  "gss_passive C W P e input = (\<lambda>c.
     case cx_state c of
       INIT \<Rightarrow>
         (case input of Some (T_Negotiate neg) \<Rightarrow>
            (Inr (True, CONTINUE_NEEDED), c\<lparr>cx_neg := Some neg, cx_state := CLI_SENT_NEGO\<rparr>)
          | _ \<Rightarrow> (Inr (False, DEFECTIVE_TOKEN), c))
     | CLI_SENT_NEGO \<Rightarrow>
         (case input of Some (T_Challenge ch) \<Rightarrow>
            (Inr (True, CONTINUE_NEEDED), c\<lparr>cx_chal := Some ch, cx_state := SRV_SENT_CHAL\<rparr>)
          | _ \<Rightarrow> (Inr (False, DEFECTIVE_TOKEN), c))
     | SRV_SENT_CHAL \<Rightarrow>
         (case input of Some (T_Authenticate a) \<Rightarrow>
            sbind (accept_authenticate C W P (Some True) None a) (\<lambda>r.
              case r of None \<Rightarrow> raise Type_Error
              | Some (_, st) \<Rightarrow> (\<lambda>c. (Inr (True, st), c\<lparr>cx_state := INIT\<rparr>))) c
          | _ \<Rightarrow> (Inr (False, DEFECTIVE_TOKEN), c))
     | CLI_SENT_AUTH \<Rightarrow> (Inl Value_Error, c))"

definition passive_set_direction :: "bool \<Rightarrow> 'h ctx \<Rightarrow> 'h ctx" where
  "passive_set_direction wanted c =
     (case set_direction (cx_acceptor c) wanted (cx_keys c) of (k, acc) \<Rightarrow> c\<lparr>cx_keys := k, cx_acceptor := acc\<rparr>)"

definition supports_mech_list_mic :: "ssp \<Rightarrow> bool" where
  "supports_mech_list_mic P \<longleftrightarrow> ssp_mic P \<and> \<not> ssp_no_check P"

end
