(* ===== verification/Ntlm_Correct.thy ===== *)
theory Ntlm_Correct
  imports Ntlm_Steps
begin

text \<open>
  What the NTLM provider guarantees: a client and a server that share the password's hash end
  with the same session key and mirrored keys; where a context has keys.
\<close>

section \<open>What is relied on\<close>

text \<open>The digests have sixteen octets, RC4 is a stream cipher that takes keys of that length and
  has no final octets, and upper case is upper case again.\<close>

definition crypto_ok :: "'h crypto \<Rightarrow> bool" where
  "crypto_ok C \<longleftrightarrow> stream_cipher C \<and> (\<forall>h. rc4_final C h = []) \<and> (\<forall>k m. length (hmac_md5 C k m) = 16) \<and>
     (\<forall>m. length (md5 C m) = 16) \<and> (\<forall>k. length k = 16 \<longrightarrow> (\<exists>h. rc4_new C k = Inr h))"

definition upper_ok :: "world \<Rightarrow> bool" where
  "upper_ok W \<longleftrightarrow> (\<forall>u. w_upper W (w_upper W u) = w_upper W u)"

lemma crypto_okD:
  assumes "crypto_ok C"
  shows "stream_cipher C" "rc4_final C h = []" "length (hmac_md5 C k m) = 16" "length (md5 C m) = 16"
    "length k = 16 \<Longrightarrow> \<exists>h. rc4_new C k = Inr h" "hmac_md5 C k m \<noteq> []"
proof -
  show "stream_cipher C" "rc4_final C h = []" and l: "length (hmac_md5 C k m) = 16" and "length (md5 C m) = 16"
    "length k = 16 \<Longrightarrow> \<exists>h. rc4_new C k = Inr h"
    using assms unfolding crypto_ok_def by blast+
  from l show "hmac_md5 C k m \<noteq> []" by auto
qed

text \<open>RC4 with the same key undoes itself.\<close>

lemma RC4K_twice:
  assumes "crypto_ok C" "length k = 16"
  shows "\<exists>y. RC4K C k x = Inr y \<and> RC4K C k y = Inr x"
proof -
  obtain h where h: "rc4_new C k = Inr h" using crypto_okD(5) [OF assms(1,2)] by blast
  obtain y h' where y: "rc4_update C h x = (y, h')" by fastforce
  have "rc4_update C h y = (x, h')" by (rule stream_cipherD [OF crypto_okD(1) [OF assms(1)] y])
  with h y crypto_okD(2) [OF assms(1)] show ?thesis by (simp add: RC4K_def)
qed

section \<open>Keys\<close>

lemma install_keys_ok:
  assumes "crypto_ok C" "''NEGOTIATE_EXTENDED_SESSIONSECURITY'' \<in> f" "{me, peer} = {''Client'', ''Server''}"
  shows "\<exists>sm sp em ep hm hp. SIGNKEY C f key me = Inr sm \<and> SIGNKEY C f key peer = Inr sp \<and>
     SEALKEY C f key me = Inr em \<and> SEALKEY C f key peer = Inr ep \<and> rc4_new C em = Inr hm \<and> rc4_new C ep = Inr hp \<and>
     install_keys C f key me peer k = (Inr (), k\<lparr>k_send_sign := sm, k_send_seal := Some em, k_send_handle := Some hm,
       k_recv_sign := sp, k_recv_seal := Some ep, k_recv_handle := Some hp\<rparr>)"
proof -
  have s: "\<exists>s e h. SIGNKEY C f key m = Inr s \<and> SEALKEY C f key m = Inr e \<and> rc4_new C e = Inr h"
    if "m = ''Client'' \<or> m = ''Server''" for m
    using assms(2) that crypto_okD(5) [OF assms(1) crypto_okD(4) [OF assms(1)]]
    by (auto simp: SIGNKEY_def SEALKEY_def Let_def)
  have "me = ''Client'' \<or> me = ''Server''" "peer = ''Client'' \<or> peer = ''Server''"
    using assms(3) by (auto simp: doubleton_eq_iff)
  from s [OF this(1)] s [OF this(2)] obtain sm em hm sp ep hp where
    k: "SIGNKEY C f key me = Inr sm" "SEALKEY C f key me = Inr em" "rc4_new C em = Inr hm"
      "SIGNKEY C f key peer = Inr sp" "SEALKEY C f key peer = Inr ep" "rc4_new C ep = Inr hp" by blast
  then show ?thesis by (simp add: install_keys_def set_key_def sbind_def)
qed

section \<open>The messages of a client and a server without special values\<close>

lemma getAv_info:
  "getAv_text (default_info P now) 1 = Some (ssp_computer_nb P)"
  "getAv_text (default_info P now) 2 = Some (ssp_domain_nb P)"
  by (simp_all add: getAv_text_def getAv_def default_info_def)

lemma challenge_plain:
  assumes "ssp_values P = no_values"
  shows "\<exists>ch. challenge_token P e neg = Inr ch \<and> ch_info ch = default_info P (e_now e) \<and>
    ''NEGOTIATE_EXTENDED_SESSIONSECURITY'' \<in> ch_flags ch \<and> ''NEGOTIATE_KEY_EXCH'' \<in> ch_flags ch"
  using assms by (simp add: challenge_token_def no_values_def values_given_def Let_def challenge_flags_def)

text \<open>The user name and domain the client sends.\<close>

definition account :: "ssp \<Rightarrow> utext \<Rightarrow> utext option \<Rightarrow> utext \<times> utext" where
  "account P upn dm =
     (case parse_upn upn of Some (u, r) \<Rightarrow> (u, r)
      | None \<Rightarrow> (upn, case dm of None \<Rightarrow> ssp_domain_fqdn P | Some d \<Rightarrow> d))"

lemma client_avs_plain:
  "\<exists>avs. client_avs P e target bindings (Some host) (default_info Q now) = Inr avs \<and>
     getAv avs 6 = (if ssp_mic P then Inr (Av_Num 2) else Inl Index_Error) \<and>
     getAv avs 10 = (case bindings of None \<Rightarrow> Inl Index_Error | Some d \<Rightarrow> Inr (Av_Bytes d))"
  by (cases target; cases bindings) (auto simp: client_avs_def default_info_def getAv_def)

lemma authenticate_plain:
  assumes C: "crypto_ok C" and v: "ssp_values P = no_values"
    and ch: "ch_info ch = default_info Q now" "''NEGOTIATE_KEY_EXCH'' \<in> ch_flags ch"
    and acc: "account P upn dm = (user, realm)" "utf16le (w_upper W user @ realm) = Inr x" and t: "e_now e < 2 ^ 64"
  shows "\<exists>a pr. authenticate_token C W P e upn h target bindings (Some host) dm (Some neg) ch = Inr (a, e_session_key e) \<and>
    au_flags a = ch_flags ch \<and> au_user a = Some user \<and> au_domain a = Some realm \<and> nr_proof (au_nt a) = pr \<and>
    compute_nt_proof C W (au_nt a) (hmac_md5 C h x) (ch_server ch) = Inr pr \<and>
    (\<exists>y. au_session_key a = Some y \<and> RC4K C (session_base_key C (hmac_md5 C h x) pr) y = Inr (e_session_key e)) \<and>
    getAv (nr_avs (au_nt a)) 6 = (if ssp_mic P then Inr (Av_Num 2) else Inl Index_Error) \<and>
    (ssp_mic P \<longrightarrow> verify_mic C W a (e_session_key e) neg ch) \<and>
    getAv (nr_avs (au_nt a)) 10 = (case bindings of None \<Rightarrow> Inl Index_Error | Some d \<Rightarrow> Inr (Av_Bytes d))"
proof -
  obtain avs where avs: "client_avs P e target bindings (Some host) (default_info Q now) = Inr avs"
    "getAv avs 6 = (if ssp_mic P then Inr (Av_Num 2) else Inl Index_Error)"
    "getAv avs 10 = (case bindings of None \<Rightarrow> Inl Index_Error | Some d \<Rightarrow> Inr (Av_Bytes d))"
    using client_avs_plain by blast
  let ?key = "hmac_md5 C h x"
  let ?cr = "\<lparr>nr_proof = [], nr_time = e_now e, nr_client = e_client_chal e, nr_avs = avs\<rparr>"
  have key: "NTOWFv2 C W [] user realm (Some h) = Inr ?key" using acc(2) by (simp add: NTOWFv2_def)
  obtain pr where pr: "compute_nt_proof C W ?cr ?key (ch_server ch) = Inr pr"
    using t by (simp add: compute_nt_proof_def pack_u64_def)
  have pr': "compute_nt_proof C W (?cr\<lparr>nr_proof := pr\<rparr>) ?key (ch_server ch) = Inr pr"
    using pr by (simp add: compute_nt_proof_def)
  have "length (session_base_key C ?key pr) = 16" using crypto_okD(3) [OF C] by (simp add: session_base_key_def)
  from RC4K_twice [OF C this] obtain y where y: "RC4K C (session_base_key C ?key pr) (e_session_key e) = Inr y"
    "RC4K C (session_base_key C ?key pr) y = Inr (e_session_key e)" by blast
  let ?tok = "\<lparr>au_variant = ssp_variant P, au_flags = ch_flags ch,
            au_version = set_version no_values True windows_version, au_user = Some user, au_domain = Some realm,
            au_work = Some (ssp_computer_nb P), au_nt = ?cr\<lparr>nr_proof := pr\<rparr>, au_session_key = Some y, au_mic = []\<rparr>"
  have "authenticate_token C W P e upn h target bindings (Some host) dm (Some neg) ch =
      Inr (if ssp_mic P then compute_mic C W ?tok (e_session_key e) neg ch else ?tok, e_session_key e)"
    using acc(1) key pr y(1) ch avs(1) v
    by (auto simp: authenticate_token_def account_def Let_def no_values_def split: option.splits)
  moreover have "verify_mic C W (compute_mic C W ?tok (e_session_key e) neg ch) (e_session_key e) neg ch"
    by (simp add: verify_mic_def compute_mic_def mic_of_def)
  ultimately show ?thesis using pr' y(2) avs(2,3) by (simp add: compute_mic_def)
qed

section \<open>Both sides\<close>

text \<open>What a server that knows the account does with such a message.\<close>

definition knows :: "ssp \<Rightarrow> world \<Rightarrow> utext \<Rightarrow> bytes \<Rightarrow> bool" where
  "knows Q W user h \<longleftrightarrow> (\<exists>ids. ssp_identities Q = Some ids \<and> map_of ids (w_upper W user) = Some h)"

lemma identity_known:
  assumes "upper_ok W" "knows Q W user h" "au_user a = Some user" "au_domain a = Some realm"
    "utf16le (w_upper W user @ realm) = Inr x"
  shows "identity_key C W Q a = Inr (Some (hmac_md5 C h x))"
  using assms by (auto simp: identity_key_def knows_def NTOWFv2_def upper_ok_def)

definition mirrored :: "'h keys \<Rightarrow> 'h keys \<Rightarrow> bool" where
  "mirrored a b \<longleftrightarrow> k_exported a = k_exported b \<and> k_session a = k_session b \<and>
     k_send_sign a = k_recv_sign b \<and> k_recv_sign a = k_send_sign b \<and>
     k_send_seal a = k_recv_seal b \<and> k_recv_seal a = k_send_seal b \<and>
     k_send_handle a = k_recv_handle b \<and> k_recv_handle a = k_send_handle b"

lemma accept_good:
  assumes C: "crypto_ok C" and W: "upper_ok W" and Q: "\<not> ssp_no_check Q" "knows Q W user h"
    and a: "au_user a = Some user" "au_domain a = Some realm" "utf16le (w_upper W user @ realm) = Inr x"
    and f: "''NEGOTIATE_EXTENDED_SESSIONSECURITY'' \<in> au_flags a" "''NEGOTIATE_KEY_EXCH'' \<in> au_flags a"
    and pr: "compute_nt_proof C W (au_nt a) (hmac_md5 C h x) (ch_server ch) = Inr (nr_proof (au_nt a))"
    and sk: "au_session_key a = Some y" "RC4K C (session_base_key C (hmac_md5 C h x) (nr_proof (au_nt a))) y = Inr key"
    and mic: "mic_refused C W a key (Some neg) (Some ch) = Inr False"
    and bnd: "bindings_refused a bindings allow = Inr False"
    and c: "cx_neg c = Some neg" "cx_chal c = Some ch"
    and k: "install_keys C (au_flags a) key ''Server'' ''Client'' (set_session key (cx_keys c)) = (Inr (), k')"
  shows "\<exists>d. accept_authenticate C W Q allow bindings a c = (Inr (Some (None, COMPLETE)), d) \<and> cx_keys d = k'"
proof -
  note id = identity_known [OF W Q(2) a(1,2,3), where C = C]
  have "ssp_identities Q \<noteq> None" using Q(2) by (auto simp: knows_def)
  with id pr have login: "check_login C W Q (Some ch) a = Inr True" by (simp add: check_login_def)
  have base: "get_session_base_key C W Q a = Inr (Some (session_base_key C (hmac_md5 C h x) (nr_proof (au_nt a))))"
    using id by (simp add: get_session_base_key_def)
  have ne: "session_base_key C (hmac_md5 C h x) (nr_proof (au_nt a)) \<noteq> []"
    using crypto_okD(6) [OF C] by (simp add: session_base_key_def)
  have key: "server_session_key C a (session_base_key C (hmac_md5 C h x) (nr_proof (au_nt a))) = Inr key"
    using f(2) sk by (simp add: server_session_key_def)
  show ?thesis
    using Q(1) base ne key mic bnd k login c
    by (simp add: accept_authenticate_def sbind_def lift_def on_keys_def)
qed

lemma client_auth_good:
  assumes C: "crypto_ok C" and P: "ssp_upn P = Some upn" "ssp_hash P = Some h" and v: "ssp_values P = no_values"
    and ch: "ch_info ch = default_info Q now" "''NEGOTIATE_KEY_EXCH'' \<in> ch_flags ch"
    and tok: "authenticate_token C W P e upn h target bindings (Some (ssp_computer_nb Q)) (Some (ssp_domain_nb Q)) (Some neg) ch =
        Inr (a, key)"
    and c: "cx_state c = CLI_SENT_NEGO" "cx_neg c = Some neg"
    and k: "install_keys C (au_flags a) key ''Client'' ''Server'' (set_session key (cx_keys c)) = (Inr (), k')"
  shows "\<exists>d. gss_init C W P e target bindings (Some (T_Challenge ch)) c = (Inr (Some (T_Authenticate a), COMPLETE), d) \<and>
    cx_keys d = k' \<and> cx_state d = CLI_SENT_AUTH"
  using assms getAv_info [of Q now]
  by (simp add: gss_init_def first_some_def Let_def sbind_def on_keys_def)

lemma handshake:
  assumes C: "crypto_ok C" and W: "upper_ok W"
    and P: "ssp_upn P = Some upn" "ssp_hash P = Some h" "ssp_values P = no_values"
    and Q: "ssp_values Q = no_values" "\<not> ssp_no_check Q"
    and acc: "account P upn (Some (ssp_domain_nb Q)) = (user, realm)" "utf16le (w_upper W user @ realm) = Inr x"
    and kn: "knows Q W user h" and t: "e_now e2 < 2 ^ 64"
    and bnd: "sbind' = None \<and> allow \<noteq> Some False \<or> (\<exists>d. cbind = Some d \<and> sbind' = Some d)"
  shows "\<exists>neg ch a c1 s1 c2 s2.
    gss_init C W P e0 target cbind None (new_context False fl) = (Inr (Some (T_Negotiate neg), CONTINUE_NEEDED), c1) \<and>
    gss_accept C W Q e1 allow sbind' (Some (T_Negotiate neg)) (new_context True None) =
      (Inr (Some (Some (T_Challenge ch), CONTINUE_NEEDED)), s1) \<and>
    gss_init C W P e2 target cbind (Some (T_Challenge ch)) c1 = (Inr (Some (T_Authenticate a), COMPLETE), c2) \<and>
    gss_accept C W Q e1 allow sbind' (Some (T_Authenticate a)) s1 = (Inr (Some (None, COMPLETE)), s2) \<and>
    k_exported (cx_keys c2) = Some (e_session_key e2) \<and> mirrored (cx_keys c2) (cx_keys s2)"
proof -
  let ?c0 = "new_context False fl :: 'a ctx" and ?s0 = "new_context True None :: 'a ctx"
  let ?neg = "negotiate_token P (cx_flags ?c0)" and ?key = "e_session_key e2"
  let ?c1 = "?c0\<lparr>cx_neg := Some ?neg, cx_keys := (cx_keys ?c0)\<lparr>k_session := None\<rparr>, cx_state := CLI_SENT_NEGO\<rparr>"
  have 1: "gss_init C W P e0 target cbind None ?c0 = (Inr (Some (T_Negotiate ?neg), CONTINUE_NEEDED), ?c1)"
    by (simp add: gss_init_def new_context_def Let_def)
  obtain ch where ch: "challenge_token Q e1 ?neg = Inr ch" "ch_info ch = default_info Q (e_now e1)"
    "''NEGOTIATE_EXTENDED_SESSIONSECURITY'' \<in> ch_flags ch" "''NEGOTIATE_KEY_EXCH'' \<in> ch_flags ch"
    using challenge_plain [OF Q(1)] by blast
  let ?s1 = "?s0\<lparr>cx_neg := Some ?neg, cx_chal := Some ch, cx_state := SRV_SENT_CHAL\<rparr>"
  have 2: "gss_accept C W Q e1 allow sbind' (Some (T_Negotiate ?neg)) ?s0 =
      (Inr (Some (Some (T_Challenge ch), CONTINUE_NEEDED)), ?s1)"
    using ch(1) by (simp add: gss_accept_def new_context_def)
  from authenticate_plain [OF C P(3) ch(2,4) acc t, of h target cbind "ssp_computer_nb Q" ?neg]
  obtain a pr y where a: "authenticate_token C W P e2 upn h target cbind (Some (ssp_computer_nb Q)) (Some (ssp_domain_nb Q))
        (Some ?neg) ch = Inr (a, ?key)"
    and af: "au_flags a = ch_flags ch" "au_user a = Some user" "au_domain a = Some realm"
    and pr: "nr_proof (au_nt a) = pr" "compute_nt_proof C W (au_nt a) (hmac_md5 C h x) (ch_server ch) = Inr pr"
    and y: "au_session_key a = Some y" "RC4K C (session_base_key C (hmac_md5 C h x) pr) y = Inr ?key"
    and mic: "getAv (nr_avs (au_nt a)) 6 = (if ssp_mic P then Inr (Av_Num 2) else Inl Index_Error)"
      "ssp_mic P \<longrightarrow> verify_mic C W a ?key ?neg ch"
    and bn: "getAv (nr_avs (au_nt a)) 10 = (case cbind of None \<Rightarrow> Inl Index_Error | Some d \<Rightarrow> Inr (Av_Bytes d))" by blast
  have fl: "''NEGOTIATE_EXTENDED_SESSIONSECURITY'' \<in> au_flags a" "''NEGOTIATE_KEY_EXCH'' \<in> au_flags a"
    using ch(3,4) af(1) by simp_all
  let ?kc = "set_session ?key (cx_keys ?c1)" and ?ks = "set_session ?key (cx_keys ?s1)"
  from install_keys_ok [OF C fl(1), where me = "''Client''" and peer = "''Server''" and key = ?key and k = ?kc]
  obtain sc ss ec es hc hs where k: "SIGNKEY C (au_flags a) ?key ''Client'' = Inr sc" "SIGNKEY C (au_flags a) ?key ''Server'' = Inr ss"
      "SEALKEY C (au_flags a) ?key ''Client'' = Inr ec" "SEALKEY C (au_flags a) ?key ''Server'' = Inr es"
      "rc4_new C ec = Inr hc" "rc4_new C es = Inr hs"
    and kc: "install_keys C (au_flags a) ?key ''Client'' ''Server'' ?kc = (Inr (), ?kc\<lparr>k_send_sign := sc, k_send_seal := Some ec,
       k_send_handle := Some hc, k_recv_sign := ss, k_recv_seal := Some es, k_recv_handle := Some hs\<rparr>)" by auto
  have ks: "install_keys C (au_flags a) ?key ''Server'' ''Client'' ?ks = (Inr (), ?ks\<lparr>k_send_sign := ss, k_send_seal := Some es,
       k_send_handle := Some hs, k_recv_sign := sc, k_recv_seal := Some ec, k_recv_handle := Some hc\<rparr>)"
    using k by (simp add: install_keys_def set_key_def sbind_def)
  have "mic_refused C W a ?key (Some ?neg) (Some ch) = Inr False"
    using mic by (simp add: mic_refused_def)
  moreover have "bindings_refused a sbind' allow = Inr False"
    using bnd bn by (auto simp: bindings_refused_def)
  moreover have "cx_state ?c1 = CLI_SENT_NEGO" "cx_neg ?c1 = Some ?neg" "cx_neg ?s1 = Some ?neg" "cx_chal ?s1 = Some ch" by simp_all
  ultimately obtain c2 s2 where
    3: "gss_init C W P e2 target cbind (Some (T_Challenge ch)) ?c1 = (Inr (Some (T_Authenticate a), COMPLETE), c2)"
      "cx_keys c2 = ?kc\<lparr>k_send_sign := sc, k_send_seal := Some ec,
       k_send_handle := Some hc, k_recv_sign := ss, k_recv_seal := Some es, k_recv_handle := Some hs\<rparr>"
    and 4: "accept_authenticate C W Q allow sbind' a ?s1 = (Inr (Some (None, COMPLETE)), s2)"
      "cx_keys s2 = ?ks\<lparr>k_send_sign := ss, k_send_seal := Some es,
       k_send_handle := Some hs, k_recv_sign := sc, k_recv_seal := Some ec, k_recv_handle := Some hc\<rparr>"
    using client_auth_good [OF C P ch(2,4) a _ _ kc]
      accept_good [OF C W Q(2) kn af(2,3) acc(2) fl pr(2) [folded pr(1)] y(1) y(2) [folded pr(1)] _ _ _ _ ks] by blast
  have "gss_accept C W Q e1 allow sbind' (Some (T_Authenticate a)) ?s1 = (Inr (Some (None, COMPLETE)), s2)"
    using 4(1) by (simp add: gss_accept_def)
  moreover have "k_exported (cx_keys c2) = Some ?key" "mirrored (cx_keys c2) (cx_keys s2)"
    unfolding 3(2) 4(2) by (simp_all add: mirrored_def set_session_def)
  ultimately show ?thesis using 1 2 3(1) by blast
qed

section \<open>What a completed authentication means\<close>

lemma check_login_proof:
  assumes "check_login C W Q ch a = Inr True"
  shows "\<exists>user ids h key c. au_user a = Some user \<and> ssp_identities Q = Some ids \<and> map_of ids (w_upper W user) = Some h \<and>
    NTOWFv2 C W [] (w_upper W user) (case_option [] id (au_domain a)) (Some h) = Inr key \<and> ch = Some c \<and>
    compute_nt_proof C W (au_nt a) key (ch_server c) = Inr (nr_proof (au_nt a))"
  using assms by (auto simp: check_login_def identity_key_def rbind_Inr_iff split: option.splits if_splits)

lemma accept_authenticate_complete:
  assumes "accept_authenticate C W Q allow bindings a c = (Inr (Some (t, COMPLETE)), d)" "\<not> ssp_no_check Q"
  shows "check_login C W Q (cx_chal c) a = Inr True"
  using assms
  by (auto simp: accept_authenticate_def sbind_Inr_iff lift_def on_keys_def ret_def case_prod_beta split: if_splits)

lemma server_session_key_ok:
  assumes "crypto_ok C"
  shows "\<exists>key. server_session_key C a (session_base_key C k p) = Inr key"
proof -
  have "length (session_base_key C k p) = 16" using crypto_okD(3) [OF assms] by (simp add: session_base_key_def)
  from RC4K_twice [OF assms this] show ?thesis
    by (cases "''NEGOTIATE_KEY_EXCH'' \<in> au_flags a") (auto simp: server_session_key_def split: option.split)
qed

lemma accept_wrong_proof:
  assumes C: "crypto_ok C" and W: "upper_ok W" and Q: "\<not> ssp_no_check Q" "knows Q W user h"
    and a: "au_user a = Some user" "au_domain a = Some realm" "utf16le (w_upper W user @ realm) = Inr x"
    and f: "''NEGOTIATE_EXTENDED_SESSIONSECURITY'' \<in> au_flags a"
    and pr: "compute_nt_proof C W (au_nt a) (hmac_md5 C h x) (ch_server ch) = Inr pr" "pr \<noteq> nr_proof (au_nt a)"
    and mic: "getAv (nr_avs (au_nt a)) 6 = Inl Index_Error" and bnd: "bindings_refused a bindings allow = Inr False"
    and c: "cx_chal c = Some ch"
  shows "\<exists>d. accept_authenticate C W Q allow bindings a c = (Inr None, d) \<and> k_session (cx_keys d) \<noteq> None \<and>
    k_send_handle (cx_keys d) \<noteq> None \<and> cx_state d = cx_state c"
proof -
  note id = identity_known [OF W Q(2) a(1,2,3), where C = C]
  have "ssp_identities Q \<noteq> None" using Q(2) by (auto simp: knows_def)
  with id pr have login: "check_login C W Q (Some ch) a = Inr False" by (simp add: check_login_def)
  let ?base = "session_base_key C (hmac_md5 C h x) (nr_proof (au_nt a))"
  have base: "get_session_base_key C W Q a = Inr (Some ?base)" "?base \<noteq> []"
    using id crypto_okD(6) [OF C] by (simp_all add: get_session_base_key_def session_base_key_def)
  obtain key where key: "server_session_key C a ?base = Inr key" using server_session_key_ok [OF C] by blast
  have micr: "mic_refused C W a key n k = Inr False" for n k using mic by (simp add: mic_refused_def)
  from install_keys_ok [OF C f, where me = "''Server''" and peer = "''Client''" and key = key
      and k = "set_session key (cx_keys c)"]
  obtain sm sp em ep hm hp where k: "install_keys C (au_flags a) key ''Server'' ''Client'' (set_session key (cx_keys c)) =
     (Inr (), (set_session key (cx_keys c))\<lparr>k_send_sign := sm, k_send_seal := Some em, k_send_handle := Some hm,
       k_recv_sign := sp, k_recv_seal := Some ep, k_recv_handle := Some hp\<rparr>)" by (auto simp: insert_commute)
  show ?thesis
    using Q(1) base key micr bnd k login c
    by (simp add: accept_authenticate_def sbind_def on_keys_def set_session_def)
qed

section \<open>The properties\<close>

text \<open>C1: A client and a server that know the same password hash end their three messages with
  \<open>COMPLETE\<close> on both sides, with the same exported key (the one the client drew) and with signing
  keys, sealing keys and cipher states that mirror each other, whatever the clocks, the random
  octets, the flags of the client, its MIC and the channel bindings that both sides use.\<close>

theorem ntlm_handshake:
  assumes "crypto_ok C" "upper_ok W" "ssp_upn P = Some upn" "ssp_hash P = Some h"
    "ssp_values P = no_values" "ssp_values Q = no_values" "\<not> ssp_no_check Q"
    "account P upn (Some (ssp_domain_nb Q)) = (user, realm)" "utf16le (w_upper W user @ realm) = Inr x"
    "knows Q W user h" "e_now e2 < 2 ^ 64"
    "expected = None \<and> allow \<noteq> Some False \<or> (\<exists>d. sent = Some d \<and> expected = Some d)"
  shows "\<exists>neg ch a c1 s1 c2 s2.
    gss_init C W P e0 target sent None (new_context False fl) = (Inr (Some (T_Negotiate neg), CONTINUE_NEEDED), c1) \<and>
    gss_accept C W Q e1 allow expected (Some (T_Negotiate neg)) (new_context True None) =
      (Inr (Some (Some (T_Challenge ch), CONTINUE_NEEDED)), s1) \<and>
    gss_init C W P e2 target sent (Some (T_Challenge ch)) c1 = (Inr (Some (T_Authenticate a), COMPLETE), c2) \<and>
    gss_accept C W Q e1 allow expected (Some (T_Authenticate a)) s1 = (Inr (Some (None, COMPLETE)), s2) \<and>
    k_exported (cx_keys c2) = Some (e_session_key e2) \<and> mirrored (cx_keys c2) (cx_keys s2)"
  by (rule handshake [OF assms])

definition toy_world :: world where
  "toy_world = \<lparr>w_upper = (\<lambda>u. map (\<lambda>c. if 0x61 \<le> c \<and> c \<le> 0x7A then c - 0x20 else c) u), w_lower = id, w_neg = (\<lambda>_. [1]), w_chal = (\<lambda>_. [2]),
     w_auth = (\<lambda>_. [3]), w_av = (\<lambda>p. [of_nat (av_id p)])\<rparr>"

definition toy_ssp :: "utext option \<Rightarrow> bytes option \<Rightarrow> (utext \<times> bytes) list option \<Rightarrow> ssp" where
  "toy_ssp upn h ids = \<lparr>ssp_upn = upn, ssp_hash = h, ssp_variant = 2, ssp_mic = True, ssp_domain_fqdn = utext ''d.org'',
     ssp_domain_nb = utext ''D'', ssp_computer_nb = utext ''PC'', ssp_computer_fqdn = utext ''pc.d.org'',
     ssp_identities = ids, ssp_no_check = False, ssp_challenge = None, ssp_values = no_values\<rparr>"

definition toy_env :: env where
  "toy_env = \<lparr>e_now = 5, e_client_chal = replicate 8 1, e_machine = [], e_permanent = [], e_session_key = replicate 16 9,
     e_server_chal = replicate 8 2\<rparr>"

lemma crypto_ok_toy: "crypto_ok toy_crypto"
  using stream_cipher_toy by (simp add: crypto_ok_def toy_crypto_def)

lemma upper_ok_toy: "upper_ok toy_world"
  by (auto simp: upper_ok_def toy_world_def)

definition toy_client :: ssp where "toy_client = toy_ssp (Some (utext ''bob'')) (Some [7]) None"
definition toy_server :: ssp where "toy_server = toy_ssp None None (Some [(utext ''BOB'', [7])])"

lemma toy_bob: "w_upper toy_world (utext ''bob'') = utext ''BOB''" by code_simp

lemma toy_facts:
  "ssp_upn toy_client = Some (utext ''bob'')" "ssp_hash toy_client = Some [7]" "ssp_values toy_client = no_values"
  "ssp_values toy_server = no_values" "\<not> ssp_no_check toy_server"
  "account toy_client (utext ''bob'') (Some (ssp_domain_nb toy_server)) = (utext ''bob'', utext ''D'')"
  "utf16le (w_upper toy_world (utext ''bob'') @ utext ''D'') = Inr [66, 0, 79, 0, 66, 0, 68, 0]"
  "knows toy_server toy_world (utext ''bob'') [7]" "e_now toy_env < 2 ^ 64"
  "(None :: bytes option) = None \<and> (None :: bool option) \<noteq> Some False \<or>
     (\<exists>d. (None :: bytes option) = Some d \<and> (None :: bytes option) = Some d)"
proof -
  show "account toy_client (utext ''bob'') (Some (ssp_domain_nb toy_server)) = (utext ''bob'', utext ''D'')" by code_simp
  show "utf16le (w_upper toy_world (utext ''bob'') @ utext ''D'') = Inr [66, 0, 79, 0, 66, 0, 68, 0]" by code_simp
qed (simp_all add: toy_client_def toy_server_def toy_ssp_def toy_env_def knows_def toy_bob)

lemma ntlm_handshake_witness:
  "\<exists>(c2 :: nat ctx) (s2 :: nat ctx) a s1.
     gss_accept toy_crypto toy_world toy_server toy_env None None (Some (T_Authenticate a)) s1 = (Inr (Some (None, COMPLETE)), s2) \<and>
     k_exported (cx_keys c2) = Some (replicate 16 9) \<and> mirrored (cx_keys c2) (cx_keys s2)"
proof -
  have "e_session_key toy_env = replicate 16 9" by (simp add: toy_env_def)
  with ntlm_handshake [OF crypto_ok_toy upper_ok_toy toy_facts,
      where ?e0.0 = toy_env and ?e1.0 = toy_env and target = None and fl = None] show ?thesis
    by (elim exE conjE) (intro exI conjI, assumption, simp, assumption)
qed

text \<open>C6: A server that checks logins answers \<open>COMPLETE\<close> only to an AUTHENTICATE message whose user it
  knows and whose proof is the one this user's hash gives for the challenge the server sent.\<close>

theorem ntlm_complete_means_proof:
  assumes "gss_accept C W Q e allow bindings input c = (Inr (Some (t, COMPLETE)), d)" "\<not> ssp_no_check Q"
  shows "\<exists>a user ids h key ch. input = Some (T_Authenticate a) \<and> au_user a = Some user \<and> ssp_identities Q = Some ids \<and>
    map_of ids (w_upper W user) = Some h \<and>
    NTOWFv2 C W [] (w_upper W user) (case_option [] id (au_domain a)) (Some h) = Inr key \<and> cx_chal c = Some ch \<and>
    compute_nt_proof C W (au_nt a) key (ch_server ch) = Inr (nr_proof (au_nt a))"
proof -
  from assms(1) obtain a where a: "input = Some (T_Authenticate a)"
    "accept_authenticate C W Q allow bindings a c = (Inr (Some (t, COMPLETE)), d)"
    by (auto simp: gss_accept_def split: ssp_state.splits option.splits token.splits sum.splits)
  from check_login_proof [OF accept_authenticate_complete [OF a(2) assms(2)]] a(1) show ?thesis by blast
qed

lemma ntlm_complete_means_proof_witness:
  "\<exists>(s1 :: nat ctx) s2 a ch. gss_accept toy_crypto toy_world toy_server toy_env None None (Some (T_Authenticate a)) s1 =
      (Inr (Some (None, COMPLETE)), s2) \<and> cx_chal s1 = Some ch \<and> au_user a \<noteq> None"
proof -
  from handshake [OF crypto_ok_toy upper_ok_toy toy_facts,
      where ?e0.0 = toy_env and ?e1.0 = toy_env and target = None and fl = None]
  obtain a s1 s2 where a: "gss_accept toy_crypto toy_world toy_server toy_env None None (Some (T_Authenticate a)) s1 =
      (Inr (Some (None, COMPLETE)), s2)" by (elim exE conjE) (rule that)
  from ntlm_complete_means_proof [OF a toy_facts(5)] have "au_user a \<noteq> None \<and> (\<exists>ch. cx_chal s1 = Some ch)" by auto
  with a show ?thesis by blast
qed

text \<open>C38: A server to which a known user sends a wrong proof, without a MIC, answers neither a status nor
  a context (the function falls off its end); the context keeps a session key and sealing
  handles, and stays where it was.\<close>

theorem ntlm_failed_login:
  assumes "crypto_ok C" "upper_ok W" "\<not> ssp_no_check Q" "knows Q W user h"
    "au_user a = Some user" "au_domain a = Some realm" "utf16le (w_upper W user @ realm) = Inr x"
    "''NEGOTIATE_EXTENDED_SESSIONSECURITY'' \<in> au_flags a"
    "compute_nt_proof C W (au_nt a) (hmac_md5 C h x) (ch_server ch) = Inr pr" "pr \<noteq> nr_proof (au_nt a)"
    "getAv (nr_avs (au_nt a)) 6 = Inl Index_Error" "allow \<noteq> Some False"
    "cx_chal c = Some ch" "cx_state c = SRV_SENT_CHAL"
  shows "\<exists>d. gss_accept C W Q e allow None (Some (T_Authenticate a)) c = (Inr None, d) \<and>
    k_session (cx_keys d) \<noteq> None \<and> k_send_handle (cx_keys d) \<noteq> None \<and> cx_state d = SRV_SENT_CHAL"
proof -
  have "bindings_refused a None allow = Inr False" using assms(12) by (simp add: bindings_refused_def)
  from accept_wrong_proof [OF assms(1-11) this assms(13)] show ?thesis using assms(14) by (simp add: gss_accept_def)
qed

lemma ntlm_failed_login_witness:
  "\<exists>a (c :: nat ctx) d. gss_accept toy_crypto toy_world toy_server toy_env None None (Some (T_Authenticate a)) c = (Inr None, d) \<and>
     k_session (cx_keys c) = None \<and> k_session (cx_keys d) \<noteq> None"
proof -
  let ?nt = "\<lparr>nr_proof = [], nr_time = 5, nr_client = [], nr_avs = []\<rparr>"
  let ?a = "\<lparr>au_variant = 2, au_flags = {''NEGOTIATE_EXTENDED_SESSIONSECURITY''}, au_version = windows_version,
     au_user = Some (utext ''bob''), au_domain = Some (utext ''D''), au_work = None, au_nt = ?nt, au_session_key = None, au_mic = []\<rparr>"
  let ?ch = "\<lparr>ch_variant = 2, ch_server = [], ch_flags = {}, ch_version = windows_version, ch_target = [], ch_info = []\<rparr>"
  let ?c = "(new_context True None :: nat ctx)\<lparr>cx_chal := Some ?ch, cx_state := SRV_SENT_CHAL\<rparr>"
  let ?key = "hmac_md5 toy_crypto [7] [66, 0, 79, 0, 66, 0, 68, 0]"
  obtain pr where pr: "compute_nt_proof toy_crypto toy_world ?nt ?key [] = Inr pr" "pr \<noteq> []"
    using crypto_okD(6) [OF crypto_ok_toy] by (simp add: compute_nt_proof_def pack_u64_def)
  have "\<exists>d. gss_accept toy_crypto toy_world toy_server toy_env None None (Some (T_Authenticate ?a)) ?c = (Inr None, d) \<and>
    k_session (cx_keys d) \<noteq> None \<and> k_send_handle (cx_keys d) \<noteq> None \<and> cx_state d = SRV_SENT_CHAL"
    by (rule ntlm_failed_login [OF crypto_ok_toy upper_ok_toy toy_facts(5,8) _ _ toy_facts(7)])
      (use pr in \<open>simp_all add: getAv_def\<close>)
  moreover have "k_session (cx_keys ?c) = None" by (simp add: new_context_def no_keys_def)
  ultimately show ?thesis by blast
qed

text \<open>A server given \<open>Flags\<close> among its values raises \<open>KeyError\<close> on every NEGOTIATE message: the
  default of the look-up is evaluated in any case, and no pair of the challenge has that
  identifier. The message is already stored, and the context still expects one.\<close>

lemma ntlm_flags_value_raises:
  assumes "map_of (nv_av (ssp_values Q)) ''Flags'' = Some (Some v)" "cx_state c = INIT"
  shows "gss_accept C W Q e allow bindings (Some (T_Negotiate neg)) c = (Inl Key_Error, c\<lparr>cx_neg := Some neg\<rparr>)"
proof -
  have "override_avs (nv_av (ssp_values Q)) (default_info Q (e_now e)) av_names = Inl Key_Error"
    using assms(1) by (simp add: av_names_def default_info_def Let_def split: option.split)
  moreover have "values_given (ssp_values Q)" using assms(1) by (auto simp: values_given_def)
  ultimately show ?thesis using assms(2) by (simp add: gss_accept_def challenge_token_def Let_def)
qed

lemma ntlm_flags_value_raises_witness:
  "fst (gss_accept toy_crypto toy_world (toy_server\<lparr>ssp_values := no_values\<lparr>nv_av := [(''Flags'', Some (Av_Num 2))]\<rparr>\<rparr>) toy_env
      None None (Some (T_Negotiate (negotiate_token toy_client \<lparr>g_integ = True, g_conf = True, g_identify = False\<rparr>)))
      (new_context True None)) = Inl Key_Error"
  by (subst ntlm_flags_value_raises [where v = "Av_Num 2"]) (simp_all add: no_values_def new_context_def)

end
