(* ===== verification/Ntlm_Invariant.thy ===== *)
theory Ntlm_Invariant
  imports Ntlm_Correct
begin

text \<open>
  A security context of NTLM over its whole life: the relation of one call to the next, for any
  input, clock and random octets, and what every reachable context keeps.
\<close>

section \<open>Calls\<close>

inductive ntlm_step :: "'h crypto \<Rightarrow> world \<Rightarrow> ssp \<Rightarrow> 'h ctx \<Rightarrow> 'h ctx \<Rightarrow> bool" for C W P where
  step_init: "gss_init C W P e target bindings input c = (r, d) \<Longrightarrow> ntlm_step C W P c d"
| step_accept: "gss_accept C W P e allow bindings input c = (r, d) \<Longrightarrow> ntlm_step C W P c d"
| step_passive: "gss_passive C W P e input c = (r, d) \<Longrightarrow> ntlm_step C W P c d"
| step_direction: "ntlm_step C W P c (passive_set_direction wanted c)"
| step_clifailure: "ntlm_step C W P c (clifailure c)"
| step_wrap: "on_keys (gss_wrap C msgs) c = (r, d) \<Longrightarrow> ntlm_step C W P c d"
| step_unwrap: "on_keys (gss_unwrap C msgs sig) c = (r, d) \<Longrightarrow> ntlm_step C W P c d"
| step_getmic: "on_keys (gss_getmic C msgs) c = (r, d) \<Longrightarrow> ntlm_step C W P c d"
| step_verifymic: "on_keys (gss_verifymic C msgs sig) c = (r, d) \<Longrightarrow> ntlm_step C W P c d"
| step_get_list: "on_keys (get_mech_list_mic C input) c = (r, d) \<Longrightarrow> ntlm_step C W P c d"
| step_verify_list: "on_keys (verify_mech_list_mic C sig input) c = (r, d) \<Longrightarrow> ntlm_step C W P c d"

inductive ntlm_run :: "'h crypto \<Rightarrow> world \<Rightarrow> ssp \<Rightarrow> 'h ctx \<Rightarrow> bool" for C W P where
  run_client: "ntlm_run C W P (new_context False flags)"
| run_server: "ntlm_run C W P (new_context True flags)"
| run_passive: "ntlm_run C W P passive_context"
| run_step: "ntlm_run C W P c \<Longrightarrow> ntlm_step C W P c d \<Longrightarrow> ntlm_run C W P d"

section \<open>The invariant\<close>

text \<open>A cipher has its key; a session key is the exported one; both keys are there once the client has
  sent its proof.\<close>

definition keys_wf :: "'h keys \<Rightarrow> bool" where
  "keys_wf k \<longleftrightarrow> (k_send_handle k \<noteq> None \<longrightarrow> k_send_seal k \<noteq> None) \<and> (k_recv_handle k \<noteq> None \<longrightarrow> k_recv_seal k \<noteq> None) \<and>
     (k_session k \<noteq> None \<longrightarrow> k_session k = k_exported k)"

definition keys_full :: "'h keys \<Rightarrow> bool" where
  "keys_full k \<longleftrightarrow> k_session k \<noteq> None \<and> k_send_handle k \<noteq> None \<and> k_recv_handle k \<noteq> None"

definition ctx_wf :: "'h ctx \<Rightarrow> bool" where
  "ctx_wf c \<longleftrightarrow> keys_wf (cx_keys c) \<and> (cx_state c = CLI_SENT_AUTH \<longrightarrow> keys_full (cx_keys c)) \<and>
     (cx_state c \<noteq> INIT \<longrightarrow> cx_neg c \<noteq> None) \<and> (cx_state c = SRV_SENT_CHAL \<longrightarrow> cx_chal c \<noteq> None)"

text \<open>Operations on the keys that leave keys as they are and take no cipher away or make one.\<close>

definition keeps :: "('h, 'a) kop \<Rightarrow> bool" where
  "keeps f \<longleftrightarrow> (\<forall>k r l. f k = (r, l) \<longrightarrow> k_session l = k_session k \<and> k_exported l = k_exported k \<and>
     k_send_seal l = k_send_seal k \<and> k_recv_seal l = k_recv_seal k \<and>
     (k_send_handle l = None \<longleftrightarrow> k_send_handle k = None) \<and> (k_recv_handle l = None \<longleftrightarrow> k_recv_handle k = None))"

lemma keepsD:
  assumes "keeps f" "f k = (r, l)"
  shows "keys_wf k \<Longrightarrow> keys_wf l" "keys_full k \<Longrightarrow> keys_full l"
  using assms unfolding keeps_def keys_wf_def keys_full_def by metis+

lemma on_keys_keeps:
  assumes "keeps f" "on_keys f c = (r, d)" "ctx_wf c"
  shows "ctx_wf d"
proof -
  obtain s l where f: "f (cx_keys c) = (s, l)" by fastforce
  with assms(2) have "d = c\<lparr>cx_keys := l\<rparr>" by (simp add: on_keys_def)
  with keepsD [OF assms(1) f] assms(3) show ?thesis by (simp add: ctx_wf_def)
qed

lemma MAC_handle: "MAC C h key sq msg = Inr (sig, h') \<Longrightarrow> (h' = None) = (h = None)"
  by (cases h; cases key) (auto simp: MAC_def rbind_Inr_iff Let_def case_prod_beta)

lemma crypt_msgs_handle: "crypt_msgs C h ms = (r, h') \<Longrightarrow> (h' = None) = (h = None)"
proof (induction C h ms arbitrary: r h' rule: crypt_msgs.induct)
  case (2 C h m ms)
  then show ?case by (cases h) (auto split: if_splits prod.splits)
qed simp

lemma keeps_getmic: "keeps (gss_getmic C msgs)"
  by (auto simp: keeps_def gss_getmic_def split: sum.splits prod.splits dest: MAC_handle)

lemma keeps_verifymic: "keeps (gss_verifymic C msgs sig)"
  by (auto simp: keeps_def gss_verifymic_def Let_def split: sum.splits prod.splits dest: MAC_handle)

lemma keeps_wrap: "keeps (gss_wrap C msgs)"
  by (auto simp: keeps_def gss_wrap_eq split: sum.splits prod.splits dest: MAC_handle crypt_msgs_handle)

lemma keeps_unwrap: "keeps (gss_unwrap C msgs sig)"
  by (auto simp: keeps_def gss_unwrap_eq split: sum.splits prod.splits dest: MAC_handle crypt_msgs_handle)

lemma keeps_get_list: "keeps (get_mech_list_mic C input)"
  by (auto simp: keeps_def get_mech_list_mic_def GSS_GetMIC_def gss_getmic_def split: option.splits sum.splits prod.splits dest: MAC_handle)

lemma keeps_verify_list: "keeps (verify_mech_list_mic C sig input)"
  by (auto simp: keeps_def verify_mech_list_mic_def GSS_VerifyMIC_def gss_verifymic_def Let_def split: option.splits sum.splits prod.splits dest: MAC_handle)

lemmas all_keep = keeps_getmic keeps_verifymic keeps_wrap keeps_unwrap keeps_get_list keeps_verify_list

section \<open>Installing keys\<close>

lemma install_keys_wf:
  assumes "install_keys C f key me peer k = (r, l)" "keys_wf k"
  shows "keys_wf l \<and> k_session l = k_session k \<and> k_exported l = k_exported k \<and>
    (r = Inr () \<longrightarrow> k_send_handle l \<noteq> None \<and> k_recv_handle l \<noteq> None)"
  using assms
  by (auto simp: install_keys_def sbind_def set_key_def keys_wf_def split: sum.splits prod.splits)

lemma set_session_wf: "keys_wf k \<Longrightarrow> keys_wf (set_session key k)"
  by (simp add: keys_wf_def set_session_def)

section \<open>The calls keep the invariant\<close>

lemma ctx_wf_new: "ctx_wf (new_context acceptor flags)" "ctx_wf passive_context" "ctx_wf (clifailure c)"
  by (simp_all add: ctx_wf_def new_context_def passive_context_def clifailure_def keys_wf_def no_keys_def)

lemma set_direction_wf:
  "set_direction acc wanted k = (l, acc') \<Longrightarrow> (keys_wf k \<longrightarrow> keys_wf l) \<and>
     (k_session l = k_session k \<and> (keys_full k \<longrightarrow> keys_full l))"
  by (auto simp: set_direction_def keys_wf_def keys_full_def split: if_splits)

lemma passive_set_direction_wf:
  assumes "ctx_wf c"
  shows "ctx_wf (passive_set_direction wanted c)"
proof -
  obtain l acc where d: "set_direction (cx_acceptor c) wanted (cx_keys c) = (l, acc)" by fastforce
  from set_direction_wf [OF d] assms show ?thesis
    by (simp add: passive_set_direction_def d ctx_wf_def)
qed

text \<open>The tail of a step: the session key is set, the keys are installed, then the rest.\<close>

lemma on_keys_install:
  assumes "on_keys (install_keys C f key me peer) c = (r, d)" "keys_wf (cx_keys c)"
  shows "\<exists>l. d = c\<lparr>cx_keys := l\<rparr> \<and> keys_wf l \<and> k_session l = k_session (cx_keys c) \<and>
    (r = Inr () \<longrightarrow> k_send_handle l \<noteq> None \<and> k_recv_handle l \<noteq> None)"
proof -
  obtain s l where i: "install_keys C f key me peer (cx_keys c) = (s, l)" by fastforce
  with assms(1) have "d = c\<lparr>cx_keys := l\<rparr>" "r = s" by (simp_all add: on_keys_def)
  with install_keys_wf [OF i assms(2)] show ?thesis by blast
qed

definition with_session :: "bytes \<Rightarrow> 'h ctx \<Rightarrow> 'h ctx" where
  "with_session key c = c\<lparr>cx_keys := set_session key (cx_keys c)\<rparr>"

lemma on_keys_set_session: "on_keys (\<lambda>k. (Inr (), set_session key k)) c = (Inr (), with_session key c)"
  by (simp add: on_keys_def with_session_def)

lemma gss_init_wf:
  assumes "gss_init C W P e target bindings input c = (r, d)" "ctx_wf c"
  shows "ctx_wf d"
proof (cases "cx_state c")
  case INIT
  with assms show ?thesis by (auto simp: gss_init_def Let_def ctx_wf_def keys_wf_def)
next
  case CLI_SENT_NEGO
  have same: ?thesis if "cx_keys d = cx_keys c" "cx_neg d = cx_neg c" "cx_state d = CLI_SENT_NEGO"
    using that assms(2) CLI_SENT_NEGO by (simp add: ctx_wf_def)
  show ?thesis
  proof (cases "\<exists>upn h ch. ssp_upn P = Some upn \<and> ssp_hash P = Some h \<and> input = Some (T_Challenge ch)")
    case False
    with assms(1) CLI_SENT_NEGO have "d = c"
      by (auto simp: gss_init_def split: option.splits token.splits)
    with assms(2) show ?thesis by simp
  next
    case True
    then obtain upn h ch where t: "ssp_upn P = Some upn" "ssp_hash P = Some h" "input = Some (T_Challenge ch)" by blast
    let ?c = "c\<lparr>cx_host := first_some (getAv_text (ch_info ch) 1) (cx_host c),
                cx_dom := first_some (getAv_text (ch_info ch) 2) (cx_dom c)\<rparr>"
    show ?thesis
    proof (cases "authenticate_token C W P e upn h target bindings (cx_host ?c) (cx_dom ?c) (cx_neg ?c) ch")
      case (Inl x)
      with assms(1) CLI_SENT_NEGO t have "d = ?c" by (simp add: gss_init_def Let_def)
      then show ?thesis using CLI_SENT_NEGO by (intro same) simp_all
    next
      case (Inr p)
      obtain tok key where p: "p = (tok, key)" by fastforce
      obtain s u where i: "on_keys (install_keys C (au_flags tok) key ''Client'' ''Server'') (with_session key ?c) = (s, u)"
        by fastforce
      have "keys_wf (cx_keys (with_session key ?c))"
        using assms(2) by (simp add: with_session_def ctx_wf_def set_session_wf)
      from on_keys_install [OF i this] obtain l where l: "u = (with_session key ?c)\<lparr>cx_keys := l\<rparr>" "keys_wf l"
        "k_session l = Some key" "s = Inr () \<longrightarrow> k_send_handle l \<noteq> None \<and> k_recv_handle l \<noteq> None"
        by (auto simp: with_session_def set_session_def)
      have "d = (if s = Inr () then u\<lparr>cx_state := CLI_SENT_AUTH\<rparr> else u)"
        using assms(1) CLI_SENT_NEGO t Inr p i on_keys_set_session [of key ?c]
        by (cases s) (auto simp: gss_init_def Let_def sbind_def)
      with l assms(2) CLI_SENT_NEGO show ?thesis
        by (simp add: ctx_wf_def keys_full_def with_session_def)
    qed
  qed
qed (use assms in \<open>auto simp: gss_init_def\<close>)

lemma accept_authenticate_wf:
  assumes "accept_authenticate C W Q allow bindings a c = (r, d)" "ctx_wf c" "cx_state c = SRV_SENT_CHAL"
  shows "ctx_wf d \<and> (cx_state d = SRV_SENT_CHAL \<or> cx_state d = INIT)"
proof (cases "\<not> ssp_no_check Q \<and> (\<exists>base key. get_session_base_key C W Q a = Inr (Some base) \<and> base \<noteq> [] \<and>
    server_session_key C a base = Inr key)")
  case False
  with assms show ?thesis
    by (auto simp: accept_authenticate_def sbind_def ctx_wf_def keys_wf_def split: if_splits sum.splits)
next
  case True
  then obtain base key where b: "\<not> ssp_no_check Q" "get_session_base_key C W Q a = Inr (Some base)" "base \<noteq> []"
    "server_session_key C a base = Inr key" by blast
  let ?c = "with_session key c"
  have c: "ctx_wf ?c" "cx_state ?c = SRV_SENT_CHAL" "keys_wf (cx_keys ?c)"
    using assms(2,3) by (simp_all add: with_session_def ctx_wf_def set_session_wf)
  show ?thesis
  proof (cases "mic_refused C W a key (cx_neg ?c) (cx_chal ?c) = Inr False \<and> bindings_refused a bindings allow = Inr False")
    case False
    with assms(1) b have "d = ?c"
      by (auto simp: accept_authenticate_def sbind_def on_keys_set_session split: sum.splits if_splits)
    with c show ?thesis by simp
  next
    case True
    obtain s u where i: "on_keys (install_keys C (au_flags a) key ''Server'' ''Client'') ?c = (s, u)" by fastforce
    from on_keys_install [OF i c(3)] obtain l where l: "u = ?c\<lparr>cx_keys := l\<rparr>" "keys_wf l" by blast
    have "\<exists>f. d = u\<lparr>cx_flags := f\<rparr>"
    proof -
      have "d = u \<or> (\<exists>f. d = u\<lparr>cx_flags := f\<rparr>)"
        using assms(1) b True i
        by (auto simp: accept_authenticate_def sbind_def on_keys_set_session split: sum.splits if_splits)
      moreover have "u = u\<lparr>cx_flags := cx_flags u\<rparr>" by simp
      ultimately show ?thesis by metis
    qed
    with l c show ?thesis by (auto simp: ctx_wf_def)
  qed
qed

lemma gss_accept_wf:
  assumes "gss_accept C W Q e allow bindings input c = (r, d)" "ctx_wf c"
  shows "ctx_wf d"
proof (cases "\<exists>a. cx_state c = SRV_SENT_CHAL \<and> input = Some (T_Authenticate a)")
  case True
  with assms(1) obtain a where "accept_authenticate C W Q allow bindings a c = (r, d)" by (auto simp: gss_accept_def)
  from accept_authenticate_wf [OF this assms(2)] True show ?thesis by blast
next
  case False
  with assms show ?thesis
    by (auto simp: gss_accept_def ctx_wf_def split: ssp_state.splits option.splits token.splits sum.splits)
qed

lemma gss_passive_wf:
  assumes "gss_passive C W Q e input c = (r, d)" "ctx_wf c"
  shows "ctx_wf d"
proof (cases "\<exists>a. cx_state c = SRV_SENT_CHAL \<and> input = Some (T_Authenticate a)")
  case True
  then obtain a where a: "cx_state c = SRV_SENT_CHAL" "input = Some (T_Authenticate a)" by blast
  obtain s u where u: "accept_authenticate C W Q (Some True) None a c = (s, u)" by fastforce
  from accept_authenticate_wf [OF u assms(2) a(1)] have w: "ctx_wf u" by blast
  have "d = u \<or> d = u\<lparr>cx_state := INIT\<rparr>"
    using assms(1) a u by (auto simp: gss_passive_def sbind_def split: sum.splits option.splits prod.splits)
  with w show ?thesis by (auto simp: ctx_wf_def)
next
  case False
  with assms show ?thesis
    by (auto simp: gss_passive_def ctx_wf_def split: ssp_state.splits option.splits token.splits)
qed

lemma ntlm_step_wf: "ntlm_step C W P c d \<Longrightarrow> ctx_wf c \<Longrightarrow> ctx_wf d"
  by (induction rule: ntlm_step.induct)
    (auto intro: gss_init_wf gss_accept_wf gss_passive_wf passive_set_direction_wf ctx_wf_new
      on_keys_keeps [OF keeps_getmic] on_keys_keeps [OF keeps_verifymic] on_keys_keeps [OF keeps_wrap]
      on_keys_keeps [OF keeps_unwrap] on_keys_keeps [OF keeps_get_list] on_keys_keeps [OF keeps_verify_list])

lemma ntlm_run_wf: "ntlm_run C W P c \<Longrightarrow> ctx_wf c"
  by (induction rule: ntlm_run.induct) (simp_all add: ctx_wf_new ntlm_step_wf)

section \<open>What the invariant gives\<close>

text \<open>C5: In every context that calls of any kind can lead to, of a client, a server or an observer, with
  any messages and whatever failed on the way: a cipher is there only with its key; a session
  key is the exported key; past the first call the NEGOTIATE message is there, and where an
  AUTHENTICATE is expected the CHALLENGE too; and a client that has sent its AUTHENTICATE has
  the session key and both ciphers.\<close>

theorem ntlm_context_invariant:
  assumes "ntlm_run C W P c"
  shows "(k_send_handle (cx_keys c) \<noteq> None \<longrightarrow> k_send_seal (cx_keys c) \<noteq> None) \<and>
    (k_recv_handle (cx_keys c) \<noteq> None \<longrightarrow> k_recv_seal (cx_keys c) \<noteq> None) \<and>
    (k_session (cx_keys c) \<noteq> None \<longrightarrow> k_session (cx_keys c) = k_exported (cx_keys c)) \<and>
    (cx_state c \<noteq> INIT \<longrightarrow> cx_neg c \<noteq> None) \<and> (cx_state c = SRV_SENT_CHAL \<longrightarrow> cx_chal c \<noteq> None) \<and>
    (cx_state c = CLI_SENT_AUTH \<longrightarrow>
       k_session (cx_keys c) \<noteq> None \<and> k_send_handle (cx_keys c) \<noteq> None \<and> k_recv_handle (cx_keys c) \<noteq> None)"
  using ntlm_run_wf [OF assms] by (simp add: ctx_wf_def keys_wf_def keys_full_def)

lemma ntlm_context_invariant_witness:
  "\<exists>c :: nat ctx. cx_state c = CLI_SENT_AUTH \<and> k_session (cx_keys c) \<noteq> None"
proof -
  from handshake [OF crypto_ok_toy upper_ok_toy toy_facts,
      where ?e0.0 = toy_env and ?e1.0 = toy_env and target = None and fl = None]
  obtain neg ch a c1 c2 s1 s2 where
    c: "gss_init toy_crypto toy_world toy_client toy_env None None None (new_context False None) =
        (Inr (Some (T_Negotiate neg), CONTINUE_NEEDED), c1)"
      "gss_init toy_crypto toy_world toy_client toy_env None None (Some (T_Challenge ch)) c1 =
        (Inr (Some (T_Authenticate a), COMPLETE), c2)"
    by (elim exE conjE) (rule that)
  have run: "ntlm_run toy_crypto toy_world toy_client c2"
    using run_step [OF run_step [OF run_client step_init [OF c(1)]] step_init [OF c(2)]] .
  have "cx_state c1 = CLI_SENT_NEGO" using c(1) by (auto simp: gss_init_def new_context_def Let_def)
  with c(2) have "cx_state c2 = CLI_SENT_AUTH"
    by (auto simp: gss_init_def Let_def sbind_def on_keys_def toy_facts split: sum.splits prod.splits)
  with ntlm_context_invariant [OF run] show ?thesis by blast
qed

end
