(* ===== verification/Dns_Names.thy ===== *)
theory Dns_Names
  imports Prelude
begin

unbundle bit_operations_syntax

text \<open>
  Domain names of DNS messages (\<open>layers/dns.py\<close>): the text a name is held as, its labels on the
  wire, compression pointers, and character strings.
\<close>

section \<open>Labels and their text\<close>

definition escape_label :: "bytes \<Rightarrow> bytes" where
  "escape_label l =
     (let l = concat (map (\<lambda>c. if c = 0x5C then [0x5C, 0x5C] else [c]) l) in
      concat (map (\<lambda>c. if c = 0x2E then [0x5C, 0x2E] else [c]) l))"

text \<open>The offsets of the dots that separate labels; \<open>i\<close> is the offset of the octets left.\<close>

fun dots_from :: "nat \<Rightarrow> bytes \<Rightarrow> nat list" where
  "dots_from i [] = []"
| "dots_from i (c # x) =
     (if c = 0x5C then (case x of [] \<Rightarrow> [] | _ # y \<Rightarrow> dots_from (i + 2) y)
      else if c = 0x2E then i # dots_from (i + 1) x
      else dots_from (i + 1) x)"

definition dots :: "bytes \<Rightarrow> nat list" where
  "dots x = dots_from 0 x"

definition dns_digit :: "byte \<Rightarrow> bool" where
  "dns_digit c \<longleftrightarrow> 0x30 \<le> c \<and> c \<le> 0x39"

definition dns_decimal :: "bytes \<Rightarrow> nat" where
  "dns_decimal ds = foldl (\<lambda>n d. 10 * n + (unat d - 0x30)) 0 ds"

function unescape_from :: "bytes \<Rightarrow> bytes" where
  "unescape_from [] = []"
| "unescape_from (c # x) =
     (if c = 0x5C \<and> x \<noteq> [] then
        (let ddd = take 3 x in
         if length ddd = 3 \<and> list_all dns_digit ddd \<and> dns_decimal ddd < 256
         then of_nat (dns_decimal ddd) # unescape_from (drop 3 x)
         else hd x # unescape_from (tl x))
      else c # unescape_from x)"
  by pat_completeness auto
termination by (relation "measure length") auto

definition unescape :: "bytes \<Rightarrow> bytes" where
  "unescape text = (if 0x5C \<notin> set text then text else unescape_from text)"

definition split_labels :: "bytes \<Rightarrow> bytes list" where
  "split_labels x =
     map (\<lambda>(a, b). unescape (take (b - a) (drop a x))) (zip (0 # map Suc (dots x)) (dots x @ [length x]))"

section \<open>Encoding\<close>

text \<open>Whether a value looks encoded: it ends in the root label or in a compression pointer.\<close>

definition is_ptr :: "bytes \<Rightarrow> bool" where
  "is_ptr x \<longleftrightarrow> (x \<noteq> [] \<and> last x = 0) \<or> (2 \<le> length x \<and> x ! (length x - 2) AND 0xC0 = 0xC0)"

definition label_enc :: "bytes \<Rightarrow> bytes" where
  "label_enc y = of_nat (length y) # y"

definition dns_encode :: "bytes \<Rightarrow> bool \<Rightarrow> bytes" where
  "dns_encode x check_built =
     (if x = [] \<or> x = [0x2E] then [0]
      else if check_built \<and> is_ptr x then x
      else (let x = concat (map (\<lambda>k. label_enc (take 63 k)) (split_labels x)) in
            if x \<noteq> [] \<and> last x = 0 then x else x @ [0]))"

section \<open>Decoding\<close>

text \<open>The loop of \<open>dns_get_str\<close>: the octets read, the position, the name so far, where the name ends if
  it jumped, the pointers followed and what is left after the name. \<open>full\<close> is the message, or
  no octets where the caller has none.\<close>

type_synonym name_loop = "bytes \<times> bytes \<times> nat \<times> nat option \<times> bytes option"

function name_loop ::
  "bytes \<Rightarrow> bool \<Rightarrow> bytes \<Rightarrow> nat \<Rightarrow> bytes \<Rightarrow> nat option \<Rightarrow> nat list \<Rightarrow> bytes option \<Rightarrow> name_loop res" where
  "name_loop full ignore s p name after ps left =
     (if length s \<le> p then Inr (name, s, p, after, left)
      else if s ! p AND 0xC0 \<noteq> 0 then
        (let after = (case after of None \<Rightarrow> Some (p + 2) | Some a \<Rightarrow> Some a) in
         if ignore then name_loop full ignore s (p + 2) name after ps left
         else if length s \<le> p + 1 then Inr (name, s, p + 1, after, left)
         else if full = [] then Inl Scapy_Exception
         else
           (let t = unat (s ! p AND 0x3F) * 256 + unat (s ! (p + 1)) in
            if t \<in> set ps then Inr (name, s, t, after, left)
            else if 20 \<le> length ps then Inr (name, s, t, after, left)
            else (case left of
                None \<Rightarrow> name_loop full ignore full t name after (ps @ [t]) (Some (drop (the after) s))
              | Some l \<Rightarrow> name_loop full ignore s t name after (ps @ [t]) left)))
      else if 0 < s ! p then
        name_loop full ignore s (p + 1 + unat (s ! p))
          (name @ escape_label (take (unat (s ! p)) (drop (p + 1) s)) @ [0x2E]) after ps left
      else Inr (name, s, p + 1, after, left))"
  by pat_completeness auto
termination
  by (relation "measures [\<lambda>(full, ignore, s, p, name, after, ps, left). 20 - length ps,
       \<lambda>(full, ignore, s, p, name, after, ps, left). length s - p]") auto

declare name_loop.simps [simp del]

definition dns_get_str :: "bytes \<Rightarrow> bytes \<Rightarrow> bool \<Rightarrow> (bytes \<times> bytes) res" where
  "dns_get_str s full ignore =
     rbind (name_loop full ignore s 0 [] None [] None) (\<lambda>(name, s, p, after, left).
       let p = (case after of Some a \<Rightarrow> a | None \<Rightarrow> p);
           left = (case left of None \<Rightarrow> drop p s | Some l \<Rightarrow> l) in
       Inr (if name = [] then [0x2E] else name, left))"

section \<open>The fields\<close>

definition name_h2i :: "bytes \<Rightarrow> bytes" where
  "name_h2i x = (if x = [] then [0x2E] else if last x \<noteq> 0x2E \<and> \<not> is_ptr x then x @ [0x2E] else x)"

definition name_i2m :: "bytes \<Rightarrow> bytes" where
  "name_i2m x = dns_encode x True"

definition name_i2len :: "bytes \<Rightarrow> nat" where
  "name_i2len x = length (name_i2m x)"

text \<open>With \<open>length_from\<close>, so many octets are taken first and what the name leaves of them stays.\<close>

definition name_getfield :: "bytes \<Rightarrow> nat option \<Rightarrow> bytes \<Rightarrow> (bytes \<times> bytes) res" where
  "name_getfield full len s =
     (let (remain, s) = (case len of None \<Rightarrow> ([], s) | Some n \<Rightarrow> (drop n s, take n s)) in
      rbind (dns_get_str s full False) (\<lambda>(decoded, left). Inr (left @ remain, decoded)))"

text \<open>Character strings.\<close>

function strings_m2i :: "bytes \<Rightarrow> bytes list" where
  "strings_m2i [] = []"
| "strings_m2i (n # s) = take (unat n) s # strings_m2i (drop (unat n) s)"
  by pat_completeness auto
termination by (relation "measure length") auto

function string_pieces :: "bytes \<Rightarrow> bytes" where
  "string_pieces text =
     (if 255 \<le> length text then 0xFF # take 255 text @ string_pieces (drop 255 text)
      else if text \<noteq> [] then of_nat (length text) # text else [])"
  by pat_completeness auto
termination by (relation "measure length") auto

declare string_pieces.simps [simp del]

definition strings_i2m :: "bytes list \<Rightarrow> bytes" where
  "strings_i2m ss = concat (map (\<lambda>t. if t = [] then [0] else string_pieces t) ss)"

end
