(* ===== verification/Dns_Correct.thy ===== *)
theory Dns_Correct
  imports Dns_Names
begin

unbundle bit_operations_syntax

text \<open>
  What the names of DNS messages guarantee: labels come back from their text and from the wire,
  compressed or not, and where a rebuilt name is not what was read.
\<close>

section \<open>Text and labels\<close>

definition esc :: "byte \<Rightarrow> bytes" where
  "esc c = (if c = 0x5C \<or> c = 0x2E then [0x5C, c] else [c])"

lemma escape_label_esc: "escape_label l = concat (map esc l)"
  by (induction l) (auto simp: escape_label_def Let_def esc_def)

lemma escape_label_simps [simp]:
  "escape_label [] = []" "escape_label (c # l) = esc c @ escape_label l"
  by (simp_all add: escape_label_esc)

lemma esc_nonempty [simp]: "esc c \<noteq> []"
  by (simp add: esc_def)

lemma escape_label_Nil [simp]: "escape_label l = [] \<longleftrightarrow> l = []"
  by (cases l) auto

lemma last_escape: "l \<noteq> [] \<Longrightarrow> last (escape_label l) = last l"
  by (induction l) (auto simp: esc_def)

lemma dots_from_escape: "dots_from i (escape_label l @ x) = dots_from (i + length (escape_label l)) x"
  by (induction l arbitrary: i) (auto simp: esc_def)

lemma dots_from_shift: "dots_from (i + k) x = map ((+) k) (dots_from i x)"
  by (induction i x rule: dots_from.induct) (auto split: list.split)

lemma dots_escape: "dots (escape_label l @ 0x2E # y) =
    length (escape_label l) # map ((+) (length (escape_label l) + 1)) (dots y)"
  using dots_from_shift [of 0 "length (escape_label l) + 1" y]
  by (simp add: dots_def dots_from_escape)

lemma unescape_from_escape: "unescape_from (escape_label l) = l"
proof (induction l)
  case (Cons c l)
  have d: "\<not> dns_digit 0x5C" "\<not> dns_digit 0x2E" by (simp_all add: dns_digit_def)
  show ?case
  proof (cases "c = 0x5C \<or> c = 0x2E")
    case True
    have "take 3 (c # escape_label l) = c # take 2 (escape_label l)" by (simp add: eval_nat_numeral)
    with True d have "\<not> list_all dns_digit (take 3 (c # escape_label l))" by auto
    with True Cons show ?thesis by (auto simp: esc_def Let_def)
  qed (use Cons in \<open>simp add: esc_def\<close>)
qed simp

lemma escape_plain: "0x5C \<notin> set (escape_label l) \<Longrightarrow> escape_label l = l"
  by (induction l) (auto simp: esc_def split: if_splits)

lemma unescape_escape: "unescape (escape_label l) = l"
  by (simp add: unescape_def unescape_from_escape escape_plain)

lemma split_labels_Nil: "split_labels [] = [[]]"
  by (simp add: split_labels_def dots_def unescape_def)

lemma split_labels_escape: "split_labels (escape_label l @ 0x2E # y) = l # split_labels y"
proof -
  let ?k = "length (escape_label l) + 1" and ?x = "escape_label l @ 0x2E # y"
  let ?z = "zip (0 # map Suc (dots y)) (dots y @ [length y])"
  have z: "zip (map ((+) ?k) (0 # map Suc (dots y))) (map ((+) ?k) (dots y @ [length y])) =
      map (\<lambda>(a, b). (?k + a, ?k + b)) ?z"
    by (rule zip_map_map)
  have "zip (0 # map Suc (dots ?x)) (dots ?x @ [length ?x]) =
      (0, length (escape_label l)) # map (\<lambda>(a, b). (?k + a, ?k + b)) ?z"
    unfolding z [symmetric] dots_escape by (simp add: o_def)
  moreover have "drop (?k + a) ?x = drop a y" for a by simp
  ultimately show ?thesis
    unfolding split_labels_def by (simp add: unescape_escape case_prod_beta o_def)
qed

section \<open>Names\<close>

text \<open>A name as labels: its octets on the wire and the text it is held as.\<close>

definition wire_name :: "bytes list \<Rightarrow> bytes" where
  "wire_name ls = concat (map label_enc ls) @ [0]"

definition name_text :: "bytes list \<Rightarrow> bytes" where
  "name_text ls = concat (map (\<lambda>l. escape_label l @ [0x2E]) ls)"

definition held_name :: "bytes list \<Rightarrow> bytes" where
  "held_name ls = (if ls = [] then [0x2E] else name_text ls)"

definition good_labels :: "bytes list \<Rightarrow> bool" where
  "good_labels ls \<longleftrightarrow> (\<forall>l \<in> set ls. l \<noteq> [] \<and> length l < 64)"

lemma name_text_simps [simp]:
  "name_text [] = []" "name_text (l # ls) = escape_label l @ 0x2E # name_text ls"
  by (simp_all add: name_text_def)

lemma name_text_Nil [simp]: "name_text ls = [] \<longleftrightarrow> ls = []"
  by (cases ls) auto

lemma split_labels_text: "split_labels (name_text ls) = ls @ [[]]"
  by (induction ls) (simp_all add: split_labels_Nil split_labels_escape)

lemma name_text_root: "good_labels ls \<Longrightarrow> name_text ls \<noteq> [0x2E]"
  by (cases ls) (auto simp: good_labels_def append_eq_Cons_conv)

lemma dns_encode_text:
  assumes "good_labels ls" "\<not> (check_built \<and> is_ptr (held_name ls))"
  shows "dns_encode (held_name ls) check_built = wire_name ls"
proof (cases "ls = []")
  case False
  have "concat (map (\<lambda>k. label_enc (take 63 k)) (ls @ [[]])) = wire_name ls"
    using assms(1) by (auto simp: wire_name_def good_labels_def label_enc_def intro!: arg_cong [where f = concat] map_cong)
  then have w: "(let x = concat (map (\<lambda>k. label_enc (take 63 k)) (split_labels (name_text ls))) in
      if x \<noteq> [] \<and> last x = 0 then x else x @ [0]) = wire_name ls"
    unfolding split_labels_text by (simp add: wire_name_def)
  have "\<not> (check_built \<and> is_ptr (name_text ls))" using False assms(2) by (simp add: held_name_def)
  with False w name_text_root [OF assms(1)] show ?thesis
    by (simp only: dns_encode_def held_name_def name_text_Nil if_False simp_thms)
qed (simp add: dns_encode_def held_name_def wire_name_def)

lemma is_ptr_text:
  assumes "good_labels ls" "ls \<noteq> []"
  shows "is_ptr (held_name ls) \<longleftrightarrow> last (last ls) AND 0xC0 = 0xC0"
proof -
  obtain ks l where ls: "ls = ks @ [l]" using assms(2) by (cases ls rule: rev_cases) auto
  with assms have l: "l \<noteq> []" by (simp add: good_labels_def)
  then obtain e c where e: "escape_label l = e @ [c]" by (cases "escape_label l" rule: rev_cases) auto
  with last_escape [OF l] have c: "c = last l" by simp
  have "held_name ls = (name_text ks @ e) @ [c, 0x2E]"
    using e assms(2) by (simp add: held_name_def ls name_text_def)
  moreover have "is_ptr ((name_text ks @ e) @ [c, 0x2E]) \<longleftrightarrow> c AND 0xC0 = 0xC0"
    unfolding is_ptr_def by (simp add: nth_append)
  ultimately have "is_ptr (held_name ls) \<longleftrightarrow> c AND 0xC0 = 0xC0" by (simp only:)
  with c ls show ?thesis by simp
qed

section \<open>Names in a message\<close>

lemma top_bits: "x AND 0xC0 = 0 \<longleftrightarrow> x < 64" for x :: byte
proof -
  have "(0xC0 :: byte) = NOT (mask 6)" by (simp add: mask_eq_exp_minus_1)
  moreover have "x AND NOT (mask 6) = 0 \<longleftrightarrow> take_bit 6 x = x"
    unfolding bit_eq_iff by (auto simp: bit_simps)
  moreover have "take_bit 6 x = x \<longleftrightarrow> take_bit 6 (unat x) = unat x"
    by (metis unsigned_take_bit_eq unsigned_word_eqI)
  ultimately show ?thesis by (simp add: word_less_nat_alt take_bit_nat_eq_self_iff)
qed

text \<open>RFC 1035, 4.1.4: at offset \<open>p\<close> of the message \<open>m\<close> there is a name with these labels, reached
  over the pointers \<open>js\<close>; it takes the octets before \<open>e\<close>.\<close>

inductive name_at :: "bytes \<Rightarrow> nat \<Rightarrow> nat list \<Rightarrow> bytes list \<Rightarrow> nat \<Rightarrow> bool" for m where
  name_root: "p < length m \<Longrightarrow> m ! p = 0 \<Longrightarrow> name_at m p [] [] (p + 1)"
| name_label: "p < length m \<Longrightarrow> 0 < m ! p \<Longrightarrow> m ! p < 64 \<Longrightarrow> name_at m (p + 1 + unat (m ! p)) js ls e \<Longrightarrow>
    name_at m p js (take (unat (m ! p)) (drop (p + 1) m) # ls) e"
| name_pointer: "p + 1 < length m \<Longrightarrow> \<not> m ! p < 64 \<Longrightarrow> t = unat (m ! p AND 0x3F) * 256 + unat (m ! (p + 1)) \<Longrightarrow>
    name_at m t js ls e \<Longrightarrow> name_at m p (t # js) ls (p + 2)"

lemma name_at_nonempty: "name_at m p js ls e \<Longrightarrow> p < length m"
  by (induction rule: name_at.induct) auto

text \<open>One turn of the loop.\<close>

lemma name_loop_root:
  "p < length s \<Longrightarrow> s ! p = 0 \<Longrightarrow> name_loop full ignore s p name after ps left = Inr (name, s, p + 1, after, left)"
  by (subst name_loop.simps) simp

lemma name_loop_label:
  "p < length s \<Longrightarrow> 0 < s ! p \<Longrightarrow> s ! p < 64 \<Longrightarrow> name_loop full ignore s p name after ps left =
     name_loop full ignore s (p + 1 + unat (s ! p)) (name @ escape_label (take (unat (s ! p)) (drop (p + 1) s)) @ [0x2E]) after ps left"
  by (subst name_loop.simps) (simp add: top_bits)

lemma name_loop_pointer:
  assumes "p + 1 < length s" "\<not> s ! p < 64" "full \<noteq> []" "t = unat (s ! p AND 0x3F) * 256 + unat (s ! (p + 1))"
    "t \<notin> set ps" "length ps < 20"
  shows "name_loop full False s p name after ps left =
    (case left of None \<Rightarrow> name_loop full False full t name (Some (case after of None \<Rightarrow> p + 2 | Some a \<Rightarrow> a)) (ps @ [t])
        (Some (drop (case after of None \<Rightarrow> p + 2 | Some a \<Rightarrow> a) s))
     | Some l \<Rightarrow> name_loop full False s t name (Some (case after of None \<Rightarrow> p + 2 | Some a \<Rightarrow> a)) (ps @ [t]) left)"
  using assms by (subst name_loop.simps) (simp add: top_bits Let_def split: option.split)

text \<open>After the first jump the loop reads the message itself.\<close>

lemma name_loop_in_message:
  assumes "name_at m p js ls e" "distinct (ps @ js)" "length (ps @ js) \<le> 20"
  shows "\<exists>q. name_loop m False m p name (Some a) ps (Some l) = Inr (name @ name_text ls, m, q, Some a, Some l)"
  using assms
proof (induction arbitrary: name ps rule: name_at.induct)
  case (name_root p)
  then show ?case by (simp add: name_loop_root)
next
  case (name_label p js ls e)
  from name_label.IH [OF name_label.prems, of "name @ escape_label (take (unat (m ! p)) (drop (p + 1) m)) @ [0x2E]"]
  show ?case using name_label.hyps by (simp add: name_loop_label)
next
  case (name_pointer p t js ls e)
  have "m \<noteq> []" using name_pointer.hyps(1) by auto
  moreover have "\<exists>q. name_loop m False m t name (Some a) (ps @ [t]) (Some l) = Inr (name @ name_text ls, m, q, Some a, Some l)"
    using name_pointer.prems by (intro name_pointer.IH) auto
  ultimately show ?case using name_pointer by (subst name_loop_pointer) auto
qed

text \<open>Before it, it reads the octets from the name's first on.\<close>

fun name_finish :: "name_loop \<Rightarrow> bytes \<times> bytes" where
  "name_finish (name, s, p, after, left) =
     (name, case left of None \<Rightarrow> drop (case after of Some a \<Rightarrow> a | None \<Rightarrow> p) s | Some l \<Rightarrow> l)"

lemma dns_get_str_finish:
  "dns_get_str s full ignore = rbind (name_loop full ignore s 0 [] None [] None) (\<lambda>x. case name_finish x of
     (name, left) \<Rightarrow> Inr (if name = [] then [0x2E] else name, left))"
  by (auto simp: dns_get_str_def Let_def intro!: arg_cong2 [where f = rbind])

lemma name_loop_from:
  assumes "name_at m p js ls e" "distinct js" "length js \<le> 20" "p = b + q"
  shows "\<exists>x. name_loop m False (drop b m) q name None [] None = Inr x \<and> name_finish x = (name @ name_text ls, drop e m)"
  using assms
proof (induction arbitrary: name q rule: name_at.induct)
  case (name_root p)
  then show ?case by (simp add: name_loop_root add.commute)
next
  case (name_label p js ls e)
  have "m ! p = drop b m ! q" "q < length (drop b m)" using name_label by simp_all
  moreover have "drop (q + 1) (drop b m) = drop (p + 1) m" using name_label.prems(3) by (simp add: add.commute)
  moreover have "p + 1 + unat (m ! p) = b + (q + 1 + unat (m ! p))" using name_label.prems(3) by simp
  ultimately show ?case
    using name_label.hyps name_label.prems
      name_label.IH [of "q + 1 + unat (m ! p)" "name @ escape_label (take (unat (m ! p)) (drop (p + 1) m)) @ [0x2E]"]
    by (simp add: name_loop_label)
next
  case (name_pointer p t js ls e)
  have "m \<noteq> []" using name_pointer.hyps(1) by auto
  moreover obtain r where "name_loop m False m t name (Some (q + 2)) [t] (Some (drop (q + 2) (drop b m))) =
      Inr (name @ name_text ls, m, r, Some (q + 2), Some (drop (q + 2) (drop b m)))"
    using name_loop_in_message [OF name_pointer.hyps(4), where ps = "[t]" and name = name and a = "q + 2"
      and l = "drop (q + 2) (drop b m)"] name_pointer.prems by auto
  moreover have "m ! p = drop b m ! q" "m ! (p + 1) = drop b m ! (q + 1)" "q + 1 < length (drop b m)"
    "drop (q + 2) (drop b m) = drop (p + 2) m"
    using name_pointer.hyps(1) name_pointer.prems(3) by (simp_all add: ac_simps)
  ultimately show ?case
    using name_pointer.hyps by (simp add: name_loop_pointer)
qed

lemma dns_get_str_at:
  assumes "name_at m p js ls e" "distinct js" "length js \<le> 20"
  shows "dns_get_str (drop p m) m False = Inr (held_name ls, drop e m)"
  using name_loop_from [OF assms, of p 0 "[]"] by (auto simp: dns_get_str_finish held_name_def)

text \<open>A name without pointers needs no message.\<close>

lemma name_loop_wire:
  "good_labels ls \<Longrightarrow> \<exists>q. name_loop full ignore (xs @ wire_name ls @ rest) (length xs) name None [] None =
     Inr (name @ name_text ls, xs @ wire_name ls @ rest, q, None, None) \<and> q = length xs + length (wire_name ls)"
proof (induction ls arbitrary: xs name)
  case Nil
  then show ?case by (simp add: wire_name_def name_loop_root)
next
  case (Cons l ls)
  let ?s = "xs @ wire_name (l # ls) @ rest"
  have l: "l \<noteq> []" "length l < 64" and g: "good_labels ls" using Cons.prems by (simp_all add: good_labels_def)
  have s: "?s = (xs @ label_enc l) @ wire_name ls @ rest" by (simp add: wire_name_def)
  have n: "?s ! length xs = of_nat (length l)" by (simp add: wire_name_def label_enc_def)
  have "0 < (of_nat (length l) :: byte)" "(of_nat (length l) :: byte) < 64" "unat (of_nat (length l) :: byte) = length l"
    using l by (simp_all add: word_less_nat_alt)
  moreover have "take (length l) (drop (length xs + 1) ?s) = l" by (simp add: wire_name_def label_enc_def)
  moreover have "length xs + 1 + length l = length (xs @ label_enc l)" by (simp add: label_enc_def)
  ultimately have "name_loop full ignore ?s (length xs) name None [] None =
      name_loop full ignore ?s (length (xs @ label_enc l)) (name @ escape_label l @ [0x2E]) None [] None"
    using n by (subst name_loop_label) (simp_all add: wire_name_def label_enc_def)
  with Cons.IH [OF g, of "xs @ label_enc l"] s show ?case by (simp add: wire_name_def label_enc_def)
qed

lemma dns_get_str_wire:
  assumes "good_labels ls"
  shows "dns_get_str (wire_name ls @ rest) full ignore = Inr (held_name ls, rest)"
  using name_loop_wire [OF assms, of full ignore "[]" rest "[]"]
  by (auto simp: dns_get_str_finish held_name_def)

section \<open>The properties\<close>

text \<open>C21: A name of labels that are not empty and have at most 63 octets, whatever octets they are, is
  encoded from its text into its labels and the root, and decoded from there back into the same
  text, with the octets after it left.\<close>

theorem dns_name_roundtrip:
  assumes "\<forall>l\<in>set ls. l \<noteq> [] \<and> length l < 64"
  shows "dns_encode (held_name ls) False = wire_name ls \<and>
    dns_get_str (dns_encode (held_name ls) False @ rest) full ignore = Inr (held_name ls, rest)"
  using dns_encode_text [of ls False] dns_get_str_wire [of ls rest full ignore] assms by (simp add: good_labels_def)

lemma dns_name_roundtrip_witness:
  "dns_get_str (dns_encode (held_name [[0x77, 0x2E, 0x5C], [0x31]]) False @ [7]) [] False =
     Inr ([0x77, 0x5C, 0x2E, 0x5C, 0x5C, 0x2E, 0x31, 0x2E], [7])"
proof -
  have "held_name [[0x77, 0x2E, 0x5C], [0x31]] = [0x77, 0x5C, 0x2E, 0x5C, 0x5C, 0x2E, 0x31, 0x2E]"
    by (simp add: held_name_def esc_def)
  with dns_name_roundtrip [of "[[0x77, 0x2E, 0x5C], [0x31]]" "[7]" "[]" False, THEN conjunct2] show ?thesis by simp
qed

text \<open>C20: A name compressed as in RFC 1035, 4.1.4, over at most twenty different pointers, is decoded into
  the text of its labels, and what is left starts after its first pointer or its root label.\<close>

theorem dns_name_decompressed:
  assumes "name_at m p js ls e" "distinct js" "length js \<le> 20"
  shows "dns_get_str (drop p m) m False = Inr (held_name ls, drop e m)"
  by (rule dns_get_str_at [OF assms])

text \<open>A name at offset 3 that points to one at offset 0.\<close>

lemma dns_name_decompressed_witness:
  "dns_get_str [1, 0x62, 0xC0, 0, 9] [1, 0x61, 0, 1, 0x62, 0xC0, 0, 9] False = Inr ([0x62, 0x2E, 0x61, 0x2E], [9])"
proof -
  let ?m = "[1, 0x61, 0, 1, 0x62, 0xC0, 0, 9] :: bytes"
  have "name_at ?m (0 + 1 + unat (?m ! 0)) [] [] (2 + 1)" using name_root [of 2 ?m] by (simp add: numeral_2_eq_2)
  then have "name_at ?m 0 [] (take (unat (?m ! 0)) (drop (0 + 1) ?m) # []) (2 + 1)" by (intro name_label) simp_all
  then have "name_at ?m 5 [0] ([[0x61]]) (5 + 2)" by (intro name_pointer) simp_all
  then have "name_at ?m 3 [0] (take (unat (?m ! 3)) (drop (3 + 1) ?m) # [[0x61]]) 7" by (intro name_label) simp_all
  from dns_name_decompressed [OF this] show ?thesis by (simp add: held_name_def esc_def)
qed

text \<open>C39: A name whose last label ends in an octet of 0xC0 or more is taken for one that ends in a
  pointer: rebuilt, it is its text and not its labels.\<close>

theorem dns_rebuilt_as_text:
  assumes "\<forall>l\<in>set ls. l \<noteq> [] \<and> length l < 64" "ls \<noteq> []" "last (last ls) AND 0xC0 = 0xC0"
  shows "name_i2m (held_name ls) = held_name ls \<and> name_i2m (held_name ls) \<noteq> wire_name ls"
proof -
  have "good_labels ls" using assms(1) by (simp add: good_labels_def)
  with is_ptr_text [OF this assms(2)] assms(2,3) name_text_root [OF this]
  have "name_i2m (held_name ls) = held_name ls"
    by (simp add: name_i2m_def dns_encode_def held_name_def)
  moreover have "last (held_name ls) = 0x2E"
    using assms(2) by (cases ls rule: rev_cases) (simp_all add: held_name_def name_text_def)
  then have "held_name ls \<noteq> wire_name ls" by (auto simp: wire_name_def)
  ultimately show ?thesis by simp
qed

lemma dns_rebuilt_as_text_witness:
  "name_i2m [0x63, 0x61, 0x66, 0xE9, 0x2E] = [0x63, 0x61, 0x66, 0xE9, 0x2E]"
proof -
  have "held_name [[0x63, 0x61, 0x66, 0xE9]] = [0x63, 0x61, 0x66, 0xE9, 0x2E]" by (simp add: held_name_def esc_def)
  with dns_rebuilt_as_text [of "[[0x63, 0x61, 0x66, 0xE9]]"] show ?thesis by simp
qed

section \<open>Any octets\<close>

lemma name_loop_returns:
  assumes "full \<noteq> [] \<or> ignore" "case left of None \<Rightarrow> s = s0 | Some l \<Rightarrow> \<exists>k. l = drop k s0"
  shows "\<exists>x k. name_loop full ignore s p name after ps left = Inr x \<and> snd (name_finish x) = drop k s0"
  using assms
proof (induction full ignore s p name after ps left rule: name_loop.induct)
  case (1 full ignore s p name after ps left)
  have stop: "\<exists>k. snd (name_finish (n, s, q, a, left)) = drop k s0" for n q a
    using 1(6) by (auto split: option.splits)
  let ?after = "Some (case after of None \<Rightarrow> p + 2 | Some a \<Rightarrow> a)"
  let ?t = "unat (s ! p AND 0x3F) * 256 + unat (s ! (p + 1))"
  consider "length s \<le> p" | "p < length s" "s ! p AND 0xC0 \<noteq> 0" ignore
    | "p < length s" "s ! p AND 0xC0 \<noteq> 0" "\<not> ignore" "length s \<le> p + 1 \<or> ?t \<in> set ps \<or> 20 \<le> length ps"
    | "p + 1 < length s" "s ! p AND 0xC0 \<noteq> 0" "\<not> ignore" "?t \<notin> set ps" "\<not> 20 \<le> length ps"
    | "p < length s" "s ! p AND 0xC0 = 0" "0 < s ! p" | "p < length s" "s ! p AND 0xC0 = 0" "\<not> 0 < s ! p"
    by linarith
  then show ?case
  proof cases
    case 1
    then have "name_loop full ignore s p name after ps left = Inr (name, s, p, after, left)" by (subst name_loop.simps) simp
    with stop show ?thesis by blast
  next
    case 2
    then have "name_loop full ignore s p name after ps left = name_loop full ignore s (p + 2) name ?after ps left"
      by (subst name_loop.simps) (simp add: Let_def split: option.split)
    moreover have "\<exists>x k. name_loop full ignore s (p + 2) name ?after ps left = Inr x \<and> snd (name_finish x) = drop k s0"
      using 2 1(5,6) by (intro 1(1)) (auto split: option.split)
    ultimately show ?thesis by simp
  next
    case 3
    then have "\<exists>q. name_loop full ignore s p name after ps left = Inr (name, s, q, ?after, left)"
      using 1(5) by (subst name_loop.simps) (auto simp: Let_def split: option.split)
    with stop show ?thesis by metis
  next
    case 4
    then have e: "name_loop full ignore s p name after ps left = (case left of
        None \<Rightarrow> name_loop full ignore full ?t name ?after (ps @ [?t]) (Some (drop (the ?after) s))
      | Some l \<Rightarrow> name_loop full ignore s ?t name ?after (ps @ [?t]) left)"
      using 1(5) by (subst name_loop.simps) (auto simp: Let_def split: option.split)
    show ?thesis
    proof (cases left)
      case None
      with 1(6) have "s = s0" by simp
      have "\<exists>x k. name_loop full ignore full ?t name ?after (ps @ [?t]) (Some (drop (the ?after) s)) = Inr x \<and>
          snd (name_finish x) = drop k s0"
        using 4 1(5) None \<open>s = s0\<close> by (intro 1(2)) (auto split: option.split)
      with e None show ?thesis by simp
    next
      case (Some l)
      have "\<exists>x k. name_loop full ignore s ?t name ?after (ps @ [?t]) left = Inr x \<and> snd (name_finish x) = drop k s0"
        using 4 1(5,6) Some by (intro 1(3)) (auto split: option.split)
      with e Some show ?thesis by simp
    qed
  next
    case 5
    then have "name_loop full ignore s p name after ps left = name_loop full ignore s (p + 1 + unat (s ! p))
        (name @ escape_label (take (unat (s ! p)) (drop (p + 1) s)) @ [0x2E]) after ps left"
      by (subst name_loop.simps) simp
    moreover have "\<exists>x k. name_loop full ignore s (p + 1 + unat (s ! p))
        (name @ escape_label (take (unat (s ! p)) (drop (p + 1) s)) @ [0x2E]) after ps left = Inr x \<and>
        snd (name_finish x) = drop k s0"
      using 5 1(5,6) by (intro 1(4)) auto
    ultimately show ?thesis by simp
  next
    case 6
    then have "name_loop full ignore s p name after ps left = Inr (name, s, p + 1, after, left)"
      by (subst name_loop.simps) simp
    with stop show ?thesis by blast
  qed
qed

lemma name_loop_no_message:
  "\<exists>x. name_loop [] False s p name None [] None = x \<and>
     (x = Inl Scapy_Exception \<or> (\<exists>n q a. x = Inr (n, s, q, a, None)))"
proof (induction "[] :: bytes" False s p name "None :: nat option" "[] :: nat list" "None :: bytes option" rule: name_loop.induct)
  case (1 s p name)
  then show ?case
    by (subst name_loop.simps) (auto simp: Let_def)
qed

text \<open>C29: Whatever octets a name and its message are, decoding returns a name that is not empty and some
  of the octets given as left: pointer loops, pointers past the end and labels cut off end it.
  Only a pointer where there is no message raises.\<close>

theorem dns_name_returns:
  "(\<exists>name left k. dns_get_str s full ignore = Inr (name, left) \<and> name \<noteq> [] \<and> left = drop k s) \<or>
   (full = [] \<and> \<not> ignore \<and> dns_get_str s full ignore = Inl Scapy_Exception)"
proof -
  have fin: "\<exists>name left k. dns_get_str s full ignore = Inr (name, left) \<and> name \<noteq> [] \<and> left = drop k s"
    if "name_loop full ignore s 0 [] None [] None = Inr x" "snd (name_finish x) = drop k s" for x k
    using that by (cases "name_finish x") (auto simp: dns_get_str_finish)
  show ?thesis
  proof (cases "full \<noteq> [] \<or> ignore")
    case True
    with name_loop_returns [where full = full and ignore = ignore and left = None and s = s and ?s0.0 = s and p = 0 and name = "[]"
        and after = None and ps = "[]"] obtain x k
      where "name_loop full ignore s 0 [] None [] None = Inr x" "snd (name_finish x) = drop k s" by auto
    from fin [OF this] show ?thesis by blast
  next
    case False
    with name_loop_no_message [of s 0 "[]"] consider "name_loop full ignore s 0 [] None [] None = Inl Scapy_Exception"
      | n q a where "name_loop full ignore s 0 [] None [] None = Inr (n, s, q, a, None)" by auto
    then show ?thesis
    proof cases
      case 1
      with False show ?thesis by (auto simp: dns_get_str_finish)
    next
      case 2
      then have "snd (name_finish (n, s, q, a, None)) = drop (case a of Some a \<Rightarrow> a | None \<Rightarrow> q) s" by simp
      from fin [OF 2 this] show ?thesis by blast
    qed
  qed
qed

section \<open>Character strings\<close>

lemma strings_m2i_pieces: "\<exists>ps. (u \<noteq> [] \<longrightarrow> ps \<noteq> []) \<and> concat ps = u \<and> (\<forall>p\<in>set ps. p \<noteq> [] \<and> length p \<le> 255) \<and>
    (length u \<le> 255 \<longrightarrow> u \<noteq> [] \<longrightarrow> ps = [u]) \<and> (\<forall>rest. strings_m2i (string_pieces u @ rest) = ps @ strings_m2i rest)"
proof (induction u rule: string_pieces.induct)
  case (1 u)
  show ?case
  proof (cases "255 \<le> length u")
    case True
    from 1 [OF True] obtain ps where ps: "concat ps = drop 255 u" "\<forall>p\<in>set ps. p \<noteq> [] \<and> length p \<le> 255"
      "\<forall>rest. strings_m2i (string_pieces (drop 255 u) @ rest) = ps @ strings_m2i rest"
      "drop 255 u = [] \<Longrightarrow> ps = []" by (metis concat_eq_Nil_conv list.set_intros(1) neq_Nil_conv)
    have "strings_m2i (string_pieces u @ rest) = (take 255 u # ps) @ strings_m2i rest" for rest
      using True ps(3) by (subst string_pieces.simps) simp
    moreover have "length u \<le> 255 \<Longrightarrow> ps = []" using ps(4) by simp
    ultimately show ?thesis using True ps(1,2) by (intro exI [of _ "take 255 u # ps"]) auto
  next
    case False
    show ?thesis
    proof (cases "u = []")
      case True
      then show ?thesis by (intro exI [of _ "[]"]) (simp add: string_pieces.simps)
    next
      case nonempty: False
      with False have "strings_m2i (string_pieces u @ rest) = [u] @ strings_m2i rest" for rest
        by (subst string_pieces.simps) simp
      with False nonempty show ?thesis by (intro exI [of _ "[u]"]) auto
    qed
  qed
qed

text \<open>Character strings come back: their octets in order, none of more than 255, and those of at most
  255 as they were.\<close>

lemma dns_strings_roundtrip:
  "concat (strings_m2i (strings_i2m ss)) = concat ss \<and> (\<forall>t\<in>set (strings_m2i (strings_i2m ss)). length t \<le> 255) \<and>
   ((\<forall>t\<in>set ss. length t \<le> 255) \<longrightarrow> strings_m2i (strings_i2m ss) = ss)"
proof (induction ss)
  case (Cons t ss)
  show ?case
  proof (cases "t = []")
    case True
    with Cons show ?thesis by (simp add: strings_i2m_def)
  next
    case False
    from strings_m2i_pieces [of t] obtain ps where ps: "concat ps = t" "\<forall>p\<in>set ps. length p \<le> 255"
      "length t \<le> 255 \<longrightarrow> ps = [t]" "\<forall>rest. strings_m2i (string_pieces t @ rest) = ps @ strings_m2i rest"
      using False by blast
    have e: "strings_m2i (strings_i2m (t # ss)) = ps @ strings_m2i (strings_i2m ss)"
      using False ps(4) by (simp add: strings_i2m_def)
    show ?thesis unfolding e
    proof (intro conjI impI)
      show "concat (ps @ strings_m2i (strings_i2m ss)) = concat (t # ss)" using Cons ps(1) by simp
      show "\<forall>u\<in>set (ps @ strings_m2i (strings_i2m ss)). length u \<le> 255" using Cons ps(2) by (simp add: ball_Un)
      show "ps @ strings_m2i (strings_i2m ss) = t # ss" if "\<forall>u\<in>set (t # ss). length u \<le> 255"
        using that Cons ps(3) by simp
    qed
  qed
qed (simp add: strings_i2m_def)

lemma dns_strings_roundtrip_witness:
  "strings_m2i (strings_i2m [[], [7, 8, 0], [1, 2]]) = [[], [7, 8, 0], [1, 2]]"
proof -
  have "\<forall>t\<in>set [[], [7, 8, 0], [1, 2]] :: bytes set. length t \<le> 255" by simp
  then show ?thesis by (rule mp [OF dns_strings_roundtrip [THEN conjunct2, THEN conjunct2]])
qed

end
