(* ===== verification/Dns_Records.thy ===== *)
theory Dns_Records
  imports Dns_Names Py_Socket6
begin

unbundle bit_operations_syntax

text \<open>
  Records of DNS messages (\<open>layers/dns.py\<close>): type bit maps, client subnets, the signing time, the
  lengths that are filled in when a record or a message is built, and how a message is cut
  into records.
\<close>

section \<open>Type bit maps\<close>

definition window_types :: "nat \<Rightarrow> bytes \<Rightarrow> nat list" where
  "window_types base bs =
     concat (map (\<lambda>b. map (\<lambda>i. base + b * 8 + i) (filter (\<lambda>i. bs ! b AND drop_bit i 128 \<noteq> 0) [0..<8])) [0..<length bs])"

function bitmap2RRlist :: "bytes \<Rightarrow> nat list option" where
  "bitmap2RRlist [] = Some []"
| "bitmap2RRlist [w] = None"
| "bitmap2RRlist (w # n # rest) =
     (if n = 0 \<or> 32 < n then None
      else (case bitmap2RRlist (drop (unat n) rest) of
          None \<Rightarrow> None
        | Some r \<Rightarrow> Some (window_types (256 * unat w) (take (unat n) rest) @ r)))"
  by pat_completeness auto
termination by (relation "measure length") auto

definition pack_u8 :: "int \<Rightarrow> bytes res" where
  "pack_u8 v = (if 0 \<le> v \<and> v < 256 then Inr [of_int v] else Inl Struct_Error)"

definition bitmap_octet :: "int list \<Rightarrow> int \<Rightarrow> int \<Rightarrow> int" where
  "bitmap_octet rrlist wb t =
     sum_list (map (\<lambda>x. 2 ^ nat (7 - (x - 256 * wb) + t * 8))
       (filter (\<lambda>x. 256 * wb + 8 * t \<le> x \<and> x < 256 * wb + 8 * t + 8) rrlist))"

definition window_block :: "int list \<Rightarrow> int \<Rightarrow> bytes res" where
  "window_block lst wb =
     (let rrlist = sort (filter (\<lambda>x. 256 * wb \<le> x \<and> x < 256 * (wb + 1)) lst) in
      if rrlist = [] then Inr []
      else
        (let n = (if last rrlist = 0 then 1 else (last rrlist - 256 * wb) div 8 + 1);
             n = (if 32 < n then 32 else n) in
         rbind (pack_u8 wb) (\<lambda>h. rbind (pack_u8 n) (\<lambda>l.
         rbind (rmap (\<lambda>t. pack_u8 (bitmap_octet rrlist wb t)) [0..n - 1]) (\<lambda>bs. Inr (h @ l @ concat bs))))))"

definition RRlist2bitmap :: "int list \<Rightarrow> bytes res" where
  "RRlist2bitmap lst =
     (let lst = map abs (filter (\<lambda>x. x \<le> 65535) (sorted_list_of_set (set lst))) in
      if lst = [] then Inl Index_Error
      else
        (let hi = (last lst + 255) div 256; lo = hd lst div 256; hi = (if lo = hi then hi + 1 else hi) in
         rbind (rmap (window_block lst) [lo..hi]) (\<lambda>bs. Inr (concat bs))))"

text \<open>The field holds the map encoded; a list of types is encoded, an empty one is kept.\<close>

definition rrlist_h2i :: "int list \<Rightarrow> bytes res" where
  "rrlist_h2i x = (if x = [] then Inr [] else RRlist2bitmap x)"

section \<open>Client subnets\<close>

text \<open>An address by its octets; \<open>plen\<close> is the source prefix length.\<close>

definition trim_zeros :: "bytes \<Rightarrow> bytes" where
  "trim_zeros x = rev (dropWhile (\<lambda>c. c = 0) (rev x))"

definition pack_subnet :: "bytes \<Rightarrow> nat option \<Rightarrow> bytes" where
  "pack_subnet packed plen =
     (case plen of
        None \<Rightarrow> trim_zeros packed
      | Some n \<Rightarrow>
          (let x = take ((n + 7) div 8) packed; r = n mod 8 in
           if r \<noteq> 0 \<and> x \<noteq> [] then butlast x @ [last x AND push_bit (8 - r) 0xFF] else x))"

definition subnet_m2i :: "nat \<Rightarrow> nat \<Rightarrow> bytes \<Rightarrow> bytes" where
  "subnet_m2i af_length plen x =
     take (af_length div 8) (if int af_length - int plen \<noteq> 0 then x @ replicate (nat ((int af_length - int plen) div 8)) 0 else x)"

definition subnet_getfield :: "nat \<Rightarrow> nat \<Rightarrow> bytes \<Rightarrow> bytes \<times> bytes" where
  "subnet_getfield af_length plen s =
     (let sz = min ((plen + 7) div 8) (af_length div 8) in (drop sz s, subnet_m2i af_length plen (take sz s)))"

text \<open>The field on text; \<open>v6\<close> is its class. An address of the other family makes the packet's family
  two, even where it is no address at all.\<close>

definition subnet_i2m :: "bool \<Rightarrow> string option \<Rightarrow> nat option \<Rightarrow> nat \<Rightarrow> bytes res \<times> nat" where
  "subnet_i2m v6 x plen family =
     (case x of
        None \<Rightarrow> (Inr (if v6 then [0x20] else [0xC0]), family)
      | Some t \<Rightarrow> (case (if v6 then inet_pton6 t else inet_pton4 t) of
            Some p \<Rightarrow> (Inr (pack_subnet p plen), family)
          | None \<Rightarrow> (case inet_pton6 t of Some p \<Rightarrow> Inr (pack_subnet p plen) | None \<Rightarrow> Inl OSError, 2)))"

definition subnet_i2len :: "bool \<Rightarrow> string option \<Rightarrow> nat option \<Rightarrow> nat \<Rightarrow> nat res \<times> nat" where
  "subnet_i2len v6 x plen family =
     (if x = None then (Inr 1, family)
      else (case subnet_i2m v6 x plen family of (r, f) \<Rightarrow> (rbind r (\<lambda>b. Inr (length b)), f)))"

definition subnet_text :: "bool \<Rightarrow> bytes \<Rightarrow> string res" where
  "subnet_text v6 x =
     (if length x \<noteq> (if v6 then 16 else 4) then Inl Value_Error
      else Inr (if v6 then inet_ntop6 x else inet_ntoa x))"

definition subnet_read :: "bool \<Rightarrow> nat \<Rightarrow> bytes \<Rightarrow> (bytes \<times> string) res" where
  "subnet_read v6 plen s =
     (case subnet_getfield (if v6 then 128 else 32) plen s of (left, x) \<Rightarrow>
        rbind (subnet_text v6 x) (\<lambda>t. Inr (left, t)))"

section \<open>The time a message was signed\<close>

definition time_i2m :: "int option \<Rightarrow> bytes" where
  "time_i2m seconds =
     (let s = (case seconds of None \<Rightarrow> 0 | Some s \<Rightarrow> s) in
      to_be 2 (nat (drop_bit 32 s AND 0xFFFF)) @ to_be 4 (nat (s AND 0xFFFFFFFF)))"

definition convert_seconds :: "bytes \<Rightarrow> int res" where
  "convert_seconds p =
     (if length (take 2 p) \<noteq> 2 \<or> length (drop 2 p) \<noteq> 4 then Inl Struct_Error
      else Inr (int (from_be (take 2 p)) + int (from_be (drop 2 p))))"

section \<open>Lengths\<close>

definition pack_be16 :: "nat \<Rightarrow> bytes res" where
  "pack_be16 v = (if v < 65536 then Inr (to_be 2 v) else Inl Struct_Error)"

text \<open>A record without a given length gets the octets after the name and ten fixed ones.\<close>

definition rr_post_build :: "bytes \<Rightarrow> nat option \<Rightarrow> bytes \<Rightarrow> bytes \<Rightarrow> bytes res" where
  "rr_post_build rrname rdlen pkt pay =
     (if rdlen \<noteq> None then Inr (pkt @ pay)
      else
        (let n = length (name_i2m rrname); l = int (length pkt) - int n - 10 in
         if l < 0 then Inl Struct_Error
         else rbind (pack_be16 (nat l)) (\<lambda>l. Inr (take (n + 8) pkt @ (l @ drop (n + 8 + 2) pkt) @ pay))))"

definition own_post_build :: "nat option \<Rightarrow> bytes \<Rightarrow> bytes \<Rightarrow> bytes res" where
  "own_post_build optlen pkt pay =
     (let pkt = pkt @ pay in
      if optlen \<noteq> None then Inr pkt
      else if length pkt < 4 then Inl Struct_Error
      else rbind (pack_be16 (length pkt - 4)) (\<lambda>l. Inr (take 2 pkt @ l @ drop 4 pkt)))"

text \<open>Over TCP a message is preceded by its length.\<close>

definition dns_post_build :: "bool \<Rightarrow> nat option \<Rightarrow> bytes \<Rightarrow> bytes \<Rightarrow> bytes res" where
  "dns_post_build stream len pkt pay =
     (if stream \<and> len = None then
        (if length pkt < 2 then Inl Struct_Error
         else rbind (pack_be16 (length pkt - 2)) (\<lambda>l. Inr ((l @ drop 2 pkt) @ pay)))
      else Inr (pkt @ pay))"

definition dns_pre_dissect :: "bool \<Rightarrow> bytes \<Rightarrow> bytes res" where
  "dns_pre_dissect tcp s =
     (if tcp then
        (if 2 \<le> length s then
           (let n = from_be (take 2 s) in if n < 14 \<or> length s < n then Inl Scapy_Exception else Inr s)
         else Inl Scapy_Exception)
      else Inr s)"

definition dns_get_full :: "bool \<Rightarrow> bytes \<Rightarrow> bytes" where
  "dns_get_full stream original = (if stream then drop 2 original else original)"

section \<open>Records of a section\<close>

definition unpack_be16 :: "bytes \<Rightarrow> nat res" where
  "unpack_be16 x = (if length x = 2 then Inr (from_be x) else Inl Struct_Error)"

text \<open>The type of the record at the start, its octets, and the rest for the next one. No record is
  made of no octets.\<close>

definition dns_rr :: "bytes \<Rightarrow> (nat \<times> bytes \<times> bytes) option res" where
  "dns_rr s =
     (if s = [] then Inr None
      else
        rbind (dns_get_str s [] True) (\<lambda>(_, remain).
        rbind (unpack_be16 (take 2 remain)) (\<lambda>ty.
        rbind (unpack_be16 (take 2 (drop 8 remain))) (\<lambda>rd.
          let n = length s - length remain + 10 + rd in Inr (Some (ty, take n s, drop n s))))))"

text \<open>The header's fields as the other backend is told of them.\<close>

record dns_header =
  h_id :: nat
  h_qr :: nat
  h_opcode :: nat
  h_aa :: nat
  h_tc :: nat
  h_rd :: nat
  h_ra :: nat
  h_z :: nat
  h_ad :: nat
  h_cd :: nat
  h_rcode :: nat
  h_qdcount :: nat
  h_ancount :: nat
  h_nscount :: nat
  h_arcount :: nat

definition octet_at :: "bytes \<Rightarrow> nat \<Rightarrow> nat" where
  "octet_at h i = unat (h ! i)"

definition dns_wire :: "bytes \<Rightarrow> dns_header \<times> bytes" where
  "dns_wire msg =
     (let h = take 12 msg @ replicate (12 - length (take 12 msg)) 0; b = octet_at h in
      (\<lparr>h_id = (push_bit 8 (b 0)) OR b 1, h_qr = drop_bit 7 (b 2), h_opcode = drop_bit 3 (b 2) AND 0xF,
        h_aa = drop_bit 2 (b 2) AND 1, h_tc = drop_bit 1 (b 2) AND 1, h_rd = b 2 AND 1, h_ra = drop_bit 7 (b 3),
        h_z = drop_bit 6 (b 3) AND 1, h_ad = drop_bit 5 (b 3) AND 1, h_cd = drop_bit 4 (b 3) AND 1,
        h_rcode = b 3 AND 0xF, h_qdcount = (push_bit 8 (b 4)) OR b 5, h_ancount = (push_bit 8 (b 6)) OR b 7,
        h_nscount = (push_bit 8 (b 8)) OR b 9, h_arcount = (push_bit 8 (b 10)) OR b 11\<rparr>, drop 12 msg))"

end
