(* ===== verification/Dns_Bitmaps.thy ===== *)
theory Dns_Bitmaps
  imports Dns_Records
begin

unbundle bit_operations_syntax

text \<open>
  Type bit maps are read back as the types they were made of.
\<close>

section \<open>Octets of bits\<close>

lemma bit_sum_powers:
  "finite A \<Longrightarrow> bit (\<Sum>k\<in>A. 2 ^ k :: nat) n \<longleftrightarrow> n \<in> A"
proof (induction A arbitrary: n rule: finite_induct)
  case (insert k A)
  have "(2 ^ k :: nat) AND (\<Sum>k\<in>A. 2 ^ k) = 0"
    using insert by (intro bit_eqI) (auto simp: bit_simps)
  then have "(2 ^ k :: nat) + (\<Sum>k\<in>A. 2 ^ k) = 2 ^ k OR (\<Sum>k\<in>A. 2 ^ k)" by (simp add: disjunctive_add_eq_or)
  with insert show ?case by (auto simp: bit_simps)
qed simp

lemma sum_powers_less: "A \<subseteq> {..<8} \<Longrightarrow> (\<Sum>k\<in>A. 2 ^ k :: nat) < 256"
proof -
  assume "A \<subseteq> {..<8}"
  then have "(\<Sum>k\<in>A. 2 ^ k :: nat) \<le> (\<Sum>k<8. 2 ^ k)" by (intro sum_mono2) auto
  also have "\<dots> < 256" by (simp add: lessThan_nat_numeral lessThan_Suc eval_nat_numeral)
  finally show ?thesis .
qed

lemma octet_test:
  assumes "i < 8"
  shows "(of_nat v :: byte) AND drop_bit i 128 \<noteq> 0 \<longleftrightarrow> bit v (7 - i)"
proof -
  have "i \<in> {0, 1, 2, 3, 4, 5, 6, 7}" using assms by auto
  then have "drop_bit i (128 :: byte) = 2 ^ (7 - i)" by auto
  moreover have "7 - i < 8" by simp
  ultimately show ?thesis
    using and_exp_eq_0_iff_not_bit [of "of_nat v :: byte" "7 - i"] by (simp add: bit_simps)
qed

section \<open>One window\<close>

lemma window_types_filter:
  assumes "\<And>b i. b < length bs \<Longrightarrow> i < 8 \<Longrightarrow> (bs ! b AND drop_bit i 128 \<noteq> 0) = P (base + b * 8 + i)"
  shows "window_types base bs = filter P [base..<base + 8 * length bs]"
proof -
  have e: "filter P [base + b * 8..<base + b * 8 + 8] =
      map (\<lambda>i. base + b * 8 + i) (filter (\<lambda>i. bs ! b AND drop_bit i 128 \<noteq> 0) [0..<8])" if "b < length bs" for b
  proof -
    have "[base + b * 8..<base + b * 8 + 8] = map (\<lambda>i. base + b * 8 + i) [0..<8]"
      by (simp add: upt_rec)
    then have "filter P [base + b * 8..<base + b * 8 + 8] =
        map (\<lambda>i. base + b * 8 + i) (filter (\<lambda>i. P (base + b * 8 + i)) [0..<8])"
      by (simp add: filter_map o_def)
    also have "filter (\<lambda>i. P (base + b * 8 + i)) [0..<8] = filter (\<lambda>i. bs ! b AND drop_bit i 128 \<noteq> 0) [0..<8]"
      using assms [OF that] by (intro filter_cong) auto
    finally show ?thesis .
  qed
  have "concat (map (\<lambda>b. filter P [base + b * 8..<base + b * 8 + 8]) [0..<n]) = filter P [base..<base + 8 * n]" for n
  proof (induction n)
    case (Suc n)
    have "[base..<base + 8 * Suc n] = [base..<base + 8 * n] @ [base + n * 8..<base + n * 8 + 8]"
      using upt_add_eq_append [of base "base + n * 8" 8] by (simp add: ac_simps)
    with Suc show ?case by simp
  qed simp
  moreover have "window_types base bs = concat (map (\<lambda>b. filter P [base + b * 8..<base + b * 8 + 8]) [0..<length bs])"
    unfolding window_types_def by (intro arg_cong [where f = concat] map_cong refl) (simp add: e)
  ultimately show ?thesis by simp
qed

definition window :: "int \<Rightarrow> int \<Rightarrow> bool" where
  "window wb x \<longleftrightarrow> 256 * wb \<le> x \<and> x < 256 * (wb + 1)"

lemma bitmap_octet_bits:
  assumes "distinct l"
  shows "\<exists>v. bitmap_octet l wb t = int v \<and> v < 256 \<and>
    (\<forall>i<8. bit v (7 - i) \<longleftrightarrow> 256 * wb + 8 * t + int i \<in> set l)"
proof -
  let ?S = "filter (\<lambda>x. 256 * wb + 8 * t \<le> x \<and> x < 256 * wb + 8 * t + 8) l"
  let ?e = "\<lambda>x. nat (7 - (x - 256 * wb) + t * 8)"
  have inj: "inj_on ?e (set ?S)" by (auto simp: inj_on_def)
  have "bitmap_octet l wb t = (\<Sum>x\<in>set ?S. 2 ^ ?e x)"
    using assms unfolding bitmap_octet_def by (intro sum_list_distinct_conv_sum_set) simp
  also have "\<dots> = int (\<Sum>k\<in>?e ` set ?S. 2 ^ k)"
    using inj by (simp add: sum.reindex)
  finally have v: "bitmap_octet l wb t = int (\<Sum>k\<in>?e ` set ?S. 2 ^ k)" .
  moreover have "(\<Sum>k\<in>?e ` set ?S. 2 ^ k :: nat) < 256" by (rule sum_powers_less) auto
  moreover have "7 - i \<in> ?e ` set ?S \<longleftrightarrow> 256 * wb + 8 * t + int i \<in> set l" if "i < 8" for i
  proof
    assume "7 - i \<in> ?e ` set ?S"
    then obtain x where x: "x \<in> set ?S" "7 - i = ?e x" by blast
    then have "x = 256 * wb + 8 * t + int i" using that by auto
    with x show "256 * wb + 8 * t + int i \<in> set l" by simp
  next
    assume "256 * wb + 8 * t + int i \<in> set l"
    then have "256 * wb + 8 * t + int i \<in> set ?S" "7 - i = ?e (256 * wb + 8 * t + int i)" using that by auto
    then show "7 - i \<in> ?e ` set ?S" by blast
  qed
  ultimately show ?thesis
    by (intro exI [of _ "\<Sum>k\<in>?e ` set ?S. 2 ^ k"]) (simp add: bit_sum_powers)
qed

lemma sorted_bounds:
  fixes l :: "'a :: linorder list"
  assumes "sorted l" "x \<in> set l"
  shows "x \<le> last l" "hd l \<le> x"
proof -
  from assms(2) obtain i where i: "i < length l" "x = l ! i" by (auto simp: in_set_conv_nth)
  then have "l \<noteq> []" by auto
  with i assms(1) show "x \<le> last l" "hd l \<le> x"
    by (auto simp: last_conv_nth hd_conv_nth intro!: sorted_nth_mono)
qed

lemma pack_u8_Inr: "pack_u8 v = Inr x \<longleftrightarrow> 0 \<le> v \<and> v < 256 \<and> x = [of_int v]"
  by (auto simp: pack_u8_def)

lemma rmap_upto:
  assumes "\<And>t. 0 \<le> t \<Longrightarrow> t < int n \<Longrightarrow> \<exists>v. f t = Inr [of_nat v] \<and> Q (nat t) v"
  shows "\<exists>vs. rmap f [0..int n - 1] = Inr (map (\<lambda>v. [of_nat v :: byte]) vs) \<and> length vs = n \<and> (\<forall>t<n. Q t (vs ! t))"
  using assms
proof (induction n)
  case (Suc n)
  then obtain vs where vs: "rmap f [0..int n - 1] = Inr (map (\<lambda>v. [of_nat v :: byte]) vs)" "length vs = n" "\<forall>t<n. Q t (vs ! t)"
    by force
  from Suc.prems [of "int n"] obtain v where v: "f (int n) = Inr [of_nat v]" "Q n v" by auto
  have "[0..int (Suc n) - 1] = [0..int n - 1] @ [int n]" using upto_rec2 [of 0 "int n"] by simp
  moreover have "rmap f (xs @ [a]) = rbind (rmap f xs) (\<lambda>ys. rbind (f a) (\<lambda>y. Inr (ys @ [y])))" for xs a
    by (induction xs) (auto simp: rbind_def split: sum.split)
  ultimately have "rmap f [0..int (Suc n) - 1] = Inr (map (\<lambda>v. [of_nat v :: byte]) (vs @ [v]))" using vs v by simp
  moreover have "\<forall>t<Suc n. Q t ((vs @ [v]) ! t)" using vs v by (auto simp: nth_append less_Suc_eq)
  ultimately show ?case using vs(2) by (intro exI [of _ "vs @ [v]"]) simp
qed simp

lemma window_block_read:
  assumes "sorted l" "distinct l" "0 \<le> wb" "\<forall>x\<in>set l. x \<le> 65535"
  shows "\<exists>bs. window_block l wb = Inr bs \<and>
    (\<forall>rest r. bitmap2RRlist rest = Some r \<longrightarrow> bitmap2RRlist (bs @ rest) = Some (map nat (filter (window wb) l) @ r))"
proof -
  define rr where "rr = filter (window wb) l"
  have rr: "sort (filter (\<lambda>x. 256 * wb \<le> x \<and> x < 256 * (wb + 1)) l) = rr"
    using assms(1) unfolding rr_def window_def [abs_def] by (intro sorted_sort_id sorted_wrt_filter)
  have d: "distinct rr" "sorted rr" using assms(1,2) by (auto simp: rr_def intro: sorted_wrt_filter)
  have in_window: "256 * wb \<le> x \<and> x < 256 * wb + 256" if "x \<in> set rr" for x
    using that by (simp add: rr_def window_def algebra_simps)
  have nonneg: "0 \<le> x" if "x \<in> set rr" for x using in_window [OF that] assms(3) by linarith
  show ?thesis
  proof (cases "rr = []")
    case True
    then show ?thesis unfolding window_block_def rr by (simp add: rr_def)
  next
    case False
    from in_window [OF last_in_set [OF False]] assms(4) last_in_set [OF False] have wb: "wb < 256"
      by (fastforce simp: rr_def)
    define n where "n = nat ((last rr - 256 * wb) div 8 + 1)"
    have last: "256 * wb \<le> last rr" "last rr < 256 * wb + 256" using in_window [OF last_in_set [OF False]] by auto
    then have n: "int n = (last rr - 256 * wb) div 8 + 1" "0 < n" "n \<le> 32" "last rr < 256 * wb + 8 * int n"
      by (simp_all add: n_def)
    have one: "(last rr - 256 * wb) div 8 + 1 = 1" if "last rr = 0"
    proof -
      have "wb = 0" using that assms(3) last by simp
      with that show ?thesis by simp
    qed
    have "\<exists>v. pack_u8 (bitmap_octet rr wb t) = Inr [of_nat v] \<and>
        (\<forall>i<8. bit v (7 - i) \<longleftrightarrow> 256 * wb + 8 * int (nat t) + int i \<in> set rr)" if "0 \<le> t" "t < int n" for t
      using bitmap_octet_bits [OF d(1), of wb t] that by (auto simp: pack_u8_Inr)
    from rmap_upto [of n "\<lambda>t. pack_u8 (bitmap_octet rr wb t)"
        "\<lambda>t v. \<forall>i<8. bit v (7 - i) \<longleftrightarrow> 256 * wb + 8 * int t + int i \<in> set rr", OF this] obtain vs where vs:
      "rmap (\<lambda>t. pack_u8 (bitmap_octet rr wb t)) [0..int n - 1] = Inr (map (\<lambda>v. [of_nat v]) vs)" "length vs = n"
      "\<forall>t<n. \<forall>i<8. bit (vs ! t) (7 - i) \<longleftrightarrow> 256 * wb + 8 * int t + int i \<in> set rr" by blast
    let ?os = "map of_nat vs :: bytes"
    have "window_block l wb = Inr (of_int wb # of_int (int n) # ?os)"
    proof -
      have c: "(if last rr = 0 then 1 else (last rr - 256 * wb) div 8 + 1) = int n" using one n(1) by simp
      have "(if 32 < int n then 32 else int n) = int n" "pack_u8 wb = Inr [of_int wb]" "pack_u8 (int n) = Inr [of_int (int n)]"
        using n(2,3) assms(3) wb by (simp_all add: pack_u8_def)
      with False vs(1) show ?thesis unfolding window_block_def rr c Let_def by simp
    qed
    moreover have "window_types (256 * nat wb) ?os = map nat rr"
    proof -
      have "window_types (256 * nat wb) ?os = filter (\<lambda>x. int x \<in> set rr) [256 * nat wb..<256 * nat wb + 8 * n]"
        using vs assms(3) window_types_filter [of ?os "\<lambda>x. int x \<in> set rr" "256 * nat wb"]
        by (simp add: octet_test algebra_simps)
      also have "\<dots> = map nat rr"
      proof (rule sorted_distinct_set_unique)
        show "set (filter (\<lambda>x. int x \<in> set rr) [256 * nat wb..<256 * nat wb + 8 * n]) = set (map nat rr)"
        proof -
          have "256 * int (nat wb) \<le> x \<and> x < 256 * int (nat wb) + 8 * int n \<and> 0 \<le> x" if "x \<in> set rr" for x
            using in_window [OF that] n(4) d(2) that assms(3) by (auto dest: sorted_bounds(1))
          then have iv: "nat x \<in> set [256 * nat wb..<256 * nat wb + 8 * n] \<and> int (nat x) = x" if "x \<in> set rr" for x
            using that by (simp add: nat_less_iff le_nat_iff)
          show ?thesis
          proof (intro equalityI subsetI)
            fix y assume "y \<in> set (filter (\<lambda>x. int x \<in> set rr) [256 * nat wb..<256 * nat wb + 8 * n])"
            then have "int y \<in> set rr" by simp
            then have "nat (int y) \<in> nat ` set rr" by (rule imageI)
            then show "y \<in> set (map nat rr)" by simp
          next
            fix y assume "y \<in> set (map nat rr)"
            then obtain x where "x \<in> set rr" "y = nat x" by auto
            with iv [of x] show "y \<in> set (filter (\<lambda>x. int x \<in> set rr) [256 * nat wb..<256 * nat wb + 8 * n])"
              by simp
          qed
        qed
        show "sorted (map nat rr)" unfolding sorted_map using d(2) by (rule sorted_wrt_mono_rel [rotated]) simp
        show "distinct (map nat rr)"
          using d(1) nonneg by (auto simp: distinct_map inj_on_def eq_nat_nat_iff)
      qed (simp_all add: sorted_wrt_filter)
      finally show ?thesis .
    qed
    moreover have "unat (of_int wb :: byte) = nat wb" using assms(3) wb by (simp add: unat_of_int_byte)
    moreover have "(of_int (int n) :: byte) \<noteq> 0" "\<not> 32 < (of_int (int n) :: byte)" "unat (of_int (int n) :: byte) = n"
      using n(2,3) by (simp_all add: word_less_nat_alt unat_eq_0 [symmetric] del: unat_eq_0)
    ultimately show ?thesis using vs(2) by (auto simp: rr_def)
  qed
qed

section \<open>All windows\<close>

lemma filter_less_split:
  fixes l :: "int list"
  assumes "sorted l" "a \<le> b"
  shows "filter (\<lambda>x. x < b) l = filter (\<lambda>x. x < a) l @ filter (\<lambda>x. a \<le> x \<and> x < b) l"
  using assms(1)
proof (induction l)
  case (Cons x l)
  show ?case
  proof (cases "x < a")
    case False
    with Cons.prems have "filter (\<lambda>x. x < a) l = []" by (auto simp: filter_empty_conv)
    with False Cons show ?thesis by simp
  qed (use Cons assms(2) in simp)
qed simp

lemma windows_concat:
  assumes "sorted l" "\<forall>x\<in>set l. 256 * lo \<le> x"
  shows "concat (map (\<lambda>wb. filter (window wb) l) [lo..lo + int n - 1]) = filter (\<lambda>x. x < 256 * (lo + int n)) l"
proof (induction n)
  case 0
  have "filter (\<lambda>x. x < 256 * lo) l = []" using assms(2) by (force simp: filter_empty_conv)
  then show ?case by simp
next
  case (Suc n)
  have "[lo..lo + int (Suc n) - 1] = [lo..lo + int n - 1] @ [lo + int n]"
    using upto_rec2 [of lo "lo + int n"] by simp
  moreover have "filter (window (lo + int n)) l = filter (\<lambda>x. 256 * (lo + int n) \<le> x \<and> x < 256 * (lo + int (Suc n))) l"
    by (intro filter_cong) (auto simp: window_def)
  ultimately show ?case
    using Suc filter_less_split [OF assms(1), of "256 * (lo + int n)" "256 * (lo + int (Suc n))"] by simp
qed

lemma windows_read:
  assumes "sorted l" "distinct l" "\<forall>x\<in>set l. x \<le> 65535" "0 \<le> lo"
  shows "\<exists>bs. rmap (window_block l) [lo..lo + int n - 1] = Inr bs \<and>
    (\<forall>rest r. bitmap2RRlist rest = Some r \<longrightarrow>
       bitmap2RRlist (concat bs @ rest) = Some (concat (map (\<lambda>wb. map nat (filter (window wb) l)) [lo..lo + int n - 1]) @ r))"
  using assms(4)
proof (induction n arbitrary: lo)
  case (Suc n)
  have u: "[lo..lo + int (Suc n) - 1] = lo # [lo + 1..(lo + 1) + int n - 1]" by (simp add: upto_rec1)
  from window_block_read [OF assms(1,2) Suc.prems assms(3)] obtain b where b: "window_block l lo = Inr b"
    "\<And>rest r. bitmap2RRlist rest = Some r \<Longrightarrow> bitmap2RRlist (b @ rest) = Some (map nat (filter (window lo) l) @ r)" by auto
  from Suc.IH [of "lo + 1"] Suc.prems obtain bs where bs: "rmap (window_block l) [lo + 1..(lo + 1) + int n - 1] = Inr bs"
    "\<And>rest r. bitmap2RRlist rest = Some r \<Longrightarrow> bitmap2RRlist (concat bs @ rest) =
       Some (concat (map (\<lambda>wb. map nat (filter (window wb) l)) [lo + 1..(lo + 1) + int n - 1]) @ r)" by auto
  have "rmap (window_block l) [lo..lo + int (Suc n) - 1] = Inr (b # bs)" unfolding u using b bs(1) by simp
  moreover have "bitmap2RRlist (concat (b # bs) @ rest) =
      Some (concat (map (\<lambda>wb. map nat (filter (window wb) l)) [lo..lo + int (Suc n) - 1]) @ r)"
    if "bitmap2RRlist rest = Some r" for rest r
    using b(2) [OF bs(2) [OF that]] unfolding u by simp
  ultimately show ?case by blast
qed simp

text \<open>C22: A type bit map made of type numbers, in any order and with repetitions, reads back as those numbers
  in ascending order.\<close>

theorem bitmap_roundtrip:
  assumes "lst \<noteq> []" "\<forall>x\<in>set lst. 0 \<le> x \<and> x \<le> 65535"
  shows "\<exists>bs. RRlist2bitmap lst = Inr bs \<and> bitmap2RRlist bs = Some (map nat (sorted_list_of_set (set lst)))"
proof -
  let ?l = "sorted_list_of_set (set lst)"
  have l: "sorted ?l" "distinct ?l" "set ?l = set lst" "?l \<noteq> []" using assms(1) by simp_all
  have f: "filter (\<lambda>x. x \<le> 65535) ?l = ?l" using assms(2) l(3) by (simp add: filter_id_conv)
  have a: "map abs ?l = ?l" using assms(2) l(3) by (intro map_idI) auto
  define lo where "lo = hd ?l div 256"
  define top where "top = (last ?l + 255) div 256"
  define hi where "hi = (if lo = top then top + 1 else top)"
  have ends: "hd ?l \<in> set lst" "last ?l \<in> set lst" using l(3,4) hd_in_set last_in_set by blast+
  have r: "0 \<le> hd ?l" "last ?l \<le> 65535" using ends assms(2) by auto
  have below: "x \<le> last ?l" "hd ?l \<le> x" if "x \<in> set ?l" for x
    using sorted_bounds [OF l(1) that] by auto
  have lo: "0 \<le> lo" "lo \<le> hi" using r below(2) [OF last_in_set [OF l(4)]] by (auto simp: lo_def hi_def top_def)
  define n where "n = nat (hi - lo + 1)"
  have n: "lo + int n - 1 = hi" using lo(2) by (simp add: n_def)
  have "\<forall>x\<in>set ?l. x \<le> 65535" using assms(2) l(3) by auto
  from windows_read [OF l(1,2) this lo(1), of n] obtain bs where bs: "rmap (window_block ?l) [lo..hi] = Inr bs"
    "bitmap2RRlist (concat bs @ []) = Some (concat (map (\<lambda>wb. map nat (filter (window wb) ?l)) [lo..hi]) @ [])"
    unfolding n by (metis bitmap2RRlist.simps(1))
  have "concat (map (\<lambda>wb. filter (window wb) ?l) [lo..hi]) = ?l"
  proof -
    have "\<forall>x\<in>set ?l. 256 * lo \<le> x" using below(2) by (fastforce simp: lo_def)
    note w = windows_concat [OF l(1) this, of n]
    have "lo + int n = hi + 1" using n by simp
    with w have "concat (map (\<lambda>wb. filter (window wb) ?l) [lo..hi]) = filter (\<lambda>x. x < 256 * (hi + 1)) ?l"
      by (simp only: add_diff_cancel_right')
    moreover have "\<forall>x\<in>set ?l. x < 256 * (hi + 1)" using below(1) by (fastforce simp: hi_def top_def)
    ultimately show ?thesis by (simp add: filter_id_conv)
  qed
  then have "map nat (concat (map (\<lambda>wb. filter (window wb) ?l) [lo..hi])) = map nat ?l" by (rule arg_cong)
  then have "concat (map (\<lambda>wb. map nat (filter (window wb) ?l)) [lo..hi]) = map nat ?l"
    by (simp add: map_concat o_def)
  moreover have "RRlist2bitmap lst = Inr (concat bs)"
    using bs(1) l(4) unfolding RRlist2bitmap_def f a Let_def lo_def [symmetric] top_def [symmetric] hi_def [symmetric] by simp
  ultimately show ?thesis using bs(2) by simp
qed

lemma bitmap_roundtrip_witness:
  "\<exists>bs. RRlist2bitmap [257, 1, 15, 1] = Inr bs \<and> bitmap2RRlist bs = Some [1, 15, 257]"
proof -
  have "sorted_list_of_set (set [257, 1, 15, 1 :: int]) = [1, 15, 257]" by code_simp
  with bitmap_roundtrip [of "[257, 1, 15, 1]"] show ?thesis by simp
qed

end
