(* ===== verification/Dns_Message.thy ===== *)
theory Dns_Message
  imports Dns_Correct Dns_Bitmaps
begin

unbundle bit_operations_syntax

text \<open>
  Records as they are built and cut out of a message again, client subnets and signing times.
\<close>

section \<open>Records\<close>

text \<open>A name on the wire ends in the root label or in a pointer.\<close>

definition name_tail :: "bytes \<Rightarrow> bool" where
  "name_tail t \<longleftrightarrow> t = [0] \<or> (\<exists>c d. \<not> c < 64 \<and> t = [c, d])"

lemma name_loop_labels:
  assumes "good_labels ls"
  shows "name_loop full ignore (xs @ concat (map label_enc ls) @ ys) (length xs) name None [] None =
    name_loop full ignore (xs @ concat (map label_enc ls) @ ys) (length (xs @ concat (map label_enc ls))) (name @ name_text ls) None [] None"
  using assms
proof (induction ls arbitrary: xs name)
  case (Cons l ls)
  let ?s = "xs @ concat (map label_enc (l # ls)) @ ys"
  have l: "l \<noteq> []" "length l < 64" and g: "good_labels ls" using Cons.prems by (simp_all add: good_labels_def)
  have "0 < (of_nat (length l) :: byte)" "(of_nat (length l) :: byte) < 64" "unat (of_nat (length l) :: byte) = length l"
    using l by (simp_all add: word_less_nat_alt)
  moreover have "?s ! length xs = of_nat (length l)" "take (length l) (drop (length xs + 1) ?s) = l"
    by (simp_all add: label_enc_def)
  ultimately have "name_loop full ignore ?s (length xs) name None [] None =
      name_loop full ignore ?s (length (xs @ label_enc l)) (name @ escape_label l @ [0x2E]) None [] None"
    by (subst name_loop_label) (simp_all add: label_enc_def)
  with Cons.IH [OF g, of "xs @ label_enc l"] show ?case by simp
qed simp

lemma name_loop_ignored:
  "\<exists>n q. name_loop full True s p name (Some a) ps None = Inr (n, s, q, Some a, None)"
proof (induction full True s p name "Some a" ps "None :: bytes option" rule: name_loop.induct)
  case (1 full s p name ps)
  then show ?case by (subst name_loop.simps) (auto simp: Let_def)
qed

lemma dns_get_str_skips:
  assumes "good_labels ls" "name_tail t"
  shows "\<exists>n. dns_get_str (concat (map label_enc ls) @ t @ rest) [] True = Inr (n, rest)"
proof -
  let ?s = "concat (map label_enc ls) @ t @ rest" and ?k = "length (concat (map label_enc ls))"
  have "\<exists>x. name_loop [] True ?s ?k (name_text ls) None [] None = Inr x \<and> snd (name_finish x) = rest"
  proof (cases "t = [0]")
    case True
    then show ?thesis by (subst name_loop_root) (simp_all add: nth_append)
  next
    case False
    with assms(2) obtain c d where t: "\<not> c < 64" "t = [c, d]" by (auto simp: name_tail_def)
    then have "name_loop [] True ?s ?k (name_text ls) None [] None =
        name_loop [] True ?s (?k + 2) (name_text ls) (Some (?k + 2)) [] None"
      by (subst name_loop.simps) (simp add: nth_append top_bits)
    with name_loop_ignored [of "[]" ?s "?k + 2" "name_text ls" "?k + 2" "[]"] t show ?thesis by auto
  qed
  then obtain x where x: "name_loop [] True ?s ?k (name_text ls) None [] None = Inr x" "snd (name_finish x) = rest" by blast
  have "name_loop [] True ?s 0 [] None [] None = Inr x"
    using name_loop_labels [OF assms(1), of "[]" True "[]" "t @ rest" "[]"] x(1) by simp
  with x(2) show ?thesis by (cases "name_finish x") (simp add: dns_get_str_finish)
qed

lemma dns_rr_eq:
  assumes "s \<noteq> []" "dns_get_str s [] True = Inr (n, r)" "take 2 r = ty" "length ty = 2" "take 2 (drop 8 r) = rd" "length rd = 2"
    "length s - length r + 10 + from_be rd = k"
  shows "dns_rr s = Inr (Some (from_be ty, take k s, drop k s))"
  unfolding dns_rr_def using assms by (simp add: unpack_be16_def del: length_take length_drop)

lemma dns_rr_cut:
  assumes "good_labels ls" "name_tail t" "length ty = 2" "length fixed = 6" "length rdata < 65536"
  shows "dns_rr ((concat (map label_enc ls) @ t @ ty @ fixed @ to_be 2 (length rdata) @ rdata) @ rest) =
    Inr (Some (from_be ty, concat (map label_enc ls) @ t @ ty @ fixed @ to_be 2 (length rdata) @ rdata, rest))"
proof -
  define n where "n = concat (map label_enc ls) @ t"
  define r where "r = ty @ fixed @ to_be 2 (length rdata) @ rdata"
  have ne: "n @ r @ rest \<noteq> []" using assms(2) by (auto simp: name_tail_def n_def)
  obtain nm where nm: "dns_get_str (n @ r @ rest) [] True = Inr (nm, r @ rest)"
    using dns_get_str_skips [OF assms(1,2), of "r @ rest"] by (auto simp: n_def)
  have f: "take 2 (r @ rest) = ty" "take 2 (drop 8 (r @ rest)) = to_be 2 (length rdata)" "length r = 10 + length rdata"
    using assms(3,4) by (simp_all add: r_def)
  have "from_be (to_be 2 (length rdata)) = length rdata" using assms(5) by simp
  then have "length (n @ r @ rest) - length (r @ rest) + 10 + from_be (to_be 2 (length rdata)) = length (n @ r)" using f(3) by simp
  from dns_rr_eq [OF ne nm f(1) assms(3) f(2) _ this] have "dns_rr ((n @ r) @ rest) = Inr (Some (from_be ty, n @ r, rest))"
    by simp
  then show ?thesis by (simp add: n_def r_def)
qed

text \<open>C28: A record built without a length gets the length of its data, and is cut out of the octets it
  starts: with its type, all of its octets and none of those after it.\<close>

theorem dns_record_roundtrip:
  assumes "\<forall>l\<in>set ls. l \<noteq> [] \<and> length l < 64" "\<not> is_ptr (held_name ls)"
    "length ty = 2" "length fixed = 6" "length blank = 2" "length rdata < 65536"
  shows "\<exists>rr. rr_post_build (held_name ls) None (name_i2m (held_name ls) @ ty @ fixed @ blank @ rdata) [] = Inr rr \<and>
    rr = wire_name ls @ ty @ fixed @ to_be 2 (length rdata) @ rdata \<and>
    dns_rr (rr @ rest) = Inr (Some (from_be ty, rr, rest))"
proof -
  have g: "good_labels ls" using assms(1) by (simp add: good_labels_def)
  have n: "name_i2m (held_name ls) = wire_name ls"
    using dns_encode_text [OF g, of True] assms(2) by (simp add: name_i2m_def)
  have "pack_be16 (length rdata) = Inr (to_be 2 (length rdata))" using assms(6) by (simp add: pack_be16_def)
  then have "rr_post_build (held_name ls) None (wire_name ls @ ty @ fixed @ blank @ rdata) [] =
      Inr (wire_name ls @ ty @ fixed @ to_be 2 (length rdata) @ rdata)"
    using assms(3-5) unfolding rr_post_build_def n by (simp add: Let_def)
  moreover have "dns_rr ((concat (map label_enc ls) @ [0] @ ty @ fixed @ to_be 2 (length rdata) @ rdata) @ rest) =
    Inr (Some (from_be ty, concat (map label_enc ls) @ [0] @ ty @ fixed @ to_be 2 (length rdata) @ rdata, rest))"
    by (rule dns_rr_cut [OF g _ assms(3,4,6)]) (simp add: name_tail_def)
  ultimately show ?thesis unfolding n by (simp add: wire_name_def)
qed

lemma dns_record_roundtrip_witness:
  "\<exists>rr. rr_post_build [0x61, 0x2E] None ([1, 0x61, 0] @ [0, 1] @ [0, 1, 0, 0, 0, 9] @ [0, 0] @ [10, 0, 0, 1]) [] = Inr rr \<and>
     dns_rr (rr @ [7]) = Inr (Some (1, rr, [7]))"
proof -
  have h: "held_name [[0x61]] = [0x61, 0x2E]" by (simp add: held_name_def esc_def)
  have p: "\<not> is_ptr (held_name [[0x61]])" unfolding h by (simp add: is_ptr_def)
  have n: "name_i2m (held_name [[0x61]]) = [1, 0x61, 0]"
    using dns_encode_text [of "[[0x61]]" True] p by (simp add: good_labels_def wire_name_def label_enc_def name_i2m_def)
  have t: "from_be [0, 1] = 1" by (simp add: from_be_def)
  from dns_record_roundtrip [OF _ p, of "[0, 1]" "[0, 1, 0, 0, 0, 9]" "[0, 0]" "[10, 0, 0, 1]" "[7]"]
  show ?thesis unfolding n t unfolding h by auto
qed

section \<open>Client subnets\<close>

lemma and_push_mask_twice: "(c AND push_bit k 0xFF) AND push_bit k 0xFF = c AND push_bit k (0xFF :: byte)"
  by (simp add: and.assoc)

lemma length_pack_subnet: "length (pack_subnet a (Some plen)) = min ((plen + 7) div 8) (length a)"
  by (auto simp: pack_subnet_def Let_def min_def)

text \<open>An address packed under a prefix length is read back as a whole address, with the octets left
  that were after it, and packs under that length to the same octets: what is lost is what is
  behind the prefix.\<close>

lemma subnet_roundtrip:
  assumes "length a = n" "plen \<le> 8 * n"
  shows "\<exists>b. subnet_getfield (8 * n) plen (pack_subnet a (Some plen) @ rest) = (rest, b) \<and> length b = n \<and>
    pack_subnet b (Some plen) = pack_subnet a (Some plen)"
proof -
  let ?p = "pack_subnet a (Some plen)" and ?k = "(plen + 7) div 8"
  have k: "?k \<le> n" using assms(2) by simp
  have l: "length ?p = ?k" using length_pack_subnet [of a plen] k assms(1) by simp
  let ?b = "?p @ replicate (n - ?k) 0"
  have pad: "nat ((int (8 * n) - int plen) div 8) = n - ?k" using assms(2) k by linarith
  have "subnet_m2i (8 * n) plen ?p = ?b"
  proof (cases "plen = 8 * n")
    case True
    with l k show ?thesis by (simp add: subnet_m2i_def)
  next
    case False
    with pad l k assms(2) show ?thesis by (simp add: subnet_m2i_def)
  qed
  then have "subnet_getfield (8 * n) plen (?p @ rest) = (rest, ?b)"
    using l k by (simp add: subnet_getfield_def Let_def min_def)
  moreover have "pack_subnet ?b (Some plen) = ?p"
  proof -
    have t: "take ?k ?b = ?p" using l by simp
    show ?thesis
    proof (cases "plen mod 8 \<noteq> 0 \<and> ?p \<noteq> []")
      case True
      then have "take ?k a \<noteq> []" by (auto simp: pack_subnet_def)
      with True have p: "?p = butlast (take ?k a) @ [last (take ?k a) AND push_bit (8 - plen mod 8) 0xFF]"
        by (simp add: pack_subnet_def Let_def)
      then show ?thesis using True t by (simp add: pack_subnet_def Let_def and_push_mask_twice)
    next
      case False
      with t show ?thesis by (auto simp: pack_subnet_def Let_def)
    qed
  qed
  ultimately show ?thesis using l k by auto
qed

lemma subnet_roundtrip_witness:
  "\<exists>b. subnet_getfield 32 20 (pack_subnet [10, 1, 0xFF, 9] (Some 20) @ [5]) = ([5], b) \<and> length b = 4"
  using subnet_roundtrip [of "[10, 1, 0xFF, 9]" 4 20 "[5]"] by auto

section \<open>Signing times\<close>

lemma time_i2m_parts:
  "take 2 (time_i2m (Some s)) = to_be 2 (nat (s div 2 ^ 32 mod 2 ^ 16))" "drop 2 (time_i2m (Some s)) = to_be 4 (nat (s mod 2 ^ 32))"
  by (simp_all add: time_i2m_def pybits)

lemma convert_time:
  "convert_seconds (time_i2m (Some s)) = Inr (s div 2 ^ 32 mod 2 ^ 16 + s mod 2 ^ 32)"
proof -
  have "from_be (to_be 2 (nat (s div 2 ^ 32 mod 2 ^ 16))) = nat (s div 2 ^ 32 mod 2 ^ 16)"
    by (rule from_be_to_be) (simp add: nat_less_iff)
  moreover have "from_be (to_be 4 (nat (s mod 2 ^ 32))) = nat (s mod 2 ^ 32)"
    by (rule from_be_to_be) (simp add: nat_less_iff)
  ultimately show ?thesis unfolding convert_seconds_def time_i2m_parts by simp
qed

text \<open>A signing time comes back only if it fits in 32 bits: of a later one, which has 48, the upper
  sixteen bits are added to the lower 32 instead of being put before them.\<close>

lemma dns_time_signed:
  assumes "0 \<le> s" "s < 2 ^ 48"
  shows "\<exists>t. convert_seconds (time_i2m (Some s)) = Inr t \<and> (t = s \<longleftrightarrow> s < 2 ^ 32)"
proof -
  have m: "s div 2 ^ 32 mod 2 ^ 16 = s div 2 ^ 32" using assms by simp
  have split: "q + r = 4294967296 * q + r \<longleftrightarrow> 4294967296 * q + r < 4294967296"
    if "0 \<le> q" "0 \<le> r" "r < 4294967296" for q r :: int
    using that by (cases "q = 0") auto
  have "s = 2 ^ 32 * (s div 2 ^ 32) + s mod 2 ^ 32" by simp
  moreover have "0 \<le> s div 2 ^ 32" "0 \<le> s mod 2 ^ 32" "s mod 2 ^ 32 < 2 ^ 32" using assms(1) by (simp_all add: pos_imp_zdiv_nonneg_iff)
  ultimately have "s div 2 ^ 32 + s mod 2 ^ 32 = s \<longleftrightarrow> s < 2 ^ 32"
    using split [of "s div 2 ^ 32" "s mod 2 ^ 32"] by simp
  with convert_time [of s] m show ?thesis by simp
qed

lemma dns_time_signed_witness: "\<exists>t. convert_seconds (time_i2m (Some (2 ^ 33))) = Inr t \<and> t \<noteq> 2 ^ 33"
  using dns_time_signed [of "2 ^ 33"] by simp

end
