(* ===== verification/Atmt_Timers.thy ===== *)
theory Atmt_Timers
  imports Complex_Main
begin

text \<open>
  The timers of automata (\<open>automaton.py\<close>): \<open>Timer\<close> and \<open>_TimerList\<close>. Times are exact rational
  numbers; the rounding of floating point numbers is left out.
\<close>

section \<open>Timers\<close>

record timer =
  t_timeout :: rat
  t_time :: rat
  t_just_expired :: bool
  t_expired :: bool
  t_prio :: int
  t_autoreload :: bool
  t_func :: string

definition timer_new :: "rat \<Rightarrow> int \<Rightarrow> bool \<Rightarrow> string \<Rightarrow> timer" where
  "timer_new time prio autoreload f =
     \<lparr>t_timeout = time, t_time = 0, t_just_expired = True, t_expired = True, t_prio = prio,
      t_autoreload = autoreload, t_func = f\<rparr>"

definition timer_set :: "rat \<Rightarrow> timer \<Rightarrow> timer" where
  "timer_set v t = t\<lparr>t_timeout := v\<rparr>"

definition timer_reset :: "timer \<Rightarrow> timer" where
  "timer_reset t = t\<lparr>t_time := t_timeout t, t_expired := False, t_just_expired := False\<rparr>"

definition reset_just_expired :: "timer \<Rightarrow> timer" where
  "reset_just_expired t = t\<lparr>t_just_expired := False\<rparr>"

definition timer_running :: "timer \<Rightarrow> bool" where
  "timer_running t \<longleftrightarrow> t_time t > 0"

definition timer_remaining :: "timer \<Rightarrow> rat" where
  "timer_remaining t = max (t_time t) 0"

definition timer_decrement :: "rat \<Rightarrow> timer \<Rightarrow> timer" where
  "timer_decrement elapsed t =
     (let t = t\<lparr>t_time := t_time t - elapsed\<rparr> in
      if t_time t \<le> 0 \<and> \<not> t_expired t then
        (let t = t\<lparr>t_just_expired := True\<rparr> in
         if t_autoreload t then t\<lparr>t_time := t_timeout t + t_time t\<rparr>
         else t\<lparr>t_expired := True, t_time := 0\<rparr>)
      else t)"

definition timer_lt :: "timer \<Rightarrow> timer \<Rightarrow> bool" where
  "timer_lt t u = (if t_time t \<noteq> t_time u then t_time t < t_time u else t_prio t < t_prio u)"

definition timer_gt :: "timer \<Rightarrow> timer \<Rightarrow> bool" where
  "timer_gt t u = (if t_time t \<noteq> t_time u then t_time t > t_time u else t_prio t > t_prio u)"

definition timer_eq :: "timer \<Rightarrow> timer \<Rightarrow> bool" where
  "timer_eq t u \<longleftrightarrow> t_time t = t_time u \<and> t_prio t = t_prio u"

section \<open>The timers of a state\<close>

definition timers_reset :: "timer list \<Rightarrow> timer list" where
  "timers_reset ts = map timer_reset ts"

definition timers_decrement :: "rat \<Rightarrow> timer list \<Rightarrow> timer list" where
  "timers_decrement elapsed ts = map (timer_decrement elapsed) ts"

text \<open>Those that have just expired, the highest priority first, and the list with their marks taken.\<close>

definition timers_expired :: "timer list \<Rightarrow> timer list \<times> timer list" where
  "timers_expired ts =
     (map reset_just_expired (sort_key (\<lambda>t. - t_prio t) (filter t_just_expired ts)),
      map (\<lambda>t. if t_just_expired t then reset_just_expired t else t) ts)"

definition until_next :: "timer list \<Rightarrow> rat option" where
  "until_next ts =
     (let running = map timer_remaining (filter timer_running ts) in
      if running = [] then None else Some (Min (set running)))"

section \<open>A timer over time\<close>

text \<open>One turn of the loop: the time that passed, whether the timer expired in it, its mark taken.\<close>

definition tick :: "rat \<Rightarrow> timer \<Rightarrow> bool \<times> timer" where
  "tick e t = (let t = timer_decrement e t in (t_just_expired t, reset_just_expired t))"

fun ticks :: "rat list \<Rightarrow> timer \<Rightarrow> bool list \<times> timer" where
  "ticks [] t = ([], t)"
| "ticks (e # es) t = (case tick e t of (b, t) \<Rightarrow> (case ticks es t of (bs, t) \<Rightarrow> (b # bs, t)))"

lemma ticks_expired: "t_expired t \<Longrightarrow> \<not> t_just_expired t \<Longrightarrow> fst (ticks es t) = replicate (length es) False"
proof (induction es arbitrary: t)
  case (Cons e es)
  have "fst (tick e t) = False" "t_expired (snd (tick e t))" "\<not> t_just_expired (snd (tick e t))"
    using Cons.prems by (simp_all add: tick_def timer_decrement_def Let_def reset_just_expired_def)
  with Cons.IH [of "snd (tick e t)"] show ?case by (simp add: case_prod_beta)
qed simp

lemma ticks_oneshot:
  assumes "\<not> t_autoreload t" "\<not> t_expired t" "\<not> t_just_expired t" "0 < t_time t" "\<forall>e\<in>set es. 0 \<le> e"
  shows "fst (ticks es t) = map (\<lambda>i. sum_list (take i es) < t_time t \<and> t_time t \<le> sum_list (take (Suc i) es)) [0..<length es]"
  using assms
proof (induction es arbitrary: t)
  case (Cons e es)
  let ?u = "snd (tick e t)"
  have m: "map f [0..<length (e # es)] = f 0 # map (\<lambda>i. f (Suc i)) [0..<length es]" for f :: "nat \<Rightarrow> bool"
    by (simp add: map_upt_Suc del: upt_Suc)
  show ?case
  proof (cases "t_time t \<le> e")
    case True
    then have u: "fst (tick e t)" "t_expired ?u" "\<not> t_just_expired ?u"
      using Cons.prems by (simp_all add: tick_def timer_decrement_def Let_def reset_just_expired_def)
    have late: "\<not> e + sum_list (take i es) < t_time t" for i
    proof -
      have "0 \<le> sum_list (take i es)" using Cons.prems(5) by (intro sum_list_nonneg) (auto dest: in_set_takeD)
      with True show ?thesis by simp
    qed
    have "fst (ticks (e # es) t) = True # replicate (length es) False"
      using u ticks_expired [OF u(2,3), of es] by (simp add: case_prod_beta)
    also have "replicate (length es) False = map (\<lambda>i. False) [0..<length es]" by (simp add: map_replicate_const)
    finally show ?thesis unfolding m using True Cons.prems(4) late by simp
  next
    case False
    then have u: "\<not> fst (tick e t)" "\<not> t_autoreload ?u" "\<not> t_expired ?u" "\<not> t_just_expired ?u" "t_time ?u = t_time t - e" "0 < t_time ?u"
      using Cons.prems by (simp_all add: tick_def timer_decrement_def Let_def reset_just_expired_def)
    have "fst (ticks (e # es) t) = False # fst (ticks es ?u)" using u(1) by (simp add: case_prod_beta)
    also have "fst (ticks es ?u) = map (\<lambda>i. e + sum_list (take i es) < t_time t \<and> t_time t \<le> e + sum_list (take (Suc i) es)) [0..<length es]"
      using Cons.IH [OF u(2-4,6)] Cons.prems(5) unfolding u(5) by (simp add: less_diff_eq diff_le_eq add.commute)
    finally show ?thesis unfolding m using False by simp
  qed
qed simp

text \<open>How often a timer expired.\<close>

definition fired :: "bool list \<Rightarrow> nat" where
  "fired bs = length (filter id bs)"

lemma ticks_reload_time:
  assumes "t_autoreload t" "\<not> t_expired t" "\<not> t_just_expired t"
  shows "t_autoreload (snd (ticks es t)) \<and> \<not> t_expired (snd (ticks es t)) \<and> \<not> t_just_expired (snd (ticks es t)) \<and>
    t_timeout (snd (ticks es t)) = t_timeout t \<and>
    t_time (snd (ticks es t)) = t_time t - sum_list es + of_nat (fired (fst (ticks es t))) * t_timeout t"
  using assms
proof (induction es arbitrary: t)
  case (Cons e es)
  let ?u = "snd (tick e t)"
  have u: "t_autoreload ?u" "\<not> t_expired ?u" "\<not> t_just_expired ?u" "t_timeout ?u = t_timeout t"
    "t_time ?u = t_time t - e + (if fst (tick e t) then t_timeout t else 0)"
    using Cons.prems by (simp_all add: tick_def timer_decrement_def Let_def reset_just_expired_def)
  with Cons.IH [OF u(1-3)] show ?case by (simp add: case_prod_beta fired_def algebra_simps)
qed (simp add: fired_def)

lemma ticks_reload_bounds:
  assumes "t_autoreload t" "\<not> t_expired t" "\<not> t_just_expired t" "0 < t_time t" "t_time t \<le> t_timeout t"
    "\<forall>e\<in>set es. 0 \<le> e \<and> e \<le> t_timeout t"
  shows "0 < t_time (snd (ticks es t)) \<and> t_time (snd (ticks es t)) \<le> t_timeout t"
  using assms
proof (induction es arbitrary: t)
  case (Cons e es)
  let ?u = "snd (tick e t)"
  have e: "0 \<le> e" "e \<le> t_timeout t" using Cons.prems(6) by simp_all
  have u: "t_autoreload ?u" "\<not> t_expired ?u" "\<not> t_just_expired ?u" "t_timeout ?u = t_timeout t"
    "0 < t_time ?u" "t_time ?u \<le> t_timeout t"
    using Cons.prems(1-5) e by (auto simp: tick_def timer_decrement_def Let_def reset_just_expired_def)
  have "0 < t_time (snd (ticks es ?u)) \<and> t_time (snd (ticks es ?u)) \<le> t_timeout ?u"
    using u Cons.prems(6) by (intro Cons.IH) simp_all
  with u(4) show ?case by (simp add: case_prod_beta)
qed simp

section \<open>The properties\<close>

text \<open>A timeout that is reset expires once: in the turn in which the time since then reaches it, and in no
  other, however the turns divide the time.\<close>

lemma timeout_fires_once:
  assumes "\<not> t_autoreload t" "0 < t_timeout t" "\<forall>e\<in>set es. 0 \<le> e"
  shows "fst (ticks es (timer_reset t)) =
    map (\<lambda>i. sum_list (take i es) < t_timeout t \<and> t_timeout t \<le> sum_list (take (Suc i) es)) [0..<length es]"
  using ticks_oneshot [of "timer_reset t" es] assms by (simp add: timer_reset_def)

lemma timeout_fires_once_witness:
  "fst (ticks [1, 1, 1, 5] (timer_reset (timer_new 2 0 False ''f''))) = [False, True, False, False]"
proof -
  have "fst (ticks [1, 1, 1, 5] (timer_reset (timer_new 2 0 False ''f''))) =
    map (\<lambda>i. sum_list (take i [1, 1, 1, 5]) < t_timeout (timer_new 2 0 False ''f'') \<and>
      t_timeout (timer_new 2 0 False ''f'') \<le> sum_list (take (Suc i) [1, 1, 1, 5])) [0..<length [1, 1, 1, 5 :: rat]]"
    by (rule timeout_fires_once) (simp_all add: timer_new_def)
  also have "\<dots> = [False, True, False, False]" by (simp add: timer_new_def upt_rec)
  finally show ?thesis .
qed

text \<open>Machines of one class wait on the same timers. Of those that wait on a timeout at the same time, each round
  being told by the machine and the time it measures, at most one finds it expired.\<close>

definition told :: "('m \<times> rat) list \<Rightarrow> timer \<Rightarrow> 'm list" where
  "told evs t = map fst (filter snd (zip (map fst evs) (fst (ticks (map snd evs) t))))"

lemma told_expired: "t_expired t \<Longrightarrow> \<not> t_just_expired t \<Longrightarrow> told evs t = []"
  by (auto simp: told_def ticks_expired filter_empty_conv dest: set_zip_rightD)

lemma shared_timeout: "\<not> t_autoreload t \<Longrightarrow> \<not> t_just_expired t \<Longrightarrow> length (told evs t) \<le> 1"
proof (induction evs arbitrary: t)
  case (Cons x evs)
  obtain i e where x: "x = (i, e)" by (cases x)
  let ?u = "snd (tick e t)"
  have told: "told (x # evs) t = (if fst (tick e t) then [i] else []) @ told evs ?u"
    by (simp add: told_def x case_prod_beta)
  have "\<not> t_autoreload ?u" "\<not> t_just_expired ?u" "fst (tick e t) \<Longrightarrow> t_expired ?u"
    using Cons.prems by (simp_all add: tick_def timer_decrement_def Let_def reset_just_expired_def split: if_splits)
  with Cons.IH [of ?u] told_expired [of ?u evs] show ?case unfolding told by auto
qed (simp add: told_def)

text \<open>A timer that reloads does not drift: while no turn takes longer than its period, the number of
  times it expired is the number of whole periods since it was reset.\<close>

lemma timer_no_drift:
  assumes "t_autoreload t" "0 < t_timeout t" "\<forall>e\<in>set es. 0 \<le> e \<and> e \<le> t_timeout t"
  shows "int (fired (fst (ticks es (timer_reset t)))) = \<lfloor>sum_list es / t_timeout t\<rfloor>"
proof -
  let ?t = "timer_reset t" and ?n = "fired (fst (ticks es (timer_reset t)))"
  have t: "t_autoreload ?t" "\<not> t_expired ?t" "\<not> t_just_expired ?t" "t_time ?t = t_timeout t" "t_timeout ?t = t_timeout t"
    using assms(1) by (simp_all add: timer_reset_def)
  have "t_time (snd (ticks es ?t)) = t_timeout t - sum_list es + of_nat ?n * t_timeout t"
    using ticks_reload_time [OF t(1-3), of es] t(4,5) by simp
  moreover have "0 < t_time (snd (ticks es ?t))" "t_time (snd (ticks es ?t)) \<le> t_timeout t"
    using ticks_reload_bounds [OF t(1-3), of es] t(4,5) assms(2,3) by simp_all
  ultimately have "of_nat ?n * t_timeout t \<le> sum_list es" "sum_list es < (of_nat ?n + 1) * t_timeout t"
    by (simp_all add: algebra_simps)
  then have "of_nat ?n \<le> sum_list es / t_timeout t" "sum_list es / t_timeout t < of_nat ?n + 1"
    using assms(2) by (simp_all add: field_simps)
  then show ?thesis by (intro floor_unique [symmetric]) simp_all
qed

lemma timer_no_drift_witness:
  "int (fired (fst (ticks [2, 2, 3, 1] (timer_reset (timer_new 3 0 True ''f''))))) = 2"
  using timer_no_drift [of "timer_new 3 0 True ''f''" "[2, 2, 3, 1]"]
  by (simp add: timer_new_def floor_eq_iff del: ticks.simps)

text \<open>A timer that reloads stops after one turn of two periods or more: it expires once and is then not
  running, so that the loop waits with no time limit, although it is overdue.\<close>

lemma timer_stalls:
  assumes "t_autoreload t" "0 < t_timeout t" "2 * t_timeout t \<le> e"
  shows "fst (tick e (timer_reset t)) \<and> \<not> timer_running (snd (tick e (timer_reset t))) \<and>
    until_next [snd (tick e (timer_reset t))] = None"
  using assms
  by (simp add: tick_def timer_reset_def timer_decrement_def reset_just_expired_def Let_def timer_running_def until_next_def)

lemma timer_stalls_witness: "until_next [snd (tick 7 (timer_reset (timer_new 3 0 True ''f'')))] = None"
  using timer_stalls [of "timer_new 3 0 True ''f''" 7] by (simp add: timer_new_def)

end
