(* ===== verification/Atmt_Class.thy ===== *)
theory Atmt_Class
  imports Atmt_Timers
begin

text \<open>
  The tables of an automaton's class (\<open>automaton.py\<close>, \<open>Automaton_metaclass\<close>): the decorated methods
  of the class and its bases, sorted into states, conditions, events, timers and actions.
\<close>

section \<open>Methods\<close>

datatype atmt_type = ATMT_STATE | ATMT_ACTION | ATMT_CONDITION | ATMT_RECV | ATMT_TIMEOUT | ATMT_EOF | ATMT_IOEVENT

text \<open>A decorated method; the fields that its decorator does not set have no meaning.\<close>

record member =
  m_name :: string
  m_type :: atmt_type
  m_state :: string
  m_condname :: string
  m_prio :: int
  m_initial :: bool
  m_final :: bool
  m_stop :: bool
  m_error :: bool
  m_ioname :: string
  m_super :: "string option"
  m_timer :: timer
  m_cond :: "(string \<times> int) list"

datatype atmt_exn = A_Value | A_Key | A_Type | A_EOF | A_Runtime | A_Stuck string | A_ErrorState string | A_Other string

type_synonym 'a ares = "atmt_exn + 'a"

definition abind :: "'a ares \<Rightarrow> ('a \<Rightarrow> 'b ares) \<Rightarrow> 'b ares" where
  "abind r f = (case r of Inl e \<Rightarrow> Inl e | Inr x \<Rightarrow> f x)"

lemma abind_simps [simp]: "abind (Inl e) f = Inl e" "abind (Inr x) f = f x"
  by (simp_all add: abind_def)

lemma abind_Inr_iff: "abind r f = Inr y \<longleftrightarrow> (\<exists>x. r = Inr x \<and> f x = Inr y)"
  by (cases r) simp_all

fun afold :: "('a \<Rightarrow> 's \<Rightarrow> 's ares) \<Rightarrow> 'a list \<Rightarrow> 's \<Rightarrow> 's ares" where
  "afold f [] s = Inr s"
| "afold f (x # xs) s = abind (f x s) (afold f xs)"

section \<open>Decorators\<close>

text \<open>A function before it is decorated.\<close>

definition undecorated :: "string \<Rightarrow> member" where
  "undecorated f = \<lparr>m_name = f, m_type = ATMT_ACTION, m_state = [], m_condname = [], m_prio = 0, m_initial = False,
     m_final = False, m_stop = False, m_error = False, m_ioname = [], m_super = None,
     m_timer = timer_new 0 0 False [], m_cond = []\<rparr>"

definition deco_state :: "bool \<Rightarrow> bool \<Rightarrow> bool \<Rightarrow> bool \<Rightarrow> string \<Rightarrow> member" where
  "deco_state initial final stop error f = (undecorated f)\<lparr>m_type := ATMT_STATE, m_state := f, m_initial := initial,
     m_final := final, m_stop := stop, m_error := error\<rparr>"

fun dict_set :: "'k \<Rightarrow> 'v \<Rightarrow> ('k \<times> 'v) list \<Rightarrow> ('k \<times> 'v) list" where
  "dict_set k v [] = [(k, v)]"
| "dict_set k v (kv # d) = (if fst kv = k then (k, v) # d else kv # dict_set k v d)"

text \<open>A function may be the action of several conditions; what is decorated otherwise has no dictionary for them.\<close>

definition deco_action :: "member \<Rightarrow> int \<Rightarrow> string \<Rightarrow> member option \<Rightarrow> member ares" where
  "deco_action c prio f prev =
     (case prev of
        None \<Rightarrow> Inr ((undecorated f)\<lparr>m_type := ATMT_ACTION, m_cond := [(m_condname c, prio)]\<rparr>)
      | Some m \<Rightarrow> if m_type m = ATMT_ACTION then Inr (m\<lparr>m_cond := dict_set (m_condname c) prio (m_cond m)\<rparr>)
                  else Inl (A_Other ''AttributeError''))"

definition deco_condition :: "member \<Rightarrow> int \<Rightarrow> string \<Rightarrow> member" where
  "deco_condition st prio f = (undecorated f)\<lparr>m_type := ATMT_CONDITION, m_state := m_state st, m_condname := f, m_prio := prio\<rparr>"

definition deco_receive_condition :: "member \<Rightarrow> int \<Rightarrow> string \<Rightarrow> member" where
  "deco_receive_condition st prio f = (undecorated f)\<lparr>m_type := ATMT_RECV, m_state := m_state st, m_condname := f, m_prio := prio\<rparr>"

definition deco_ioevent :: "member \<Rightarrow> string \<Rightarrow> int \<Rightarrow> string option \<Rightarrow> string \<Rightarrow> member" where
  "deco_ioevent st name prio super f = (undecorated f)\<lparr>m_type := ATMT_IOEVENT, m_state := m_state st, m_condname := f,
     m_ioname := name, m_prio := prio, m_super := super\<rparr>"

definition deco_timeout :: "member \<Rightarrow> rat \<Rightarrow> string \<Rightarrow> member" where
  "deco_timeout st time f = (undecorated f)\<lparr>m_type := ATMT_TIMEOUT, m_state := m_state st, m_timer := timer_new time 0 False f,
     m_condname := f\<rparr>"

definition deco_timer :: "member \<Rightarrow> rat \<Rightarrow> int \<Rightarrow> string \<Rightarrow> member" where
  "deco_timer st time prio f = (undecorated f)\<lparr>m_type := ATMT_TIMEOUT, m_state := m_state st, m_timer := timer_new time prio True f,
     m_condname := f\<rparr>"

definition deco_eof :: "member \<Rightarrow> string \<Rightarrow> member" where
  "deco_eof st f = (undecorated f)\<lparr>m_type := ATMT_EOF, m_state := m_state st, m_condname := f\<rparr>"

section \<open>Classes\<close>

text \<open>A class by its attributes in order, decorated or not, and its bases.\<close>

datatype pyclass = PyClass (cls_dict: "(string \<times> member option) list") (cls_bases: "pyclass list")

text \<open>Breadth first, what was seen first stays.\<close>

definition setdefault :: "'k \<times> 'v \<Rightarrow> ('k \<times> 'v) list \<Rightarrow> ('k \<times> 'v) list" where
  "setdefault kv d = (if fst kv \<in> fst ` set d then d else d @ [kv])"

function collect_members :: "pyclass list \<Rightarrow> (string \<times> member option) list \<Rightarrow> (string \<times> member option) list" where
  "collect_members [] members = members"
| "collect_members (c # classes) members =
     collect_members (classes @ cls_bases c) (fold setdefault (cls_dict c) members)"
  by pat_completeness auto
termination
proof (relation "measure (\<lambda>(cs, _). sum_list (map size cs))")
  fix c :: pyclass and classes :: "pyclass list" and members :: "(string \<times> member option) list"
  have "sum_list (map size (cls_bases c)) < size c"
    by (cases c) (simp add: size_list_conv_sum_list sum_list_addf)
  then show "((classes @ cls_bases c, fold setdefault (cls_dict c) members), c # classes, members)
      \<in> measure (\<lambda>(cs, _). sum_list (map size cs))" by simp
qed simp

definition decorated :: "pyclass \<Rightarrow> member list" where
  "decorated c = concat (map (\<lambda>(_, v). case v of Some m \<Rightarrow> [m] | None \<Rightarrow> []) (collect_members [c] []))"

section \<open>The tables\<close>

record tables =
  tb_states :: "string \<rightharpoonup> member"
  tb_recv :: "string \<rightharpoonup> member list"
  tb_cond :: "string \<rightharpoonup> member list"
  tb_io :: "string \<rightharpoonup> member list"
  tb_timeout :: "string \<rightharpoonup> timer list"
  tb_eofs :: "string \<rightharpoonup> member"
  tb_actions :: "string \<rightharpoonup> member list"
  tb_initial :: "member list"
  tb_stop :: "member option"
  tb_ionames :: "string list"
  tb_supers :: "member list"

definition no_tables :: tables where
  "no_tables = \<lparr>tb_states = Map.empty, tb_recv = Map.empty, tb_cond = Map.empty, tb_io = Map.empty,
     tb_timeout = Map.empty, tb_eofs = Map.empty, tb_actions = Map.empty, tb_initial = [], tb_stop = None,
     tb_ionames = [], tb_supers = []\<rparr>"

definition declare_member :: "member \<Rightarrow> tables \<Rightarrow> tables ares" where
  "declare_member m T =
     (if m_type m = ATMT_STATE then
        (let s = m_state m;
             T = T\<lparr>tb_states := (tb_states T)(s \<mapsto> m), tb_recv := (tb_recv T)(s \<mapsto> []), tb_io := (tb_io T)(s \<mapsto> []),
                   tb_cond := (tb_cond T)(s \<mapsto> []), tb_timeout := (tb_timeout T)(s \<mapsto> [])\<rparr>;
             T = (if m_initial m then T\<lparr>tb_initial := tb_initial T @ [m]\<rparr> else T) in
         if m_stop m then
           (if tb_stop T \<noteq> None then Inl A_Value else Inr (T\<lparr>tb_stop := Some m\<rparr>))
         else Inr T)
      else if m_type m = ATMT_ACTION then Inr T
      else Inr (T\<lparr>tb_actions := (tb_actions T)(m_condname m \<mapsto> [])\<rparr>))"

text \<open>Appending under a key that is not there raises.\<close>

definition append_at :: "'k \<Rightarrow> 'v \<Rightarrow> ('k \<rightharpoonup> 'v list) \<Rightarrow> ('k \<rightharpoonup> 'v list) ares" where
  "append_at k v t = (case t k of None \<Rightarrow> Inl A_Key | Some l \<Rightarrow> Inr (t(k \<mapsto> l @ [v])))"

definition enter_member :: "member \<Rightarrow> tables \<Rightarrow> tables ares" where
  "enter_member m T =
     (case m_type m of
        ATMT_STATE \<Rightarrow> Inr T
      | ATMT_CONDITION \<Rightarrow> abind (append_at (m_state m) m (tb_cond T)) (\<lambda>t. Inr (T\<lparr>tb_cond := t\<rparr>))
      | ATMT_RECV \<Rightarrow> abind (append_at (m_state m) m (tb_recv T)) (\<lambda>t. Inr (T\<lparr>tb_recv := t\<rparr>))
      | ATMT_EOF \<Rightarrow> Inr (T\<lparr>tb_eofs := (tb_eofs T)(m_state m \<mapsto> m)\<rparr>)
      | ATMT_IOEVENT \<Rightarrow> abind (append_at (m_state m) m (tb_io T)) (\<lambda>t.
          Inr (T\<lparr>tb_io := t, tb_ionames := tb_ionames T @ [m_ioname m],
                 tb_supers := (if m_super m \<noteq> None then tb_supers T @ [m] else tb_supers T)\<rparr>))
      | ATMT_TIMEOUT \<Rightarrow> abind (append_at (m_state m) (m_timer m) (tb_timeout T)) (\<lambda>t. Inr (T\<lparr>tb_timeout := t\<rparr>))
      | ATMT_ACTION \<Rightarrow> abind (afold (\<lambda>co. append_at co m) (map fst (m_cond m)) (tb_actions T)) (\<lambda>t. Inr (T\<lparr>tb_actions := t\<rparr>)))"

definition action_prio :: "string \<Rightarrow> member \<Rightarrow> int" where
  "action_prio co m = the (map_of (m_cond m) co)"

definition sort_tables :: "tables \<Rightarrow> tables" where
  "sort_tables T = T\<lparr>tb_cond := map_option (sort_key m_prio) \<circ> tb_cond T, tb_recv := map_option (sort_key m_prio) \<circ> tb_recv T,
     tb_io := map_option (sort_key m_prio) \<circ> tb_io T,
     tb_actions := (\<lambda>co. map_option (sort_key (action_prio co)) (tb_actions T co))\<rparr>"

definition class_tables :: "pyclass \<Rightarrow> tables ares" where
  "class_tables c =
     (let ms = decorated c in
      abind (afold declare_member ms no_tables) (\<lambda>T. abind (afold enter_member ms T) (\<lambda>T. Inr (sort_tables T))))"

section \<open>What the tables hold\<close>

definition of_state :: "atmt_type \<Rightarrow> string \<Rightarrow> member list \<Rightarrow> member list" where
  "of_state ty s ms = filter (\<lambda>m. m_type m = ty \<and> m_state m = s) ms"

lemma append_at_Inr: "append_at k v t = Inr t' \<longleftrightarrow> (\<exists>l. t k = Some l \<and> t' = t(k \<mapsto> l @ [v]))"
  by (auto simp: append_at_def split: option.splits)

definition fresh_state :: "string \<Rightarrow> tables \<Rightarrow> bool" where
  "fresh_state s T \<longleftrightarrow> (s \<in> dom (tb_states T) \<longrightarrow> tb_cond T s = Some [] \<and> tb_recv T s = Some [] \<and> tb_timeout T s = Some [])"

lemma declare_fresh: "declare_member m T = Inr U \<Longrightarrow> fresh_state s T \<Longrightarrow> fresh_state s U"
  by (auto simp: fresh_state_def declare_member_def Let_def split: if_splits)

lemma declare_all_fresh: "afold declare_member ms T = Inr U \<Longrightarrow> fresh_state s T \<Longrightarrow> fresh_state s U"
  by (induction ms arbitrary: T) (auto simp: abind_Inr_iff dest: declare_fresh)

lemma enter_states: "enter_member m T = Inr U \<Longrightarrow> tb_states U = tb_states T"
  by (cases "m_type m") (auto simp: enter_member_def abind_Inr_iff)

lemma enter_step:
  assumes "enter_member m T = Inr U"
  shows "tb_cond T s = Some l \<Longrightarrow> tb_cond U s = Some (l @ of_state ATMT_CONDITION s [m])"
    "tb_recv T s = Some l \<Longrightarrow> tb_recv U s = Some (l @ of_state ATMT_RECV s [m])"
    "tb_timeout T s = Some ts \<Longrightarrow> tb_timeout U s = Some (ts @ map m_timer (of_state ATMT_TIMEOUT s [m]))"
  using assms by (cases "m_type m"; auto simp: enter_member_def abind_Inr_iff append_at_Inr of_state_def)+

lemma enter_lists:
  assumes "afold enter_member ms T = Inr U" "tb_cond T s = Some l" "tb_recv T s = Some k" "tb_timeout T s = Some ts"
  shows "tb_states U = tb_states T \<and> tb_cond U s = Some (l @ of_state ATMT_CONDITION s ms) \<and>
    tb_recv U s = Some (k @ of_state ATMT_RECV s ms) \<and> tb_timeout U s = Some (ts @ map m_timer (of_state ATMT_TIMEOUT s ms))"
  using assms
proof (induction ms arbitrary: T l k ts)
  case (Cons m ms)
  then obtain V where V: "enter_member m T = Inr V" "afold enter_member ms V = Inr U" by (auto simp: abind_Inr_iff)
  have cons: "of_state ty s (m # ms) = of_state ty s [m] @ of_state ty s ms" for ty by (simp add: of_state_def)
  from Cons.IH [OF V(2) enter_step(1) [OF V(1) Cons.prems(2)] enter_step(2) [OF V(1) Cons.prems(3)]
      enter_step(3) [OF V(1) Cons.prems(4)]] enter_states [OF V(1)]
  show ?case unfolding cons by simp
qed (simp add: of_state_def)

lemma enter_all_states: "afold enter_member ms T = Inr U \<Longrightarrow> tb_states U = tb_states T"
  by (induction ms arbitrary: T) (auto simp: abind_Inr_iff dest: enter_states)

text \<open>The tables of a class hold for every state its conditions and receive conditions, each of them once,
  by priority and for equal priorities in the order in which the methods are found, and its timers.\<close>

lemma class_tables_lists:
  assumes "class_tables c = Inr T" "s \<in> dom (tb_states T)"
  shows "tb_cond T s = Some (sort_key m_prio (of_state ATMT_CONDITION s (decorated c))) \<and>
    tb_recv T s = Some (sort_key m_prio (of_state ATMT_RECV s (decorated c))) \<and>
    tb_timeout T s = Some (map m_timer (of_state ATMT_TIMEOUT s (decorated c)))"
proof -
  from assms(1) obtain T1 T2 where t: "afold declare_member (decorated c) no_tables = Inr T1"
    "afold enter_member (decorated c) T1 = Inr T2" "T = sort_tables T2"
    by (auto simp: class_tables_def Let_def abind_Inr_iff)
  have "tb_states T = tb_states T1" using enter_all_states [OF t(2)] t(3) by (simp add: sort_tables_def)
  moreover have "fresh_state s T1" by (rule declare_all_fresh [OF t(1)]) (simp add: fresh_state_def no_tables_def)
  ultimately have "tb_cond T1 s = Some []" "tb_recv T1 s = Some []" "tb_timeout T1 s = Some []"
    using assms(2) by (simp_all add: fresh_state_def)
  from enter_lists [OF t(2) this] show ?thesis unfolding t(3) sort_tables_def by simp
qed

definition toy_member :: "string \<Rightarrow> atmt_type \<Rightarrow> string \<Rightarrow> int \<Rightarrow> member" where
  "toy_member nm ty st prio = \<lparr>m_name = nm, m_type = ty, m_state = st, m_condname = nm, m_prio = prio, m_initial = (st = ''A''),
     m_final = (st = ''E''), m_stop = False, m_error = False, m_ioname = [], m_super = None,
     m_timer = timer_new 2 0 False nm, m_cond = []\<rparr>"

definition toy_class :: pyclass where
  "toy_class = PyClass [(''c2'', Some (toy_member ''c2'' ATMT_CONDITION ''A'' 5)), (''A'', Some (toy_member ''A'' ATMT_STATE ''A'' 0)),
     (''c1'', Some (toy_member ''c1'' ATMT_CONDITION ''A'' 1)), (''E'', Some (toy_member ''E'' ATMT_STATE ''E'' 0))] []"

lemma toy_decorated:
  "decorated toy_class = [toy_member ''c2'' ATMT_CONDITION ''A'' 5, toy_member ''A'' ATMT_STATE ''A'' 0,
     toy_member ''c1'' ATMT_CONDITION ''A'' 1, toy_member ''E'' ATMT_STATE ''E'' 0]"
  by (simp add: toy_class_def decorated_def setdefault_def)

lemma class_tables_example:
  "\<exists>T. class_tables toy_class = Inr T \<and> map_option (map m_name) (tb_cond T ''A'') = Some [''c1'', ''c2'']"
proof -
  note d = toy_decorated
  have "case class_tables toy_class of Inr T \<Rightarrow> tb_states T ''A'' \<noteq> None | Inl _ \<Rightarrow> False"
    unfolding class_tables_def d
    by (simp add: Let_def toy_member_def declare_member_def enter_member_def append_at_def no_tables_def sort_tables_def)
  then obtain T where T: "class_tables toy_class = Inr T" "''A'' \<in> dom (tb_states T)"
    by (cases "class_tables toy_class") auto
  have "sort_key m_prio (of_state ATMT_CONDITION ''A'' (decorated toy_class)) =
      [toy_member ''c1'' ATMT_CONDITION ''A'' 1, toy_member ''c2'' ATMT_CONDITION ''A'' 5]"
    unfolding d by (simp add: of_state_def toy_member_def)
  with class_tables_lists [OF T] T(1) show ?thesis by (simp add: toy_member_def)
qed

end
