(* ===== verification/Atmt_Run.thy ===== *)
theory Atmt_Run
  imports Atmt_Class
begin

text \<open>
  The run loop of automata (\<open>automaton.py\<close>, \<open>_run_condition\<close>, \<open>_do_iter\<close>, \<open>_do_control\<close>,
  \<open>send\<close>, \<open>run\<close>). The functions of the machine's author are arguments; the clock and the sockets
  are given as the rounds of the loop. Keyword arguments and debug messages are left out.
\<close>

section \<open>The machine and its author's functions\<close>

record 'v request =
  rq_func :: member
  rq_args :: "'v list"
  rq_action_args :: "'v list"

definition new_state_requested :: "member \<Rightarrow> 'v list \<Rightarrow> 'v request" where
  "new_state_requested f args = \<lparr>rq_func = f, rq_args = args, rq_action_args = []\<rparr>"

definition action_parameters :: "'v list \<Rightarrow> 'v request \<Rightarrow> 'v request" where
  "action_parameters args r = r\<lparr>rq_action_args := args\<rparr>"

text \<open>What a function of the author does: it returns, asks for a state, or raises something else.\<close>

datatype ('r, 'v) outcome = Returns 'r | Moves "'v request" | Raises atmt_exn

datatype 'v state_out = O_None | O_List "'v list" | O_Value 'v

fun spread :: "'v state_out \<Rightarrow> 'v list" where
  "spread O_None = []"
| "spread (O_List vs) = vs"
| "spread (O_Value v) = [v]"

record ('u, 'v) code =
  p_state :: "string \<Rightarrow> 'v list \<Rightarrow> 'u \<Rightarrow> ('v state_out, 'v) outcome \<times> 'u"
  p_cond :: "string \<Rightarrow> 'v list \<Rightarrow> 'u \<Rightarrow> (unit, 'v) outcome \<times> 'u"
  p_action :: "string \<Rightarrow> 'v list \<Rightarrow> 'u \<Rightarrow> (unit, 'v) outcome \<times> 'u"
  p_eof :: "string \<Rightarrow> 'u \<Rightarrow> ('v request option, 'v) outcome \<times> 'u"
  p_filter :: "'v \<Rightarrow> 'u \<Rightarrow> (bool, 'v) outcome \<times> 'u"
  p_session :: "('v option \<Rightarrow> 'u \<Rightarrow> ('v option, 'v) outcome \<times> 'u) option"

record ('u, 'v) atmt =
  a_user :: 'u
  a_state :: "'v request"
  a_timers :: "string \<rightharpoonup> timer list"
  a_breakpoints :: "string set"
  a_breakpointed :: "string option"
  a_interceptions :: "string set"
  a_intercepted :: "'v option"
  a_listen :: bool
  a_send :: bool
  a_store :: bool
  a_packets :: "'v list"
  a_sent :: "'v list"
  a_final :: "'v state_out"

abbreviation state_name :: "('u, 'v) atmt \<Rightarrow> string" where
  "state_name m \<equiv> m_state (rq_func (a_state m))"

definition add_breakpoints :: "string list \<Rightarrow> ('u, 'v) atmt \<Rightarrow> ('u, 'v) atmt" where
  "add_breakpoints bps m = m\<lparr>a_breakpoints := a_breakpoints m \<union> set bps\<rparr>"

definition remove_breakpoints :: "string list \<Rightarrow> ('u, 'v) atmt \<Rightarrow> ('u, 'v) atmt" where
  "remove_breakpoints bps m = m\<lparr>a_breakpoints := a_breakpoints m - set bps\<rparr>"

definition add_interception_points :: "string list \<Rightarrow> ('u, 'v) atmt \<Rightarrow> ('u, 'v) atmt" where
  "add_interception_points ips m = m\<lparr>a_interceptions := a_interceptions m \<union> set ips\<rparr>"

definition remove_interception_points :: "string list \<Rightarrow> ('u, 'v) atmt \<Rightarrow> ('u, 'v) atmt" where
  "remove_interception_points ips m = m\<lparr>a_interceptions := a_interceptions m - set ips\<rparr>"

section \<open>Conditions\<close>

datatype 'v ready = R_Cmd | R_Eof | R_Fails string | R_Packet "'v option" | R_Io string 'v

datatype 'v flow = F_On | F_Command "'v ready list" | F_Move "'v request" | F_Raise atmt_exn

definition invoke :: "('r, 'v) outcome \<times> 'u \<Rightarrow> ('u, 'v) atmt \<Rightarrow> ('r \<Rightarrow> ('u, 'v) atmt \<Rightarrow> 'v flow \<times> ('u, 'v) atmt) \<Rightarrow>
    'v flow \<times> ('u, 'v) atmt" where
  "invoke res m k =
     (case res of
        (Returns x, u) \<Rightarrow> k x (m\<lparr>a_user := u\<rparr>)
      | (Moves rq, u) \<Rightarrow> (F_Move rq, m\<lparr>a_user := u\<rparr>)
      | (Raises e, u) \<Rightarrow> (F_Raise e, m\<lparr>a_user := u\<rparr>))"

fun run_actions :: "('u, 'v) code \<Rightarrow> member list \<Rightarrow> 'v request \<Rightarrow> ('u, 'v) atmt \<Rightarrow> 'v flow \<times> ('u, 'v) atmt" where
  "run_actions P [] rq m = (F_Move rq, m)"
| "run_actions P (a # as) rq m =
     invoke (p_action P (m_name a) (rq_action_args rq) (a_user m)) m (\<lambda>_. run_actions P as rq)"

text \<open>A condition that asks for a state is taken: its actions run, then the machine moves.\<close>

definition run_condition :: "('u, 'v) code \<Rightarrow> tables \<Rightarrow> string \<times> bool \<Rightarrow> 'v list \<Rightarrow> ('u, 'v) atmt \<Rightarrow>
    'v flow \<times> ('u, 'v) atmt" where
  "run_condition P T c args m =
     (case p_cond P (fst c) args (a_user m) of
        (Returns _, u) \<Rightarrow> (F_On, m\<lparr>a_user := u\<rparr>)
      | (Raises e, u) \<Rightarrow> (F_Raise e, m\<lparr>a_user := u\<rparr>)
      | (Moves rq, u) \<Rightarrow>
          (let m = m\<lparr>a_user := u\<rparr>;
               m = (if snd c \<and> a_store m then m\<lparr>a_packets := a_packets m @ [hd args]\<rparr> else m) in
           case tb_actions T (fst c) of
             None \<Rightarrow> (F_Raise A_Key, m)
           | Some as \<Rightarrow> run_actions P as rq m))"

fun run_conditions :: "('u, 'v) code \<Rightarrow> tables \<Rightarrow> (string \<times> bool) list \<Rightarrow> 'v list \<Rightarrow> ('u, 'v) atmt \<Rightarrow>
    'v flow \<times> ('u, 'v) atmt" where
  "run_conditions P T [] args m = (F_On, m)"
| "run_conditions P T (c # cs) args m =
     (case run_condition P T c args m of
        (F_On, m) \<Rightarrow> run_conditions P T cs args m
      | r \<Rightarrow> r)"

definition conds :: "member list \<Rightarrow> (string \<times> bool) list" where
  "conds ms = map (\<lambda>m. (m_condname m, m_type m = ATMT_RECV)) ms"

section \<open>What select returns\<close>

text \<open>What a ready object gives: an end of the stream, another exception by its name, a packet, an event.\<close>

fun handle :: "('u, 'v) code \<Rightarrow> tables \<Rightarrow> 'v list \<Rightarrow> 'v ready list \<Rightarrow> ('u, 'v) atmt \<Rightarrow> 'v flow \<times> ('u, 'v) atmt" where
  "handle P T out [] m = (F_On, m)"
| "handle P T out (R_Cmd # r) m = (F_Command r, m)"
| "handle P T out (R_Eof # r) m =
     (let m = m\<lparr>a_listen := False\<rparr> in
      case tb_eofs T (state_name m) of
        None \<Rightarrow> (F_Raise A_EOF, m)
      | Some eof \<Rightarrow> invoke (p_eof P (m_condname eof) (a_user m)) m
          (\<lambda>x m. case x of Some rq \<Rightarrow> (F_Move rq, m) | None \<Rightarrow> (F_Raise A_Type, m)))"
| "handle P T out (R_Fails e # r) m = (F_Raise (if e = ''RuntimeError'' then A_Runtime else A_Other e), m)"
| "handle P T out (R_Packet pkt # r) m =
     invoke (case p_session P of None \<Rightarrow> (Returns pkt, a_user m) | Some process \<Rightarrow> process pkt (a_user m)) m
       (\<lambda>pkt m. case pkt of
          None \<Rightarrow> handle P T out r m
        | Some pkt \<Rightarrow> invoke (p_filter P pkt (a_user m)) m (\<lambda>keep m.
            if keep then
              (case tb_recv T (state_name m) of
                 None \<Rightarrow> (F_Raise A_Key, m)
               | Some cs \<Rightarrow> (case run_conditions P T (conds cs) (pkt # out) m of
                    (F_On, m) \<Rightarrow> handle P T out r m
                  | res \<Rightarrow> res))
            else handle P T out r m))"
| "handle P T out (R_Io nm fd # r) m =
     (case tb_io T (state_name m) of
        None \<Rightarrow> (F_Raise A_Key, m)
      | Some cs \<Rightarrow> (case run_conditions P T (conds (filter (\<lambda>c. m_ioname c = nm) cs)) (fd # out) m of
           (F_On, m) \<Rightarrow> handle P T out r m
         | res \<Rightarrow> res))"

text \<open>The objects given to select: the command pipe, the listening socket, the pipes of events.\<close>

fun selectable :: "bool \<times> string list \<Rightarrow> 'v ready \<Rightarrow> bool" where
  "selectable fds R_Cmd = True"
| "selectable fds R_Eof = fst fds"
| "selectable fds (R_Fails e) = fst fds"
| "selectable fds (R_Packet p) = fst fds"
| "selectable fds (R_Io nm fd) = (nm \<in> set (snd fds))"

section \<open>The loop\<close>

datatype 'v yields = Y_Break | Y_Command | Y_Move "'v request" | Y_Done | Y_Raise atmt_exn | Y_Waiting

text \<open>Where the generator stands: at the top of its loop, after a breakpoint, in the wait of a state with the
  rest of what select gave, or finished.\<close>

datatype 'v position = P_Top | P_Broken | P_Wait "'v list" "bool \<times> string list" "'v ready list" | P_Dead

text \<open>A round of the loop: the time since the last one, and what select then returns.\<close>

type_synonym 'v rounds = "(rat \<times> 'v ready list) list"

definition leave :: "'v list \<Rightarrow> bool \<times> string list \<Rightarrow> 'v flow \<times> ('u, 'v) atmt \<Rightarrow> 'v yields \<times> 'v position \<times> ('u, 'v) atmt" where
  "leave out fds res =
     (case res of
        (F_On, m) \<Rightarrow> (Y_Waiting, P_Wait out fds [], m)
      | (F_Command rest, m) \<Rightarrow> (Y_Command, P_Wait out fds rest, m)
      | (F_Move rq, m) \<Rightarrow> (Y_Move rq, P_Top, m\<lparr>a_state := rq\<rparr>)
      | (F_Raise e, m) \<Rightarrow> (Y_Raise e, P_Dead, m))"

text \<open>The timers that expire in a round run, before anything is received.\<close>

definition run_timers :: "('u, 'v) code \<Rightarrow> tables \<Rightarrow> 'v list \<Rightarrow> rat \<Rightarrow> ('u, 'v) atmt \<Rightarrow> 'v flow \<times> ('u, 'v) atmt" where
  "run_timers P T out e m =
     (case a_timers m (state_name m) of
        None \<Rightarrow> (F_Raise A_Key, m)
      | Some ts \<Rightarrow>
          (case timers_expired (timers_decrement e ts) of (ex, ts) \<Rightarrow>
             run_conditions P T (map (\<lambda>t. (t_func t, False)) ex) out
               (m\<lparr>a_timers := (a_timers m)(state_name m \<mapsto> ts)\<rparr>)))"

fun wait :: "('u, 'v) code \<Rightarrow> tables \<Rightarrow> 'v list \<Rightarrow> bool \<times> string list \<Rightarrow> 'v rounds \<Rightarrow> 'v flow \<times> ('u, 'v) atmt \<Rightarrow>
    'v yields \<times> 'v position \<times> ('u, 'v) atmt" where
  "wait P T out fds [] res = leave out fds res"
| "wait P T out fds ((e, r) # rs) res =
     (case res of
        (F_On, m) \<Rightarrow>
          (case run_timers P T out e m of
             (F_On, m) \<Rightarrow> wait P T out fds rs (handle P T out (filter (selectable fds) r) m)
           | res \<Rightarrow> leave out fds res)
      | _ \<Rightarrow> leave out fds res)"

definition lookup_fds :: "tables \<Rightarrow> ('u, 'v) atmt \<Rightarrow> (bool \<times> string list) option" where
  "lookup_fds T m =
     (case (if a_listen m then map_option (\<lambda>l. l \<noteq> []) (tb_recv T (state_name m)) else Some False) of
        None \<Rightarrow> None
      | Some listen \<Rightarrow> map_option (\<lambda>l. (listen, map m_ioname l)) (tb_io T (state_name m)))"

text \<open>The immediate conditions, unless a command is pending; a state that has nothing to wait for is stuck.\<close>

definition immediate :: "('u, 'v) code \<Rightarrow> tables \<Rightarrow> bool \<Rightarrow> 'v list \<Rightarrow> timer list \<Rightarrow> ('u, 'v) atmt \<Rightarrow> 'v flow \<times> ('u, 'v) atmt" where
  "immediate P T pending out ts m =
     (if pending then (F_On, m)
      else (case tb_cond T (state_name m) of
         None \<Rightarrow> (F_Raise A_Key, m)
       | Some cs \<Rightarrow>
           (case run_conditions P T (conds cs) out m of
              (F_On, m) \<Rightarrow>
                (case tb_recv T (state_name m) of
                   None \<Rightarrow> (F_Raise A_Key, m)
                 | Some rs \<Rightarrow>
                     if rs \<noteq> [] then (F_On, m)
                     else (case tb_io T (state_name m) of
                        None \<Rightarrow> (F_Raise A_Key, m)
                      | Some ios \<Rightarrow> if ios = [] \<and> ts = [] then (F_Raise (A_Stuck (state_name m)), m) else (F_On, m)))
            | res \<Rightarrow> res)))"

definition run_state :: "('u, 'v) code \<Rightarrow> tables \<Rightarrow> bool \<Rightarrow> 'v rounds \<Rightarrow> ('u, 'v) atmt \<Rightarrow> 'v yields \<times> 'v position \<times> ('u, 'v) atmt" where
  "run_state P T pending rounds m =
     (let m = m\<lparr>a_breakpointed := None\<rparr> in
      case p_state P (state_name m) (rq_args (a_state m)) (a_user m) of
        (Moves rq, u) \<Rightarrow> (Y_Move rq, P_Top, m\<lparr>a_user := u, a_state := rq\<rparr>)
      | (Raises e, u) \<Rightarrow> (Y_Raise e, P_Dead, m\<lparr>a_user := u\<rparr>)
      | (Returns v, u) \<Rightarrow>
          (let m = m\<lparr>a_user := u\<rparr> in
           if m_error (rq_func (a_state m)) then (Y_Raise (A_ErrorState (state_name m)), P_Dead, m)
           else if m_final (rq_func (a_state m)) then (Y_Done, P_Dead, m\<lparr>a_final := v\<rparr>)
           else (case a_timers m (state_name m) of
              None \<Rightarrow> (Y_Raise A_Key, P_Dead, m)
            | Some ts \<Rightarrow>
                (case immediate P T pending (spread v) ts m of
                   (F_On, m) \<Rightarrow>
                     (let m = m\<lparr>a_timers := (a_timers m)(state_name m \<mapsto> timers_reset ts)\<rparr> in
                      case lookup_fds T m of
                        None \<Rightarrow> (Y_Raise A_Key, P_Dead, m)
                      | Some fds \<Rightarrow> wait P T (spread v) fds rounds (F_On, m))
                 | res \<Rightarrow> leave (spread v) (False, []) res))))"

definition do_next :: "('u, 'v) code \<Rightarrow> tables \<Rightarrow> bool \<Rightarrow> 'v rounds \<Rightarrow> 'v position \<Rightarrow> ('u, 'v) atmt \<Rightarrow>
    'v yields \<times> 'v position \<times> ('u, 'v) atmt" where
  "do_next P T pending rounds pos m =
     (case pos of
        P_Top \<Rightarrow>
          if state_name m \<in> a_breakpoints m \<and> a_breakpointed m \<noteq> Some (state_name m)
          then (Y_Break, P_Broken, m\<lparr>a_breakpointed := Some (state_name m)\<rparr>)
          else run_state P T pending rounds m
      | P_Broken \<Rightarrow> run_state P T pending rounds m
      | P_Wait out fds rest \<Rightarrow> wait P T out fds rounds (handle P T out rest m)
      | P_Dead \<Rightarrow> (Y_Done, P_Dead, m))"

section \<open>Control\<close>

datatype command = RUN | NEXT | FREEZE | STOP | FORCESTOP | OTHER

datatype 'v message = M_End "'v state_out" | M_Exception atmt_exn | M_Breakpoint string | M_Singlestep "'v request"
  | M_Intercept string 'v

text \<open>The control thread: its machine, where the generator stands, whether it steps, and whether it lives.\<close>

record ('u, 'v) control =
  k_machine :: "('u, 'v) atmt"
  k_position :: "'v position"
  k_singlestep :: bool
  k_live :: bool

text \<open>The inner loop: it asks the generator until it has something to tell, given what is pending and the
  rounds of each call.\<close>

fun control_run :: "('u, 'v) code \<Rightarrow> tables \<Rightarrow> (bool \<times> 'v rounds) list \<Rightarrow> ('u, 'v) control \<Rightarrow> 'v message list \<times> ('u, 'v) control" where
  "control_run P T [] k = ([], k)"
| "control_run P T ((pending, rounds) # ins) k =
     (case do_next P T pending rounds (k_position k) (k_machine k) of (y, pos, m) \<Rightarrow>
        (let k = k\<lparr>k_position := pos, k_machine := m\<rparr> in
         case y of
           Y_Command \<Rightarrow> ([], k)
         | Y_Break \<Rightarrow> ([M_Breakpoint (state_name m)], k)
         | Y_Move rq \<Rightarrow> if k_singlestep k then ([M_Singlestep rq], k) else control_run P T ins k
         | Y_Waiting \<Rightarrow> control_run P T ins k
         | Y_Done \<Rightarrow> ([M_End (a_final m)], k\<lparr>k_live := False\<rparr>)
         | Y_Raise e \<Rightarrow> ([if e = A_Runtime then M_End (a_final m) else M_Exception e], k\<lparr>k_live := False\<rparr>)))"

definition control_command :: "('u, 'v) code \<Rightarrow> tables \<Rightarrow> command \<Rightarrow> (bool \<times> 'v rounds) list \<Rightarrow> ('u, 'v) control \<Rightarrow>
    'v message list \<times> ('u, 'v) control" where
  "control_command P T c ins k =
     (if \<not> k_live k then ([], k)
      else (case c of
         RUN \<Rightarrow> control_run P T ins (k\<lparr>k_singlestep := False\<rparr>)
       | NEXT \<Rightarrow> control_run P T ins (k\<lparr>k_singlestep := True\<rparr>)
       | FREEZE \<Rightarrow> ([], k)
       | STOP \<Rightarrow>
           (case tb_stop T of
              Some s \<Rightarrow> control_run P T ins
                (k\<lparr>k_machine := (k_machine k)\<lparr>a_state := new_state_requested s []\<rparr>, k_position := P_Top\<rparr>)
            | None \<Rightarrow> ([], k\<lparr>k_live := False\<rparr>))
       | FORCESTOP \<Rightarrow> ([], k\<lparr>k_live := False\<rparr>)
       | OTHER \<Rightarrow> control_run P T ins k))"

fun control_loop :: "('u, 'v) code \<Rightarrow> tables \<Rightarrow> (command \<times> (bool \<times> 'v rounds) list) list \<Rightarrow> ('u, 'v) control \<Rightarrow>
    'v message list \<times> ('u, 'v) control" where
  "control_loop P T [] k = ([], k)"
| "control_loop P T ((c, ins) # cs) k =
     (case control_command P T c ins k of (ms, k) \<Rightarrow>
        (case control_loop P T cs k of (ms', k) \<Rightarrow> (ms @ ms', k)))"

text \<open>What a caller that waits gets of the first message.\<close>

datatype 'v caller_sees = C_Result "'v state_out" | C_Singlestep string | C_Breakpoint string | C_Intercept string 'v | C_Raise atmt_exn

fun run_result :: "'v message \<Rightarrow> 'v caller_sees" where
  "run_result (M_End v) = C_Result v"
| "run_result (M_Singlestep rq) = C_Singlestep (m_state (rq_func rq))"
| "run_result (M_Breakpoint s) = C_Breakpoint s"
| "run_result (M_Intercept s pkt) = C_Intercept s pkt"
| "run_result (M_Exception e) = C_Raise e"

text \<open>The start of the thread: the first state; a class without initial state fails.\<close>

definition do_start :: "tables \<Rightarrow> 'u \<Rightarrow> bool \<Rightarrow> bool \<Rightarrow> ('u, 'v) control ares" where
  "do_start T u send store =
     (case tb_initial T of
        [] \<Rightarrow> Inl (A_Other ''IndexError'')
      | s # _ \<Rightarrow> Inr \<lparr>k_machine = \<lparr>a_user = u, a_state = new_state_requested s [], a_timers = tb_timeout T,
            a_breakpoints = {}, a_breakpointed = None, a_interceptions = {}, a_intercepted = None,
            a_listen = (tb_recv T \<noteq> Map.empty), a_send = send, a_store = store, a_packets = [], a_sent = [],
            a_final = O_None\<rparr>, k_position = P_Top, k_singlestep = True, k_live = True\<rparr>)"

section \<open>Sending\<close>

datatype 'v verdict = V_None | V_Accept | V_Reject | V_Replace 'v | V_Unknown

type_synonym ('u, 'v) sent = "atmt_exn option \<times> ('u, 'v) atmt"

definition my_send :: "'v \<Rightarrow> ('u, 'v) atmt \<Rightarrow> ('u, 'v) sent" where
  "my_send pkt m = (if \<not> a_send m then (Some A_Value, m) else (None, m\<lparr>a_sent := a_sent m @ [pkt]\<rparr>))"

definition send_on :: "'v \<Rightarrow> ('u, 'v) atmt \<Rightarrow> ('u, 'v) sent" where
  "send_on pkt m =
     (case my_send pkt m of
        (Some e, m) \<Rightarrow> (Some e, m)
      | (None, m) \<Rightarrow> (None, if a_store m then m\<lparr>a_packets := a_packets m @ [pkt]\<rparr> else m))"

text \<open>In an interception point the packet waits for the verdict of the controlling thread.\<close>

definition atmt_send :: "'v \<Rightarrow> 'v verdict \<Rightarrow> ('u, 'v) atmt \<Rightarrow> ('u, 'v) sent" where
  "atmt_send pkt v m =
     (if state_name m \<in> a_interceptions m then
        (let m = m\<lparr>a_intercepted := Some pkt\<rparr>; n = m\<lparr>a_intercepted := None\<rparr> in
         case v of
           V_None \<Rightarrow> (None, m)
         | V_Reject \<Rightarrow> (None, n)
         | V_Replace p \<Rightarrow> send_on p n
         | V_Accept \<Rightarrow> send_on pkt n
         | V_Unknown \<Rightarrow> (Some (A_Other ''AutomatonError''), n))
      else send_on pkt m)"

end
