(* ===== verification/Atmt_Safe.thy ===== *)
theory Atmt_Safe
  imports Atmt_Run
begin

text \<open>
  Automata are safe: a machine whose class was accepted always stands in one of its states, and its run loop
  never looks up what is not in the tables (\<open>automaton.py\<close>).
\<close>

section \<open>The tables are complete\<close>

text \<open>What the decorators \<open>timeout\<close> and \<open>timer\<close> give a timer to run.\<close>

definition timeouts_named :: "member list \<Rightarrow> bool" where
  "timeouts_named ms \<longleftrightarrow> (\<forall>m\<in>set ms. m_type m = ATMT_TIMEOUT \<longrightarrow> t_func (m_timer m) = m_condname m)"

lemma deco_timeouts_named: "timeouts_named [deco_timeout st time f, deco_timer st time' prio g]"
  by (simp add: timeouts_named_def deco_timeout_def deco_timer_def undecorated_def timer_new_def)

definition runnable :: "string set \<Rightarrow> member list option \<Rightarrow> bool" where
  "runnable A l \<longleftrightarrow> (case l of None \<Rightarrow> True | Some ms \<Rightarrow> m_condname ` set ms \<subseteq> A)"

definition timers_runnable :: "string set \<Rightarrow> timer list option \<Rightarrow> bool" where
  "timers_runnable A l \<longleftrightarrow> (case l of None \<Rightarrow> True | Some ts \<Rightarrow> t_func ` set ts \<subseteq> A)"

lemma runnable_simps [simp]:
  "runnable A None" "runnable A (Some ms) \<longleftrightarrow> m_condname ` set ms \<subseteq> A"
  "timers_runnable A None" "timers_runnable A (Some ts) \<longleftrightarrow> t_func ` set ts \<subseteq> A"
  "runnable A (map_option (sort_key k) l) \<longleftrightarrow> runnable A l"
  by (simp_all add: runnable_def timers_runnable_def split: option.split)

definition tables_ok :: "tables \<Rightarrow> bool" where
  "tables_ok T \<longleftrightarrow>
     (\<forall>s\<in>dom (tb_states T). s \<in> dom (tb_cond T) \<and> s \<in> dom (tb_recv T) \<and> s \<in> dom (tb_io T) \<and> s \<in> dom (tb_timeout T)) \<and>
     (\<forall>s. runnable (dom (tb_actions T)) (tb_cond T s) \<and> runnable (dom (tb_actions T)) (tb_recv T s) \<and>
       runnable (dom (tb_actions T)) (tb_io T s) \<and> timers_runnable (dom (tb_actions T)) (tb_timeout T s)) \<and>
     m_state ` set (tb_initial T) \<subseteq> dom (tb_states T) \<and>
     m_state ` set_option (tb_stop T) \<subseteq> dom (tb_states T)"

lemma runnable_mono:
  "A \<subseteq> B \<Longrightarrow> runnable A l \<Longrightarrow> runnable B l"
  "A \<subseteq> B \<Longrightarrow> timers_runnable A ts \<Longrightarrow> timers_runnable B ts"
  by (cases l; auto) (cases ts; auto)

lemma no_tables_ok: "tables_ok no_tables"
  by (simp add: tables_ok_def no_tables_def)

lemma declare_ok:
  assumes "declare_member m T = Inr U" "tables_ok T"
  shows "tables_ok U \<and> dom (tb_actions T) \<subseteq> dom (tb_actions U) \<and>
    (m_type m \<noteq> ATMT_STATE \<and> m_type m \<noteq> ATMT_ACTION \<longrightarrow> m_condname m \<in> dom (tb_actions U))"
proof (cases "m_type m = ATMT_STATE")
  case True
  with assms(1) have u: "tb_states U = (tb_states T)(m_state m \<mapsto> m)" "tb_cond U = (tb_cond T)(m_state m \<mapsto> [])"
    "tb_recv U = (tb_recv T)(m_state m \<mapsto> [])" "tb_io U = (tb_io T)(m_state m \<mapsto> [])"
    "tb_timeout U = (tb_timeout T)(m_state m \<mapsto> [])" "tb_actions U = tb_actions T"
    "set (tb_initial U) \<subseteq> insert m (set (tb_initial T))" "tb_stop U = tb_stop T \<or> tb_stop U = Some m"
    by (auto simp: declare_member_def Let_def split: if_splits)
  have "m_state ` set (tb_initial U) \<subseteq> dom (tb_states U)"
  proof -
    have "m_state ` set (tb_initial U) \<subseteq> m_state ` insert m (set (tb_initial T))" using u(7) by (rule image_mono)
    moreover have "m_state ` set (tb_initial T) \<subseteq> dom (tb_states T)" using assms(2) by (simp add: tables_ok_def)
    ultimately show ?thesis unfolding u(1) by auto
  qed
  moreover have "m_state ` set_option (tb_stop U) \<subseteq> dom (tb_states U)"
    using assms(2) u(8) unfolding tables_ok_def u(1) by (auto split: option.splits)
  moreover have "\<forall>s\<in>dom (tb_states U). s \<in> dom (tb_cond U) \<and> s \<in> dom (tb_recv U) \<and> s \<in> dom (tb_io U) \<and> s \<in> dom (tb_timeout U)"
    using assms(2) unfolding tables_ok_def u(1-5) by simp
  moreover have "\<forall>s. runnable (dom (tb_actions U)) (tb_cond U s) \<and> runnable (dom (tb_actions U)) (tb_recv U s) \<and>
      runnable (dom (tb_actions U)) (tb_io U s) \<and> timers_runnable (dom (tb_actions U)) (tb_timeout U s)"
    using assms(2) unfolding tables_ok_def u(2-6) by simp
  ultimately show ?thesis using True u(6) by (simp add: tables_ok_def)
next
  case False
  then have u: "U = T \<or> U = T\<lparr>tb_actions := (tb_actions T)(m_condname m \<mapsto> [])\<rparr>"
    and n: "m_type m \<noteq> ATMT_ACTION \<Longrightarrow> m_condname m \<in> dom (tb_actions U)"
    using assms(1) by (auto simp: declare_member_def split: if_splits)
  then have "dom (tb_actions T) \<subseteq> dom (tb_actions U)" by auto
  note mono = runnable_mono [OF this]
  from u have "tables_ok U"
  proof
    assume "U = T\<lparr>tb_actions := (tb_actions T)(m_condname m \<mapsto> [])\<rparr>"
    with mono assms(2) show ?thesis by (simp add: tables_ok_def)
  qed (simp add: assms(2))
  with n False \<open>dom (tb_actions T) \<subseteq> dom (tb_actions U)\<close> show ?thesis by simp
qed

lemma declare_all_ok:
  assumes "afold declare_member ms T = Inr U" "tables_ok T"
  shows "tables_ok U \<and> dom (tb_actions T) \<subseteq> dom (tb_actions U) \<and>
    (\<forall>m\<in>set ms. m_type m \<noteq> ATMT_STATE \<and> m_type m \<noteq> ATMT_ACTION \<longrightarrow> m_condname m \<in> dom (tb_actions U))"
  using assms
proof (induction ms arbitrary: T)
  case (Cons m ms)
  then obtain V where V: "declare_member m T = Inr V" "afold declare_member ms V = Inr U" by (auto simp: abind_Inr_iff)
  from declare_ok [OF V(1) Cons.prems(2)] Cons.IH [OF V(2)] show ?case by auto
qed simp

lemma append_at_dom: "append_at k v t = Inr t' \<Longrightarrow> dom t' = dom t"
  unfolding append_at_Inr by (elim exE conjE) (simp add: insert_absorb domI)

lemma append_actions_dom: "afold (\<lambda>co. append_at co m) ks t = Inr t' \<Longrightarrow> dom t' = dom t"
proof (induction ks arbitrary: t)
  case (Cons k ks)
  then obtain x where "append_at k m t = Inr x" "afold (\<lambda>co. append_at co m) ks x = Inr t'" by (auto simp: abind_Inr_iff)
  with Cons.IH append_at_dom show ?case by metis
qed simp

lemma enter_ok:
  assumes "enter_member m T = Inr U" "tables_ok T" "timeouts_named [m]"
    "m_type m \<noteq> ATMT_STATE \<and> m_type m \<noteq> ATMT_ACTION \<longrightarrow> m_condname m \<in> dom (tb_actions T)"
  shows "tables_ok U \<and> dom (tb_actions U) = dom (tb_actions T)"
proof -
  have d: "dom (tb_actions U) = dom (tb_actions T)"
  proof (cases "m_type m = ATMT_ACTION")
    case True
    with assms(1) obtain t where "afold (\<lambda>co. append_at co m) (map fst (m_cond m)) (tb_actions T) = Inr t"
      "U = T\<lparr>tb_actions := t\<rparr>" by (auto simp: enter_member_def abind_Inr_iff)
    then show ?thesis by (simp add: append_actions_dom)
  next
    case False
    with assms(1) have "tb_actions U = tb_actions T" by (cases "m_type m") (auto simp: enter_member_def abind_Inr_iff)
    then show ?thesis by simp
  qed
  show ?thesis
  proof (cases "m_type m")
    case ATMT_ACTION
    with assms(1) obtain t where "U = T\<lparr>tb_actions := t\<rparr>" by (auto simp: enter_member_def abind_Inr_iff)
    with assms(2) d show ?thesis by (simp add: tables_ok_def)
  next
    case ATMT_CONDITION
    with assms(1) obtain t l where "tb_cond T (m_state m) = Some l" "U = T\<lparr>tb_cond := (tb_cond T)(m_state m \<mapsto> l @ [m])\<rparr>"
      by (auto simp: enter_member_def abind_Inr_iff append_at_Inr)
    note u = this
    have "runnable (dom (tb_actions T)) (tb_cond T (m_state m))" using assms(2) by (simp add: tables_ok_def)
    then have "m_condname ` set (l @ [m]) \<subseteq> dom (tb_actions T)" using u(1) assms(4) ATMT_CONDITION by simp
    with u assms(2) d show ?thesis by (simp add: tables_ok_def)
  next
    case ATMT_RECV
    with assms(1) obtain t l where "tb_recv T (m_state m) = Some l" "U = T\<lparr>tb_recv := (tb_recv T)(m_state m \<mapsto> l @ [m])\<rparr>"
      by (auto simp: enter_member_def abind_Inr_iff append_at_Inr)
    note u = this
    have "runnable (dom (tb_actions T)) (tb_recv T (m_state m))" using assms(2) by (simp add: tables_ok_def)
    then have "m_condname ` set (l @ [m]) \<subseteq> dom (tb_actions T)" using u(1) assms(4) ATMT_RECV by simp
    with u assms(2) d show ?thesis by (simp add: tables_ok_def)
  next
    case ATMT_IOEVENT
    with assms(1) obtain t l n k where "tb_io T (m_state m) = Some l"
      "U = T\<lparr>tb_io := (tb_io T)(m_state m \<mapsto> l @ [m]), tb_ionames := n, tb_supers := k\<rparr>"
      by (auto simp: enter_member_def abind_Inr_iff append_at_Inr)
    note u = this
    have "runnable (dom (tb_actions T)) (tb_io T (m_state m))" using assms(2) by (simp add: tables_ok_def)
    then have "m_condname ` set (l @ [m]) \<subseteq> dom (tb_actions T)" using u(1) assms(4) ATMT_IOEVENT by simp
    with u assms(2) d show ?thesis by (simp add: tables_ok_def)
  next
    case ATMT_TIMEOUT
    with assms(1) obtain t l where "tb_timeout T (m_state m) = Some l"
      "U = T\<lparr>tb_timeout := (tb_timeout T)(m_state m \<mapsto> l @ [m_timer m])\<rparr>"
      by (auto simp: enter_member_def abind_Inr_iff append_at_Inr)
    note u = this
    have "timers_runnable (dom (tb_actions T)) (tb_timeout T (m_state m))" using assms(2) by (simp add: tables_ok_def)
    moreover have "t_func (m_timer m) \<in> dom (tb_actions T)" using assms(3,4) ATMT_TIMEOUT by (simp add: timeouts_named_def)
    ultimately have "t_func ` set (l @ [m_timer m]) \<subseteq> dom (tb_actions T)" using u(1) by simp
    with u assms(2) d show ?thesis by (simp add: tables_ok_def)
  next
    case ATMT_EOF
    then have "U = T\<lparr>tb_eofs := (tb_eofs T)(m_state m \<mapsto> m)\<rparr>" using assms(1) by (simp add: enter_member_def)
    with assms(2) d show ?thesis by (simp add: tables_ok_def)
  next
    case ATMT_STATE
    with assms show ?thesis by (simp add: enter_member_def)
  qed
qed

lemma enter_all_ok:
  assumes "afold enter_member ms T = Inr U" "tables_ok T" "timeouts_named ms"
    "\<forall>m\<in>set ms. m_type m \<noteq> ATMT_STATE \<and> m_type m \<noteq> ATMT_ACTION \<longrightarrow> m_condname m \<in> dom (tb_actions T)"
  shows "tables_ok U"
  using assms
proof (induction ms arbitrary: T)
  case (Cons m ms)
  then obtain V where V: "enter_member m T = Inr V" "afold enter_member ms V = Inr U" by (auto simp: abind_Inr_iff)
  from enter_ok [OF V(1) Cons.prems(2)] Cons.prems(3,4)
  have "tables_ok V \<and> dom (tb_actions V) = dom (tb_actions T)" by (simp add: timeouts_named_def)
  with Cons.IH [OF V(2)] Cons.prems(3,4) show ?case by (simp add: timeouts_named_def)
qed simp

lemma sort_tables_sel [simp]:
  "tb_states (sort_tables T) = tb_states T" "tb_timeout (sort_tables T) = tb_timeout T"
  "tb_cond (sort_tables T) s = map_option (sort_key m_prio) (tb_cond T s)"
  "tb_recv (sort_tables T) s = map_option (sort_key m_prio) (tb_recv T s)"
  "tb_io (sort_tables T) s = map_option (sort_key m_prio) (tb_io T s)"
  "tb_initial (sort_tables T) = tb_initial T" "tb_stop (sort_tables T) = tb_stop T"
  by (simp_all add: sort_tables_def)

lemma sort_tables_ok: "tables_ok T \<Longrightarrow> tables_ok (sort_tables T)"
proof -
  assume ok: "tables_ok T"
  have d: "dom (tb_actions (sort_tables T)) = dom (tb_actions T)" by (auto simp: sort_tables_def dom_def)
  from ok show ?thesis unfolding tables_ok_def sort_tables_sel d by (simp add: domIff)
qed

lemma class_tables_ok:
  assumes "class_tables c = Inr T" "timeouts_named (decorated c)"
  shows "tables_ok T"
proof -
  from assms(1) obtain T1 T2 where t: "afold declare_member (decorated c) no_tables = Inr T1"
    "afold enter_member (decorated c) T1 = Inr T2" "T = sort_tables T2"
    by (auto simp: class_tables_def Let_def abind_Inr_iff)
  from declare_all_ok [OF t(1) no_tables_ok] enter_all_ok [OF t(2) _ assms(2)] have "tables_ok T2" by blast
  then show ?thesis unfolding t(3) by (rule sort_tables_ok)
qed

section \<open>The loop stays within the tables\<close>

definition request_ok :: "tables \<Rightarrow> 'v request \<Rightarrow> bool" where
  "request_ok T rq \<longleftrightarrow> m_state (rq_func rq) \<in> dom (tb_states T)"

fun outcome_ok :: "tables \<Rightarrow> ('r, 'v) outcome \<Rightarrow> bool" where
  "outcome_ok T (Returns x) = True"
| "outcome_ok T (Moves rq) = request_ok T rq"
| "outcome_ok T (Raises e) = (e \<noteq> A_Key)"

text \<open>The author's functions ask for states of the class and raise no \<open>KeyError\<close> of their own.\<close>

definition code_ok :: "tables \<Rightarrow> ('u, 'v) code \<Rightarrow> bool" where
  "code_ok T P \<longleftrightarrow>
     (\<forall>n a u. outcome_ok T (fst (p_state P n a u)) \<and> outcome_ok T (fst (p_cond P n a u)) \<and> outcome_ok T (fst (p_action P n a u))) \<and>
     (\<forall>n u. outcome_ok T (fst (p_eof P n u)) \<and> (\<forall>rq. fst (p_eof P n u) = Returns (Some rq) \<longrightarrow> request_ok T rq)) \<and>
     (\<forall>v u. outcome_ok T (fst (p_filter P v u))) \<and>
     (\<forall>f v u. p_session P = Some f \<longrightarrow> outcome_ok T (fst (f v u)))"

definition machine_ok :: "tables \<Rightarrow> ('u, 'v) atmt \<Rightarrow> bool" where
  "machine_ok T m \<longleftrightarrow> request_ok T (a_state m) \<and>
     (\<forall>s\<in>dom (tb_states T). s \<in> dom (a_timers m)) \<and> (\<forall>s. timers_runnable (dom (tb_actions T)) (a_timers m s))"

fun flow_ok :: "tables \<Rightarrow> 'v flow \<Rightarrow> bool" where
  "flow_ok T (F_Move rq) = request_ok T rq"
| "flow_ok T (F_Raise e) = (e \<noteq> A_Key)"
| "flow_ok T f = True"

abbreviation safe :: "tables \<Rightarrow> 'v flow \<times> ('u, 'v) atmt \<Rightarrow> bool" where
  "safe T r \<equiv> flow_ok T (fst r) \<and> machine_ok T (snd r)"

lemma machine_ok_update [simp]:
  "machine_ok T (m\<lparr>a_user := u\<rparr>) = machine_ok T m" "machine_ok T (m\<lparr>a_packets := ps\<rparr>) = machine_ok T m"
  "machine_ok T (m\<lparr>a_listen := b\<rparr>) = machine_ok T m" "machine_ok T (m\<lparr>a_breakpointed := x\<rparr>) = machine_ok T m"
  "machine_ok T (m\<lparr>a_final := v\<rparr>) = machine_ok T m"
  "machine_ok T (m\<lparr>a_breakpoints := B\<rparr>) = machine_ok T m"
  by (simp_all add: machine_ok_def)

lemma invoke_ok:
  assumes "outcome_ok T (fst r)" "machine_ok T m" "\<And>x u. fst r = Returns x \<Longrightarrow> safe T (k x (m\<lparr>a_user := u\<rparr>))"
  shows "safe T (invoke r m k)"
  using assms by (cases r; cases "fst r") (auto simp: invoke_def)

lemma run_actions_ok:
  assumes "code_ok T P" "request_ok T rq"
  shows "machine_ok T m \<Longrightarrow> safe T (run_actions P as rq m)"
proof (induction as arbitrary: m)
  case (Cons a as)
  show ?case unfolding run_actions.simps
    by (rule invoke_ok) (use assms(1) Cons in \<open>simp_all add: code_ok_def\<close>)
qed (simp add: assms(2))

lemma run_condition_ok:
  assumes "code_ok T P" "machine_ok T m" "fst c \<in> dom (tb_actions T)"
  shows "safe T (run_condition P T c args m)"
proof -
  obtain r u where r: "p_cond P (fst c) args (a_user m) = (r, u)" by (cases "p_cond P (fst c) args (a_user m)")
  have o: "outcome_ok T r" using assms(1) r unfolding code_ok_def by (metis fst_conv)
  obtain as where as: "tb_actions T (fst c) = Some as" using assms(3) by auto
  show ?thesis
  proof (cases r)
    case (Moves rq)
    with r as o run_actions_ok [OF assms(1), of rq _ as] assms(2) show ?thesis
      by (simp add: run_condition_def Let_def)
  qed (use r o assms(2) in \<open>simp_all add: run_condition_def\<close>)
qed

lemma run_conditions_ok:
  assumes "code_ok T P" "fst ` set cs \<subseteq> dom (tb_actions T)"
  shows "machine_ok T m \<Longrightarrow> safe T (run_conditions P T cs args m)"
  using assms(2)
proof (induction cs arbitrary: m)
  case (Cons c cs)
  have s: "safe T (run_condition P T c args m)" by (rule run_condition_ok) (use assms(1) Cons.prems in simp_all)
  obtain f n where fn: "run_condition P T c args m = (f, n)" by (cases "run_condition P T c args m")
  with s Cons show ?case by (cases f) simp_all
qed simp

text \<open>The name of the state does not change before the machine moves.\<close>

lemma run_actions_state: "a_state (snd (run_actions P as rq m)) = a_state m \<and> a_timers (snd (run_actions P as rq m)) = a_timers m"
  by (induction as arbitrary: m) (auto simp: invoke_def split: outcome.splits prod.splits)

lemma run_condition_state:
  "a_state (snd (run_condition P T c args m)) = a_state m \<and> a_timers (snd (run_condition P T c args m)) = a_timers m"
  by (auto simp: run_condition_def Let_def run_actions_state split: outcome.splits prod.splits option.splits)

lemma run_conditions_state:
  "a_state (snd (run_conditions P T cs args m)) = a_state m \<and> a_timers (snd (run_conditions P T cs args m)) = a_timers m"
proof (induction cs arbitrary: m)
  case (Cons c cs)
  obtain f n where fn: "run_condition P T c args m = (f, n)" by (cases "run_condition P T c args m")
  with run_condition_state [of P T c args m] Cons.IH [of n] show ?case by (cases f) simp_all
qed simp

lemma conds_ok:
  assumes "tables_ok T"
  shows "tb_cond T s = Some cs \<Longrightarrow> fst ` set (conds cs) \<subseteq> dom (tb_actions T)"
    "tb_recv T s = Some cs \<Longrightarrow> fst ` set (conds cs) \<subseteq> dom (tb_actions T)"
    "tb_io T s = Some cs \<Longrightarrow> fst ` set (conds (filter Q cs)) \<subseteq> dom (tb_actions T)"
proof -
  have r: "runnable (dom (tb_actions T)) (tb_cond T s)" "runnable (dom (tb_actions T)) (tb_recv T s)"
    "runnable (dom (tb_actions T)) (tb_io T s)" using assms by (simp_all add: tables_ok_def)
  have sub: "m_condname ` set cs \<subseteq> A \<Longrightarrow> fst ` set (conds (filter Q cs)) \<subseteq> A \<and> fst ` set (conds cs) \<subseteq> A" for A
    by (auto simp: conds_def)
  show "tb_cond T s = Some cs \<Longrightarrow> fst ` set (conds cs) \<subseteq> dom (tb_actions T)" using r(1) sub by simp
  show "tb_recv T s = Some cs \<Longrightarrow> fst ` set (conds cs) \<subseteq> dom (tb_actions T)" using r(2) sub by simp
  show "tb_io T s = Some cs \<Longrightarrow> fst ` set (conds (filter Q cs)) \<subseteq> dom (tb_actions T)" using r(3) sub by simp
qed

lemma state_lookups:
  assumes "tables_ok T" "machine_ok T m"
  obtains cs rs ios ts where "tb_cond T (state_name m) = Some cs" "tb_recv T (state_name m) = Some rs"
    "tb_io T (state_name m) = Some ios" "a_timers m (state_name m) = Some ts"
proof -
  have "state_name m \<in> dom (tb_states T)" using assms(2) by (simp add: machine_ok_def request_ok_def)
  then have "state_name m \<in> dom (tb_cond T)" "state_name m \<in> dom (tb_recv T)" "state_name m \<in> dom (tb_io T)"
    "state_name m \<in> dom (a_timers m)" using assms by (simp_all add: tables_ok_def machine_ok_def)
  then show ?thesis using that by blast
qed

lemma handle_ok:
  assumes "code_ok T P" "tables_ok T"
  shows "machine_ok T m \<Longrightarrow> safe T (handle P T args r m)"
proof (induction r arbitrary: m)
  case (Cons x r)
  from state_lookups [OF assms(2) Cons.prems] obtain cs rs ios ts where
    l: "tb_cond T (state_name m) = Some cs" "tb_recv T (state_name m) = Some rs" "tb_io T (state_name m) = Some ios"
      "a_timers m (state_name m) = Some ts" .
  have on: "safe T (case run_conditions P T c a n of (F_On, n) \<Rightarrow> handle P T args r n | res \<Rightarrow> res)"
    if "fst ` set c \<subseteq> dom (tb_actions T)" "machine_ok T n" for c a n
  proof -
    have s: "safe T (run_conditions P T c a n)" using run_conditions_ok [OF assms(1) that] .
    obtain f n' where "run_conditions P T c a n = (f, n')" by (cases "run_conditions P T c a n")
    with s Cons.IH show ?thesis by (cases f) simp_all
  qed
  show ?case
  proof (cases x)
    case R_Eof
    show ?thesis
    proof (cases "tb_eofs T (state_name m)")
      case (Some eof)
      have "safe T (invoke (p_eof P (m_condname eof) (a_user m)) (m\<lparr>a_listen := False\<rparr>)
          (\<lambda>x m. case x of Some rq \<Rightarrow> (F_Move rq, m) | None \<Rightarrow> (F_Raise A_Type, m)))"
        by (rule invoke_ok) (use assms(1) Cons.prems in \<open>auto simp: code_ok_def split: option.splits\<close>)
      with R_Eof Some show ?thesis by (simp add: Let_def)
    qed (use R_Eof Cons.prems in \<open>simp add: Let_def\<close>)
  next
    case (R_Fails e)
    with Cons.prems show ?thesis by simp
  next
    case (R_Packet pkt)
    show ?thesis unfolding R_Packet handle.simps
    proof (rule invoke_ok)
      fix v u
      let ?m = "m\<lparr>a_user := u\<rparr>"
      have m: "machine_ok T ?m" using Cons.prems by simp
      show "safe T (case v of None \<Rightarrow> handle P T args r ?m
        | Some pkt \<Rightarrow> invoke (p_filter P pkt (a_user ?m)) ?m (\<lambda>keep m.
            if keep then (case tb_recv T (state_name m) of None \<Rightarrow> (F_Raise A_Key, m)
               | Some cs \<Rightarrow> (case run_conditions P T (conds cs) (pkt # args) m of
                    (F_On, m) \<Rightarrow> handle P T args r m | res \<Rightarrow> res))
            else handle P T args r m))"
      proof (cases v)
        case None
        with Cons.IH [OF m] show ?thesis by simp
      next
        case (Some pkt)
        show ?thesis unfolding Some option.case
          by (rule invoke_ok) (use assms(1) m Cons.IH Cons.prems l on conds_ok(2) [OF assms(2) l(2)] in \<open>simp_all add: code_ok_def\<close>)
      qed
    qed (use assms(1) Cons.prems in \<open>auto simp: code_ok_def split: option.splits\<close>)
  next
    case (R_Io nm fd)
    with l on [OF conds_ok(3) [OF assms(2) l(3)] Cons.prems] show ?thesis by simp
  qed (use Cons.prems in simp_all)
qed simp

lemma t_func_simps [simp]:
  "t_func (timer_decrement e t) = t_func t" "t_func (timer_reset t) = t_func t" "t_func (reset_just_expired t) = t_func t"
  by (simp_all add: timer_decrement_def timer_reset_def reset_just_expired_def Let_def)

lemma timers_runnable_expired:
  assumes "timers_runnable A (Some ts)"
  shows "timers_runnable A (Some (snd (timers_expired (timers_decrement e ts))))"
    "t_func ` set (fst (timers_expired (timers_decrement e ts))) \<subseteq> A" "timers_runnable A (Some (timers_reset ts))"
  using assms
  by (auto simp: timers_expired_def timers_decrement_def timers_reset_def)

lemma machine_ok_timers:
  assumes "machine_ok T m" "t_func ` set ts \<subseteq> dom (tb_actions T)"
  shows "machine_ok T (m\<lparr>a_timers := (a_timers m)(s \<mapsto> ts)\<rparr>)"
  using assms by (simp add: machine_ok_def)

lemma run_timers_ok:
  assumes "code_ok T P" "tables_ok T" "machine_ok T m"
  shows "safe T (run_timers P T args e m)"
proof -
  from state_lookups [OF assms(2,3)] obtain ts where ts: "a_timers m (state_name m) = Some ts" by metis
  have "timers_runnable (dom (tb_actions T)) (a_timers m (state_name m))" using assms(3) by (simp add: machine_ok_def)
  note r = timers_runnable_expired [OF this [unfolded ts]]
  obtain ex ts' where ex: "timers_expired (timers_decrement e ts) = (ex, ts')" by (cases "timers_expired (timers_decrement e ts)")
  have "t_func ` set ts' \<subseteq> dom (tb_actions T)" using r(1) [of e] unfolding ex by simp
  note n = machine_ok_timers [OF assms(3) this]
  have f: "fst ` set (map (\<lambda>t. (t_func t, False)) ex) \<subseteq> dom (tb_actions T)" using r(2) [of e] unfolding ex by auto
  from run_conditions_ok [OF assms(1) f n] show ?thesis by (simp add: run_timers_def ts ex)
qed

abbreviation step_ok :: "tables \<Rightarrow> 'v yields \<times> 'v position \<times> ('u, 'v) atmt \<Rightarrow> bool" where
  "step_ok T r \<equiv> fst r \<noteq> Y_Raise A_Key \<and> machine_ok T (snd (snd r))"

lemma leave_ok: "safe T r \<Longrightarrow> step_ok T (leave args fds r)"
  by (cases r; cases "fst r") (simp_all add: leave_def machine_ok_def)

lemma wait_ok:
  assumes "code_ok T P" "tables_ok T"
  shows "safe T r \<Longrightarrow> step_ok T (wait P T args fds rounds r)"
proof (induction rounds arbitrary: r)
  case Nil
  then show ?case using leave_ok by simp
next
  case (Cons x rounds)
  obtain e ready where x: "x = (e, ready)" by (cases x)
  obtain f m where r: "r = (f, m)" by (cases r)
  show ?case
  proof (cases f)
    case F_On
    obtain g n where g: "run_timers P T args e m = (g, n)" by (cases "run_timers P T args e m")
    have s: "safe T (g, n)" using run_timers_ok [OF assms, of m args e] Cons.prems unfolding r g by simp
    show ?thesis
    proof (cases g)
      case F_On
      have "safe T (handle P T args (filter (selectable fds) ready) n)" using handle_ok [OF assms] s by simp
      from Cons.IH [OF this] show ?thesis by (simp add: x r \<open>f = F_On\<close> g F_On)
    qed (use leave_ok [OF s, of args fds] in \<open>simp_all add: x r F_On g\<close>)
  qed (use leave_ok [OF Cons.prems, of args fds] in \<open>simp_all add: x r\<close>)
qed

lemma immediate_ok:
  assumes "code_ok T P" "tables_ok T" "machine_ok T m"
  shows "safe T (immediate P T pending args ts m)"
proof -
  from state_lookups [OF assms(2,3)] obtain cs rs ios where
    l: "tb_cond T (state_name m) = Some cs" "tb_recv T (state_name m) = Some rs" "tb_io T (state_name m) = Some ios" by metis
  obtain f n where f: "run_conditions P T (conds cs) args m = (f, n)" by (cases "run_conditions P T (conds cs) args m")
  have s: "safe T (f, n)" "a_state n = a_state m"
    using run_conditions_ok [OF assms(1) conds_ok(1) [OF assms(2) l(1)] assms(3), of args]
      run_conditions_state [of P T "conds cs" args m] unfolding f by simp_all
  show ?thesis using assms(3) s l by (cases f) (simp_all add: immediate_def f)
qed

lemma immediate_state: "a_state (snd (immediate P T pending args ts m)) = a_state m \<and>
    a_timers (snd (immediate P T pending args ts m)) = a_timers m"
proof -
  have "a_state (snd (run_conditions P T cs args m)) = a_state m \<and> a_timers (snd (run_conditions P T cs args m)) = a_timers m" for cs
    by (rule run_conditions_state)
  then show ?thesis
    by (auto simp: immediate_def split: option.splits flow.splits prod.splits) (metis snd_conv)+
qed

lemma lookup_fds_total:
  "tb_recv T (state_name m) = Some rs \<Longrightarrow> tb_io T (state_name m) = Some ios \<Longrightarrow> \<exists>fds. lookup_fds T m = Some fds"
  by (cases "a_listen m") (simp_all add: lookup_fds_def del: split_paired_Ex)

lemma run_state_ok:
  assumes "code_ok T P" "tables_ok T" "machine_ok T m"
  shows "step_ok T (run_state P T pending rounds m)"
proof -
  obtain r u where r: "p_state P (state_name m) (rq_args (a_state m)) (a_user m) = (r, u)"
    by (cases "p_state P (state_name m) (rq_args (a_state m)) (a_user m)")
  have o: "outcome_ok T r" using assms(1) r unfolding code_ok_def by (metis fst_conv)
  show ?thesis
  proof (cases r)
    case (Returns v)
    let ?m = "m\<lparr>a_breakpointed := None, a_user := u\<rparr>"
    have m: "machine_ok T ?m" using assms(3) by simp
    from state_lookups [OF assms(2) m] obtain ts where ts: "a_timers ?m (state_name ?m) = Some ts" by metis
    obtain f n where f: "immediate P T pending (spread v) ts ?m = (f, n)" by (cases "immediate P T pending (spread v) ts ?m")
    have n: "safe T (f, n)" "a_state n = a_state m" "a_timers n = a_timers m"
      using immediate_ok [OF assms(1,2) m, of pending "spread v" ts] immediate_state [of P T pending "spread v" ts ?m]
      unfolding f by simp_all
    let ?n = "n\<lparr>a_timers := (a_timers n)(state_name n \<mapsto> timers_reset ts)\<rparr>"
    have "timers_runnable (dom (tb_actions T)) (a_timers n (state_name n))" using n(1) by (simp add: machine_ok_def)
    then have "t_func ` set (timers_reset ts) \<subseteq> dom (tb_actions T)"
      using ts n(2,3) timers_runnable_expired(3) [of _ ts] by simp
    from machine_ok_timers [where m = n, OF _ this] n(1) have n': "machine_ok T ?n" by simp
    from state_lookups [OF assms(2) n'] obtain rs ios where l: "tb_recv T (state_name ?n) = Some rs" "tb_io T (state_name ?n) = Some ios"
      by metis
    then obtain fds where fds: "lookup_fds T ?n = Some fds" using lookup_fds_total [of T ?n] by blast
    have w: "step_ok T (wait P T (spread v) fds rounds (F_On, ?n))" by (rule wait_ok [OF assms(1,2)]) (simp add: n')
    show ?thesis
    proof (cases f)
      case F_On
      with w fds f ts r Returns m show ?thesis by (simp add: run_state_def Let_def)
    qed (use leave_ok [OF n(1), of "spread v" "(False, [])"] f ts r Returns m in \<open>simp_all add: run_state_def Let_def\<close>)
  qed (use r o assms(3) in \<open>simp_all add: run_state_def Let_def machine_ok_def\<close>)
qed

lemma do_next_ok:
  assumes "code_ok T P" "tables_ok T" "machine_ok T m"
  shows "step_ok T (do_next P T pending rounds pos m)"
  using assms run_state_ok [OF assms] wait_ok [OF assms(1,2)] handle_ok [OF assms(1,2)]
  by (cases pos) (simp_all add: do_next_def)

section \<open>Reachable machines\<close>

inductive control_step :: "('u, 'v) code \<Rightarrow> tables \<Rightarrow> ('u, 'v) control \<Rightarrow> 'v message list \<Rightarrow> ('u, 'v) control \<Rightarrow> bool"
  for P T where
  command: "control_command P T c ins k = (ms, k') \<Longrightarrow> control_step P T k ms k'"
| breakpoints: "control_step P T k [] (k\<lparr>k_machine := add_breakpoints bps (k_machine k)\<rparr>)"
| unbreakpoints: "control_step P T k [] (k\<lparr>k_machine := remove_breakpoints bps (k_machine k)\<rparr>)"

inductive reachable :: "('u, 'v) code \<Rightarrow> tables \<Rightarrow> ('u, 'v) control \<Rightarrow> bool" for P T where
  started: "do_start T u send store = Inr k \<Longrightarrow> reachable P T k"
| step: "reachable P T k \<Longrightarrow> control_step P T k ms k' \<Longrightarrow> reachable P T k'"

abbreviation control_ok :: "tables \<Rightarrow> 'v message list \<times> ('u, 'v) control \<Rightarrow> bool" where
  "control_ok T r \<equiv> M_Exception A_Key \<notin> set (fst r) \<and> machine_ok T (k_machine (snd r))"

lemma control_run_ok:
  assumes "code_ok T P" "tables_ok T"
  shows "machine_ok T (k_machine k) \<Longrightarrow> control_ok T (control_run P T ins k)"
proof (induction ins arbitrary: k)
  case (Cons x ins)
  obtain pending rounds where x: "x = (pending, rounds)" by (cases x)
  obtain y pos m where d: "do_next P T pending rounds (k_position k) (k_machine k) = (y, pos, m)"
    by (cases "do_next P T pending rounds (k_position k) (k_machine k)")
  have s: "step_ok T (y, pos, m)" using do_next_ok [OF assms Cons.prems, of pending rounds "k_position k"] unfolding d .
  have IH: "control_ok T (control_run P T ins (k\<lparr>k_position := pos, k_machine := m\<rparr>))" by (rule Cons.IH) (use s in simp)
  from s IH show ?case by (cases y) (auto simp: x d Let_def)
qed simp

lemma stop_ok: "tables_ok T \<Longrightarrow> machine_ok T m \<Longrightarrow> tb_stop T = Some s \<Longrightarrow>
    machine_ok T (m\<lparr>a_state := new_state_requested s []\<rparr>)"
  by (simp add: machine_ok_def tables_ok_def request_ok_def new_state_requested_def)

lemma control_command_ok:
  assumes "code_ok T P" "tables_ok T" "machine_ok T (k_machine k)"
  shows "control_ok T (control_command P T c ins k)"
  using control_run_ok [OF assms(1,2)] assms(3) stop_ok [OF assms(2,3)]
  by (cases c) (simp_all add: control_command_def split: option.splits)

lemma control_step_ok:
  assumes "control_step P T k ms k'" "code_ok T P" "tables_ok T" "machine_ok T (k_machine k)"
  shows "control_ok T (ms, k')"
  using assms
proof (induction rule: control_step.induct)
  case (command c ins k ms k')
  with control_command_ok [of T P k c ins] show ?case by simp
qed (simp_all add: add_breakpoints_def remove_breakpoints_def)

lemma do_start_ok:
  assumes "do_start T u send store = Inr k" "tables_ok T"
  shows "machine_ok T (k_machine k)"
proof -
  obtain s ss where s: "tb_initial T = s # ss" using assms(1) by (cases "tb_initial T") (simp_all add: do_start_def)
  then have "m_state s \<in> dom (tb_states T)" using assms(2) by (simp add: tables_ok_def)
  moreover have "a_state (k_machine k) = new_state_requested s []" "a_timers (k_machine k) = tb_timeout T"
    using assms(1) s by (auto simp: do_start_def)
  ultimately show ?thesis using assms(2) by (simp add: machine_ok_def tables_ok_def request_ok_def new_state_requested_def)
qed

lemma reachable_ok: "reachable P T k \<Longrightarrow> code_ok T P \<Longrightarrow> tables_ok T \<Longrightarrow> machine_ok T (k_machine k)"
  by (induction rule: reachable.induct) (auto dest: do_start_ok control_step_ok)

text \<open>C17: An automaton stays within its class: if its functions only ask for its own states, then the machine
  stands in a declared state after any commands, breakpoints and events, and its loop ends with no
  \<open>KeyError\<close>, since every lookup in the tables of the class finds what it looks for.\<close>

theorem automaton_within_tables:
  assumes "class_tables c = Inr T" "timeouts_named (decorated c)" "code_ok T P" "reachable P T k" "control_step P T k ms k'"
  shows "state_name (k_machine k') \<in> dom (tb_states T) \<and> M_Exception A_Key \<notin> set ms"
proof -
  have ok: "tables_ok T" by (rule class_tables_ok [OF assms(1,2)])
  from control_step_ok [OF assms(5,3) ok reachable_ok [OF assms(4,3) ok]] show ?thesis
    by (simp add: machine_ok_def request_ok_def)
qed

definition toy_code :: "(nat, nat) code" where
  "toy_code = \<lparr>p_state = (\<lambda>n a u. (Returns O_None, u + 1)),
     p_cond = (\<lambda>n a u. (Moves (new_state_requested (toy_member ''E'' ATMT_STATE ''E'' 0) []), u)),
     p_action = (\<lambda>n a u. (Returns (), u)), p_eof = (\<lambda>n u. (Returns None, u)),
     p_filter = (\<lambda>v u. (Returns True, u)), p_session = None\<rparr>"

lemma toy_tables:
  "\<exists>T. class_tables toy_class = Inr T \<and> tb_initial T \<noteq> [] \<and> ''A'' \<in> dom (tb_states T) \<and> ''E'' \<in> dom (tb_states T) \<and>
     tb_io T ''A'' = Some []"
proof -
  have "case class_tables toy_class of Inr T \<Rightarrow> tb_initial T \<noteq> [] \<and> tb_states T ''A'' \<noteq> None \<and> tb_states T ''E'' \<noteq> None \<and>
      tb_io T ''A'' = Some [] | Inl _ \<Rightarrow> False"
    unfolding class_tables_def toy_decorated
    by (simp add: Let_def toy_member_def declare_member_def enter_member_def append_at_def no_tables_def sort_tables_def)
  then show ?thesis by (cases "class_tables toy_class") auto
qed

lemma toy_code_ok: "''E'' \<in> dom (tb_states T) \<Longrightarrow> code_ok T toy_code"
  by (simp add: code_ok_def toy_code_def request_ok_def new_state_requested_def toy_member_def)

lemma automaton_within_tables_witness:
  "\<exists>T k k' ms. reachable toy_code T k \<and> control_step toy_code T k ms k' \<and> state_name (k_machine k') \<in> dom (tb_states T) \<and>
    M_Exception A_Key \<notin> set ms"
proof -
  from toy_tables obtain T where T: "class_tables toy_class = Inr T" "tb_initial T \<noteq> []" "''E'' \<in> dom (tb_states T)" by blast
  obtain k :: "(nat, nat) control" where "do_start T 0 True False = Inr k"
    using T(2) by (cases "tb_initial T") (simp_all add: do_start_def)
  then have k: "reachable toy_code T k" by (rule reachable.started)
  obtain ms k' where "control_command toy_code T RUN [(False, []), (False, [])] k = (ms, k')"
    by (cases "control_command toy_code T RUN [(False, []), (False, [])] k")
  then have s: "control_step toy_code T k ms k'" by (rule control_step.command)
  have n: "timeouts_named (decorated toy_class)" by (simp add: toy_decorated timeouts_named_def toy_member_def)
  from automaton_within_tables [OF T(1) n toy_code_ok [OF T(3)] k s] k s show ?thesis by blast
qed

text \<open>C40: A listening socket is opened for every automaton that starts, whether or not a state receives:
  the table of receive conditions has an empty list for each state and is never empty.\<close>

theorem automaton_always_listens:
  assumes "class_tables c = Inr T" "timeouts_named (decorated c)" "do_start T u send store = Inr k"
  shows "a_listen (k_machine k)"
proof -
  have ok: "tables_ok T" by (rule class_tables_ok [OF assms(1,2)])
  obtain s ss where s: "tb_initial T = s # ss" using assms(3) by (cases "tb_initial T") (simp_all add: do_start_def)
  with ok have "tb_recv T (m_state s) \<noteq> None" by (simp add: tables_ok_def domIff)
  then have "tb_recv T \<noteq> Map.empty" by auto
  with assms(3) s show ?thesis by (auto simp: do_start_def)
qed

lemma automaton_always_listens_witness:
  "\<exists>T (k :: (nat, nat) control). class_tables toy_class = Inr T \<and> do_start T 0 True False = Inr k \<and> a_listen (k_machine k)"
proof -
  from toy_tables obtain T where T: "class_tables toy_class = Inr T" "tb_initial T \<noteq> []" by blast
  obtain k :: "(nat, nat) control" where k: "do_start T 0 True False = Inr k"
    using T(2) by (cases "tb_initial T") (simp_all add: do_start_def)
  have n: "timeouts_named (decorated toy_class)" by (simp add: toy_decorated timeouts_named_def toy_member_def)
  from automaton_always_listens [OF T(1) n k] T(1) k show ?thesis by blast
qed

end
