(* ===== verification/Atmt_Progress.thy ===== *)
theory Atmt_Progress
  imports Atmt_Safe
begin

text \<open>
  What moves an automaton: the condition of the best priority, the timeout of its state; and what does not:
  a command that is pending when a state is entered, a timer that another machine of the class takes.
\<close>

section \<open>Conditions by priority\<close>

text \<open>Which conditions ask for a state, and for which one, whatever they are given.\<close>

definition decides :: "('u, 'v) code \<Rightarrow> (string \<rightharpoonup> 'v request) \<Rightarrow> bool" where
  "decides P tk \<longleftrightarrow> (\<forall>n a u. fst (p_cond P n a u) = (case tk n of Some rq \<Rightarrow> Moves rq | None \<Rightarrow> Returns ()))"

definition actions_return :: "('u, 'v) code \<Rightarrow> bool" where
  "actions_return P \<longleftrightarrow> (\<forall>n a u. fst (p_action P n a u) = Returns ())"

lemma run_actions_return: "actions_return P \<Longrightarrow> fst (run_actions P as rq m) = F_Move rq"
  by (induction as arbitrary: m) (auto simp: actions_return_def invoke_def split: prod.splits outcome.splits, metis fst_conv outcome.distinct(1), metis fst_conv outcome.distinct(3))

lemma run_condition_none: "decides P tk \<Longrightarrow> tk (fst c) = None \<Longrightarrow> fst (run_condition P T c a m) = F_On"
  unfolding decides_def by (drule spec [of _ "fst c"], drule spec [of _ a], drule spec [of _ "a_user m"])
    (auto simp: run_condition_def split: prod.splits)

lemma run_condition_taken:
  assumes "decides P tk" "tk (fst c) = Some rq" "actions_return P" "fst c \<in> dom (tb_actions T)"
  shows "fst (run_condition P T c a m) = F_Move rq"
proof -
  obtain u where "p_cond P (fst c) a (a_user m) = (Moves rq, u)"
    using assms(1,2) unfolding decides_def by (metis option.case(2) prod.exhaust_sel)
  with assms(3,4) show ?thesis by (auto simp: run_condition_def Let_def run_actions_return)
qed

lemma run_conditions_first:
  assumes "decides P tk" "actions_return P" "fst ` set cs \<subseteq> dom (tb_actions T)"
  shows "fst (run_conditions P T cs a m) =
    (case filter (\<lambda>c. tk (fst c) \<noteq> None) cs of [] \<Rightarrow> F_On | c # _ \<Rightarrow> F_Move (the (tk (fst c))))"
  using assms(3)
proof (induction cs arbitrary: m)
  case (Cons c cs)
  show ?case
  proof (cases "tk (fst c)")
    case None
    obtain n where "run_condition P T c a m = (F_On, n)"
      using run_condition_none [OF assms(1) None, of T a m] by (metis prod.collapse)
    with Cons None show ?thesis by simp
  next
    case (Some rq)
    obtain n where "run_condition P T c a m = (F_Move rq, n)"
      using run_condition_taken [OF assms(1) Some assms(2), of T a m] Cons.prems by (metis image_eqI list.set_intros(1) prod.collapse subsetD)
    with Some show ?thesis by simp
  qed
qed simp

lemma sorted_filter_hd:
  "filter Q (sort_key f xs) = c # ys \<Longrightarrow> c \<in> set xs \<and> Q c \<and> (\<forall>d\<in>set xs. Q d \<longrightarrow> f c \<le> f d)"
proof -
  assume h: "filter Q (sort_key f xs) = c # ys"
  have m: "set (c # ys) = {d \<in> set xs. Q d}" unfolding h [symmetric] by auto
  have "sorted (map f (filter Q (sort_key f xs)))" by (rule sorted_filter) simp
  then have "\<forall>d\<in>set ys. f c \<le> f d" unfolding h by simp
  with m show ?thesis by auto
qed

text \<open>C19: A machine that enters a state leaves it by the condition of the best priority: of the conditions of
  the state that ask for a state one with the least priority number decides, and if there is one, the machine moves.\<close>

theorem best_condition_moves:
  assumes "class_tables c = Inr T" "timeouts_named (decorated c)" "machine_ok T m"
    "decides P tk" "actions_return P" "fst (p_state P (state_name m) (rq_args (a_state m)) (a_user m)) = Returns v"
    "\<not> m_error (rq_func (a_state m))" "\<not> m_final (rq_func (a_state m))"
    "d \<in> set (of_state ATMT_CONDITION (state_name m) (decorated c))" "tk (m_condname d) \<noteq> None"
  shows "\<exists>b\<in>set (of_state ATMT_CONDITION (state_name m) (decorated c)).
    \<exists>rq. tk (m_condname b) = Some rq \<and>
      (\<forall>d\<in>set (of_state ATMT_CONDITION (state_name m) (decorated c)). tk (m_condname d) \<noteq> None \<longrightarrow> m_prio b \<le> m_prio d) \<and>
      fst (run_state P T False rounds m) = Y_Move rq \<and> a_state (snd (snd (run_state P T False rounds m))) = rq"
proof -
  let ?cs = "of_state ATMT_CONDITION (state_name m) (decorated c)"
  have ok: "tables_ok T" by (rule class_tables_ok [OF assms(1,2)])
  have "state_name m \<in> dom (tb_states T)" using assms(3) by (simp add: machine_ok_def request_ok_def)
  from class_tables_lists [OF assms(1) this] have cs: "tb_cond T (state_name m) = Some (sort_key m_prio ?cs)" by simp
  obtain b ys where b: "filter (\<lambda>x. tk (m_condname x) \<noteq> None) (sort_key m_prio ?cs) = b # ys"
    using assms(9,10) by (cases "filter (\<lambda>x. tk (m_condname x) \<noteq> None) (sort_key m_prio ?cs)") (auto simp: filter_empty_conv)
  note best = sorted_filter_hd [OF b]
  then obtain rq where rq: "tk (m_condname b) = Some rq" by auto
  obtain u where u: "p_state P (state_name m) (rq_args (a_state m)) (a_user m) = (Returns v, u)"
    using assms(6) by (metis prod.collapse)
  let ?m = "m\<lparr>a_breakpointed := None, a_user := u\<rparr>"
  have f: "filter (\<lambda>x. tk (fst x) \<noteq> None) (conds (sort_key m_prio ?cs)) = conds (b # ys)"
    unfolding conds_def filter_map comp_def fst_conv b ..
  have "fst (run_conditions P T (conds (sort_key m_prio ?cs)) (spread v) ?m) = F_Move rq"
    unfolding run_conditions_first [OF assms(4,5) conds_ok(1) [OF ok cs]] f by (simp add: conds_def rq)
  then obtain n where n: "run_conditions P T (conds (sort_key m_prio ?cs)) (spread v) ?m = (F_Move rq, n)" by (metis prod.collapse)
  from state_lookups [OF ok assms(3)] obtain ts where "a_timers m (state_name m) = Some ts" by metis
  with n cs u assms(7,8) have "run_state P T False rounds m = (Y_Move rq, P_Top, n\<lparr>a_state := rq\<rparr>)"
    by (simp add: run_state_def Let_def immediate_def leave_def)
  with best rq show ?thesis by auto
qed

section \<open>Timeouts\<close>

text \<open>Functions that only ask for states: no exceptions, no session.\<close>

definition calm :: "('u, 'v) code \<Rightarrow> bool" where
  "calm P \<longleftrightarrow> actions_return P \<and> p_session P = None \<and> (\<forall>v u. \<exists>b. fst (p_filter P v u) = Returns b)"

fun calm_event :: "'v ready \<Rightarrow> bool" where
  "calm_event (R_Packet p) = True"
| "calm_event (R_Io n fd) = True"
| "calm_event x = False"

definition calm_flow :: "('u, 'v) atmt \<Rightarrow> 'v flow \<times> ('u, 'v) atmt \<Rightarrow> bool" where
  "calm_flow m r \<longleftrightarrow> (fst r = F_On \<or> (\<exists>rq. fst r = F_Move rq)) \<and> a_state (snd r) = a_state m \<and> a_timers (snd r) = a_timers m"

lemma run_conditions_calm:
  assumes "decides P tk" "actions_return P" "fst ` set cs \<subseteq> dom (tb_actions T)"
  shows "calm_flow m (run_conditions P T cs a m)"
  using run_conditions_first [OF assms, of a m] run_conditions_state [of P T cs a m]
  by (auto simp: calm_flow_def split: list.splits)

lemma handle_calm:
  assumes "decides P tk" "calm P" "code_ok T P" "tables_ok T"
  shows "machine_ok T m \<Longrightarrow> list_all calm_event r \<Longrightarrow> calm_flow m (handle P T args r m)"
proof (induction r arbitrary: m)
  case (Cons x r)
  from state_lookups [OF assms(4) Cons.prems(1)] obtain cs ios where
    l: "tb_recv T (state_name m) = Some cs" "tb_io T (state_name m) = Some ios" by metis
  have on: "calm_flow m (case run_conditions P T c a n of (F_On, n) \<Rightarrow> handle P T args r n | res \<Rightarrow> res)"
    if "fst ` set c \<subseteq> dom (tb_actions T)" "machine_ok T n" "a_state n = a_state m" "a_timers n = a_timers m" for c a n
  proof -
    have act: "actions_return P" using assms(2) by (simp add: calm_def)
    obtain f n' where f: "run_conditions P T c a n = (f, n')" by (cases "run_conditions P T c a n")
    with run_conditions_calm [OF assms(1) act that(1), of n a] run_conditions_ok [OF assms(3) that(1,2), of a]
    have c: "calm_flow n (f, n')" "machine_ok T n'" by simp_all
    have "calm_flow n' (handle P T args r n')" using Cons.IH [OF c(2)] Cons.prems(2) by simp
    with c(1) f that(3,4) show ?thesis by (cases f) (simp_all add: calm_flow_def)
  qed
  show ?case
  proof (cases x)
    case (R_Packet pkt)
    let ?m = "m\<lparr>a_user := a_user m\<rparr>"
    have m: "machine_ok T (m\<lparr>a_user := u\<rparr>)" for u using Cons.prems(1) by simp
    have h: "calm_flow m (handle P T args r (m\<lparr>a_user := u\<rparr>))" for u
      using Cons.IH [OF m, of u] Cons.prems(2) by (simp add: calm_flow_def)
    show ?thesis
    proof (cases pkt)
      case None
      with h [of "a_user m"] assms(2) R_Packet show ?thesis by (simp add: calm_def invoke_def)
    next
      case (Some p)
      obtain b u where "p_filter P p (a_user m) = (Returns b, u)"
        using assms(2) unfolding calm_def by (metis prod.collapse)
      with h [of u] on [OF conds_ok(2) [OF assms(4) l(1)] m, of u "p # args"] l assms(2) R_Packet Some show ?thesis
        by (simp add: calm_def invoke_def)
    qed
  next
    case (R_Io nm fd)
    with l on [OF conds_ok(3) [OF assms(4) l(2)] Cons.prems(1)] show ?thesis by simp
  qed (use Cons.prems(2) in simp_all)
qed (simp add: calm_flow_def)

lemma wait_move: "fst r = F_Move rq \<Longrightarrow> fst (wait P T args fds rounds r) = Y_Move rq"
  by (cases r; cases rounds) (auto simp: leave_def)

text \<open>A timeout that is still to come within the rounds.\<close>

definition due :: "(string \<rightharpoonup> 'v request) \<Rightarrow> rat \<Rightarrow> timer \<Rightarrow> bool" where
  "due tk e t \<longleftrightarrow> \<not> t_autoreload t \<and> \<not> t_expired t \<and> \<not> t_just_expired t \<and> 0 < t_time t \<and> t_time t \<le> e \<and> tk (t_func t) \<noteq> None"

lemma due_expires:
  assumes "due tk e t" "t \<in> set ts" "t_time t \<le> d"
  shows "\<exists>t'\<in>set (fst (timers_expired (timers_decrement d ts))). t_func t' = t_func t"
proof -
  let ?t = "timer_decrement d t"
  have "?t \<in> set (timers_decrement d ts)" "t_just_expired ?t"
    using assms by (simp_all add: timers_decrement_def due_def timer_decrement_def Let_def)
  then have "reset_just_expired ?t \<in> set (fst (timers_expired (timers_decrement d ts)))"
    by (auto simp: timers_expired_def)
  then show ?thesis by (intro bexI [of _ "reset_just_expired ?t"]) simp_all
qed

lemma due_stays:
  assumes "due tk (d + e) t" "t \<in> set ts" "\<not> t_time t \<le> d"
  shows "\<exists>t'\<in>set (snd (timers_expired (timers_decrement d ts))). due tk e t'"
proof -
  let ?t = "timer_decrement d t"
  have t: "?t = t\<lparr>t_time := t_time t - d\<rparr>" using assms(3) by (simp add: timer_decrement_def Let_def)
  have "?t \<in> set (timers_decrement d ts)" using assms(2) by (simp add: timers_decrement_def)
  moreover have "\<not> t_just_expired ?t" using assms(1) unfolding t by (simp add: due_def)
  ultimately have "?t \<in> set (snd (timers_expired (timers_decrement d ts)))" by (force simp: timers_expired_def)
  moreover have "due tk e ?t" using assms unfolding t by (simp add: due_def algebra_simps)
  ultimately show ?thesis by blast
qed

lemma run_timers_calm:
  assumes "decides P tk" "actions_return P" "tables_ok T" "machine_ok T m" "a_timers m (state_name m) = Some ts"
  shows "fst (run_timers P T args d m) =
      (case filter (\<lambda>t. tk (t_func t) \<noteq> None) (fst (timers_expired (timers_decrement d ts))) of
         [] \<Rightarrow> F_On | t # _ \<Rightarrow> F_Move (the (tk (t_func t)))) \<and>
    a_state (snd (run_timers P T args d m)) = a_state m \<and>
    a_timers (snd (run_timers P T args d m)) (state_name m) = Some (snd (timers_expired (timers_decrement d ts)))"
proof -
  have "timers_runnable (dom (tb_actions T)) (Some ts)" using assms(4,5) unfolding machine_ok_def by metis
  from timers_runnable_expired(2) [OF this, of d]
  have "fst ` set (map (\<lambda>t. (t_func t, False)) (fst (timers_expired (timers_decrement d ts)))) \<subseteq> dom (tb_actions T)" by auto
  from run_conditions_first [OF assms(1,2) this]
  show ?thesis
    by (simp add: run_timers_def assms(5) case_prod_beta filter_map comp_def run_conditions_state del: not_None_eq split: list.split)
qed

lemma wait_due:
  assumes "decides P tk" "calm P" "code_ok T P" "tables_ok T"
    "\<forall>x\<in>set rounds. 0 \<le> fst x \<and> list_all calm_event (snd x)"
  shows "machine_ok T (snd r) \<Longrightarrow> fst r = F_On \<or> (\<exists>rq. fst r = F_Move rq) \<Longrightarrow> a_timers (snd r) (state_name (snd r)) = Some ts \<Longrightarrow>
    \<exists>t\<in>set ts. due tk (sum_list (map fst rounds)) t \<Longrightarrow> \<exists>rq. fst (wait P T args fds rounds r) = Y_Move rq"
  using assms(5)
proof (induction rounds arbitrary: r ts)
  case Nil
  then show ?case by (auto simp: due_def)
next
  case (Cons x rounds)
  obtain d ready where x: "x = (d, ready)" by (cases x)
  have act: "actions_return P" using assms(2) by (simp add: calm_def)
  show ?case
  proof (cases "fst r = F_On")
    case False
    then obtain rq where "fst r = F_Move rq" using Cons.prems(2) by auto
    from wait_move [OF this] show ?thesis by blast
  next
    case True
    define m where "m = snd r"
    have r: "r = (F_On, m)" using True unfolding m_def by (metis prod.collapse)
    note m = Cons.prems(1,3) [folded m_def]
    define ex where "ex = fst (timers_expired (timers_decrement d ts))"
    define ts' where "ts' = snd (timers_expired (timers_decrement d ts))"
    define n where "n = snd (run_timers P T args d m)"
    from run_timers_calm [OF assms(1) act assms(4) m, of args d]
    have f: "fst (run_timers P T args d m) = (case filter (\<lambda>t. tk (t_func t) \<noteq> None) ex of [] \<Rightarrow> F_On | t # _ \<Rightarrow> F_Move (the (tk (t_func t))))"
      and n: "a_state n = a_state m" "a_timers n (state_name n) = Some ts'"
      unfolding ex_def ts'_def n_def by simp_all
    show ?thesis
    proof (cases "filter (\<lambda>t. tk (t_func t) \<noteq> None) ex")
      case (Cons t us)
      then have "run_timers P T args d m = (F_Move (the (tk (t_func t))), n)" using f unfolding n_def by (metis list.case(2) prod.collapse)
      then show ?thesis by (simp add: r x leave_def)
    next
      case Nil
      then have rt: "run_timers P T args d m = (F_On, n)" using f unfolding n_def by (metis list.case(1) prod.collapse)
      have ok: "machine_ok T n" using run_timers_ok [OF assms(3,4) m(1), of args d] unfolding rt by simp
      obtain t where t: "t \<in> set ts" "due tk (d + sum_list (map fst rounds)) t" using Cons.prems(4) by (auto simp: x)
      have "\<not> t_time t \<le> d"
      proof
        assume "t_time t \<le> d"
        from due_expires [OF t(2,1) this] Nil t(2) show False unfolding ex_def [symmetric] by (auto simp: due_def filter_empty_conv)
      qed
      from due_stays [OF t(2,1) this] have due: "\<exists>t\<in>set ts'. due tk (sum_list (map fst rounds)) t" unfolding ts'_def .
      let ?h = "handle P T args (filter (selectable fds) ready) n"
      have "list_all calm_event (filter (selectable fds) ready)" using Cons.prems(5) by (auto simp: x list_all_iff)
      from handle_calm [OF assms(1-4) ok this, of args] handle_ok [OF assms(3,4) ok, of args "filter (selectable fds) ready"]
      have h: "machine_ok T (snd ?h)" "fst ?h = F_On \<or> (\<exists>rq. fst ?h = F_Move rq)" "a_timers (snd ?h) (state_name (snd ?h)) = Some ts'"
        using n(2) by (auto simp: calm_flow_def)
      from Cons.IH [OF h due] Cons.prems(5) rt show ?thesis by (simp add: r x)
    qed
  qed
qed

text \<open>C18: A timeout moves the machine: once a state with a timeout that asks for a state is entered, the machine
  has left it when the rounds of its loop have taken that long, however they divide the time, whether or
  not a command was pending, and whatever packets and events arrive meanwhile.\<close>

theorem timeout_moves:
  assumes "class_tables c = Inr T" "timeouts_named (decorated c)" "machine_ok T m" "code_ok T P" "calm P" "decides P tk"
    "fst (p_state P (state_name m) (rq_args (a_state m)) (a_user m)) = Returns v"
    "\<not> m_error (rq_func (a_state m))" "\<not> m_final (rq_func (a_state m))"
    "a_timers m (state_name m) = Some ts" "t \<in> set ts" "\<not> t_autoreload t" "tk (t_func t) \<noteq> None" "0 < t_timeout t"
    "\<forall>x\<in>set rounds. 0 \<le> fst x \<and> list_all calm_event (snd x)" "t_timeout t \<le> sum_list (map fst rounds)"
  shows "\<exists>rq. fst (run_state P T pending rounds m) = Y_Move rq"
proof -
  have ok: "tables_ok T" by (rule class_tables_ok [OF assms(1,2)])
  have act: "actions_return P" using assms(5) by (simp add: calm_def)
  obtain u where u: "p_state P (state_name m) (rq_args (a_state m)) (a_user m) = (Returns v, u)"
    using assms(7) by (metis prod.collapse)
  let ?m = "m\<lparr>a_breakpointed := None, a_user := u\<rparr>"
  have m: "machine_ok T ?m" using assms(3) by simp
  from state_lookups [OF ok m] obtain cs rs ios where
    l: "tb_cond T (state_name ?m) = Some cs" "tb_recv T (state_name ?m) = Some rs" "tb_io T (state_name ?m) = Some ios" by metis
  define f where "f = fst (immediate P T pending (spread v) ts ?m)"
  define n where "n = snd (immediate P T pending (spread v) ts ?m)"
  have fn: "immediate P T pending (spread v) ts ?m = (f, n)" by (simp add: f_def n_def)
  have n: "machine_ok T n" "a_state n = a_state m" "a_timers n = a_timers m"
    using immediate_ok [OF assms(4) ok m, of pending "spread v" ts] immediate_state [of P T pending "spread v" ts ?m]
    unfolding fn by simp_all
  have "ts \<noteq> []" using assms(11) by auto
  obtain g k where g: "run_conditions P T (conds cs) (spread v) ?m = (g, k)" by (cases "run_conditions P T (conds cs) (spread v) ?m")
  have gk: "g = F_On \<or> (\<exists>rq. g = F_Move rq)" "a_state k = a_state m"
    using run_conditions_calm [OF assms(6) act conds_ok(1) [OF ok l(1)], of ?m "spread v"] unfolding g by (simp_all add: calm_flow_def)
  have "f = F_On \<or> (\<exists>rq. f = F_Move rq)"
  proof (cases pending)
    case False
    from gk(1) show ?thesis
    proof
      assume "g = F_On"
      with False l g gk(2) \<open>ts \<noteq> []\<close> show ?thesis by (simp add: f_def immediate_def)
    next
      assume "\<exists>rq. g = F_Move rq"
      with False l g show ?thesis by (auto simp: f_def immediate_def)
    qed
  qed (simp add: f_def immediate_def)
  then show ?thesis
  proof
    assume "\<exists>rq. f = F_Move rq"
    then obtain rq where "f = F_Move rq" ..
    with fn u assms(8-10) have "fst (run_state P T pending rounds m) = Y_Move rq" by (simp add: run_state_def Let_def leave_def)
    then show ?thesis ..
  next
    assume F: "f = F_On"
    let ?n = "n\<lparr>a_timers := (a_timers n)(state_name n \<mapsto> timers_reset ts)\<rparr>"
    have "timers_runnable (dom (tb_actions T)) (Some ts)" using assms(3,10) unfolding machine_ok_def by metis
    from timers_runnable_expired(3) [OF this] have "t_func ` set (timers_reset ts) \<subseteq> dom (tb_actions T)" by simp
    from machine_ok_timers [OF n(1) this] have n': "machine_ok T ?n" .
    have "tb_recv T (state_name ?n) = Some rs" "tb_io T (state_name ?n) = Some ios" using l(2,3) n(2) by simp_all
    from lookup_fds_total [OF this] obtain fds where fds: "lookup_fds T ?n = Some fds" by (elim exE)
    have "due tk (sum_list (map fst rounds)) (timer_reset t)" using assms(12-14,16) by (simp add: due_def timer_reset_def)
    then have d: "\<exists>t\<in>set (timers_reset ts). due tk (sum_list (map fst rounds)) t" using assms(11) by (auto simp: timers_reset_def)
    have "\<exists>rq. fst (wait P T (spread v) fds rounds (F_On, ?n)) = Y_Move rq"
      by (rule wait_due [OF assms(6,5,4) ok assms(15), of "(F_On, ?n)" "timers_reset ts"]) (use n' d in simp_all)
    then show ?thesis using fn F fds u assms(8-10) n(2) by (simp add: run_state_def Let_def)
  qed
qed

section \<open>A pending command\<close>

text \<open>The generator asked again and again, with what is pending and the rounds of each call.\<close>

fun nexts :: "('u, 'v) code \<Rightarrow> tables \<Rightarrow> (bool \<times> 'v rounds) list \<Rightarrow> 'v position \<Rightarrow> ('u, 'v) atmt \<Rightarrow> 'v yields list" where
  "nexts P T [] pos m = []"
| "nexts P T ((pending, rounds) # ins) pos m =
     (case do_next P T pending rounds pos m of (y, pos, m) \<Rightarrow> y # nexts P T ins pos m)"

text \<open>A wait with nothing but the command pipe and no timers.\<close>

definition idle :: "'v position \<Rightarrow> ('u, 'v) atmt \<Rightarrow> bool" where
  "idle pos m \<longleftrightarrow> a_timers m (state_name m) = Some [] \<and>
     (case pos of P_Wait args fds rest \<Rightarrow> fds = (False, []) \<and> set rest \<subseteq> {R_Cmd} | _ \<Rightarrow> False)"

lemma handle_commands:
  "set r \<subseteq> {R_Cmd} \<Longrightarrow> handle P T args r m = (F_On, m) \<or> (\<exists>r'. handle P T args r m = (F_Command r', m) \<and> set r' \<subseteq> {R_Cmd})"
  by (cases r) auto

lemma selectable_commands: "set (filter (selectable (False, [])) r) \<subseteq> {R_Cmd}"
proof -
  have "selectable (False, []) x \<Longrightarrow> x = R_Cmd" for x by (cases x) simp_all
  then show ?thesis by auto
qed

lemma wait_idle:
  "a_timers (snd r) (state_name (snd r)) = Some [] \<Longrightarrow> fst r = F_On \<or> (\<exists>q. fst r = F_Command q \<and> set q \<subseteq> {R_Cmd}) \<Longrightarrow>
    fst (wait P T args (False, []) rounds r) \<in> {Y_Command, Y_Waiting} \<and>
    idle (fst (snd (wait P T args (False, []) rounds r))) (snd (snd (wait P T args (False, []) rounds r)))"
proof (induction rounds arbitrary: r)
  case Nil
  then show ?case by (cases r) (auto simp: leave_def idle_def)
next
  case (Cons x rounds)
  obtain d ready where x: "x = (d, ready)" by (cases x)
  obtain f m where r: "r = (f, m)" by (cases r)
  show ?case
  proof (cases "f = F_On")
    case False
    with Cons.prems show ?thesis by (auto simp: r x leave_def idle_def)
  next
    case True
    have "(a_timers m)(state_name m \<mapsto> []) = a_timers m" using Cons.prems(1) by (simp add: r fun_upd_idem)
    then have t: "run_timers P T args d m = (F_On, m)"
      using Cons.prems(1) by (simp add: r run_timers_def timers_decrement_def timers_expired_def)
    let ?h = "handle P T args (filter (selectable (False, [])) ready) m"
    from handle_commands [OF selectable_commands, of P T args ready m]
    have "a_timers (snd ?h) (state_name (snd ?h)) = Some [] \<and> (fst ?h = F_On \<or> (\<exists>q. fst ?h = F_Command q \<and> set q \<subseteq> {R_Cmd}))"
      using Cons.prems(1) unfolding r by (auto simp del: split_paired_Ex)
    with Cons.IH [of ?h] show ?thesis by (simp add: r x True t)
  qed
qed

lemma nexts_idle: "idle pos m \<Longrightarrow> set (nexts P T ins pos m) \<subseteq> {Y_Command, Y_Waiting}"
proof (induction ins arbitrary: pos m)
  case (Cons x ins)
  obtain pending rounds where x: "x = (pending, rounds)" by (cases x)
  from Cons.prems obtain args rest where pos: "pos = P_Wait args (False, []) rest" "set rest \<subseteq> {R_Cmd}"
    and t: "a_timers m (state_name m) = Some []" by (cases pos) (auto simp: idle_def)
  have h: "a_timers (snd (handle P T args rest m)) (state_name (snd (handle P T args rest m))) = Some []"
    "fst (handle P T args rest m) = F_On \<or> (\<exists>q. fst (handle P T args rest m) = F_Command q \<and> set q \<subseteq> {R_Cmd})"
    using handle_commands [OF pos(2), of P T args m] t by auto
  obtain y pos' m' where w: "do_next P T pending rounds pos m = (y, pos', m')"
    by (cases "do_next P T pending rounds pos m")
  from wait_idle [OF h, of P T args rounds] w have "y \<in> {Y_Command, Y_Waiting}" "idle pos' m'" by (simp_all add: do_next_def pos(1))
  with Cons.IH [of pos' m'] show ?case by (simp add: x w)
qed simp

text \<open>C30: A command that is pending when a state is entered can keep the machine in it for ever: the immediate
  conditions are skipped and not tried again when the command has been read, so that a state with nothing
  else to wait for yields only commands, whatever else happens.\<close>

theorem pending_command_hangs:
  assumes "tb_recv T (state_name m) = Some []" "tb_io T (state_name m) = Some []" "a_timers m (state_name m) = Some []"
    "fst (p_state P (state_name m) (rq_args (a_state m)) (a_user m)) = Returns v"
    "\<not> m_error (rq_func (a_state m))" "\<not> m_final (rq_func (a_state m))" "state_name m \<notin> a_breakpoints m"
  shows "set (nexts P T ((True, rounds) # ins) P_Top m) \<subseteq> {Y_Command, Y_Waiting}"
proof -
  obtain u where u: "p_state P (state_name m) (rq_args (a_state m)) (a_user m) = (Returns v, u)"
    using assms(4) by (metis prod.collapse)
  let ?n = "m\<lparr>a_breakpointed := None, a_user := u, a_timers := (a_timers m)(state_name m \<mapsto> [])\<rparr>"
  let ?w = "wait P T (spread v) (False, []) rounds (F_On, ?n)"
  have "do_next P T True rounds P_Top m = ?w"
    using assms(1-3,5-7) u
    by (cases "a_listen m") (simp_all add: do_next_def run_state_def Let_def immediate_def lookup_fds_def timers_reset_def)
  moreover have w: "fst ?w \<in> {Y_Command, Y_Waiting}" "idle (fst (snd ?w)) (snd (snd ?w))"
    using wait_idle [of "(F_On, ?n)" P T "spread v" rounds] by simp_all
  ultimately show ?thesis using nexts_idle [OF w(2), of P T ins] by (simp add: case_prod_beta)
qed

section \<open>Examples\<close>

abbreviation toy_end :: "nat request" where
  "toy_end \<equiv> new_state_requested (toy_member ''E'' ATMT_STATE ''E'' 0) []"

definition toy_machine :: "tables \<Rightarrow> (nat, nat) atmt" where
  "toy_machine T = \<lparr>a_user = 0, a_state = new_state_requested (toy_member ''A'' ATMT_STATE ''A'' 0) [], a_timers = tb_timeout T,
     a_breakpoints = {}, a_breakpointed = None, a_interceptions = {}, a_intercepted = None, a_listen = True, a_send = True,
     a_store = False, a_packets = [], a_sent = [], a_final = O_None\<rparr>"

lemma toy_machine_ok: "tables_ok T \<Longrightarrow> ''A'' \<in> dom (tb_states T) \<Longrightarrow> machine_ok T (toy_machine T)"
  by (simp add: machine_ok_def tables_ok_def request_ok_def toy_machine_def new_state_requested_def toy_member_def)

lemma toy_state [simp]:
  "state_name (toy_machine T) = ''A''" "m_error (rq_func (a_state (toy_machine T))) = False"
  "m_final (rq_func (a_state (toy_machine T))) = False" "a_timers (toy_machine T) = tb_timeout T"
  "a_breakpoints (toy_machine T) = {}"
  by (simp_all add: toy_machine_def new_state_requested_def toy_member_def)

lemma toy_code_facts:
  "decides toy_code (\<lambda>_. Some toy_end)" "actions_return toy_code" "calm toy_code" "fst (p_state toy_code n a u) = Returns O_None"
  by (simp_all add: decides_def actions_return_def calm_def toy_code_def) blast

lemma best_condition_moves_witness:
  "\<exists>T. class_tables toy_class = Inr T \<and> fst (run_state toy_code T False [] (toy_machine T)) = Y_Move toy_end"
proof -
  from toy_tables obtain T where T: "class_tables toy_class = Inr T" "''A'' \<in> dom (tb_states T)" by blast
  have n: "timeouts_named (decorated toy_class)" by (simp add: toy_decorated timeouts_named_def toy_member_def)
  have d: "toy_member ''c1'' ATMT_CONDITION ''A'' 1 \<in> set (of_state ATMT_CONDITION (state_name (toy_machine T)) (decorated toy_class))"
    by (simp add: toy_decorated of_state_def toy_member_def)
  from best_condition_moves [OF T(1) n toy_machine_ok [OF class_tables_ok [OF T(1) n] T(2)] toy_code_facts(1,2,4) _ _ d, of "[]"]
    T(1) show ?thesis by auto
qed

lemma pending_command_hangs_witness:
  "\<exists>T. class_tables toy_class = Inr T \<and>
    set (nexts toy_code T [(True, [(1, [R_Cmd])]), (False, [(9, [])]), (False, [(9, [])])] P_Top (toy_machine T)) \<subseteq> {Y_Command, Y_Waiting}"
proof -
  from toy_tables obtain T where T: "class_tables toy_class = Inr T" "''A'' \<in> dom (tb_states T)" "tb_io T ''A'' = Some []" by blast
  from class_tables_lists [OF T(1,2)] have "tb_recv T ''A'' = Some []" "tb_timeout T ''A'' = Some []"
    by (simp_all add: toy_decorated of_state_def toy_member_def)
  with T(3) have "set (nexts toy_code T ((True, [(1, [R_Cmd])]) # [(False, [(9, [])]), (False, [(9, [])])]) P_Top (toy_machine T))
      \<subseteq> {Y_Command, Y_Waiting}"
    by (intro pending_command_hangs [where v = O_None]) (simp_all add: toy_code_facts)
  with T(1) show ?thesis by blast
qed

definition timed_class :: pyclass where
  "timed_class = PyClass [(''A'', Some (toy_member ''A'' ATMT_STATE ''A'' 0)), (''t'', Some (toy_member ''t'' ATMT_TIMEOUT ''A'' 0)),
     (''E'', Some (toy_member ''E'' ATMT_STATE ''E'' 0))] []"

lemma timeout_moves_witness:
  "\<exists>T rq. class_tables timed_class = Inr T \<and> fst (run_state toy_code T True [(1, []), (1/2, []), (3, [])] (toy_machine T)) = Y_Move rq"
proof -
  have d: "decorated timed_class = [toy_member ''A'' ATMT_STATE ''A'' 0, toy_member ''t'' ATMT_TIMEOUT ''A'' 0,
      toy_member ''E'' ATMT_STATE ''E'' 0]"
    by (simp add: timed_class_def decorated_def setdefault_def)
  have "case class_tables timed_class of Inr T \<Rightarrow> tb_states T ''A'' \<noteq> None \<and> tb_states T ''E'' \<noteq> None | Inl _ \<Rightarrow> False"
    unfolding class_tables_def d
    by (simp add: Let_def toy_member_def declare_member_def enter_member_def append_at_def no_tables_def sort_tables_def)
  then obtain T where T: "class_tables timed_class = Inr T" "''A'' \<in> dom (tb_states T)" "''E'' \<in> dom (tb_states T)"
    by (cases "class_tables timed_class") auto
  have n: "timeouts_named (decorated timed_class)" by (simp add: d timeouts_named_def toy_member_def timer_new_def)
  have t: "a_timers (toy_machine T) (state_name (toy_machine T)) = Some [timer_new 2 0 False ''t'']"
    using class_tables_lists [OF T(1,2)] by (simp add: d of_state_def toy_member_def)
  have "\<exists>rq. fst (run_state toy_code T True [(1, []), (1/2, []), (3, [])] (toy_machine T)) = Y_Move rq"
    by (rule timeout_moves [OF T(1) n toy_machine_ok [OF class_tables_ok [OF T(1) n] T(2)] toy_code_ok [OF T(3)]
        toy_code_facts(3,1,4) _ _ t, of "timer_new 2 0 False ''t''"]) (simp_all add: timer_new_def)
  with T(1) show ?thesis by blast
qed

end
