(* ===== verification/Py_Float.thy ===== *)
theory Py_Float
  imports Complex_Main
begin

text \<open>
  Python's \<open>float\<close> as far as times need it: a finite float is the rational it denotes, and an
  operation's result is its exact value rounded to 53 significant bits, halves to even.
  Exponents are not bounded below, and rounding is that of the format for numbers below
  2 ^ 53, where one unit in the last place is at most one.
\<close>

section \<open>Rounding\<close>

text \<open>\<open>round(x)\<close>: to the nearest integer, halves to the even one.\<close>

definition py_round :: "rat \<Rightarrow> int" where
  "py_round x = (let f = \<lfloor>x\<rfloor>; r = x - of_int f in
     if r < 1 / 2 \<or> r = 1 / 2 \<and> even f then f else f + 1)"

text \<open>\<open>int(x)\<close>: towards zero.\<close>

definition py_trunc :: "rat \<Rightarrow> int" where
  "py_trunc x = (if x < 0 then - \<lfloor>- x\<rfloor> else \<lfloor>x\<rfloor>)"

text \<open>The binary places a quotient needs for 53 significant bits.\<close>

function places :: "nat \<Rightarrow> nat \<Rightarrow> nat" where
  "places n d = (if n = 0 \<or> 2 ^ 52 * d \<le> n then 0 else Suc (places (2 * n) d))"
  by pat_completeness auto
termination by (relation "measure (\<lambda>(n, d). 2 ^ 52 * d - n)") auto

declare places.simps [simp del]

definition places_of :: "rat \<Rightarrow> nat" where
  "places_of x = (case quotient_of x of (n, d) \<Rightarrow> places (nat \<bar>n\<bar>) (nat d))"

definition to_float :: "rat \<Rightarrow> rat" where
  "to_float x = (let k = places_of x; v = of_int (py_round (\<bar>x\<bar> * 2 ^ k)) / 2 ^ k in if x < 0 then - v else v)"

definition is_float :: "rat \<Rightarrow> bool" where
  "is_float x \<longleftrightarrow> to_float x = x"

section \<open>The nearest float\<close>

lemma py_round_near: "\<bar>of_int (py_round x) - x\<bar> \<le> 1 / 2"
proof -
  have "of_int \<lfloor>x\<rfloor> \<le> x" "x < of_int \<lfloor>x\<rfloor> + 1" by linarith+
  then show ?thesis by (auto simp: py_round_def Let_def abs_le_iff)
qed

lemma py_round_int: "\<bar>x - of_int m\<bar> < 1 / 2 \<Longrightarrow> py_round x = m"
proof -
  assume "\<bar>x - of_int m\<bar> < 1 / 2"
  with py_round_near [of x] have "\<bar>of_int (py_round x - m)\<bar> < (1 :: rat)"
    unfolding of_int_diff by linarith
  then have "\<bar>py_round x - m\<bar> < 1" by (metis of_int_abs of_int_less_1_iff)
  then show ?thesis by simp
qed

lemma py_round_of_int [simp]: "py_round (of_int m) = m"
  by (rule py_round_int) simp

lemma places_bounds:
  "0 < n \<Longrightarrow> 0 < d \<Longrightarrow> 2 ^ 52 * d \<le> n * 2 ^ places n d \<and> (places n d = 0 \<or> n * 2 ^ places n d < 2 ^ 53 * d)"
proof (induction n d rule: places.induct)
  case (1 n d)
  show ?case
  proof (cases "2 ^ 52 * d \<le> n")
    case True
    then have "places n d = 0" by (simp add: places.simps)
    with True show ?thesis by simp
  next
    case False
    with 1 have p: "places n d = Suc (places (2 * n) d)" by (simp add: places.simps)
    have i: "2 ^ 52 * d \<le> 2 * n * 2 ^ places (2 * n) d \<and> (places (2 * n) d = 0 \<or> 2 * n * 2 ^ places (2 * n) d < 2 ^ 53 * d)"
      using 1 False by auto
    show ?thesis
    proof (cases "places (2 * n) d = 0")
      case True
      with i False show ?thesis by (simp add: p)
    qed (use i in \<open>simp add: p mult.assoc mult.left_commute\<close>)
  qed
qed

lemma places_of_bounds:
  assumes "0 < x"
  shows "2 ^ 52 \<le> x * 2 ^ places_of x" "places_of x = 0 \<or> x * 2 ^ places_of x < 2 ^ 53"
proof -
  obtain n d where q: "quotient_of x = (n, d)" by (cases "quotient_of x")
  then have d: "0 < d" and x: "x = of_int n / of_int d" by (simp_all add: quotient_of_denom_pos quotient_of_div)
  with assms have n: "0 < n" by (simp add: zero_less_divide_iff)
  define m e where "m = nat n" and "e = nat d"
  have me: "0 < m" "0 < e" "x = of_nat m / of_nat e" using n d x by (simp_all add: m_def e_def)
  have p: "places_of x = places m e" using n by (simp add: places_of_def q m_def e_def)
  note b = places_bounds [OF me(1,2)]
  have "of_nat (2 ^ 52 * e) \<le> (of_nat (m * 2 ^ places m e) :: rat)" unfolding of_nat_le_iff using b by blast
  then show "2 ^ 52 \<le> x * 2 ^ places_of x" using me(2) unfolding p by (simp add: me(3) field_simps)
  have "places m e = 0 \<or> of_nat (m * 2 ^ places m e) < (of_nat (2 ^ 53 * e) :: rat)" unfolding of_nat_less_iff using b by blast
  then show "places_of x = 0 \<or> x * 2 ^ places_of x < 2 ^ 53" using me(2) unfolding p by (auto simp: me(3) field_simps)
qed

lemma places_of_unique:
  assumes "2 ^ 52 \<le> x * 2 ^ k" "x * 2 ^ k < (2 :: rat) ^ 53" 
  shows "places_of x = k"
proof -
  have "0 < x * 2 ^ k" using assms(1) by (rule less_le_trans [rotated]) simp
  then have x: "0 < x" by (simp add: zero_less_mult_iff)
  note b = places_of_bounds [OF x]
  have less: "j < i + 1" if "x * 2 ^ j < 2 ^ 53" "2 ^ 52 \<le> x * 2 ^ i" for i j
  proof (rule ccontr)
    assume "\<not> j < i + 1"
    then obtain l where j: "j = Suc i + l" by (metis add.commute le_Suc_ex not_less Suc_eq_plus1)
    have "2 * 2 ^ 52 \<le> 2 * (x * 2 ^ i)" using that(2) by simp
    also have "\<dots> \<le> 2 * (x * 2 ^ i) * 2 ^ l" using x by (simp add: mult_le_cancel_left1 mult_less_0_iff not_less)
    also have "\<dots> = x * 2 ^ j" by (simp add: j power_add algebra_simps)
    finally show False using that(1) by simp
  qed
  show ?thesis
  proof (cases "places_of x = 0")
    case True
    with b(1) less [of k 0] assms(2) show ?thesis by simp
  next
    case False
    with b less [of k "places_of x"] less [of "places_of x" k] assms show ?thesis by simp
  qed
qed

lemma to_float_near:
  assumes "0 \<le> x"
  shows "\<bar>to_float x - x\<bar> \<le> 1 / 2 ^ Suc (places_of x)"
proof -
  let ?p = "(2 :: rat) ^ places_of x"
  have "\<bar>of_int (py_round (x * ?p)) - x * ?p\<bar> / ?p \<le> (1 / 2) / ?p"
    by (rule divide_right_mono [OF py_round_near]) simp
  moreover have "\<bar>of_int (py_round (x * ?p)) - x * ?p\<bar> / ?p = \<bar>(of_int (py_round (x * ?p)) - x * ?p) / ?p\<bar>"
    by (simp add: abs_divide)
  moreover have "(of_int (py_round (x * ?p)) - x * ?p) / ?p = to_float x - x"
    using assms by (simp add: to_float_def Let_def diff_divide_distrib)
  ultimately show ?thesis by simp
qed

text \<open>A value within half a unit of a 53-bit significand is rounded to it.\<close>

lemma to_float_grid:
  assumes "2 ^ 52 \<le> x * 2 ^ k" "x * 2 ^ k < 2 ^ 53" "\<bar>x * 2 ^ k - of_int m\<bar> < 1 / 2"
  shows "to_float x = of_int m / 2 ^ k"
proof -
  have "0 < x * 2 ^ k" using assms(1) by (rule less_le_trans [rotated]) simp
  then have "0 < x" by (simp add: zero_less_mult_iff)
  then show ?thesis
    using places_of_unique [OF assms(1,2)] py_round_int [OF assms(3)] by (simp add: to_float_def Let_def)
qed

text \<open>A number of at most 53 bits after a shift is a float.\<close>

lemma is_float_grid:
  assumes "0 \<le> m" "m < 2 ^ 53"
  shows "is_float (of_int m / 2 ^ k)"
proof (cases "m = 0")
  case True
  then show ?thesis by (simp add: is_float_def to_float_def py_round_def)
next
  case False
  let ?x = "of_int m / 2 ^ k :: rat"
  have x: "0 < ?x" using assms False by simp
  define j where "j = places_of ?x"
  have "k \<le> j"
  proof (rule ccontr)
    assume "\<not> k \<le> j"
    then obtain i where "k = Suc (j + i)" using less_imp_Suc_add [of j k] by (auto simp: not_le)
    then have "?x * 2 ^ j = of_int m / 2 ^ Suc i" by (simp add: power_add)
    also have "\<dots> \<le> of_int m / 2" using assms(1) by (intro divide_left_mono) auto
    also have "\<dots> < 2 ^ 52" using assms(2) by simp
    finally show False using places_of_bounds(1) [OF x] by (simp add: j_def)
  qed
  then obtain i where i: "j = k + i" using le_Suc_ex by blast
  have "?x * 2 ^ j = of_int (m * 2 ^ i)" by (simp add: i power_add)
  then have "py_round (?x * 2 ^ j) = m * 2 ^ i" by (metis py_round_of_int)
  then have "to_float ?x = of_int (m * 2 ^ i) / 2 ^ j" using x assms(1) by (simp add: to_float_def Let_def flip: j_def)
  also have "\<dots> = ?x" by (simp add: i power_add)
  finally show ?thesis by (simp add: is_float_def)
qed

lemma is_float_significand:
  assumes "is_float x" "0 < x" "x < 2 ^ 53"
  obtains m where "x = of_int m / 2 ^ places_of x" "2 ^ 52 \<le> m" "m < 2 ^ 53"
proof -
  define k m where "k = places_of x" and "m = py_round (x * 2 ^ k)"
  have x: "x = of_int m / 2 ^ k" using assms by (simp add: is_float_def to_float_def Let_def k_def m_def)
  then have m: "x * 2 ^ k = of_int m" by simp
  have "x * 2 ^ k < 2 ^ 53" using places_of_bounds(2) [OF assms(2)] assms(3) by (auto simp: k_def)
  then have "of_int m < (of_int (2 ^ 53) :: rat)" "of_int (2 ^ 52) \<le> (of_int m :: rat)"
    using places_of_bounds(1) [OF assms(2)] by (simp_all add: m flip: k_def)
  then have "2 ^ 52 \<le> m" "m < 2 ^ 53" unfolding of_int_less_iff of_int_le_iff by simp_all
  with x show ?thesis using that by (simp add: k_def)
qed

text \<open>Rounding answers a closest float: no other is nearer.\<close>

lemma py_round_closest: "\<bar>of_int (py_round w) - w\<bar> \<le> \<bar>of_int n - w\<bar>"
proof (cases "n = py_round w")
  case False
  then have "1 \<le> \<bar>n - py_round w\<bar>" by simp
  then have "(1 :: rat) \<le> \<bar>of_int n - of_int (py_round w)\<bar>" by (metis of_int_1_le_iff of_int_abs of_int_diff)
  then show ?thesis using py_round_near [of w] by linarith
qed simp

lemma to_float_closest:
  assumes "0 < x" "x < 2 ^ 53" "y = of_int m / 2 ^ j" "0 \<le> m" "m < 2 ^ 53"
  shows "\<bar>to_float x - x\<bar> \<le> \<bar>y - x\<bar>"
proof -
  define k w where "k = places_of x" and "w = x * 2 ^ k"
  have w: "2 ^ 52 \<le> w" using places_of_bounds(1) [OF assms(1)] by (simp add: w_def k_def)
  have p: "(0 :: rat) < 2 ^ k" by simp
  have v: "to_float x = of_int (py_round w) / 2 ^ k" using assms(1) by (simp add: to_float_def Let_def w_def k_def)
  have "\<bar>of_int (py_round w) - w\<bar> \<le> \<bar>y * 2 ^ k - w\<bar>"
  proof (cases "y * 2 ^ k < 2 ^ 52")
    case True
    have "\<bar>of_int (py_round w) - w\<bar> \<le> \<bar>of_int (2 ^ 52) - w\<bar>" by (rule py_round_closest)
    also have "\<dots> \<le> \<bar>y * 2 ^ k - w\<bar>" using True w by simp
    finally show ?thesis .
  next
    case False
    have "j \<le> k"
    proof (rule ccontr)
      assume "\<not> j \<le> k"
      then obtain i where i: "j = Suc (k + i)" using less_imp_Suc_add [of k j] by (auto simp: not_le)
      have "y * 2 ^ k = of_int m / 2 ^ Suc i" by (simp add: assms(3) i power_add)
      also have "\<dots> \<le> of_int m / 2" using assms(4) by (intro divide_left_mono) auto
      also have "\<dots> < 2 ^ 52" using assms(5) by simp
      finally show False using False by simp
    qed
    then obtain i where "k = j + i" using le_Suc_ex by blast
    then have "y * 2 ^ k = of_int (m * 2 ^ i)" by (simp add: assms(3) power_add)
    then show ?thesis using py_round_closest [of w "m * 2 ^ i"] by simp
  qed
  then have "\<bar>of_int (py_round w) - w\<bar> / 2 ^ k \<le> \<bar>y * 2 ^ k - w\<bar> / 2 ^ k" using p by (intro divide_right_mono) simp_all
  moreover have "\<bar>of_int (py_round w) - w\<bar> / 2 ^ k = \<bar>(of_int (py_round w) - w) / 2 ^ k\<bar>"
    "\<bar>y * 2 ^ k - w\<bar> / 2 ^ k = \<bar>(y * 2 ^ k - w) / 2 ^ k\<bar>" by (simp_all add: abs_divide)
  moreover have "(of_int (py_round w) - w) / 2 ^ k = to_float x - x" "(y * 2 ^ k - w) / 2 ^ k = y - x"
    by (simp_all add: v w_def diff_divide_distrib)
  ultimately show ?thesis by simp
qed

end
