(* ===== verification/Erf.thy ===== *)
theory Erf
  imports Pcap_Write Py_Float
begin

text \<open>
  ERF files (\<open>_erf_index\<close> and \<open>ERFEthernetWriter\<close> of \<open>pcapio.py\<close>). Times are Python floats:
  the writer splits one into seconds and nanoseconds in float arithmetic, and the index
  gives the float nearest to the seconds and nanoseconds of a record.
\<close>

section \<open>The index\<close>

definition erf_ns :: "nat \<Rightarrow> nat" where
  "erf_ns fraction = (let f = fraction * 10 ^ 9; f = f + push_bit 1 (f AND 0x80000000) in drop_bit 32 f)"

text \<open>\<open>float(Decimal(sec) + Decimal(ns) / 10 ** 9)\<close>: the decimal arithmetic is exact.\<close>

definition erf_time :: "nat \<Rightarrow> nat \<Rightarrow> rat" where
  "erf_time sec ns = to_float (of_nat sec + of_nat ns / 10 ^ 9)"

text \<open>Every record: its frame, its time, its wire length.\<close>

function erf_index :: "bytes \<Rightarrow> nat \<Rightarrow> (bytes \<times> rat \<times> nat) list res" where
  "erf_index data pos =
     (if length data < pos + 16 then Inr []
      else (let ts = from_le (octets data pos 8); rtype = unat (data ! (pos + 8));
                rlen = from_be (octets data (pos + 10) 2); wlen = from_be (octets data (pos + 14) 2) in
        if rtype AND 2 = 0 then Inl Value_Error
        else (let head = (if rtype AND 128 \<noteq> 0 then 24 else 16);
                  stop = min (length data) (pos + max rlen head);
                  frame = octets data (pos + head + 2) (stop - (pos + head + 2)) in
          rbind (erf_index data (pos + max rlen 16)) (\<lambda>rest.
            Inr ((frame, erf_time (drop_bit 32 ts) (erf_ns (ts AND 0xFFFFFFFF)), wlen) # rest)))))"
  by pat_completeness auto
termination
  by (relation "measure (\<lambda>(data, pos). length data - pos)") auto

declare erf_index.simps [simp del]

section \<open>The writer\<close>

text \<open>A packet's seconds and binary fraction; octets carry no time and get the clock's whole
  seconds \<open>now\<close>.\<close>

definition erf_split :: "int \<Rightarrow> rat option \<Rightarrow> int \<times> int" where
  "erf_split now time = (case time of
       None \<Rightarrow> (now, 0)
     | Some t \<Rightarrow> (let sec = py_trunc t in
         (sec, push_bit 32 (py_round (to_float (to_float (t - of_int sec) * 10 ^ 9))) div 10 ^ 9)))"

text \<open>The state is the octets written.\<close>

definition erf_write_packet :: "int \<Rightarrow> bytes \<Rightarrow> rat option \<Rightarrow> nat \<Rightarrow> (bytes, py_exn, unit) comp" where
  "erf_write_packet now raw time wirelen0 =
     (let (sec, fraction) = erf_split now time;
          wirelen = (if wirelen0 = 0 then int (length raw) else int wirelen0) in
      sbind (lift (pack False 8 (push_bit 32 sec + fraction))) (\<lambda>t.
      sbind (\<lambda>out. (Inr (), out @ t)) (\<lambda>_.
      sbind (lift (packs True [(1, 2), (1, 0), (2, int (length raw) + 18), (2, 0), (2, wirelen), (2, 0)])) (\<lambda>h.
        \<lambda>out. (Inr (), out @ h @ raw)))))"

text \<open>\<open>clock n\<close> is the clock at the \<open>n\<close>-th packet.\<close>

fun erf_write :: "(nat \<Rightarrow> int) \<Rightarrow> (bytes \<times> rat option \<times> nat) list \<Rightarrow> (bytes, py_exn, unit) comp" where
  "erf_write clock [] = ret ()"
| "erf_write clock ((raw, time, wirelen) # ps) =
     sbind (erf_write_packet (clock 0) raw time wirelen) (\<lambda>_. erf_write (\<lambda>n. clock (Suc n)) ps)"

end
