(* ===== verification/Erf_Correct.thy ===== *)
theory Erf_Correct
  imports Erf
begin

text \<open>
  ERF files: the frames, times and wire lengths of packets are indexed as they were written,
  the times for every float from 2 ^ 23 seconds (April 1970) up to the format's limit, where
  floats are too coarse to fall between two nanoseconds; and a packet too long for a record
  leaves eight stray octets in the file.
\<close>

section \<open>Nanoseconds\<close>

lemma and_bit_31: "(f :: nat) AND 0x80000000 = (if odd (f div 2 ^ 31) then 0x80000000 else 0)"
proof -
  have "f AND 2 ^ k = (if bit f k then 2 ^ k else 0)" for k
    by (rule bit_eqI) (auto simp: bit_simps)
  from this [of 31] show ?thesis by (simp add: bit_iff_odd)
qed

lemma erf_ns_frac:
  assumes "ns < 10 ^ 9"
  shows "erf_ns (ns * 2 ^ 32 div 10 ^ 9) = ns"
proof -
  define q r :: nat where "q = ns * 2 ^ 32 div 10 ^ 9" and "r = ns * 2 ^ 32 mod 10 ^ 9"
  have f: "q * 10 ^ 9 + r = ns * 2 ^ 32" and r: "r < 10 ^ 9"
    unfolding q_def r_def by (rule div_mult_mod_eq) simp
  show ?thesis
  proof (cases "r = 0")
    case True
    with f have e: "q * 10 ^ 9 = ns * 2 ^ 32" by simp
    have "ns * 2 ^ 32 div 2 ^ 31 = 2 * ns" by simp
    then show ?thesis unfolding q_def [symmetric] erf_ns_def Let_def e and_bit_31 by (simp add: shifts)
  next
    case False
    define f where "f = q * 10 ^ 9"
    have ns: "1 \<le> ns" using f False by (cases ns) auto
    define t where "t = 2 ^ 32 - r"
    have t: "2 ^ 31 \<le> t" "t < 2 ^ 32" "f = (ns - 1) * 2 ^ 32 + t"
      using f r False ns by (simp_all add: t_def f_def diff_mult_distrib)
    have "f div 2 ^ 31 = 2 * (ns - 1) + 1"
      using t by (intro div_nat_eqI) simp_all
    then have "f AND 0x80000000 = 0x80000000" by (simp add: and_bit_31)
    moreover have "(f + 2 ^ 32) div 2 ^ 32 = ns"
      using t ns by (intro div_nat_eqI) simp_all
    moreover have "push_bit 1 (0x80000000 :: nat) = 2 ^ 32" by simp
    ultimately show ?thesis unfolding q_def [symmetric] erf_ns_def Let_def f_def [symmetric] drop_bit_eq_div
      by (simp only:)
  qed
qed

section \<open>Records\<close>

definition erf_record :: "bytes \<Rightarrow> nat \<Rightarrow> nat \<Rightarrow> nat \<Rightarrow> bytes" where
  "erf_record raw sec ns wl =
     to_le 8 (sec * 2 ^ 32 + ns * 2 ^ 32 div 10 ^ 9) @ [2, 0] @ to_be 2 (length raw + 18) @ [0, 0] @ to_be 2 wl @ [0, 0] @ raw"

text \<open>A packet a record can hold, with a time of the years 1970 (from April) to 2106.\<close>

definition time_fits :: "rat \<Rightarrow> bool" where
  "time_fits t \<longleftrightarrow> is_float t \<and> 2 ^ 23 \<le> t \<and> t < 2 ^ 32"

definition erf_fits :: "bytes \<times> rat option \<times> nat \<Rightarrow> bool" where
  "erf_fits p = (case p of (raw, time, wirelen) \<Rightarrow>
     (\<forall>t. time = Some t \<longrightarrow> time_fits t) \<and> length raw + 18 < 65536 \<and> wirelen < 65536)"

definition wire :: "bytes \<Rightarrow> nat \<Rightarrow> nat" where
  "wire raw wirelen = (if wirelen = 0 then length raw else wirelen)"

lemma fraction_less: "ns < 10 ^ 9 \<Longrightarrow> (ns :: nat) * 2 ^ 32 div 10 ^ 9 < 2 ^ 32"
  by (simp add: less_mult_imp_div_less)

section \<open>Times\<close>

text \<open>From 2 ^ 23 seconds on a float has at most 29 binary places.\<close>

lemma time_grid:
  assumes "time_fits t"
  obtains m where "t = of_int m / 2 ^ places_of t" "2 ^ 52 \<le> m" "m < 2 ^ 53" "places_of t \<le> 29"
proof -
  have t: "is_float t" "2 ^ 23 \<le> t" "t < 2 ^ 32" using assms by (simp_all add: time_fits_def)
  have p: "0 < t" by (rule less_le_trans [OF _ t(2)]) simp
  obtain m where m: "t = of_int m / 2 ^ places_of t" "2 ^ 52 \<le> m" "m < 2 ^ 53"
    by (rule is_float_significand [OF t(1) p less_le_trans [OF t(3)]]) simp_all
  have "places_of t \<le> 29"
  proof (rule ccontr)
    assume "\<not> places_of t \<le> 29"
    then have "(2 :: rat) ^ 30 \<le> 2 ^ places_of t" by (intro power_increasing) simp_all
    then have "2 ^ 23 * 2 ^ 30 \<le> t * 2 ^ places_of t" using t(2) by (intro mult_mono) simp_all
    also have "\<dots> = of_int m" using m(1) by (metis nonzero_eq_divide_eq power_not_zero zero_neq_numeral)
    finally have "of_int (2 ^ 53) \<le> (of_int m :: rat)" by simp
    then show False using m(3) unfolding of_int_le_iff by simp
  qed
  with m that show ?thesis by blast
qed

text \<open>What float arithmetic makes of a fraction of a second in binary places: nanoseconds less
  than 2 ^ -30 seconds away.\<close>

lemma nanoseconds_near:
  assumes "0 \<le> x" "x < 1"
  shows "\<bar>of_int (py_round (to_float (x * 10 ^ 9))) / 10 ^ 9 - x\<bar> < 1 / 2 ^ 30"
proof -
  define y where "y = to_float (x * 10 ^ 9)"
  have "\<bar>y - x * 10 ^ 9\<bar> \<le> 1 / 2 ^ 23"
  proof (cases "x = 0")
    case True
    then show ?thesis using is_float_grid [of 0 0] by (simp add: y_def is_float_def)
  next
    case False
    with assms have p: "0 < x * 10 ^ 9" "x * 10 ^ 9 < 2 ^ 30" by simp_all
    define k where "k = places_of (x * 10 ^ 9)"
    have "\<not> k < 22"
    proof
      assume "k < 22"
      then have "(2 :: rat) ^ k \<le> 2 ^ 22" by (intro power_increasing) simp_all
      then have "x * 10 ^ 9 * 2 ^ k \<le> x * 10 ^ 9 * 2 ^ 22" using assms by (intro mult_left_mono) simp_all
      also have "\<dots> < 2 ^ 30 * 2 ^ 22" by (rule mult_strict_right_mono [OF p(2)]) simp
      finally show False using places_of_bounds(1) [OF p(1)] by (simp add: k_def)
    qed
    then have "1 / 2 ^ Suc k \<le> (1 / 2 ^ 23 :: rat)" by (intro divide_left_mono power_increasing) simp_all
    moreover have "\<bar>y - x * 10 ^ 9\<bar> \<le> 1 / 2 ^ Suc k" using to_float_near [of "x * 10 ^ 9"] assms by (simp add: y_def k_def)
    ultimately show ?thesis by (rule order_trans [rotated])
  qed
  then have "\<bar>of_int (py_round y) - x * 10 ^ 9\<bar> \<le> 1 / 2 + 1 / 2 ^ 23" using py_round_near [of y] by linarith
  then have "\<bar>of_int (py_round y) - x * 10 ^ 9\<bar> / 10 ^ 9 \<le> (1 / 2 + 1 / 2 ^ 23) / 10 ^ 9" by (rule divide_right_mono) simp
  moreover have "of_int (py_round y) / 10 ^ 9 - x = (of_int (py_round y) - x * 10 ^ 9) / 10 ^ 9"
    by (simp add: diff_divide_distrib)
  then have "\<bar>of_int (py_round y) / 10 ^ 9 - x\<bar> = \<bar>of_int (py_round y) - x * 10 ^ 9\<bar> / 10 ^ 9"
    by (simp only: abs_divide) simp
  ultimately have "\<bar>of_int (py_round y) / 10 ^ 9 - x\<bar> \<le> (1 / 2 + 1 / 2 ^ 23) / 10 ^ 9" by (simp only:)
  also have "\<dots> < 1 / 2 ^ 30" by simp
  finally show ?thesis by (simp only: y_def)
qed

text \<open>The time a packet is written with: seconds and nanoseconds that are read as that time.\<close>

lemma split_time:
  assumes "time_fits t"
  obtains sec ns where "erf_split now (Some t) = (int sec, push_bit 32 (int ns) div 10 ^ 9)"
    "sec < 2 ^ 32" "ns < 10 ^ 9" "erf_time sec ns = t"
proof -
  have t: "2 ^ 23 \<le> t" "t < 2 ^ 32" "0 < t"
    using assms by (auto simp: time_fits_def intro: less_le_trans)
  obtain m where m: "t = of_int m / 2 ^ places_of t" "2 ^ 52 \<le> m" "m < 2 ^ 53" "places_of t \<le> 29"
    by (rule time_grid [OF assms])
  define k where "k = places_of t"
  define s where "s = \<lfloor>t\<rfloor>"
  define x where "x = t - of_int s"
  have s: "0 \<le> s" "s < 2 ^ 32" using t by (simp_all add: s_def floor_less_iff)
  have x: "0 \<le> x" "x < 1" unfolding x_def s_def by linarith+
  define f where "f = m - s * 2 ^ k"
  have tk: "t * 2 ^ k = of_int m" using m(1) unfolding k_def by (metis nonzero_eq_divide_eq power_not_zero zero_neq_numeral)
  then have xf: "x * 2 ^ k = of_int f" by (simp add: x_def f_def left_diff_distrib)
  then have xd: "x = of_int f / 2 ^ k" by (simp add: field_simps)
  have "0 \<le> x * 2 ^ k" "x * 2 ^ k < 2 ^ k" using x by simp_all
  then have "of_int 0 \<le> (of_int f :: rat)" "of_int f < (of_int (2 ^ k) :: rat)" unfolding xf by simp_all
  then have f: "0 \<le> f" "f < 2 ^ k" unfolding of_int_le_iff of_int_less_iff by simp_all
  have k: "(2 :: int) ^ k \<le> 2 ^ 29" "(2 :: rat) ^ k \<le> 2 ^ 29"
    by (rule power_increasing; use m(4) in \<open>simp add: k_def\<close>)+
  have "to_float x = x" using is_float_grid [of f k] f k by (simp add: is_float_def flip: xd)
  define n where "n = py_round (to_float (x * 10 ^ 9))"
  have near: "\<bar>of_int n / 10 ^ 9 - x\<bar> < 1 / 2 ^ 30" using nanoseconds_near [OF x] by (simp add: n_def)
  have x1: "x \<le> 1 - 1 / 2 ^ 29"
  proof -
    have "f \<le> 2 ^ k - 1" using f by simp
    then have "(of_int f :: rat) \<le> of_int (2 ^ k - 1)" unfolding of_int_le_iff .
    then have "of_int f / 2 ^ k \<le> ((2 ^ k - 1) / 2 ^ k :: rat)" by (intro divide_right_mono) simp_all
    also have "\<dots> = 1 - 1 / 2 ^ k" by (simp add: diff_divide_distrib)
    also have "\<dots> \<le> 1 - 1 / 2 ^ 29"
      using divide_left_mono [OF k(2), of 1] by simp
    finally show ?thesis by (simp add: xd)
  qed
  have "of_int n / 10 ^ 9 < x + 1 / 2 ^ 30" using near unfolding abs_less_iff by linarith
  also have "\<dots> \<le> 1 - 1 / 2 ^ 29 + 1 / 2 ^ 30" using x1 by (rule add_right_mono)
  also have "\<dots> < 1" by simp
  finally have n1: "n < 10 ^ 9" by (simp add: divide_less_eq)
  have "- (1 / 2 ^ 30) < (of_int n / 10 ^ 9 :: rat)" using near x unfolding abs_less_iff by linarith
  from mult_strict_right_mono [OF this, of "10 ^ 9"] have "- 1 < (of_int n :: rat)" by simp
  then have n0: "0 \<le> n" by linarith
  have T: "erf_time (nat s) (nat n) = t"
  proof -
    have e: "\<bar>(of_int s + of_int n / 10 ^ 9) * 2 ^ k - of_int m\<bar> < (1 / 2 :: rat)"
    proof -
      have "(of_int s + of_int n / 10 ^ 9) * 2 ^ k - of_int m = (of_int n / 10 ^ 9 - x) * 2 ^ k"
        using xf by (simp add: f_def algebra_simps)
      moreover have "\<bar>of_int n / 10 ^ 9 - x\<bar> * 2 ^ k < (1 / 2 ^ 30) * 2 ^ k"
        by (rule mult_strict_right_mono [OF near]) simp
      moreover have "(1 / 2 ^ 30) * 2 ^ k \<le> (1 / 2 ^ 30) * (2 ^ 29 :: rat)"
        by (rule mult_left_mono [OF k(2)]) simp
      moreover have "(1 / 2 ^ 30) * (2 ^ 29 :: rat) = 1 / 2" by simp
      ultimately have "\<bar>of_int n / 10 ^ 9 - x\<bar> * 2 ^ k < 1 / 2" by linarith
      then have "\<bar>(of_int n / 10 ^ 9 - x) * 2 ^ k\<bar> < 1 / 2" by (simp only: abs_mult) simp
      then show ?thesis by (simp only: \<open>(of_int s + of_int n / 10 ^ 9) * 2 ^ k - of_int m = (of_int n / 10 ^ 9 - x) * 2 ^ k\<close>)
    qed
    have "to_float (of_int s + of_int n / 10 ^ 9) = of_int m / 2 ^ k"
    proof (cases "x = 0")
      case True
      then have "n = 0" using near is_float_grid [of 0 0] by (simp add: n_def is_float_def)
      with True show ?thesis using assms m(1) by (simp add: x_def time_fits_def is_float_def k_def)
    next
      case False
      have "m \<noteq> 2 ^ 52"
      proof
        assume "m = 2 ^ 52"
        moreover have "(2 :: rat) ^ 52 = 2 ^ (52 - k) * 2 ^ k" using m(4) by (simp only: k_def flip: power_add) simp
        ultimately have "t * 2 ^ k = 2 ^ (52 - k) * 2 ^ k" using tk by simp
        then have "t = of_int (2 ^ (52 - k))" by simp
        then show False using False by (simp add: x_def s_def)
      qed
      with m(2,3) have lo: "2 ^ 52 + 1 \<le> (of_int m :: rat)" "(of_int m :: rat) \<le> 2 ^ 53 - 1" by simp_all
      show ?thesis by (rule to_float_grid [OF _ _ e]) (use e lo in \<open>unfold abs_less_iff, linarith+\<close>)
    qed
    then show ?thesis using s(1) n0 m(1) by (simp add: erf_time_def k_def)
  qed
  have "erf_split now (Some t) = (int (nat s), push_bit 32 (int (nat n)) div 10 ^ 9)"
  proof -
    have "py_trunc t = s" using t(3) by (simp add: py_trunc_def s_def)
    then show ?thesis using s(1) n0 \<open>to_float x = x\<close> by (simp add: erf_split_def Let_def n_def flip: x_def)
  qed
  then show ?thesis using that s n0 n1 T by (metis nat_less_iff of_nat_numeral of_nat_power)
qed

text \<open>The clock gives whole seconds, which are times as well.\<close>

lemma to_float_of_int:
  assumes "0 \<le> m" "m < 2 ^ 53"
  shows "to_float (of_int m) = of_int m"
  using is_float_grid [OF assms, of 0] by (simp add: is_float_def)

definition clock_fits :: "int \<Rightarrow> bool" where
  "clock_fits now \<longleftrightarrow> 0 \<le> now \<and> now < 2 ^ 32"

definition written_time :: "int \<Rightarrow> rat option \<Rightarrow> rat" where
  "written_time now time = (case time of None \<Rightarrow> of_int now | Some t \<Rightarrow> t)"

lemma split_any:
  assumes "clock_fits now" "\<forall>t. time = Some t \<longrightarrow> time_fits t"
  obtains sec ns where "erf_split now time = (int sec, push_bit 32 (int ns) div 10 ^ 9)"
    "sec < 2 ^ 32" "ns < 10 ^ 9" "erf_time sec ns = written_time now time"
proof (cases time)
  case None
  have c: "0 \<le> now" "now < 2 ^ 32" using assms(1) by (simp_all add: clock_fits_def)
  then have "erf_time (nat now) 0 = of_int now" using to_float_of_int [of now] by (simp add: erf_time_def)
  then show ?thesis using None c by (intro that [of "nat now" 0]) (simp_all add: erf_split_def written_time_def nat_less_iff)
next
  case (Some t)
  with assms(2) have "time_fits t" by simp
  from split_time [OF this, of now] Some that show ?thesis by (metis written_time_def option.case(2))
qed

section \<open>Writing and indexing\<close>

lemma erf_write_packet_ok:
  assumes "erf_split now time = (int sec, push_bit 32 (int ns) div 10 ^ 9)" "sec < 2 ^ 32" "ns < 10 ^ 9"
    "length raw + 18 < 65536" "wirelen < 65536"
  shows "erf_write_packet now raw time wirelen out = (Inr (), out @ erf_record raw sec ns (wire raw wirelen))"
proof -
  define fr where "fr = ns * 2 ^ 32 div 10 ^ 9"
  have fr: "push_bit 32 (int ns) div 10 ^ 9 = int fr" by (simp add: fr_def push_bit_eq_mult zdiv_int)
  have v: "sec * 2 ^ 32 + fr < 256 ^ 8" using assms(2) fraction_less [OF assms(3)] by (simp add: fr_def)
  have s: "push_bit 32 (int sec) + int fr = int (sec * 2 ^ 32 + fr)" by (simp add: push_bit_eq_mult)
  have t: "pack False 8 (push_bit 32 (int sec) + int fr) = Inr (to_le 8 (sec * 2 ^ 32 + fr))"
    unfolding s pack_def using v by (simp only: nat_int of_nat_0_le_iff) simp
  have w: "(if wirelen = 0 then int (length raw) else int wirelen) = int (wire raw wirelen)" "wire raw wirelen < 65536"
    using assms(4,5) by (simp_all add: wire_def)
  have h: "packs True [(1, 2), (1, 0), (2, int (length raw) + 18), (2, 0), (2, int (wire raw wirelen)), (2, 0)] =
      Inr ([2, 0] @ to_be 2 (length raw + 18) @ [0, 0] @ to_be 2 (wire raw wirelen) @ [0, 0])"
    using assms(4) w(2) by (simp add: pack_def nat_add_distrib) (simp add: numeral_2_eq_2)
  show ?thesis
    unfolding erf_write_packet_def assms(1) Let_def fr w(1) prod.case t h by (simp add: sbind_def erf_record_def fr_def)
qed

lemma erf_index_record:
  assumes "sec < 2 ^ 32" "ns < 10 ^ 9" "length raw + 18 < 65536" "wl < 65536"
  shows "erf_index (pre @ erf_record raw sec ns wl @ rest) (length pre) =
    rbind (erf_index (pre @ erf_record raw sec ns wl @ rest) (length pre + length (erf_record raw sec ns wl)))
      (\<lambda>r. Inr ((raw, erf_time sec ns, wl) # r))"
proof -
  define fr where "fr = ns * 2 ^ 32 div 10 ^ 9"
  have fr: "fr < 2 ^ 32" using fraction_less [OF assms(2)] by (simp add: fr_def)
  define ts where "ts = sec * 2 ^ 32 + fr"
  have ts: "ts < 256 ^ 8" "drop_bit 32 ts = sec" "ts AND 0xFFFFFFFF = fr"
    using assms(1) fr by (simp_all add: ts_def shifts and_masks)
  let ?b = "erf_record raw sec ns wl"
  define d where "d = pre @ ?b @ rest"
  have b: "?b = to_le 8 ts @ [2, 0] @ to_be 2 (length raw + 18) @ [0, 0] @ to_be 2 wl @ [0, 0] @ raw"
    by (simp add: erf_record_def ts_def fr_def)
  have l: "length ?b = length raw + 18" by (simp add: b)
  have o: "octets d (length pre) 8 = to_le 8 ts" "octets d (length pre + 10) 2 = to_be 2 (length raw + 18)"
    "octets d (length pre + 14) 2 = to_be 2 wl" "d ! (length pre + 8) = 2"
    "octets d (length pre + 18) (length raw) = raw"
    unfolding d_def octets_skip0 octets_skip b by (simp_all add: octets_def nth_append)
  have rl: "from_be (to_be 2 (length raw + 18)) = length raw + 18" "from_be (to_be 2 wl) = wl"
    using assms(3,4) by simp_all
  have n: "\<not> length d < length pre + 16" "min (length d) (length pre + (length raw + 18)) = length pre + (length raw + 18)"
    using l by (simp_all add: d_def)
  have e: "erf_ns fr = ns" using erf_ns_frac [OF assms(2)] by (simp add: fr_def)
  have two: "(2 :: nat) AND 2 \<noteq> 0" "(2 :: nat) AND 128 = 0" "unat (2 :: byte) = 2"
    "from_le (to_le 8 ts) = ts" "length pre + (length raw + 18) - (length pre + 16 + 2) = length raw"
    "length pre + 16 + 2 = length pre + 18" "max (length raw + 18) 16 = length raw + 18"
    using ts(1) by simp_all
  have "erf_index d (length pre) =
      rbind (erf_index d (length pre + (length raw + 18))) (\<lambda>r. Inr ((raw, erf_time sec ns, wl) # r))"
    unfolding erf_index.simps [of d "length pre"]
    using n two by (simp only: if_False if_True simp_thms o rl ts e Let_def)
  then show ?thesis unfolding l d_def .
qed

text \<open>What the packets come back as.\<close>

fun read_back :: "(nat \<Rightarrow> int) \<Rightarrow> (bytes \<times> rat option \<times> nat) list \<Rightarrow> (bytes \<times> rat \<times> nat) list" where
  "read_back clock [] = []"
| "read_back clock ((raw, time, wirelen) # ps) =
     (raw, written_time (clock 0) time, wire raw wirelen) # read_back (\<lambda>n. clock (Suc n)) ps"

lemma erf_fits_time:
  "erf_fits (raw, Some t, wirelen) \<longleftrightarrow> time_fits t \<and> length raw + 18 < 65536 \<and> wirelen < 65536"
  "erf_fits (raw, None, wirelen) \<longleftrightarrow> length raw + 18 < 65536 \<and> wirelen < 65536"
  by (simp_all add: erf_fits_def)

lemma erf_written_indexed:
  assumes "\<forall>p\<in>set ps. erf_fits p" "\<forall>n<length ps. clock_fits (clock n)"
  shows "\<exists>b. (\<forall>out. erf_write clock ps out = (Inr (), out @ b)) \<and>
    (\<forall>pre. erf_index (pre @ b) (length pre) = Inr (read_back clock ps))"
  using assms
proof (induction clock ps rule: erf_write.induct)
  case (1 clock)
  show ?case by (intro exI [of _ "[]"]) (simp add: ret_def erf_index.simps)
next
  case (2 clock raw time wirelen ps)
  then obtain b where b: "\<forall>out. erf_write (\<lambda>n. clock (Suc n)) ps out = (Inr (), out @ b)"
    "\<forall>pre. erf_index (pre @ b) (length pre) = Inr (read_back (\<lambda>n. clock (Suc n)) ps)" by fastforce
  have f: "\<forall>t. time = Some t \<longrightarrow> time_fits t" "length raw + 18 < 65536" "wirelen < 65536"
    using 2 by (simp_all add: erf_fits_def)
  then have w: "wire raw wirelen < 65536" by (simp add: wire_def)
  have "clock_fits (clock 0)" using 2 by blast
  from split_any [OF this f(1)] obtain sec ns where s:
    "erf_split (clock 0) time = (int sec, push_bit 32 (int ns) div 10 ^ 9)" "sec < 2 ^ 32" "ns < 10 ^ 9"
    "erf_time sec ns = written_time (clock 0) time" .
  let ?r = "erf_record raw sec ns (wire raw wirelen)"
  have "erf_write clock ((raw, time, wirelen) # ps) out = (Inr (), out @ ?r @ b)" for out
    using erf_write_packet_ok [OF s(1-3) f(2,3)] b(1) by (simp add: sbind_def)
  moreover have "erf_index (pre @ ?r @ b) (length pre) = Inr (read_back clock ((raw, time, wirelen) # ps))" for pre
    using erf_index_record [OF s(2,3) f(2) w, of pre b] b(2) [THEN spec, of "pre @ ?r"] s(4) by simp
  ultimately show ?case by blast
qed

section \<open>Properties\<close>

text \<open>C25: a file of Ethernet records reads back as written: the octets, the wire lengths and
  the times, each the very float it was, for packets that fit a record and times from April
  1970 on. The writer's nanoseconds are rounded twice in float arithmetic and the reader's
  once; packets without a time carry the clock's.\<close>

theorem erf_roundtrip:
  assumes "\<forall>p\<in>set ps. erf_fits p" "\<forall>n<length ps. clock_fits (clock n)"
  shows "\<exists>out. erf_write clock ps [] = (Inr (), out) \<and> erf_index out 0 = Inr (read_back clock ps)"
  using erf_written_indexed [OF assms] by (metis append_Nil list.size(3))

text \<open>1700000000.25, the float above it, and a packet without a time.\<close>

theorem erf_roundtrip_witness:
  "\<exists>out. erf_write (\<lambda>n. 1700000007 + int n) [([1, 2, 3], Some (6800000001 / 4), 0),
      ([4, 5], Some (7130316801048577 / 2 ^ 22), 60), ([6], None, 0)] [] = (Inr (), out) \<and>
    erf_index out 0 = Inr [([1, 2, 3], 6800000001 / 4, 3), ([4, 5], 7130316801048577 / 2 ^ 22, 60), ([6], 1700000009, 1)]"
  (is "\<exists>out. erf_write ?c ?ps [] = _ \<and> _")
proof -
  have "is_float (of_int 6800000001 / 2 ^ 2)" "is_float (of_int 7130316801048577 / 2 ^ 22)"
    by (rule is_float_grid; simp)+
  then have "time_fits (6800000001 / 4)" "time_fits (7130316801048577 / 2 ^ 22)" by (simp_all add: time_fits_def)
  then have "\<forall>p\<in>set ?ps. erf_fits p" by (simp add: erf_fits_time)
  moreover have "\<forall>n<length ?ps. clock_fits (?c n)" by (simp add: clock_fits_def)
  moreover have "read_back ?c ?ps = [([1, 2, 3], 6800000001 / 4, 3), ([4, 5], 7130316801048577 / 2 ^ 22, 60), ([6], 1700000009, 1)]"
    by (simp add: written_time_def wire_def)
  ultimately show ?thesis using erf_roundtrip [of ?ps ?c] by (simp only:)
qed

text \<open>A record of another tool keeps its nanoseconds only to the nearest float, which in 2023 is
  a quarter of a microsecond.\<close>

lemma erf_time_coarse: "erf_time 1700000000 999999999 = 1700000001"
proof -
  have "to_float (of_nat 1700000000 + of_nat 999999999 / 10 ^ 9) = of_int (1700000001 * 2 ^ 22) / 2 ^ 22"
    by (rule to_float_grid) simp_all
  then show ?thesis by (simp add: erf_time_def)
qed

text \<open>a packet longer than a record can say raises, but only after its time has been written:
  the eight octets stay in the file and shift every record after them.\<close>

lemma erf_write_partial:
  assumes "65536 \<le> length raw + 18" "clock_fits now" "\<forall>t. time = Some t \<longrightarrow> time_fits t"
  shows "\<exists>b. length b = 8 \<and> erf_write_packet now raw time wirelen out = (Inl Struct_Error, out @ b)"
proof -
  obtain sec ns where s: "erf_split now time = (int sec, push_bit 32 (int ns) div 10 ^ 9)" "sec < 2 ^ 32" "ns < 10 ^ 9"
    using split_any [OF assms(2,3)] by metis
  define fr where "fr = ns * 2 ^ 32 div 10 ^ 9"
  have fr: "push_bit 32 (int ns) div 10 ^ 9 = int fr" by (simp add: fr_def push_bit_eq_mult zdiv_int)
  have v: "sec * 2 ^ 32 + fr < 256 ^ 8" using s(2) fraction_less [OF s(3)] by (simp add: fr_def)
  have n: "push_bit 32 (int sec) + int fr = int (sec * 2 ^ 32 + fr)" by (simp add: push_bit_eq_mult)
  have t: "pack False 8 (push_bit 32 (int sec) + int fr) = Inr (to_le 8 (sec * 2 ^ 32 + fr))"
    unfolding n pack_def using v by (simp only: nat_int of_nat_0_le_iff) simp
  have h: "packs True [(1, 2), (1, 0), (2, int (length raw) + 18), (2, 0), (2, w), (2, 0)] = Inl Struct_Error" for w
    using assms(1) by (simp add: pack_def)
  show ?thesis
    unfolding erf_write_packet_def s(1) Let_def prod.case fr t h by (simp add: sbind_def)
qed

end
