(* ===== verification/Py_Fields.thy ===== *)
theory Py_Fields
  imports Complex_Main Addr4
begin

text \<open>
  The fields of layers written in Python (\<open>_pyfields.py\<close>) and how a packet is built from its fields and
  dissected into them (\<open>_pylayer.py\<close>). A field is a value of the datatype \<open>fieldt\<close>, one constructor for each
  class of fields with its parameters; callbacks such as \<open>length_from\<close> are functions of the packet.
  A buffer that ends or begins inside an octet is the tuple of the source; what string fields and
  containers would do with such a tuple is a \<open>TypeError\<close> here.
\<close>

section \<open>Values and packets\<close>

datatype fval = V_None | V_Int int | V_Float rat | V_Bytes bytes | V_Str string | V_List "fval list"

record packet =
  pk_fields :: "string \<rightharpoonup> fval"
  pk_overloaded :: "string \<rightharpoonup> fval"
  pk_default :: "string \<rightharpoonup> fval"
  pk_payload :: bytes
  pk_below :: "string \<Rightarrow> fval res"
  pk_original :: bytes
  pk_cache :: "bytes option"
  pk_cache_fields :: "(string \<times> fval) list option"

text \<open>The first of the three dictionaries that has the name; then the payload is asked.\<close>

definition own_val :: "packet \<Rightarrow> string \<Rightarrow> fval option" where
  "own_val p n =
     (case pk_fields p n of Some v \<Rightarrow> Some v
      | None \<Rightarrow> (case pk_overloaded p n of Some v \<Rightarrow> Some v | None \<Rightarrow> pk_default p n))"

definition field_val :: "packet \<Rightarrow> string \<Rightarrow> fval res" where
  "field_val p n = (case own_val p n of Some v \<Rightarrow> Inr v | None \<Rightarrow> pk_below p n)"

section \<open>Formats and slices\<close>

datatype sfmt = SFmt (f_size: nat) (f_signed: bool) (f_little: bool)

definition field_fmt :: "string \<Rightarrow> string res" where
  "field_fmt fmt = (if fmt = [] then Inl Index_Error else Inr (if hd fmt \<in> set ''@=<>!'' then fmt else ''!'' @ fmt))"

text \<open>One integer in standard size; the native formats are not modelled.\<close>

definition struct_fmt :: "string \<Rightarrow> sfmt option" where
  "struct_fmt fmt =
     (case fmt of
        [ord, c] \<Rightarrow>
          if ord \<notin> set ''<>!'' then None
          else map_option (\<lambda>(n, sg). SFmt n sg (ord = CHR ''<''))
            (map_of [(CHR ''B'', (1, False)), (CHR ''b'', (1, True)), (CHR ''H'', (2, False)), (CHR ''h'', (2, True)),
               (CHR ''I'', (4, False)), (CHR ''i'', (4, True)), (CHR ''Q'', (8, False)), (CHR ''q'', (8, True))] c)
      | _ \<Rightarrow> None)"

definition int_pack :: "sfmt \<Rightarrow> int \<Rightarrow> bytes res" where
  "int_pack fmt v =
     (let n = f_size fmt; half = 2 ^ (8 * n - 1) in
      if (if f_signed fmt then - half \<le> v \<and> v < half else 0 \<le> v \<and> v < 2 ^ (8 * n))
      then Inr ((if f_little fmt then to_le else to_be) n (nat (v mod 2 ^ (8 * n))))
      else Inl Struct_Error)"

definition int_unpack_from :: "sfmt \<Rightarrow> bytes \<Rightarrow> int res" where
  "int_unpack_from fmt s =
     (let n = f_size fmt; u = int ((if f_little fmt then from_le else from_be) (take n s)) in
      if length s < n then Inl Struct_Error
      else Inr (if f_signed fmt \<and> 2 ^ (8 * n - 1) \<le> u then u - 2 ^ (8 * n) else u))"

definition bytes_pack :: "int \<Rightarrow> bytes \<Rightarrow> bytes res" where
  "bytes_pack n b = (if n < 0 then Inl Struct_Error else Inr (take (nat n) b @ replicate (nat n - length b) 0))"

definition slice_to :: "int \<Rightarrow> 'a list \<Rightarrow> 'a list" where
  "slice_to k s = (if 0 \<le> k then take (nat k) s else take (length s - nat (- k)) s)"

definition slice_from :: "int \<Rightarrow> 'a list \<Rightarrow> 'a list" where
  "slice_from k s = (if 0 \<le> k then drop (nat k) s else drop (length s - nat (- k)) s)"

section \<open>The classes of fields\<close>

datatype fieldt =
    F_Int sfmt
  | F_Three
  | F_LE_Three
  | F_NBytes nat
  | F_Str nat
  | F_StrFixed "packet \<Rightarrow> int option"
  | F_StrLen "packet \<Rightarrow> int"
  | F_XLEStrLen "packet \<Rightarrow> int"
  | F_NetBIOS int
  | F_StrNull
  | F_StrStop bytes int
  | F_MAC
  | F_LEMAC
  | F_IP
  | F_FieldLen sfmt "string option" "string option" "packet \<Rightarrow> fval \<Rightarrow> fval"
  | F_Len sfmt "int \<Rightarrow> int"
  | F_Bit int int int
  | F_BitLen "packet \<Rightarrow> int"
  | F_List fieldt "(packet \<Rightarrow> int) option" "(packet \<Rightarrow> int) option" nat
  | F_Cond "packet \<Rightarrow> bool" fieldt
  | F_Pad fieldt int bytes
  | F_RevPad fieldt int bytes
  | F_MayEnd fieldt
  | F_Emph fieldt

type_synonym desc = "(string \<times> fieldt) list"

section \<open>From values to octets\<close>

definition utf8_char :: "char \<Rightarrow> bytes" where
  "utf8_char c = (let n = of_char c :: nat in
     if n < 128 then [of_nat n] else [of_nat (0xC0 + n div 64), of_nat (0x80 + n mod 64)])"

definition bytes_of_ints :: "fval list \<Rightarrow> bytes res" where
  "bytes_of_ints vs = rmap (\<lambda>v. case v of
       V_Int i \<Rightarrow> if 0 \<le> i \<and> i < 256 then Inr (of_int i) else Inl Value_Error
     | _ \<Rightarrow> Inl Type_Error) vs"

definition bytes_encode :: "fval \<Rightarrow> bytes res" where
  "bytes_encode x =
     (case x of
        V_Bytes b \<Rightarrow> Inr b
      | V_Str s \<Rightarrow> Inr (concat (map utf8_char s))
      | V_Int n \<Rightarrow> if n < 0 then Inl Value_Error else Inr (replicate (nat n) 0)
      | V_List vs \<Rightarrow> bytes_of_ints vs
      | _ \<Rightarrow> Inl Type_Error)"

definition field_i2m :: "fval \<Rightarrow> fval res" where
  "field_i2m x =
     (case x of V_None \<Rightarrow> Inr (V_Int 0) | V_Str s \<Rightarrow> rbind (bytes_encode x) (\<lambda>b. Inr (V_Bytes b)) | _ \<Rightarrow> Inr x)"

definition str_i2m :: "fval \<Rightarrow> bytes res" where
  "str_i2m x = (if x = V_None then Inr [] else bytes_encode x)"

text \<open>\<open>x[::-1]\<close> of the little-endian string; a list would be reversed and then fail to be appended.\<close>

definition xle_i2m :: "fval \<Rightarrow> bytes res" where
  "xle_i2m x =
     (case x of
        V_Bytes b \<Rightarrow> Inr (rev b)
      | V_None \<Rightarrow> Inr []
      | V_Int i \<Rightarrow> if i = 0 then Inr [] else Inl Type_Error
      | V_Str s \<Rightarrow> if s = [] then Inr [] else Inl Type_Error
      | V_List vs \<Rightarrow> if vs = [] then Inr [] else Inl Type_Error
      | V_Float r \<Rightarrow> if r = 0 then Inr [] else Inl Type_Error)"

definition nbytes_i2m :: "nat \<Rightarrow> fval \<Rightarrow> bytes res" where
  "nbytes_i2m n x =
     (case x of
        V_None \<Rightarrow> Inr (replicate n 0)
      | V_Int i \<Rightarrow> Inr (rev (map (\<lambda>k. of_int (i div 256 ^ k mod 256)) [0..<n]))
      | V_Float r \<Rightarrow> if n = 0 then Inr [] else Inl Struct_Error
      | _ \<Rightarrow> if n = 0 then Inr [] else Inl Type_Error)"

fun truthy :: "fval \<Rightarrow> bool" where
  "truthy V_None = False"
| "truthy (V_Int i) = (i \<noteq> 0)"
| "truthy (V_Float r) = (r \<noteq> 0)"
| "truthy (V_Bytes b) = (b \<noteq> [])"
| "truthy (V_Str s) = (s \<noteq> [])"
| "truthy (V_List vs) = (vs \<noteq> [])"

definition netbios_i2m :: "int \<Rightarrow> fval \<Rightarrow> bytes res" where
  "netbios_i2m len y =
     rbind (bytes_encode (if truthy y then y else V_Bytes [])) (\<lambda>x.
       let n = len div 2; x = slice_to n (x @ replicate (nat n) 0x20) in
       Inr (0x20 # concat (map (\<lambda>b. [0x41 + drop_bit 4 b, 0x41 + (b AND 0xF)]) x)))"

fun every_other :: "'a list \<Rightarrow> 'a list" where
  "every_other [] = []"
| "every_other [x] = [x]"
| "every_other (x # _ # xs) = x # every_other xs"

definition strip_byte :: "byte \<Rightarrow> bytes \<Rightarrow> bytes" where
  "strip_byte c s = rev (dropWhile (\<lambda>x. x = c) (rev (dropWhile (\<lambda>x. x = c) s)))"

definition rstrip_byte :: "byte \<Rightarrow> bytes \<Rightarrow> bytes" where
  "rstrip_byte c s = rev (dropWhile (\<lambda>x. x = c) (rev s))"

definition netbios_m2i :: "bytes \<Rightarrow> bytes" where
  "netbios_m2i x =
     (let x = strip_byte 0 (drop 1 x) in
      rstrip_byte 0x20 (map2 (\<lambda>a b. push_bit 4 ((a - 1) AND 0xF) + ((b - 1) AND 0xF)) (every_other x) (every_other (drop 1 x))))"

text \<open>Addresses are given as text, which is what \<open>any2i\<close> leaves; other values are a \<open>TypeError\<close> here.\<close>

definition mac_i2m :: "fval \<Rightarrow> bytes res" where
  "mac_i2m x =
     (if \<not> truthy x then Inr (replicate 6 0)
      else (case x of
         V_Str s \<Rightarrow> (case mac2str s of Inr y \<Rightarrow> Inr y | Inl _ \<Rightarrow> bytes_encode x)
       | _ \<Rightarrow> Inl Type_Error))"

definition ip_i2m :: "fval \<Rightarrow> bytes res" where
  "ip_i2m x =
     (case x of
        V_None \<Rightarrow> Inr (replicate 4 0)
      | V_Str s \<Rightarrow> (case inet_aton s of Some b \<Rightarrow> Inr b | None \<Rightarrow> Inl OSError)
      | _ \<Rightarrow> Inl Type_Error)"

text \<open>The elements of a value that is iterated over.\<close>

definition iter_val :: "fval \<Rightarrow> fval list res" where
  "iter_val x =
     (case x of
        V_List vs \<Rightarrow> Inr vs
      | V_Bytes b \<Rightarrow> Inr (map (\<lambda>c. V_Int (uint c)) b)
      | V_Str s \<Rightarrow> Inr (map (\<lambda>c. V_Str [c]) s)
      | _ \<Rightarrow> Inl Type_Error)"

section \<open>Lengths and counts\<close>

fun val_len :: "fval \<Rightarrow> int res" where
  "val_len (V_Bytes b) = Inr (int (length b))"
| "val_len (V_Str s) = Inr (int (length s))"
| "val_len (V_List vs) = Inr (int (length vs))"
| "val_len _ = Inl Type_Error"

definition str_i2len :: "fval \<Rightarrow> int res" where
  "str_i2len x = (if x = V_None then Inr 0 else val_len x)"

fun num_add :: "rat \<Rightarrow> fval \<Rightarrow> rat" where
  "num_add r (V_Int i) = r + of_int i"
| "num_add r (V_Float x) = r + x"
| "num_add r _ = r"

definition int_res :: "int res \<Rightarrow> fval res" where
  "int_res r = rbind r (\<lambda>i. Inr (V_Int i))"

text \<open>The length of a bit field is a \<open>float\<close>, the eighth of its size; a list adds up those of its elements.\<close>

fun i2len :: "fieldt \<Rightarrow> fval \<Rightarrow> fval res" where
  "i2len (F_Int fmt) x = Inr (V_Int (int (f_size fmt)))"
| "i2len F_Three x = Inr (V_Int 3)"
| "i2len F_LE_Three x = Inr (V_Int 3)"
| "i2len (F_NBytes n) x = Inr (V_Int (int n))"
| "i2len (F_Str r) x = int_res (str_i2len x)"
| "i2len (F_StrFixed l) x = int_res (str_i2len x)"
| "i2len (F_StrLen l) x = int_res (str_i2len x)"
| "i2len (F_XLEStrLen l) x = int_res (str_i2len x)"
| "i2len (F_NetBIOS l) x = int_res (str_i2len x)"
| "i2len F_StrNull x = int_res (rbind (str_i2len x) (\<lambda>n. Inr (n + 1)))"
| "i2len (F_StrStop t k) x = int_res (str_i2len x)"
| "i2len F_MAC x = Inr (V_Int 6)"
| "i2len F_LEMAC x = Inr (V_Int 6)"
| "i2len F_IP x = Inr (V_Int 4)"
| "i2len (F_FieldLen fmt l c adj) x = Inr (V_Int (int (f_size fmt)))"
| "i2len (F_Len fmt adj) x = Inr (V_Int (int (f_size fmt)))"
| "i2len (F_Bit sz tot end) x = Inr (V_Float (of_int \<bar>sz\<bar> / 8))"
| "i2len (F_BitLen l) x = Inr (V_Float 0)"
| "i2len (F_List f l c mx) x =
     rbind (iter_val x) (\<lambda>vs. rbind (rmap (i2len f) vs) (\<lambda>ls. Inr (V_Int \<lfloor>fold (\<lambda>y r. num_add r y) ls 0\<rfloor>)))"
| "i2len (F_Cond c f) x = i2len f x"
| "i2len (F_Pad f a w) x = i2len f x"
| "i2len (F_RevPad f a w) x = i2len f x"
| "i2len (F_MayEnd f) x = i2len f x"
| "i2len (F_Emph f) x = i2len f x"

fun is_list :: "fieldt \<Rightarrow> bool" where
  "is_list (F_List f l c mx) = True"
| "is_list (F_Cond c f) = is_list f"
| "is_list (F_Pad f a w) = is_list f"
| "is_list (F_RevPad f a w) = is_list f"
| "is_list (F_MayEnd f) = is_list f"
| "is_list (F_Emph f) = is_list f"
| "is_list _ = False"

definition i2count :: "fieldt \<Rightarrow> fval \<Rightarrow> int" where
  "i2count f x = (case x of V_List vs \<Rightarrow> if is_list f then int (length vs) else 1 | _ \<Rightarrow> 1)"

definition field_and_val :: "desc \<Rightarrow> packet \<Rightarrow> string \<Rightarrow> (fieldt \<times> fval) res" where
  "field_and_val ds p n =
     (case own_val p n of
        None \<Rightarrow> Inl Value_Error
      | Some v \<Rightarrow> (case map_of ds n of None \<Rightarrow> Inl Key_Error | Some f \<Rightarrow> Inr (f, v)))"

definition fieldlen_i2m :: "desc \<Rightarrow> packet \<Rightarrow> string option \<Rightarrow> string option \<Rightarrow> (packet \<Rightarrow> fval \<Rightarrow> fval) \<Rightarrow> fval \<Rightarrow> fval res" where
  "fieldlen_i2m ds p length_of count_of adjust x =
     (if x = V_None then
        rbind (case length_of of
             Some n \<Rightarrow> rbind (field_and_val ds p n) (\<lambda>(f, v). i2len f v)
           | None \<Rightarrow> (case count_of of
                Some n \<Rightarrow> rbind (field_and_val ds p n) (\<lambda>(f, v). Inr (V_Int (i2count f v)))
              | None \<Rightarrow> Inl Value_Error))
          (\<lambda>f. Inr (adjust p f))
      else Inr x)"

section \<open>Building\<close>

datatype wbuf = Aligned bytes | Partial bytes nat nat

fun onto :: "wbuf \<Rightarrow> bytes \<Rightarrow> wbuf res" where
  "onto (Aligned s) b = Inr (Aligned (s @ b))"
| "onto (Partial s n v) b = Inl Type_Error"

text \<open>\<open>struct.pack\<close> of one value; a failure is a \<open>ValueError\<close> in \<open>Field.addfield\<close>.\<close>

fun val_pack :: "sfmt \<Rightarrow> fval \<Rightarrow> bytes res" where
  "val_pack fmt (V_Int i) = int_pack fmt i"
| "val_pack fmt _ = Inl Struct_Error"

definition pack_or_value_error :: "sfmt \<Rightarrow> fval \<Rightarrow> bytes res" where
  "pack_or_value_error fmt x = (case val_pack fmt x of Inl _ \<Rightarrow> Inl Value_Error | Inr b \<Rightarrow> Inr b)"

text \<open>Whole octets leave the accumulator, the high bits first.\<close>

function flush_bits :: "nat \<Rightarrow> nat \<Rightarrow> bytes \<Rightarrow> (bytes \<times> nat \<times> nat) res" where
  "flush_bits n v s =
     (if 8 \<le> n then
        (let n = n - 8 in
         if 256 \<le> drop_bit n v then Inl Struct_Error
         else flush_bits n (v AND (push_bit n 1 - 1)) (s @ [of_nat (drop_bit n v)]))
      else Inr (s, n, v))"
  by pat_completeness auto
termination by (relation "measure (\<lambda>(n, v, s). n)") auto

declare flush_bits.simps [simp del]

definition bit_add :: "int \<Rightarrow> bool \<Rightarrow> nat \<Rightarrow> wbuf \<Rightarrow> fval \<Rightarrow> wbuf res" where
  "bit_add sz rv end_tot s x =
     rbind (field_i2m x) (\<lambda>x. case x of
       V_Int val \<Rightarrow>
         (let (s, bitsdone, v) = (case s of Aligned s \<Rightarrow> (s, 0, 0) | Partial s n v \<Rightarrow> (s, n, v)) in
          if sz < 0 then Inl Value_Error
          else
            (let k = nat sz; v = push_bit k v OR nat (val AND (push_bit k 1 - 1)) in
             rbind (flush_bits (bitsdone + k) v s) (\<lambda>(s, bitsdone, v).
               if bitsdone \<noteq> 0 then Inr (Partial s bitsdone v)
               else if rv \<and> 1 < end_tot then
                 Inr (Aligned (slice_to (- int end_tot) s @ rev (slice_from (- int end_tot) s)))
               else Inr (Aligned s))))
     | _ \<Rightarrow> Inl Type_Error)"

definition bit_rev :: "int \<Rightarrow> int \<Rightarrow> int \<Rightarrow> bool" where
  "bit_rev sz tot end_tot \<longleftrightarrow> sz < 0 \<or> tot < 0 \<or> end_tot < 0"

definition bit_total :: "int \<Rightarrow> int \<Rightarrow> nat" where
  "bit_total sz tot = nat \<bar>if tot = 0 then \<bar>sz\<bar> div 8 else tot\<bar>"

definition padlen :: "int \<Rightarrow> int \<Rightarrow> int res" where
  "padlen flen align = (if align = 0 then Inl Zero_Division else Inr ((- flen) mod align))"

text \<open>The methods \<open>addfield\<close> of the classes. A container is given the method of the field inside.\<close>

definition int_add :: "sfmt \<Rightarrow> wbuf \<Rightarrow> fval \<Rightarrow> wbuf res" where
  "int_add fmt s x = rbind (pack_or_value_error fmt x) (onto s)"

definition octets_add :: "nat \<Rightarrow> wbuf \<Rightarrow> bytes \<Rightarrow> wbuf res" where
  "octets_add n s b = rbind (bytes_pack (int n) b) (onto s)"

definition three_add :: "wbuf \<Rightarrow> fval \<Rightarrow> wbuf res" where
  "three_add s x = rbind (field_i2m x) (\<lambda>x. rbind (val_pack (SFmt 4 False False) x) (\<lambda>b. onto s (drop 1 (take 4 b))))"

definition le_three_add :: "wbuf \<Rightarrow> fval \<Rightarrow> wbuf res" where
  "le_three_add s x = rbind (field_i2m x) (\<lambda>x. rbind (val_pack (SFmt 4 False True) x) (\<lambda>b. onto s (take 3 b)))"

definition nbytes_add :: "nat \<Rightarrow> wbuf \<Rightarrow> fval \<Rightarrow> wbuf res" where
  "nbytes_add n s x = rbind (nbytes_i2m n x) (onto s)"

definition str_add :: "wbuf \<Rightarrow> fval \<Rightarrow> wbuf res" where
  "str_add s x = rbind (str_i2m x) (onto s)"

definition strfixed_add :: "int option \<Rightarrow> wbuf \<Rightarrow> bytes res \<Rightarrow> wbuf res" where
  "strfixed_add len_pkt s m =
     (case len_pkt of
        None \<Rightarrow> rbind m (onto s)
      | Some n \<Rightarrow> rbind m (\<lambda>b. rbind (bytes_pack n b) (onto s)))"

definition strnull_add :: "wbuf \<Rightarrow> fval \<Rightarrow> wbuf res" where
  "strnull_add s x = rbind (str_i2m x) (\<lambda>b. onto s (b @ [0]))"

definition len_i2m :: "packet \<Rightarrow> (int \<Rightarrow> int) \<Rightarrow> fval \<Rightarrow> fval" where
  "len_i2m p adjust x = (if x = V_None then V_Int (adjust (int (length (pk_payload p)))) else x)"

definition list_add :: "(wbuf \<Rightarrow> fval \<Rightarrow> wbuf res) \<Rightarrow> wbuf \<Rightarrow> fval \<Rightarrow> wbuf res" where
  "list_add add s x =
     rbind (field_i2m x) (\<lambda>x. rbind (iter_val x) (\<lambda>vs. fold (\<lambda>v r. rbind r (\<lambda>s. add s v)) vs (Inr s)))"

definition cond_add :: "bool \<Rightarrow> (wbuf \<Rightarrow> fval \<Rightarrow> wbuf res) \<Rightarrow> wbuf \<Rightarrow> fval \<Rightarrow> wbuf res" where
  "cond_add c add s x = (if c then add s x else Inr s)"

definition pad_add :: "int \<Rightarrow> bytes \<Rightarrow> (wbuf \<Rightarrow> fval \<Rightarrow> wbuf res) \<Rightarrow> wbuf \<Rightarrow> fval \<Rightarrow> wbuf res" where
  "pad_add align padwith add s x =
     rbind (add (Aligned []) x) (\<lambda>r. case r of
       Aligned b \<Rightarrow> rbind (padlen (int (length b)) align) (\<lambda>n. onto s (b @ concat (replicate (nat n) padwith)))
     | Partial b n v \<Rightarrow> Inl Type_Error)"

definition revpad_add :: "int \<Rightarrow> bytes \<Rightarrow> (wbuf \<Rightarrow> fval \<Rightarrow> wbuf res) \<Rightarrow> wbuf \<Rightarrow> fval \<Rightarrow> wbuf res" where
  "revpad_add align padwith add s x =
     rbind (add (Aligned []) x) (\<lambda>r. case (s, r) of
       (Aligned s, Aligned b) \<Rightarrow> rbind (padlen (int (length s)) align) (\<lambda>n.
          rbind (bytes_pack n padwith) (\<lambda>pad. Inr (Aligned (s @ pad @ b))))
     | _ \<Rightarrow> Inl Type_Error)"

declare int_add_def [simp] octets_add_def [simp] three_add_def [simp] le_three_add_def [simp] nbytes_add_def [simp]
  str_add_def [simp] strfixed_add_def [simp] strnull_add_def [simp] len_i2m_def [simp] list_add_def [simp] cond_add_def [simp]
  pad_add_def [simp] revpad_add_def [simp]

fun add_field :: "desc \<Rightarrow> packet \<Rightarrow> fieldt \<Rightarrow> wbuf \<Rightarrow> fval \<Rightarrow> wbuf res" where
  "add_field ds p (F_Int fmt) s x = rbind (field_i2m x) (int_add fmt s)"
| "add_field ds p F_Three s x = three_add s x"
| "add_field ds p F_LE_Three s x = le_three_add s x"
| "add_field ds p (F_NBytes n) s x = nbytes_add n s x"
| "add_field ds p (F_Str r) s x = str_add s x"
| "add_field ds p (F_StrFixed len) s x = strfixed_add (len p) s (str_i2m x)"
| "add_field ds p (F_StrLen len) s x = str_add s x"
| "add_field ds p (F_XLEStrLen len) s x = rbind (xle_i2m x) (onto s)"
| "add_field ds p (F_NetBIOS len) s x = strfixed_add (Some len) s (netbios_i2m len x)"
| "add_field ds p F_StrNull s x = strnull_add s x"
| "add_field ds p (F_StrStop stop k) s x = str_add s x"
| "add_field ds p F_MAC s x = rbind (mac_i2m x) (octets_add 6 s)"
| "add_field ds p F_LEMAC s x = rbind (mac_i2m x) (\<lambda>b. octets_add 6 s (rev b))"
| "add_field ds p F_IP s x = rbind (ip_i2m x) (octets_add 4 s)"
| "add_field ds p (F_FieldLen fmt l c adj) s x = rbind (fieldlen_i2m ds p l c adj x) (int_add fmt s)"
| "add_field ds p (F_Len fmt adj) s x = int_add fmt s (len_i2m p adj x)"
| "add_field ds p (F_Bit sz tot end_tot) s x = bit_add \<bar>sz\<bar> (bit_rev sz tot end_tot) (bit_total sz end_tot) s x"
| "add_field ds p (F_BitLen len) s x = bit_add (len p) False 0 s x"
| "add_field ds p (F_List f l c mx) s x = list_add (add_field ds p f) s x"
| "add_field ds p (F_Cond c f) s x = cond_add (c p) (add_field ds p f) s x"
| "add_field ds p (F_Pad f align padwith) s x = pad_add align padwith (add_field ds p f) s x"
| "add_field ds p (F_RevPad f align padwith) s x = revpad_add align padwith (add_field ds p f) s x"
| "add_field ds p (F_MayEnd f) s x = add_field ds p f s x"
| "add_field ds p (F_Emph f) s x = add_field ds p f s x"

text \<open>What was dissected is built from the octets kept of it unless a list in it has changed.\<close>

definition cache_valid :: "packet \<Rightarrow> bool" where
  "cache_valid p \<longleftrightarrow> (case pk_cache_fields p of None \<Rightarrow> False | Some fs \<Rightarrow> list_all (\<lambda>(n, v). own_val p n = Some v) fs)"

fun build_fields :: "desc \<Rightarrow> packet \<Rightarrow> desc \<Rightarrow> wbuf \<Rightarrow> wbuf res" where
  "build_fields ds p [] s = Inr s"
| "build_fields ds p ((n, f) # fs) s =
     rbind (field_val p n) (\<lambda>v. rbind (add_field ds p f s v) (build_fields ds p fs))"

definition self_build :: "desc \<Rightarrow> packet \<Rightarrow> wbuf res" where
  "self_build ds p =
     (case pk_cache p of
        Some raw \<Rightarrow> if cache_valid p then Inr (Aligned raw) else build_fields ds p ds (Aligned [])
      | None \<Rightarrow> build_fields ds p ds (Aligned []))"

section \<open>Dissecting\<close>

datatype rbuf = Whole bytes | Inside bytes nat

fun exhausted :: "rbuf \<Rightarrow> bool" where
  "exhausted (Whole s) = (s = [])"
| "exhausted (Inside s n) = False"

fun whole :: "rbuf \<Rightarrow> bytes res" where
  "whole (Whole s) = Inr s"
| "whole (Inside s n) = Inl Type_Error"

definition bit_get :: "int \<Rightarrow> bool \<Rightarrow> nat \<Rightarrow> rbuf \<Rightarrow> (rbuf \<times> fval) res" where
  "bit_get sz rv tot s =
     (let (s, bn) = (case s of
            Inside s bn \<Rightarrow> (s, bn)
          | Whole s \<Rightarrow> (if rv \<and> 1 < tot then rev (take tot s) @ drop tot s else s, 0));
          nb_bytes = (sz + int bn - 1) div 8 + 1;
          w = slice_to nb_bytes s in
      if int (length w) < nb_bytes then Inl Struct_Error
      else if nb_bytes * 8 - int bn < 0 \<or> nb_bytes * 8 - sz - int bn < 0 then Inl Value_Error
      else
        (let b = from_be w AND (push_bit (nat (nb_bytes * 8 - int bn)) 1 - 1);
             b = drop_bit (nat (nb_bytes * 8 - sz - int bn)) b;
             bn = int bn + sz;
             s = slice_from (bn div 8) s;
             bn = nat (bn mod 8) in
         Inr (if bn \<noteq> 0 then Inside s bn else Whole s, V_Int (int b))))"

text \<open>The loop over the elements of a list: \<open>room\<close> is how many more may be kept, \<open>c\<close> how many are announced.\<close>

fun items :: "(rbuf \<Rightarrow> (rbuf \<times> fval) res) \<Rightarrow> nat \<Rightarrow> int option \<Rightarrow> rbuf \<Rightarrow> fval list \<Rightarrow> (rbuf \<times> fval list) res" where
  "items g room c s acc =
     (if exhausted s then Inr (s, acc)
      else if (case c of None \<Rightarrow> False | Some k \<Rightarrow> k \<le> 0) then Inr (s, acc)
      else rbind (g s) (\<lambda>(s, v).
        case room of 0 \<Rightarrow> Inl Scapy_Exception
        | Suc r \<Rightarrow> items g r (map_option (\<lambda>k. k - 1) c) s (acc @ [v])))"

declare items.simps [simp del]

definition list_get :: "(rbuf \<Rightarrow> (rbuf \<times> fval) res) \<Rightarrow> nat \<Rightarrow> int option \<Rightarrow> int option \<Rightarrow> rbuf \<Rightarrow> (rbuf \<times> fval) res" where
  "list_get g mx len_pkt c s =
     rbind (case len_pkt of
         None \<Rightarrow> Inr (s, [])
       | Some n \<Rightarrow> rbind (whole s) (\<lambda>s. Inr (Whole (slice_to n s), slice_from n s)))
       (\<lambda>(s, ret). rbind (items g mx c s []) (\<lambda>(s, vs).
          Inr (case s of Whole s \<Rightarrow> Whole (s @ ret) | Inside s bn \<Rightarrow> Inside (s @ ret) bn, V_List vs)))"

definition strlen_get :: "int \<Rightarrow> (bytes \<Rightarrow> bytes) \<Rightarrow> bytes \<Rightarrow> (rbuf \<times> fval) res" where
  "strlen_get n m2i s = (if n = 0 then Inr (Whole s, V_Bytes []) else Inr (Whole (slice_from n s), V_Bytes (m2i (slice_to n s))))"

fun find_sub :: "bytes \<Rightarrow> bytes \<Rightarrow> nat \<Rightarrow> nat option" where
  "find_sub t [] k = (if t = [] then Some k else None)"
| "find_sub t (c # s) k = (if take (length t) (c # s) = t then Some k else find_sub t s (k + 1))"

text \<open>The methods \<open>getfield\<close> of the classes, with their \<open>m2i\<close>.\<close>

definition int_get :: "sfmt \<Rightarrow> rbuf \<Rightarrow> (rbuf \<times> fval) res" where
  "int_get fmt r = rbind (whole r) (\<lambda>s. rbind (int_unpack_from fmt s) (\<lambda>v. Inr (Whole (drop (f_size fmt) s), V_Int v)))"

definition octets_get :: "nat \<Rightarrow> (bytes \<Rightarrow> fval) \<Rightarrow> rbuf \<Rightarrow> (rbuf \<times> fval) res" where
  "octets_get n m2i r = rbind (whole r) (\<lambda>s. if length s < n then Inl Struct_Error else Inr (Whole (drop n s), m2i (take n s)))"

definition three_get :: "rbuf \<Rightarrow> (rbuf \<times> fval) res" where
  "three_get r =
     rbind (whole r) (\<lambda>s. if length s < 3 then Inl Struct_Error
       else rbind (int_unpack_from (SFmt 4 False False) (0 # take 3 s)) (\<lambda>v. Inr (Whole (drop 3 s), V_Int v)))"

definition le_three_get :: "rbuf \<Rightarrow> (rbuf \<times> fval) res" where
  "le_three_get r =
     rbind (whole r) (\<lambda>s. if length s < 3 then Inl Struct_Error
       else rbind (int_unpack_from (SFmt 4 False True) (take 3 s @ [0])) (\<lambda>v. Inr (Whole (drop 3 s), V_Int v)))"

definition nbytes_get :: "nat \<Rightarrow> rbuf \<Rightarrow> (rbuf \<times> fval) res" where
  "nbytes_get n r =
     rbind (whole r) (\<lambda>s. if length s < n then Inl Struct_Error else Inr (Whole (drop n s), V_Int (int (from_be (take n s)))))"

definition str_get :: "nat \<Rightarrow> rbuf \<Rightarrow> (rbuf \<times> fval) res" where
  "str_get remain r =
     rbind (whole r) (\<lambda>s. if remain = 0 then Inr (Whole [], V_Bytes s)
       else Inr (Whole (slice_from (- int remain) s), V_Bytes (slice_to (- int remain) s)))"

definition strfixed_get :: "int option \<Rightarrow> rbuf \<Rightarrow> (rbuf \<times> fval) res" where
  "strfixed_get len_pkt r =
     rbind (whole r) (\<lambda>s. case len_pkt of None \<Rightarrow> Inr (Whole s, V_Bytes s) | Some n \<Rightarrow> strlen_get n id s)"

definition strnull_get :: "rbuf \<Rightarrow> (rbuf \<times> fval) res" where
  "strnull_get r =
     rbind (whole r) (\<lambda>s. case find_sub [0] s 0 of
       None \<Rightarrow> Inr (Whole [], V_Bytes s)
     | Some k \<Rightarrow> Inr (Whole (drop (k + 1) s), V_Bytes (take k s)))"

definition strstop_get :: "bytes \<Rightarrow> int \<Rightarrow> rbuf \<Rightarrow> (rbuf \<times> fval) res" where
  "strstop_get stop additional r =
     rbind (whole r) (\<lambda>s. case find_sub stop s 0 of
       None \<Rightarrow> Inr (Whole [], V_Bytes s)
     | Some k \<Rightarrow> (let k = int k + int (length stop) + additional in Inr (Whole (slice_from k s), V_Bytes (slice_to k s))))"

definition cond_get :: "bool \<Rightarrow> (rbuf \<Rightarrow> (rbuf \<times> fval) res) \<Rightarrow> rbuf \<Rightarrow> (rbuf \<times> fval) res" where
  "cond_get c get r = (if c then get r else Inr (r, V_None))"

definition pad_get :: "int \<Rightarrow> (rbuf \<Rightarrow> (rbuf \<times> fval) res) \<Rightarrow> rbuf \<Rightarrow> (rbuf \<times> fval) res" where
  "pad_get align get r =
     rbind (get r) (\<lambda>(r', v). rbind (whole r) (\<lambda>s. rbind (whole r') (\<lambda>s'.
       rbind (padlen (int (length s) - int (length s')) align) (\<lambda>n. Inr (Whole (slice_from n s'), v)))))"

definition revpad_get :: "int \<Rightarrow> packet \<Rightarrow> (rbuf \<Rightarrow> (rbuf \<times> fval) res) \<Rightarrow> rbuf \<Rightarrow> (rbuf \<times> fval) res" where
  "revpad_get align p get r =
     rbind (whole r) (\<lambda>s. rbind (padlen (int (length (pk_original p)) - int (length s)) align) (\<lambda>n.
       get (Whole (slice_from n s))))"

declare int_get_def [simp] octets_get_def [simp] three_get_def [simp] le_three_get_def [simp] nbytes_get_def [simp]
  str_get_def [simp] strfixed_get_def [simp] strnull_get_def [simp] strstop_get_def [simp] cond_get_def [simp]
  pad_get_def [simp] revpad_get_def [simp]

fun get_field :: "packet \<Rightarrow> fieldt \<Rightarrow> rbuf \<Rightarrow> (rbuf \<times> fval) res" where
  "get_field p (F_Int fmt) r = int_get fmt r"
| "get_field p F_Three r = three_get r"
| "get_field p F_LE_Three r = le_three_get r"
| "get_field p (F_NBytes n) r = nbytes_get n r"
| "get_field p (F_Str remain) r = str_get remain r"
| "get_field p (F_StrFixed len) r = strfixed_get (len p) r"
| "get_field p (F_StrLen len) r = rbind (whole r) (strlen_get (len p) id)"
| "get_field p (F_XLEStrLen len) r = rbind (whole r) (strlen_get (len p) rev)"
| "get_field p (F_NetBIOS len) r = rbind (whole r) (strlen_get len netbios_m2i)"
| "get_field p F_StrNull r = strnull_get r"
| "get_field p (F_StrStop stop additional) r = strstop_get stop additional r"
| "get_field p F_MAC r = octets_get 6 (\<lambda>b. V_Str (str2mac b)) r"
| "get_field p F_LEMAC r = octets_get 6 (\<lambda>b. V_Str (str2mac (rev b))) r"
| "get_field p F_IP r = octets_get 4 (\<lambda>b. V_Str (inet_ntoa b)) r"
| "get_field p (F_FieldLen fmt l c adj) r = int_get fmt r"
| "get_field p (F_Len fmt adj) r = int_get fmt r"
| "get_field p (F_Bit sz tot end_tot) r = bit_get \<bar>sz\<bar> (bit_rev sz tot end_tot) (bit_total sz tot) r"
| "get_field p (F_BitLen len) r = bit_get (len p) False 0 r"
| "get_field p (F_List f len c mx) r =
     list_get (get_field p f) mx (map_option (\<lambda>l. l p) len) (if len = None then map_option (\<lambda>c. c p) c else None) r"
| "get_field p (F_Cond c f) r = cond_get (c p) (get_field p f) r"
| "get_field p (F_Pad f align padwith) r = pad_get align (get_field p f) r"
| "get_field p (F_RevPad f align padwith) r = revpad_get align p (get_field p f) r"
| "get_field p (F_MayEnd f) r = get_field p f r"
| "get_field p (F_Emph f) r = get_field p f r"

fun is_conditional :: "fieldt \<Rightarrow> bool" where
  "is_conditional (F_Cond c f) = True"
| "is_conditional f = False"

fun may_end :: "fieldt \<Rightarrow> bool" where
  "may_end (F_MayEnd f) = True"
| "may_end f = False"

fun may_end_inside :: "fieldt \<Rightarrow> bool" where
  "may_end_inside (F_Cond c f) = may_end f"
| "may_end_inside f = False"

definition store :: "string \<Rightarrow> fieldt \<Rightarrow> fval \<Rightarrow> packet \<Rightarrow> packet" where
  "store n f v p =
     p\<lparr>pk_fields := (pk_fields p)(n \<mapsto> v),
       pk_cache_fields := (if is_list f \<and> v \<noteq> V_None then map_option (\<lambda>fs. filter (\<lambda>(k, _). k \<noteq> n) fs @ [(n, v)]) (pk_cache_fields p) else pk_cache_fields p)\<rparr>"

fun dissect_fields :: "desc \<Rightarrow> packet \<Rightarrow> rbuf \<Rightarrow> (packet \<times> rbuf) res" where
  "dissect_fields [] p s = Inr (p, s)"
| "dissect_fields ((n, f) # fs) p s =
     rbind (get_field p f s) (\<lambda>(s, v).
       if is_conditional f \<and> v = V_None then dissect_fields fs p s
       else
         (let p = store n f v p in
          if exhausted s \<and> (may_end f \<or> (v \<noteq> V_None \<and> may_end_inside f)) then Inr (p, s)
          else dissect_fields fs p s))"

text \<open>The octets that the fields took are kept. A buffer that ends inside an octet is a pair, whose length is two.\<close>

definition do_dissect :: "desc \<Rightarrow> packet \<Rightarrow> bytes \<Rightarrow> (packet \<times> rbuf) res" where
  "do_dissect ds p raw =
     rbind (dissect_fields ds (p\<lparr>pk_cache_fields := Some []\<rparr>) (Whole raw)) (\<lambda>(p, s).
       let n = (case s of Whole s \<Rightarrow> length s | Inside s bn \<Rightarrow> 2) in
       Inr (p\<lparr>pk_cache := Some (if exhausted s then raw else slice_to (- int n) raw)\<rparr>, s))"

end
