(* ===== verification/Field_Wire.thy ===== *)
theory Field_Wire
  imports Py_Fields
begin

text \<open>
  Fields on the wire (\<open>_pyfields.py\<close>): what octets a field stands for, as a relation over the classes of
  fields, and that \<open>addfield\<close> writes them and \<open>getfield\<close> reads them back. Lists rest on the contract
  of their elements, the locale \<open>wire_field\<close>.
\<close>

section \<open>The contract of a field\<close>

locale wire_field =
  fixes put :: "wbuf \<Rightarrow> fval \<Rightarrow> wbuf res" and get :: "rbuf \<Rightarrow> (rbuf \<times> fval) res"
    and wire :: "fval \<Rightarrow> bytes \<Rightarrow> fval \<Rightarrow> bool"
  assumes put: "wire v w v' \<Longrightarrow> put (Aligned s) v = Inr (Aligned (s @ w))"
    and get: "wire v w v' \<Longrightarrow> get (Whole (w @ rest)) = Inr (Whole rest, v')"
begin

abbreviation wires :: "fval list \<Rightarrow> (bytes \<times> fval) list \<Rightarrow> bool" where
  "wires vs ps \<equiv> list_all2 (\<lambda>v p. wire v (fst p) (snd p)) vs ps"

lemma put_all: "wires vs ps \<Longrightarrow>
    fold (\<lambda>v r. rbind r (\<lambda>s. put s v)) vs (Inr (Aligned s)) = Inr (Aligned (s @ concat (map fst ps)))"
  by (induction vs ps arbitrary: s rule: list_all2_induct) (simp_all add: put)

lemma get_counted: "wires vs ps \<Longrightarrow> \<forall>p\<in>set ps. fst p \<noteq> [] \<Longrightarrow> length vs \<le> room \<Longrightarrow>
    items get room (Some (int (length vs))) (Whole (concat (map fst ps) @ rest)) acc = Inr (Whole rest, acc @ map snd ps)"
proof (induction vs ps arbitrary: room acc rule: list_all2_induct)
  case Nil
  then show ?case by (subst items.simps) simp
next
  case (Cons v vs p ps)
  then obtain r where r: "room = Suc r" by (cases room) simp_all
  have g: "get (Whole (fst p @ concat (map fst ps) @ rest)) = Inr (Whole (concat (map fst ps) @ rest), snd p)"
    using get [OF Cons.hyps(1)] .
  from Cons show ?case by (subst items.simps) (simp add: r g)
qed

lemma get_all: "wires vs ps \<Longrightarrow> \<forall>p\<in>set ps. fst p \<noteq> [] \<Longrightarrow> length vs \<le> room \<Longrightarrow>
    items get room None (Whole (concat (map fst ps))) acc = Inr (Whole [], acc @ map snd ps)"
proof (induction vs ps arbitrary: room acc rule: list_all2_induct)
  case Nil
  then show ?case by (subst items.simps) simp
next
  case (Cons v vs p ps)
  then obtain r where r: "room = Suc r" by (cases room) simp_all
  have g: "get (Whole (fst p @ concat (map fst ps))) = Inr (Whole (concat (map fst ps)), snd p)"
    using get [OF Cons.hyps(1)] .
  from Cons show ?case by (subst items.simps) (simp add: r g)
qed

end

section \<open>Integers\<close>

lemma int_pack_length: "int_pack fmt v = Inr w \<Longrightarrow> length w = f_size fmt"
  by (auto simp: int_pack_def Let_def split: if_splits)

lemma mod_signed:
  fixes v :: int
  assumes "0 < n" "- (2 ^ (n - 1)) \<le> v" "v < 2 ^ (n - 1)"
  shows "v mod 2 ^ n = (if v < 0 then v + 2 ^ n else v)"
proof -
  have e: "(2 :: int) ^ n = 2 * 2 ^ (n - 1)" using assms(1) by (cases n) simp_all
  show ?thesis
  proof (cases "v < 0")
    case True
    have "v mod 2 ^ n = (v + 2 ^ n) mod 2 ^ n" by simp
    also have "\<dots> = v + 2 ^ n" by (rule mod_pos_pos_trivial) (use assms e True in simp_all)
    finally show ?thesis using True by simp
  next
    case False
    then show ?thesis using assms e by (simp add: mod_pos_pos_trivial)
  qed
qed

lemma int_unpack_pack:
  assumes "int_pack fmt v = Inr w" "0 < f_size fmt"
  shows "int_unpack_from fmt (w @ rest) = Inr v"
proof -
  let ?n = "f_size fmt" and ?u = "nat (v mod 2 ^ (8 * f_size fmt))"
  have w: "w = (if f_little fmt then to_le else to_be) ?n ?u"
    and r: "if f_signed fmt then - (2 ^ (8 * ?n - 1)) \<le> v \<and> v < 2 ^ (8 * ?n - 1) else 0 \<le> v \<and> v < 2 ^ (8 * ?n)"
    using assms(1) by (auto simp: int_pack_def Let_def split: if_splits)
  have l: "length w = ?n" unfolding w by simp
  have "?u < 256 ^ ?n" by (simp add: nat_less_iff power_mult)
  then have u: "(if f_little fmt then from_le else from_be) (take ?n (w @ rest)) = ?u" unfolding w by simp
  have "(if f_signed fmt \<and> 2 ^ (8 * ?n - 1) \<le> v mod 2 ^ (8 * ?n) then v mod 2 ^ (8 * ?n) - 2 ^ (8 * ?n) else v mod 2 ^ (8 * ?n)) = v"
  proof (cases "f_signed fmt")
    case True
    have "8 * ?n = Suc (8 * ?n - 1)" using assms(2) by simp
    then have e: "(2 :: int) ^ (8 * ?n) = 2 * 2 ^ (8 * ?n - 1)" by (metis power_Suc)
    from True r mod_signed [of "8 * ?n" v] assms(2) e show ?thesis by auto
  qed (use r in simp)
  with u l show ?thesis by (auto simp: int_unpack_from_def Let_def split: if_splits)
qed

section \<open>What a field stands for on the wire\<close>

text \<open>\<open>carries ds p q f v w v'\<close>: the packet \<open>p\<close> is built with the value \<open>v\<close> in the field \<open>f\<close>, \<open>w\<close> are its octets, and
  they are read as \<open>v'\<close> into a packet that so far is \<open>q\<close>.\<close>

fun carries :: "desc \<Rightarrow> packet \<Rightarrow> packet \<Rightarrow> fieldt \<Rightarrow> fval \<Rightarrow> bytes \<Rightarrow> fval \<Rightarrow> bool" where
  "carries ds p q (F_Int fmt) v w v' \<longleftrightarrow> 0 < f_size fmt \<and>
     (\<exists>i. (v = V_Int i \<or> v = V_None \<and> i = 0) \<and> int_pack fmt i = Inr w \<and> v' = V_Int i)"
| "carries ds p q F_Three v w v' \<longleftrightarrow>
     (\<exists>i. (v = V_Int i \<or> v = V_None \<and> i = 0) \<and> 0 \<le> i \<and> i < 2 ^ 24 \<and> w = to_be 3 (nat i) \<and> v' = V_Int i)"
| "carries ds p q F_LE_Three v w v' \<longleftrightarrow>
     (\<exists>i. (v = V_Int i \<or> v = V_None \<and> i = 0) \<and> 0 \<le> i \<and> i < 2 ^ 24 \<and> w = to_le 3 (nat i) \<and> v' = V_Int i)"
| "carries ds p q (F_NBytes n) v w v' \<longleftrightarrow>
     (\<exists>i. (v = V_Int i \<or> v = V_None \<and> i = 0) \<and> 0 \<le> i \<and> i < 256 ^ n \<and> w = to_be n (nat i) \<and> v' = V_Int i)"
| "carries ds p q (F_StrFixed len) v w v' \<longleftrightarrow>
     (\<exists>n b. len p = Some n \<and> len q = Some n \<and> 0 \<le> n \<and> str_i2m v = Inr b \<and> int (length b) \<le> n \<and>
       w = b @ replicate (nat n - length b) 0 \<and> v' = V_Bytes w)"
| "carries ds p q (F_StrLen len) v w v' \<longleftrightarrow> str_i2m v = Inr w \<and> len q = int (length w) \<and> v' = V_Bytes w"
| "carries ds p q (F_XLEStrLen len) v w v' \<longleftrightarrow> xle_i2m v = Inr w \<and> len q = int (length w) \<and> v' = V_Bytes (rev w)"
| "carries ds p q F_StrNull v w v' \<longleftrightarrow> (\<exists>b. str_i2m v = Inr b \<and> 0 \<notin> set b \<and> w = b @ [0] \<and> v' = V_Bytes b)"
| "carries ds p q F_MAC v w v' \<longleftrightarrow> length w = 6 \<and> mac_i2m v = Inr w \<and> v' = V_Str (str2mac w)"
| "carries ds p q F_LEMAC v w v' \<longleftrightarrow> length w = 6 \<and> mac_i2m v = Inr (rev w) \<and> v' = V_Str (str2mac (rev w))"
| "carries ds p q F_IP v w v' \<longleftrightarrow> length w = 4 \<and> ip_i2m v = Inr w \<and> v' = V_Str (inet_ntoa w)"
| "carries ds p q (F_FieldLen fmt l c adj) v w v' \<longleftrightarrow> 0 < f_size fmt \<and>
     (\<exists>i. fieldlen_i2m ds p l c adj v = Inr (V_Int i) \<and> int_pack fmt i = Inr w \<and> v' = V_Int i)"
| "carries ds p q (F_Len fmt adj) v w v' \<longleftrightarrow> 0 < f_size fmt \<and>
     (\<exists>i. (v = V_Int i \<or> v = V_None \<and> i = adj (int (length (pk_payload p)))) \<and> int_pack fmt i = Inr w \<and> v' = V_Int i)"
| "carries ds p q (F_List f l c mx) v w v' \<longleftrightarrow>
     (\<exists>vs ps. v = V_List vs \<and> list_all2 (\<lambda>v x. carries ds p q f v (fst x) (snd x)) vs ps \<and> (\<forall>x\<in>set ps. fst x \<noteq> []) \<and>
       length vs \<le> mx \<and> w = concat (map fst ps) \<and> v' = V_List (map snd ps) \<and>
       (case l of Some l \<Rightarrow> l q = int (length w) | None \<Rightarrow> (case c of Some c \<Rightarrow> c q = int (length vs) | None \<Rightarrow> False)))"
| "carries ds p q (F_Cond c f) v w v' \<longleftrightarrow>
     c p = c q \<and> (if c p then carries ds p q f v w v' else w = [] \<and> v' = V_None)"
| "carries ds p q (F_Pad f align padwith) v w v' \<longleftrightarrow> 0 < align \<and> length padwith = 1 \<and>
     (\<exists>b. carries ds p q f v b v' \<and> w = b @ concat (replicate (nat ((- int (length b)) mod align)) padwith))"
| "carries ds p q (F_MayEnd f) v w v' \<longleftrightarrow> carries ds p q f v w v'"
| "carries ds p q (F_Emph f) v w v' \<longleftrightarrow> carries ds p q f v w v'"
| "carries ds p q _ v w v' \<longleftrightarrow> False"

lemma to_be_front: "to_be (Suc n) v = of_nat (v div 256 ^ n mod 256) # to_be n v"
  by (induction n arbitrary: v) (simp_all add: div_mult2_eq mult.commute)

lemma three_octets:
  assumes "0 \<le> i" "i < 2 ^ 24"
  shows "drop 1 (to_be 4 (nat i)) = to_be 3 (nat i)" "take 3 (to_le 4 (nat i)) = to_le 3 (nat i)"
proof -
  have "nat i div 256 ^ 3 = 0" using assms by simp
  then have t: "to_be (Suc 3) (nat i) = 0 # to_be 3 (nat i)" unfolding to_be_front by simp
  have "Suc 3 = 4" by simp
  note t = t [unfolded this]
  show "drop 1 (to_be 4 (nat i)) = to_be 3 (nat i)" unfolding t by simp
  show "take 3 (to_le 4 (nat i)) = to_le 3 (nat i)" unfolding to_le_def t by simp
qed

lemma nbytes_octets:
  assumes "0 \<le> i"
  shows "rev (map (\<lambda>k. of_int (i div 256 ^ k mod 256)) [0..<n]) = to_be n (nat i)"
  using assms
proof (induction n arbitrary: i)
  case (Suc n)
  have "rev (map (\<lambda>k. of_int (i div 256 ^ k mod 256)) [0..<Suc n]) =
      rev (map (\<lambda>k. of_int (i div 256 div 256 ^ k mod 256)) [0..<n]) @ [of_int (i mod 256) :: byte]"
    by (simp add: map_upt_Suc zdiv_zmult2_eq del: upt_Suc)
  also have "rev (map (\<lambda>k. of_int (i div 256 div 256 ^ k mod 256)) [0..<n]) = to_be n (nat (i div 256))"
    using Suc.prems by (intro Suc.IH) simp
  also have "nat (i div 256) = nat i div 256" using Suc.prems by (simp add: nat_div_distrib)
  also have "(of_int (i mod 256) :: byte) = of_nat (nat i mod 256)"
  proof -
    have "i mod 256 = int (nat i mod 256)" using Suc.prems by (simp add: zmod_int)
    then show ?thesis by (metis of_int_of_nat_eq)
  qed
  finally show ?case by simp
qed simp

lemma to_be_zero: "to_be n 0 = replicate n 0"
  by (induction n) (simp_all add: replicate_append_same)

lemma find_zero: "0 \<notin> set b \<Longrightarrow> find_sub [0] (b @ 0 # rest) k = Some (k + length b)"
  by (induction b arbitrary: k) auto

lemma pack_fits: "length b = nat n \<Longrightarrow> 0 \<le> n \<Longrightarrow> bytes_pack n b = Inr b"
  by (simp add: bytes_pack_def)

lemma three_pack:
  assumes "0 \<le> i" "i < 2 ^ 24"
  shows "int_pack (SFmt 4 False False) i = Inr (to_be 4 (nat i))" "int_pack (SFmt 4 False True) i = Inr (to_le 4 (nat i))"
    "int_unpack_from (SFmt 4 False False) (0 # to_be 3 (nat i)) = Inr i"
    "int_unpack_from (SFmt 4 False True) (to_le 3 (nat i) @ [0]) = Inr i"
proof -
  have n: "nat i < 256 ^ 3" using assms by simp
  show "int_pack (SFmt 4 False False) i = Inr (to_be 4 (nat i))" "int_pack (SFmt 4 False True) i = Inr (to_le 4 (nat i))"
    using assms by (simp_all add: int_pack_def Let_def)
  have "from_be (0 # to_be 3 (nat i)) = nat i" unfolding from_be_Cons using n by simp
  then show "int_unpack_from (SFmt 4 False False) (0 # to_be 3 (nat i)) = Inr i"
    "int_unpack_from (SFmt 4 False True) (to_le 3 (nat i) @ [0]) = Inr i"
    using assms(1) by (simp_all add: int_unpack_from_def Let_def from_le_def to_le_def)
qed

lemmas three_facts = three_pack three_octets [unfolded One_nat_def] three_pack [where i = 0, simplified] three_octets [where i = 0, simplified]

lemma field_i2m_int: "v = V_Int i \<or> v = V_None \<and> i = 0 \<Longrightarrow> field_i2m v = Inr (V_Int i)"
  by (auto simp: field_i2m_def)

lemma int_field:
  assumes "0 < f_size fmt" "int_pack fmt i = Inr w"
  shows "pack_or_value_error fmt (V_Int i) = Inr w" "int_unpack_from fmt (w @ rest) = Inr i" "drop (f_size fmt) w @ drop (f_size fmt - length w) rest = rest"
  using assms int_unpack_pack [OF assms(2,1)] int_pack_length [OF assms(2)] by (simp_all add: pack_or_value_error_def)

lemma strlen_front: "strlen_get (int (length w)) m (w @ rest) = Inr (Whole rest, V_Bytes (if w = [] then [] else m w))"
  by (simp add: strlen_get_def slice_from_def slice_to_def)

lemma list_bounded:
  assumes "wire_field put get wire" "list_all2 (\<lambda>v x. wire v (fst x) (snd x)) vs ps" "\<forall>x\<in>set ps. fst x \<noteq> []" "length vs \<le> mx"
    "w = concat (map fst ps)"
  shows "list_get get mx (Some (int (length w))) None (Whole (w @ rest)) = Inr (Whole rest, V_List (map snd ps))"
    "list_get get mx None (Some (int (length vs))) (Whole (w @ rest)) = Inr (Whole rest, V_List (map snd ps))"
  using wire_field.get_all [OF assms(1-4), of "[]"] wire_field.get_counted [OF assms(1-4), of rest "[]"]
  by (simp_all add: list_get_def slice_to_def slice_from_def assms(5))

lemma carries_wire: "wire_field (\<lambda>s v. add_field ds p f s v) (get_field q f) (carries ds p q f)"
proof (induction f)
  case (F_Int fmt)
  show ?case
    by unfold_locales (auto simp: field_i2m_int int_field)
next
  case F_Three
  show ?case by unfold_locales (auto simp: field_i2m_int three_facts)
next
  case F_LE_Three
  show ?case by unfold_locales (auto simp: field_i2m_int three_facts)
next
  case (F_NBytes n)
  have "nbytes_i2m n v = Inr (to_be n (nat i))" if "v = V_Int i \<or> v = V_None \<and> i = 0" "0 \<le> i" for v i
  proof -
    from that nbytes_octets [OF that(2)] show ?thesis by (auto simp: nbytes_i2m_def to_be_zero)
  qed
  then show ?case by unfold_locales (auto simp: nat_less_iff)
next
  case (F_StrFixed len)
  show ?case by unfold_locales (auto simp: bytes_pack_def strlen_get_def slice_to_def slice_from_def)
next
  case (F_StrLen len)
  show ?case by unfold_locales (auto simp: strlen_front)
next
  case (F_XLEStrLen len)
  show ?case by unfold_locales (auto simp: strlen_front)
next
  case F_StrNull
  show ?case by unfold_locales (auto simp: find_zero)
next
  case F_MAC
  show ?case by unfold_locales (auto simp: bytes_pack_def)
next
  case F_LEMAC
  show ?case by unfold_locales (auto simp: bytes_pack_def)
next
  case F_IP
  show ?case by unfold_locales (auto simp: bytes_pack_def)
next
  case (F_FieldLen fmt l c adj)
  show ?case by unfold_locales (auto simp: int_field)
next
  case (F_Len fmt adj)
  show ?case by unfold_locales (auto simp: int_field)
next
  case (F_List f l c mx)
  show ?case
  proof
    fix v w v' s assume "carries ds p q (F_List f l c mx) v w v'"
    then show "add_field ds p (F_List f l c mx) (Aligned s) v = Inr (Aligned (s @ w))"
      using wire_field.put_all [OF F_List.IH] by (auto simp: field_i2m_def iter_val_def)
  next
    fix v w v' rest assume "carries ds p q (F_List f l c mx) v w v'"
    then show "get_field q (F_List f l c mx) (Whole (w @ rest)) = Inr (Whole rest, v')"
      using list_bounded [OF F_List.IH] by (auto split: option.splits)
  qed
next
  case (F_Cond c f)
  then show ?case by (auto simp: wire_field_def)
next
  case (F_Pad f align padwith)
  have n: "length (concat (replicate k padwith)) = k" if "length padwith = 1" for k using that by (induction k) simp_all
  show ?case
  proof
    fix v w v' s assume "carries ds p q (F_Pad f align padwith) v w v'"
    then obtain b where b: "carries ds p q f v b v'" "0 < align" "w = b @ concat (replicate (nat ((- int (length b)) mod align)) padwith)"
      by auto
    from wire_field.put [OF F_Pad b(1), of "[]"] b(2,3)
    show "add_field ds p (F_Pad f align padwith) (Aligned s) v = Inr (Aligned (s @ w))" by (simp add: padlen_def)
  next
    fix v w v' rest assume "carries ds p q (F_Pad f align padwith) v w v'"
    then obtain b where b: "carries ds p q f v b v'" "0 < align" "length padwith = 1"
      "w = b @ concat (replicate (nat ((- int (length b)) mod align)) padwith)" by auto
    let ?pad = "concat (replicate (nat ((- int (length b)) mod align)) padwith)"
    have "length ?pad = nat ((- int (length b)) mod align)" using n b(3) by simp
    moreover have "get_field q f (Whole (b @ ?pad @ rest)) = Inr (Whole (?pad @ rest), v')" by (rule wire_field.get [OF F_Pad b(1)])
    ultimately show "get_field q (F_Pad f align padwith) (Whole (w @ rest)) = Inr (Whole rest, v')"
      using b(2) unfolding b(4) by (simp add: padlen_def slice_from_def)
  qed
next
  case (F_MayEnd f)
  then show ?case by (simp add: wire_field_def)
next
  case (F_Emph f)
  then show ?case by (simp add: wire_field_def)
qed (unfold_locales; simp)+

text \<open>Every field of the classes above keeps the contract.\<close>

interpretation wf: wire_field "\<lambda>s v. add_field ds p f s v" "get_field q f" "carries ds p q f" for ds p q f
  by (rule carries_wire)

end
