(* ===== verification/Field_Bits.thy ===== *)
theory Field_Bits
  imports Field_Wire
begin

text \<open>
  Groups of bit fields (\<open>_pyfields.py\<close>, \<open>_BitField\<close>): fields that share octets are the digits of one number,
  the first field the highest. A buffer inside the group is determined by that number and the bits done.
\<close>

section \<open>Writing\<close>

lemma mask_nat: "(v :: nat) AND (push_bit n 1 - 1) = v mod 2 ^ n" "v AND (2 ^ n - Suc 0) = v mod 2 ^ n"
proof -
  have "v AND mask n = v mod 2 ^ n" by (simp flip: take_bit_eq_mask add: take_bit_eq_mod)
  then show "v AND (push_bit n 1 - 1) = v mod 2 ^ n" "v AND (2 ^ n - Suc 0) = v mod 2 ^ n"
    by (simp_all add: push_bit_eq_mult mask_eq_exp_minus_1)
qed

lemma mask_int: "(v :: int) AND (push_bit n 1 - 1) = v mod 2 ^ n"
proof -
  have "v AND mask n = v mod 2 ^ n" by (simp flip: take_bit_eq_mask add: take_bit_eq_mod)
  then show ?thesis by (simp add: push_bit_eq_mult mask_eq_exp_minus_1)
qed

lemma to_be_mod: "to_be n (x mod 256 ^ n) = to_be n x"
proof (induction n arbitrary: x)
  case (Suc n)
  have "x mod 256 ^ Suc n div 256 = (x div 256) mod 256 ^ n" by (simp add: mod_mult2_eq)
  moreover have "x mod 256 ^ Suc n mod 256 = x mod 256" by (simp add: mod_mult2_eq)
  ultimately show ?case using Suc.IH [of "x div 256"] by simp
qed simp

lemma to_be_append: "to_be (m + n) v = to_be m (v div 256 ^ n) @ to_be n v"
  by (induction n arbitrary: v) (simp_all add: div_mult2_eq mult.commute)

lemma flush_bits_eq: "v < 2 ^ n \<Longrightarrow> flush_bits n v s = Inr (s @ to_be (n div 8) (v div 2 ^ (n mod 8)), n mod 8, v mod 2 ^ (n mod 8))"
proof (induction n v s rule: flush_bits.induct)
  case (1 n v s)
  show ?case
  proof (cases "8 \<le> n")
    case True
    then obtain m where m: "n = m + 8" by (metis add.commute le_iff_add)
    have q: "v div 2 ^ m < 256" using "1.prems" by (simp add: m power_add less_mult_imp_div_less mult.commute)
    have "flush_bits n v s = flush_bits m (v mod 2 ^ m) (s @ [of_nat (v div 2 ^ m)])"
      using True q by (subst flush_bits.simps) (simp add: m Let_def mask_nat drop_bit_eq_div)
    also have "\<dots> = Inr ((s @ [of_nat (v div 2 ^ m)]) @ to_be (m div 8) (v mod 2 ^ m div 2 ^ (m mod 8)), m mod 8, v mod 2 ^ m mod 2 ^ (m mod 8))"
      using "1.IH" [OF True refl] q by (simp add: m Let_def mask_nat drop_bit_eq_div)
    also have "v mod 2 ^ m mod 2 ^ (m mod 8) = v mod 2 ^ (m mod 8)"
      by (rule mod_mod_cancel) (simp add: le_imp_power_dvd)
    also have "to_be (m div 8) (v mod 2 ^ m div 2 ^ (m mod 8)) = to_be (m div 8) (v div 2 ^ (m mod 8))"
    proof -
      have e: "(2 :: nat) ^ m = 2 ^ (m mod 8) * 256 ^ (m div 8)"
        using power_add [of "2 :: nat" "m mod 8" "8 * (m div 8)"] by (simp add: power_mult)
      have "v mod 2 ^ m div 2 ^ (m mod 8) = v div 2 ^ (m mod 8) mod 256 ^ (m div 8)" unfolding e by (simp add: mod_mult2_eq)
      then show ?thesis by (simp add: to_be_mod)
    qed
    also have "(s @ [of_nat (v div 2 ^ m)]) @ to_be (m div 8) (v div 2 ^ (m mod 8)) = s @ to_be (Suc (m div 8)) (v div 2 ^ (m mod 8))"
    proof -
      have "v div 2 ^ (m mod 8) div 256 ^ (m div 8) = v div 2 ^ m"
        using power_add [of "2 :: nat" "m mod 8" "8 * (m div 8)"] by (simp add: power_mult flip: div_mult2_eq)
      with q show ?thesis unfolding to_be_front by simp
    qed
    finally show ?thesis by (simp add: m)
  next
    case False
    with "1.prems" show ?thesis by (subst flush_bits.simps) simp
  qed
qed

text \<open>The buffer when \<open>N\<close> bits with the value \<open>V\<close> have been written after \<open>s\<close>.\<close>

definition wstate :: "bytes \<Rightarrow> nat \<Rightarrow> nat \<Rightarrow> wbuf" where
  "wstate s N V =
     (if N mod 8 = 0 then Aligned (s @ to_be (N div 8) V)
      else Partial (s @ to_be (N div 8) (V div 2 ^ (N mod 8))) (N mod 8) (V mod 2 ^ (N mod 8)))"

lemma wstate_parts:
  "(case wstate s N V of Aligned s \<Rightarrow> (s, 0, 0) | Partial s n v \<Rightarrow> (s, n, v)) =
    (s @ to_be (N div 8) (V div 2 ^ (N mod 8)), N mod 8, V mod 2 ^ (N mod 8))"
  by (simp add: wstate_def)

lemma octets_join:
  assumes "i < 2 ^ k"
  shows "to_be (N div 8) (V div 2 ^ (N mod 8)) @ to_be ((N mod 8 + k) div 8) ((V mod 2 ^ (N mod 8) * 2 ^ k + i) div 2 ^ ((N + k) mod 8)) =
    to_be ((N + k) div 8) ((V * 2 ^ k + i) div 2 ^ ((N + k) mod 8))"
    "(V mod 2 ^ (N mod 8) * 2 ^ k + i) mod 2 ^ ((N + k) mod 8) = (V * 2 ^ k + i) mod 2 ^ ((N + k) mod 8)"
proof -
  define a where "a = N mod 8"
  define c where "c = (a + k) div 8"
  define r where "r = (N + k) mod 8"
  define v where "v = V mod 2 ^ a * 2 ^ k + i"
  have r8: "r = (a + k) mod 8" by (simp add: r_def a_def mod_add_left_eq)
  have rc: "r + 8 * c = a + k" unfolding r8 c_def by simp
  have "N + k = (a + k) + 8 * (N div 8)" by (simp add: a_def)
  then have n: "(N + k) div 8 = N div 8 + c" by (simp add: c_def)
  have V: "V * 2 ^ k + i = V div 2 ^ a * 2 ^ (a + k) + v"
  proof -
    have "V = V div 2 ^ a * 2 ^ a + V mod 2 ^ a" by (rule div_mult_mod_eq [symmetric])
    then have "V * 2 ^ k = V div 2 ^ a * 2 ^ (a + k) + V mod 2 ^ a * 2 ^ k" by (metis add_mult_distrib mult.assoc power_add)
    then show ?thesis by (simp add: v_def)
  qed
  have e: "(2 :: nat) ^ (a + k) = 2 ^ r * 256 ^ c" unfolding rc [symmetric] by (simp add: power_add power_mult)
  have d: "(V * 2 ^ k + i) div 2 ^ r = V div 2 ^ a * 256 ^ c + v div 2 ^ r"
  proof -
    have "(V * 2 ^ k + i) = (V div 2 ^ a * 256 ^ c) * 2 ^ r + v" unfolding V e by simp
    then show ?thesis by simp
  qed
  have v: "v < 2 ^ (a + k)"
  proof -
    have "V mod 2 ^ a + 1 \<le> 2 ^ a" by (simp add: Suc_leI)
    then have "(V mod 2 ^ a + 1) * 2 ^ k \<le> 2 ^ (a + k)" by (metis mult_le_mono1 power_add)
    with assms show ?thesis by (simp add: v_def)
  qed
  have "v div 2 ^ r < 256 ^ c" using v unfolding e by (simp add: less_mult_imp_div_less mult.commute)
  then have "(V * 2 ^ k + i) div 2 ^ r div 256 ^ c = V div 2 ^ a" unfolding d by simp
  moreover have "to_be c ((V * 2 ^ k + i) div 2 ^ r) = to_be c (v div 2 ^ r)"
    using to_be_mod [of c "(V * 2 ^ k + i) div 2 ^ r"] to_be_mod [of c "v div 2 ^ r"] unfolding d by simp
  ultimately show "to_be (N div 8) (V div 2 ^ (N mod 8)) @ to_be ((N mod 8 + k) div 8) ((V mod 2 ^ (N mod 8) * 2 ^ k + i) div 2 ^ ((N + k) mod 8)) =
    to_be ((N + k) div 8) ((V * 2 ^ k + i) div 2 ^ ((N + k) mod 8))"
    unfolding n to_be_append a_def [symmetric] c_def [symmetric] r_def [symmetric] v_def [symmetric] by simp
  have "(V * 2 ^ k + i) mod 2 ^ r = v mod 2 ^ r"
    unfolding V e by (metis mod_mult_self3 mult.assoc mult.commute)
  then show "(V mod 2 ^ (N mod 8) * 2 ^ k + i) mod 2 ^ ((N + k) mod 8) = (V * 2 ^ k + i) mod 2 ^ ((N + k) mod 8)"
    unfolding a_def [symmetric] r_def [symmetric] v_def [symmetric] by simp
qed

lemma bit_add_step:
  assumes "i < 2 ^ k"
  shows "bit_add (int k) rv e (wstate s N V) (V_Int (int i)) =
    Inr (if (N + k) mod 8 = 0 \<and> rv \<and> 1 < e
       then (let s = s @ to_be ((N + k) div 8) (V * 2 ^ k + i) in Aligned (slice_to (- int e) s @ rev (slice_from (- int e) s)))
       else wstate s (N + k) (V * 2 ^ k + i))"
proof -
  let ?a = "N mod 8" and ?v = "V mod 2 ^ (N mod 8) * 2 ^ k + i"
  have m: "nat (int i AND (push_bit k 1 - 1)) = i" unfolding mask_int using assms by (simp add: nat_mod_as_int flip: of_nat_power zmod_int)
  then have m': "nat (int i AND 2 ^ k - 1) = i" by (simp add: push_bit_eq_mult)
  have o: "push_bit k (V mod 2 ^ ?a) OR i = ?v" using or_disjoint_nat [OF assms] by (simp add: push_bit_eq_mult)
  have v: "?v < 2 ^ (?a + k)"
  proof -
    have "V mod 2 ^ ?a + 1 \<le> 2 ^ ?a" by (simp add: Suc_leI)
    then have "(V mod 2 ^ ?a + 1) * 2 ^ k \<le> 2 ^ (?a + k)" by (metis mult_le_mono1 power_add)
    with assms show ?thesis by simp
  qed
  have r: "(?a + k) mod 8 = (N + k) mod 8" by (simp add: mod_add_left_eq)
  have "flush_bits (?a + k) ?v (s @ to_be (N div 8) (V div 2 ^ ?a)) =
      Inr (s @ to_be ((N + k) div 8) ((V * 2 ^ k + i) div 2 ^ ((N + k) mod 8)), (N + k) mod 8, (V * 2 ^ k + i) mod 2 ^ ((N + k) mod 8))"
    unfolding flush_bits_eq [OF v] r using octets_join(1) [OF assms, of N V] octets_join(2) [OF assms, of V N] by simp
  then show ?thesis
    unfolding bit_add_def wstate_parts by (simp add: field_i2m_def m' o Let_def wstate_def)
qed

section \<open>Reading\<close>

definition rstate :: "bytes \<Rightarrow> bytes \<Rightarrow> nat \<Rightarrow> rbuf" where
  "rstate w rest N =
     (if N mod 8 = 0 then Whole (drop (N div 8) w @ rest) else Inside (drop (N div 8) w @ rest) (N mod 8))"

lemma from_be_drop: "n \<le> length w \<Longrightarrow> from_be (drop n w) = from_be w mod 256 ^ (length w - n)"
proof -
  assume "n \<le> length w"
  have "from_be w = from_be (take n w) * 256 ^ (length w - n) + from_be (drop n w)"
    by (metis append_take_drop_id from_be_append length_drop)
  moreover have "from_be (drop n w) < 256 ^ (length w - n)" by (metis from_be_less length_drop)
  ultimately show ?thesis by simp
qed

lemma from_be_front: "n \<le> length w \<Longrightarrow> from_be (take n w) = from_be w div 256 ^ (length w - n)"
proof -
  assume "n \<le> length w"
  have "from_be w = from_be (take n w) * 256 ^ (length w - n) + from_be (drop n w)"
    by (metis append_take_drop_id from_be_append length_drop)
  moreover have "from_be (drop n w) < 256 ^ (length w - n)" by (metis from_be_less length_drop)
  ultimately show ?thesis by simp
qed

lemma bits_of_octets:
  fixes X :: nat
  assumes "bn + k \<le> 8 * nb" "nb \<le> T"
  shows "X mod 256 ^ T div 256 ^ (T - nb) mod 2 ^ (8 * nb - bn) div 2 ^ (8 * nb - k - bn) = X div 2 ^ (8 * T - bn - k) mod 2 ^ k"
proof -
  have p: "(256 :: nat) ^ n = 2 ^ (8 * n)" for n by (simp add: power_mult)
  have dm: "X mod 2 ^ (a + b) div 2 ^ a = X div 2 ^ a mod 2 ^ b" for X a b :: nat
    by (simp add: power_add mod_mult2_eq)
  have "X mod 256 ^ T div 256 ^ (T - nb) = X div 2 ^ (8 * (T - nb)) mod 2 ^ (8 * nb)"
    unfolding p using dm [of X "8 * (T - nb)" "8 * nb"] assms(2) by (simp add: algebra_simps flip: add_mult_distrib2)
  also have "\<dots> mod 2 ^ (8 * nb - bn) = X div 2 ^ (8 * (T - nb)) mod 2 ^ (8 * nb - bn)"
    by (rule mod_mod_cancel) (simp add: le_imp_power_dvd)
  also have "\<dots> div 2 ^ (8 * nb - k - bn) = X div 2 ^ (8 * (T - nb)) div 2 ^ (8 * nb - k - bn) mod 2 ^ k"
    using dm [of "X div 2 ^ (8 * (T - nb))" "8 * nb - k - bn" k] assms(1) by (simp add: algebra_simps)
  also have "X div 2 ^ (8 * (T - nb)) div 2 ^ (8 * nb - k - bn) = X div 2 ^ (8 * T - bn - k)"
  proof -
    have "8 * (T - nb) + (8 * nb - k - bn) = 8 * T - bn - k" using assms by simp
    then show ?thesis by (simp flip: div_mult2_eq power_add)
  qed
  finally show ?thesis .
qed

lemma bit_get_step:
  assumes "N + k \<le> 8 * length w" "N mod 8 = 0 \<Longrightarrow> \<not> (rv \<and> 1 < tot)"
  shows "bit_get (int k) rv tot (rstate w rest N) =
    Inr (rstate w rest (N + k), V_Int (int (from_be w div 2 ^ (8 * length w - N - k) mod 2 ^ k)))"
proof -
  define d where "d = N div 8"
  define bn where "bn = N mod 8"
  define nb where "nb = (k + bn + 7) div 8"
  define T where "T = length w - d"
  let ?s = "drop d w @ rest"
  have N: "N = 8 * d + bn" by (simp add: d_def bn_def)
  have d: "d \<le> length w" using assms(1) by (simp add: N)
  have nbT: "nb \<le> T" using assms(1) d by (simp add: nb_def T_def N)
  have fit: "bn + k \<le> 8 * nb" by (simp add: nb_def)
  have s: "(case rstate w rest N of Inside s bn \<Rightarrow> (s, bn)
      | Whole s \<Rightarrow> (if rv \<and> 1 < tot then rev (take tot s) @ drop tot s else s, 0)) = (?s, bn)"
    using assms(2) by (auto simp: rstate_def d_def bn_def)
  have nb: "(int k + int bn - 1) div 8 + 1 = int nb" unfolding nb_def by (simp add: zdiv_int)
  have w: "slice_to (int nb) ?s = take nb (drop d w)" using nbT by (simp add: slice_to_def T_def)
  have v: "from_be (take nb (drop d w)) = from_be w mod 256 ^ T div 256 ^ (T - nb)"
    using from_be_front [of nb "drop d w"] from_be_drop [OF d] nbT by (simp add: T_def)
  have e: "8 * length w - N - k = 8 * T - bn - k" using d by (simp add: N T_def diff_mult_distrib2)
  have b: "drop_bit (8 * nb - k - bn) (from_be (take nb (drop d w)) mod 2 ^ (8 * nb - bn)) =
      from_be w div 2 ^ (8 * length w - N - k) mod 2 ^ k"
    unfolding v e drop_bit_eq_div by (rule bits_of_octets [OF fit nbT])
  have n: "nat (int nb * 8 - int bn) = 8 * nb - bn" "nat (int nb * 8 - int k - int bn) = 8 * nb - k - bn"
    "0 \<le> int nb * 8 - int bn" "0 \<le> int nb * 8 - int k - int bn" using fit by simp_all
  have t: "(int bn + int k) div 8 = int ((bn + k) div 8)" "nat ((int bn + int k) mod 8) = (bn + k) mod 8"
    by (simp_all add: zdiv_int nat_mod_as_int)
  have dr: "slice_from (int ((bn + k) div 8)) ?s = drop ((N + k) div 8) w @ rest" "(bn + k) mod 8 = (N + k) mod 8"
  proof -
    have "(N + k) div 8 = d + (bn + k) div 8" by (simp add: N)
    moreover have "d + (bn + k) div 8 \<le> length w" using assms(1) by (simp add: N)
    ultimately show "slice_from (int ((bn + k) div 8)) ?s = drop ((N + k) div 8) w @ rest" by (simp add: slice_from_def add.commute)
    show "(bn + k) mod 8 = (N + k) mod 8" by (simp add: N add.assoc)
  qed
  have l: "int (length (take nb (drop d w))) = int nb" using nbT by (simp add: T_def)
  show ?thesis
    unfolding bit_get_def s Let_def case_prod_conv nb w l n(1,2) mask_nat(1) b t dr
    using n(3,4) by (simp add: rstate_def)
qed

end
