(* ===== verification/Field_Packet.thy ===== *)
theory Field_Packet
  imports Field_Bits
begin

text \<open>
  Packets of fields (\<open>_pylayer.py\<close>, \<open>self_build\<close> and \<open>do_dissect\<close>): what is built is dissected into the
  same fields, whatever mixture of fields and groups of bit fields the class declares.
\<close>

section \<open>Groups of bit fields\<close>

text \<open>A group: the names of its fields, the fields, their sizes and values.\<close>

type_synonym group = "(string \<times> fieldt \<times> nat \<times> nat) list"

definition group_desc :: "group \<Rightarrow> desc" where
  "group_desc g = map (\<lambda>(n, f, k, i). (n, f)) g"

definition group_bits :: "group \<Rightarrow> nat" where
  "group_bits g = sum_list (map (\<lambda>(n, f, k, i). k) g)"

definition group_value :: "group \<Rightarrow> nat" where
  "group_value g = foldl (\<lambda>V (n, f, k, i). V * 2 ^ k + i) 0 g"

text \<open>Fields in the order of the network, with their values in the packet and within their sizes.\<close>

definition group_ok :: "packet \<Rightarrow> group \<Rightarrow> bool" where
  "group_ok p g \<longleftrightarrow> (\<forall>(n, f, k, i)\<in>set g. field_val p n = Inr (V_Int (int i)) \<and> i < 2 ^ k \<and>
     (\<exists>tot e. f = F_Bit (int k) tot e \<and> \<not> bit_rev (int k) tot e))"

definition group_store :: "group \<Rightarrow> packet \<Rightarrow> packet" where
  "group_store g q = fold (\<lambda>(n, f, k, i). store n f (V_Int (int i))) g q"

lemma group_simps [simp]:
  "group_desc [] = []" "group_desc ((n, f, k, i) # g) = (n, f) # group_desc g"
  "group_bits [] = 0" "group_bits ((n, f, k, i) # g) = k + group_bits g"
  "group_store [] q = q" "group_store ((n, f, k, i) # g) q = group_store g (store n f (V_Int (int i)) q)"
  by (simp_all add: group_desc_def group_bits_def group_store_def)

lemma foldl_value: "foldl (\<lambda>V (n, f, k, i). V * 2 ^ k + i) V g = V * 2 ^ group_bits g + group_value g"
proof (induction g arbitrary: V)
  case (Cons x g)
  obtain n f k i where x: "x = (n, f, k, i)" by (cases x) auto
  show ?case using Cons.IH [of "V * 2 ^ k + i"] Cons.IH [of i] by (simp add: x group_value_def power_add algebra_simps)
qed (simp add: group_value_def)

lemma group_value_Cons: "group_value ((n, f, k, i) # g) = i * 2 ^ group_bits g + group_value g"
  using foldl_value [of i g] by (simp add: group_value_def)

lemma group_value_less: "group_ok p g \<Longrightarrow> group_value g < 2 ^ group_bits g"
proof (induction g)
  case (Cons x g)
  obtain n f k i where x: "x = (n, f, k, i)" by (cases x) auto
  have "i + 1 \<le> 2 ^ k" using Cons.prems by (simp add: x group_ok_def Suc_leI)
  then have "(i + 1) * 2 ^ group_bits g \<le> 2 ^ k * 2 ^ group_bits g" by (rule mult_le_mono1)
  moreover have "group_value g < 2 ^ group_bits g" using Cons by (simp add: x group_ok_def)
  ultimately show ?case by (simp add: x group_value_Cons power_add)
qed (simp add: group_value_def)


lemma dissect_group:
  assumes "group_ok p g" "N + group_bits g + M = 8 * length w" "V < 2 ^ M"
    "from_be w mod 2 ^ (group_bits g + M) = group_value g * 2 ^ M + V"
  shows "dissect_fields (group_desc g @ fs) q (rstate w rest N) = dissect_fields fs (group_store g q) (rstate w rest (N + group_bits g))"
  using assms
proof (induction g arbitrary: N q)
  case (Cons x g)
  obtain n f k i where x: "x = (n, f, k, i)" by (cases x) auto
  then obtain tot e where f: "i < 2 ^ k" "f = F_Bit (int k) tot e" "\<not> bit_rev (int k) tot e"
    using Cons.prems(1) by (auto simp: group_ok_def)
  have ok: "group_ok p g" using Cons.prems(1) by (simp add: group_ok_def)
  let ?B = "group_bits g" and ?X = "from_be w"
  have X: "?X mod 2 ^ (k + (?B + M)) = (i * 2 ^ ?B + group_value g) * 2 ^ M + V"
    using Cons.prems(4) by (simp add: x group_value_Cons add.assoc)
  have low: "group_value g * 2 ^ M + V < 2 ^ (?B + M)"
  proof -
    have "(group_value g + 1) * 2 ^ M \<le> 2 ^ ?B * 2 ^ M" using group_value_less [OF ok] by (intro mult_le_mono1) simp
    with Cons.prems(3) show ?thesis by (simp add: power_add)
  qed
  have split: "?X mod 2 ^ (k + (?B + M)) = i * 2 ^ (?B + M) + (group_value g * 2 ^ M + V)"
    unfolding X by (simp add: power_add algebra_simps)
  have "?X div 2 ^ (?B + M) mod 2 ^ k = ?X mod 2 ^ ((?B + M) + k) div 2 ^ (?B + M)"
    by (simp add: power_add [of _ "?B + M" k] mod_mult2_eq)
  also have "\<dots> = i" using split low by (simp add: add.commute)
  finally have v: "?X div 2 ^ (8 * length w - N - k) mod 2 ^ k = i"
    using Cons.prems(2) by (simp add: x) (metis add.assoc add.commute diff_add_inverse diff_diff_left)
  have rest': "?X mod 2 ^ (?B + M) = group_value g * 2 ^ M + V"
  proof -
    have "?X mod 2 ^ (?B + M) = ?X mod 2 ^ (k + (?B + M)) mod 2 ^ (?B + M)"
      by (rule mod_mod_cancel [symmetric]) (simp add: le_imp_power_dvd)
    with split low show ?thesis by simp
  qed
  have "N + k \<le> 8 * length w" using Cons.prems(2) by (simp add: x)
  from bit_get_step [OF this, of False "bit_total (int k) tot" rest] v f(3)
  have "get_field q f (rstate w rest N) = Inr (rstate w rest (N + k), V_Int (int i))" by (simp add: f(2))
  moreover have "dissect_fields (group_desc g @ fs) (store n f (V_Int (int i)) q) (rstate w rest (N + k)) =
      dissect_fields fs (group_store g (store n f (V_Int (int i)) q)) (rstate w rest (N + k + ?B))"
    using Cons.prems(2) by (intro Cons.IH [OF ok _ Cons.prems(3) rest']) (simp add: x)
  ultimately show ?case by (simp add: x f(2) Let_def add.assoc)
qed simp

section \<open>Packets\<close>

text \<open>\<open>lays_out ds p pay q fs w q'\<close>: the fields \<open>fs\<close> of the packet \<open>p\<close> are the octets \<open>w\<close>, followed by the
  payload \<open>pay\<close>; reading them takes the packet from \<open>q\<close> to \<open>q'\<close>.\<close>

inductive lays_out :: "desc \<Rightarrow> packet \<Rightarrow> bytes \<Rightarrow> packet \<Rightarrow> desc \<Rightarrow> bytes \<Rightarrow> packet \<Rightarrow> bool" for ds p pay where
  nothing: "lays_out ds p pay q [] [] q"
| remainder: "field_val p n = Inr v \<Longrightarrow> str_i2m v = Inr w \<Longrightarrow> length pay = r \<Longrightarrow>
    lays_out ds p pay q [(n, F_Str r)] w (store n (F_Str r) (V_Bytes w) q)"
| absent: "field_val p n = Inr v \<Longrightarrow> carries ds p q f v [] V_None \<Longrightarrow> is_conditional f \<Longrightarrow> lays_out ds p pay q fs ws q' \<Longrightarrow>
    lays_out ds p pay q ((n, f) # fs) ws q'"
| field: "field_val p n = Inr v \<Longrightarrow> carries ds p q f v w v' \<Longrightarrow> v' \<noteq> V_None \<Longrightarrow>
    lays_out ds p pay (store n f v' q) fs ws q' \<Longrightarrow> (may_end f \<or> may_end_inside f \<longrightarrow> ws @ pay \<noteq> [] \<or> fs = []) \<Longrightarrow>
    lays_out ds p pay q ((n, f) # fs) (w @ ws) q'"
| bits: "group_ok p g \<Longrightarrow> group_bits g = 8 * m \<Longrightarrow> lays_out ds p pay (group_store g q) fs ws q' \<Longrightarrow>
    lays_out ds p pay q (group_desc g @ fs) (to_be m (group_value g) @ ws) q'"


lemma dissect_layout: "lays_out ds p pay q fs w q' \<Longrightarrow> dissect_fields fs q (Whole (w @ pay)) = Inr (q', Whole pay)"
proof (induction rule: lays_out.induct)
  case (remainder n v w r q)
  then show ?case by (auto simp: slice_from_def slice_to_def Let_def)
next
  case (absent n v q f fs ws q')
  then show ?case using wf.get [OF absent.hyps(2), of "ws @ pay"] by simp
next
  case (field n v q f w v' fs ws q')
  have g: "get_field q f (Whole (w @ ws @ pay)) = Inr (Whole (ws @ pay), v')" by (rule wf.get [OF field.hyps(2)])
  have stop: "fs = [] \<Longrightarrow> ws @ pay = [] \<Longrightarrow> q' = store n f v' q \<and> pay = []"
    using field.IH by simp
  show ?case using field.hyps(3,5) field.IH g stop by (auto simp: Let_def)
next
  case (bits g m q fs ws q')
  let ?w = "to_be m (group_value g)"
  have less: "group_value g < 2 ^ (8 * m)" using group_value_less [OF bits.hyps(1)] bits.hyps(2) by simp
  then have "group_value g < 256 ^ m" by (simp add: power_mult)
  then have "from_be ?w = group_value g" by (rule from_be_to_be)
  then have "dissect_fields (group_desc g @ fs) q (rstate ?w (ws @ pay) 0) =
      dissect_fields fs (group_store g q) (rstate ?w (ws @ pay) (8 * m))"
    using dissect_group [OF bits.hyps(1), of 0 0 ?w 0 fs q "ws @ pay"] bits.hyps(2) less by simp
  with bits.IH show ?case by (simp add: rstate_def)
qed simp


section \<open>An example\<close>

text \<open>Two fields of four bits, a length that is computed, and the octets it counts.\<close>

definition sample_desc :: desc where
  "sample_desc =
     [(''v'', F_Bit 4 0 0), (''h'', F_Bit 4 0 0), (''len'', F_FieldLen (SFmt 2 False False) (Some ''s'') None (\<lambda>_ x. x)),
      (''s'', F_StrLen (\<lambda>p. case field_val p ''len'' of Inr (V_Int n) \<Rightarrow> n | _ \<Rightarrow> 0))]"

definition sample_packet :: packet where
  "sample_packet =
     \<lparr>pk_fields = [''v'' \<mapsto> V_Int 4, ''h'' \<mapsto> V_Int 5, ''s'' \<mapsto> V_Bytes [97, 98, 99]], pk_overloaded = Map.empty,
      pk_default = [''v'' \<mapsto> V_Int 0, ''h'' \<mapsto> V_Int 0, ''len'' \<mapsto> V_None, ''s'' \<mapsto> V_Bytes []], pk_payload = [],
      pk_below = (\<lambda>_. Inl Attribute_Error), pk_original = [], pk_cache = None, pk_cache_fields = None\<rparr>"

lemma sample_layout:
  fixes q :: packet
  defines "g \<equiv> [(''v'', F_Bit 4 0 0, 4, 4), (''h'', F_Bit 4 0 0, 4, 5 :: nat)]"
  defines "q1 \<equiv> store ''len'' (F_FieldLen (SFmt 2 False False) (Some ''s'') None (\<lambda>_ x. x)) (V_Int 3) (group_store g q)"
  shows "lays_out sample_desc sample_packet [1, 2] q sample_desc [0x45, 0, 3, 97, 98, 99]
    (store ''s'' (F_StrLen (\<lambda>p. case field_val p ''len'' of Inr (V_Int n) \<Rightarrow> n | _ \<Rightarrow> 0)) (V_Bytes [97, 98, 99]) q1)"
    (is "lays_out ?ds ?p ?pay q _ _ ?q2")
proof -
  let ?len = "F_FieldLen (SFmt 2 False False) (Some ''s'') None (\<lambda>_ x. x)"
  let ?s = "F_StrLen (\<lambda>p. case field_val p ''len'' of Inr (V_Int n) \<Rightarrow> n | _ \<Rightarrow> 0)"
  have v: "field_val ?p ''v'' = Inr (V_Int 4)" "field_val ?p ''h'' = Inr (V_Int 5)" "field_val ?p ''len'' = Inr V_None"
    "field_val ?p ''s'' = Inr (V_Bytes [97, 98, 99])"
    by (simp_all add: field_val_def own_val_def sample_packet_def)
  have "field_val q1 ''len'' = Inr (V_Int 3)" by (simp add: q1_def field_val_def own_val_def store_def)
  then have "carries ?ds ?p q1 ?s (V_Bytes [97, 98, 99]) [97, 98, 99] (V_Bytes [97, 98, 99])"
    by (simp add: str_i2m_def bytes_encode_def)
  from lays_out.field [OF v(4) this _ lays_out.nothing [of ?ds ?p ?pay ?q2]]
  have s: "lays_out ?ds ?p ?pay q1 [(''s'', ?s)] [97, 98, 99] ?q2" by simp
  have "fieldlen_i2m ?ds ?p (Some ''s'') None (\<lambda>_ x. x) V_None = Inr (V_Int 3)"
    by (simp add: fieldlen_i2m_def field_and_val_def own_val_def sample_packet_def sample_desc_def int_res_def str_i2len_def)
  moreover have "int_pack (SFmt 2 False False) 3 = Inr [0, 3]" by code_simp
  ultimately have "carries ?ds ?p (group_store g q) ?len V_None [0, 3] (V_Int 3)" by simp
  from lays_out.field [OF v(3) this _ s [unfolded q1_def]]
  have l: "lays_out ?ds ?p ?pay (group_store g q) [(''len'', ?len), (''s'', ?s)] [0, 3, 97, 98, 99] ?q2" by (simp add: q1_def)
  have ok: "group_ok ?p g" using v by (auto simp: g_def group_ok_def bit_rev_def)
  have b: "group_bits g = 8 * 1" by (simp add: g_def)
  have d: "group_desc g @ [(''len'', ?len), (''s'', ?s)] = ?ds" by (simp add: g_def sample_desc_def)
  have o: "to_be 1 (group_value g) @ [0, 3, 97, 98, 99] = [0x45, 0, 3, 97, 98, 99]" by (simp add: g_def group_value_def)
  from lays_out.bits [OF ok b l] show ?thesis unfolding d o .
qed


section \<open>Packets that were dissected\<close>

lemma own_val_store: "own_val (store n f v p) k = (if k = n then Some v else own_val p k)"
  by (auto simp: store_def own_val_def split: option.split)

lemma dissect_keeps:
  "dissect_fields fs p s = Inr (p', s') \<Longrightarrow> pk_cache_fields p = Some cs \<Longrightarrow> list_all (\<lambda>(n, v). own_val p n = Some v) cs \<Longrightarrow>
    distinct (map fst fs) \<Longrightarrow> fst ` set cs \<inter> fst ` set fs = {} \<Longrightarrow>
    (\<exists>cs'. pk_cache_fields p' = Some cs' \<and> list_all (\<lambda>(n, v). own_val p' n = Some v) cs')"
proof (induction fs p s arbitrary: cs rule: dissect_fields.induct)
  case (2 n f fs p s)
  from "2.prems"(1) obtain s1 v where g: "get_field p f s = Inr (s1, v)" by (auto simp: rbind_Inr_iff)
  let ?p = "store n f v p"
  let ?cs = "if is_list f \<and> v \<noteq> V_None then filter (\<lambda>(k, _). k \<noteq> n) cs @ [(n, v)] else cs"
  have cs: "pk_cache_fields ?p = Some ?cs" using "2.prems"(2) by (simp add: store_def)
  have new: "\<forall>x\<in>set cs. fst x \<noteq> n" using "2.prems"(5) by auto
  have ok: "list_all (\<lambda>(n, v). own_val ?p n = Some v) ?cs"
    using "2.prems"(3) new by (fastforce simp: list_all_iff own_val_store)
  have dis: "fst ` set ?cs \<inter> fst ` set fs = {}" using "2.prems"(4,5) by (auto simp: image_iff)
  show ?case
  proof (cases "is_conditional f \<and> v = V_None")
    case True
    then have d: "dissect_fields fs p s1 = Inr (p', s')" using "2.prems"(1) g by simp
    from "2.IH"(1) [OF True d "2.prems"(2,3)] "2.prems"(4,5) show ?thesis by auto
  next
    case False
    show ?thesis
    proof (cases "exhausted s1 \<and> (may_end f \<or> (v \<noteq> V_None \<and> may_end_inside f))")
      case True
      with False "2.prems"(1) g have "p' = ?p" by (auto simp: Let_def split: if_splits)
      with cs ok show ?thesis by blast
    next
      case ne: False
      have d: "dissect_fields fs ?p s1 = Inr (p', s')" using "2.prems"(1) g False ne by (auto simp: Let_def)
      from "2.IH"(2) [OF False refl ne d cs ok _ dis] "2.prems"(4) show ?thesis by simp
    qed
  qed
qed auto

text \<open>A packet that was dissected and not changed is built from the octets it was dissected from, whatever its
  fields would have made of its values.\<close>

lemma dissected_rebuilds:
  assumes "do_dissect ds q raw = Inr (p, Whole s)" "distinct (map fst ds)"
  shows "self_build ds p = Inr (Aligned (take (length raw - length s) raw))"
proof -
  from assms(1) obtain p1 where d: "dissect_fields ds (q\<lparr>pk_cache_fields := Some []\<rparr>) (Whole raw) = Inr (p1, Whole s)"
    and p: "p = p1\<lparr>pk_cache := Some (if s = [] then raw else slice_to (- int (length s)) raw)\<rparr>"
    by (auto simp: do_dissect_def rbind_Inr_iff)
  from dissect_keeps [OF d _ _ assms(2), of "[]"] obtain cs where
    cs: "pk_cache_fields p1 = Some cs" "list_all (\<lambda>(n, v). own_val p1 n = Some v) cs" by auto
  have "own_val p n = own_val p1 n" for n unfolding p by (auto simp: own_val_def split: option.split)
  with cs have "cache_valid p" by (simp add: cache_valid_def p list_all_iff case_prod_beta)
  then show ?thesis by (simp add: self_build_def p slice_to_def)
qed

lemma dissected_rebuilds_witness:
  "\<exists>p. do_dissect sample_desc sample_packet [0x45, 0, 3, 97, 98, 99, 1, 2] = Inr (p, Whole [1, 2]) \<and>
    self_build sample_desc p = Inr (Aligned [0x45, 0, 3, 97, 98, 99])"
proof -
  obtain p where d: "do_dissect sample_desc sample_packet [0x45, 0, 3, 97, 98, 99, 1, 2] = Inr (p, Whole [1, 2])"
    using dissect_layout [OF sample_layout, of "sample_packet\<lparr>pk_cache_fields := Some []\<rparr>"] by (simp add: do_dissect_def)
  have "distinct (map fst sample_desc)" by (simp add: sample_desc_def)
  from dissected_rebuilds [OF d this] d show ?thesis by (auto simp: eval_nat_numeral)
qed

end
