(* ===== verification/Field_Limits.thy ===== *)
theory Field_Limits
  imports Field_Packet
begin

text \<open>
  Where fields stop (\<open>_pyfields.py\<close>): the bounds of lists, names of NetBIOS, and values that do not come back.
\<close>

section \<open>Lists\<close>

lemma items_length:
  "items g room c s acc = Inr (s', vs) \<Longrightarrow> length vs \<le> length acc + room \<and>
    (\<forall>k. c = Some k \<longrightarrow> length vs \<le> length acc + nat k)"
proof (induction g room c s acc rule: items.induct)
  case (1 g room c s acc)
  show ?case
  proof (cases "exhausted s \<or> (case c of None \<Rightarrow> False | Some k \<Rightarrow> k \<le> 0)")
    case True
    with "1.prems" [unfolded items.simps [of g room c s acc]] show ?thesis by (auto split: if_splits)
  next
    case False
    then obtain s1 v r where r: "g s = Inr (s1, v)" "room = Suc r"
      "items g r (map_option (\<lambda>k. k - 1) c) s1 (acc @ [v]) = Inr (s', vs)"
      using "1.prems" [unfolded items.simps [of g room c s acc]] by (cases room) (auto simp: rbind_Inr_iff)
    have "\<not> exhausted s" "\<not> (case c of None \<Rightarrow> False | Some k \<Rightarrow> k \<le> 0)" using False by simp_all
    from "1.IH" [OF this r(2,3)] r(2) False show ?thesis by (auto split: option.splits)
  qed
qed

text \<open>A list of fields stays within its bounds whatever the octets: reading one returns at most the number
  of elements that the class allows, and at most as many as were announced.\<close>

lemma list_within_bounds:
  assumes "get_field q (F_List f l c mx) s = Inr (s', v)"
  shows "\<exists>vs. v = V_List vs \<and> length vs \<le> mx \<and> (\<forall>n. l = None \<and> c = Some n \<longrightarrow> length vs \<le> nat (n q))"
proof -
  let ?c = "if l = None then map_option (\<lambda>c. c q) c else None"
  from assms obtain vs s1 s2 where vs: "v = V_List vs" "items (get_field q f) mx ?c s1 [] = Inr (s2, vs)"
    unfolding get_field.simps list_get_def by (auto simp: rbind_Inr_iff)
  with items_length [OF vs(2)] show ?thesis by auto
qed

lemma list_within_bounds_witness:
  "\<exists>s v vs. get_field sample_packet (F_List (F_Int (SFmt 1 False False)) None (Some (\<lambda>_. 2)) 100) (Whole [7, 8, 9]) = Inr (s, v) \<and>
    v = V_List vs \<and> length vs \<le> 2"
proof -
  let ?f = "F_List (F_Int (SFmt 1 False False)) None (Some (\<lambda>_. 2)) 100"
  have "carries [] sample_packet sample_packet (F_Int (SFmt 1 False False)) (V_Int 7) [7] (V_Int 7)" "carries [] sample_packet sample_packet (F_Int (SFmt 1 False False)) (V_Int 8) [8] (V_Int 8)"
    by (simp_all add: int_pack_def)
  then have "carries [] sample_packet sample_packet ?f (V_List [V_Int 7, V_Int 8]) [7, 8] (V_List [V_Int 7, V_Int 8])"
    unfolding carries.simps
    by (intro exI [of _ "[V_Int 7, V_Int 8]"] exI [of _ "[([7], V_Int 7), ([8], V_Int 8)]"]) simp
  from wf.get [OF this, of "[9]"] have g: "get_field sample_packet ?f (Whole [7, 8, 9]) = Inr (Whole [9], V_List [V_Int 7, V_Int 8])" by simp
  from list_within_bounds [OF g] g show ?thesis by auto
qed

section \<open>Values that do not come back\<close>

text \<open>A field of three octets takes values of four without an error and keeps the low three octets.\<close>

lemma three_octets_truncate:
  assumes "0 \<le> i" "i < 2 ^ 32"
  shows "add_field ds p F_Three (Aligned s) (V_Int i) = Inr (Aligned (s @ to_be 3 (nat (i mod 2 ^ 24)))) \<and>
    get_field q F_Three (Whole (to_be 3 (nat (i mod 2 ^ 24)) @ rest)) = Inr (Whole rest, V_Int (i mod 2 ^ 24))"
proof
  have "drop (Suc 0) (to_be 4 (nat i)) = to_be 3 (nat i)" using to_be_front [of 3 "nat i"] by simp
  also have "\<dots> = to_be 3 (nat i mod 256 ^ 3)" by (simp only: to_be_mod)
  also have "nat i mod 256 ^ 3 = nat (i mod 2 ^ 24)" using assms(1) by (simp add: nat_mod_distrib)
  finally show "add_field ds p F_Three (Aligned s) (V_Int i) = Inr (Aligned (s @ to_be 3 (nat (i mod 2 ^ 24))))"
    using assms by (simp add: field_i2m_def int_pack_def Let_def)
  show "get_field q F_Three (Whole (to_be 3 (nat (i mod 2 ^ 24)) @ rest)) = Inr (Whole rest, V_Int (i mod 2 ^ 24))"
    by (rule wf.get [of ds p q F_Three "V_Int (i mod 2 ^ 24)"]) simp
qed

lemma three_octets_truncate_witness:
  "add_field [] sample_packet F_Three (Aligned []) (V_Int 0x1000002) = Inr (Aligned [0, 0, 2])"
proof -
  have "to_be 3 2 = [0, 0, 2]" by code_simp
  with three_octets_truncate [where i = "0x1000002" and ds = "[]" and p = sample_packet and s = "[]"] show ?thesis by simp
qed

text \<open>Two fields of sixteen bits that share four octets in little-endian order.\<close>

abbreviation le_pair :: desc where
  "le_pair \<equiv> [(''a'', F_Bit 16 (- 4) 0), (''b'', F_Bit 16 0 (- 4))]"

lemma slices_end: "length t = n \<Longrightarrow> 0 < n \<Longrightarrow> slice_to (- int n) (s @ t) @ rev (slice_from (- int n) (s @ t)) = s @ rev t"
  by (simp add: slice_to_def slice_from_def)

lemma bit_get_aligned:
  assumes "length w = n"
  shows "bit_get (int (8 * n)) False tot (Whole (w @ rest)) = Inr (Whole rest, V_Int (int (from_be w)))"
proof -
  have "from_be w mod 2 ^ (8 * n) = from_be w" using from_be_less [of w] assms by (simp add: power_mult)
  with bit_get_step [of 0 "8 * n" w False tot rest] assms show ?thesis by (simp add: rstate_def)
qed

lemma bit_get_rev: "1 < tot \<Longrightarrow> bit_get sz True tot (Whole s) = bit_get sz False tot (Whole (rev (take tot s) @ drop tot s))"
  by (simp add: bit_get_def)

text \<open>A little-endian group of bit fields whose boundary falls on an octet does not come back: when the first
  field is complete its octets are swapped too early, and every value is read with its octets exchanged.\<close>

lemma le_group_swapped:
  assumes "field_val p ''a'' = Inr (V_Int (int a))" "field_val p ''b'' = Inr (V_Int (int b))" "a < 65536" "b < 65536"
  shows "build_fields ds p le_pair (Aligned []) = Inr (Aligned (to_le 2 b @ to_be 2 a)) \<and>
    (\<exists>q'. dissect_fields le_pair q (Whole (to_le 2 b @ to_be 2 a)) = Inr (q', Whole []) \<and>
      own_val q' ''a'' = Some (V_Int (int (from_be (to_le 2 a)))) \<and> own_val q' ''b'' = Some (V_Int (int (from_be (to_le 2 b)))))"
proof
  have a: "bit_add 16 True 2 (Aligned []) (V_Int (int a)) = Inr (Aligned (to_le 2 a))"
    using bit_add_step [of a 16 True 2 "[]" 0 0] slices_end [of "to_be 2 a" 2 "[]"] assms(3)
    by (simp add: wstate_def to_le_def)
  have b: "bit_add 16 True 4 (Aligned (to_le 2 a)) (V_Int (int b)) = Inr (Aligned (to_le 2 b @ to_be 2 a))"
    using bit_add_step [of b 16 True 4 "to_le 2 a" 0 0] slices_end [of "to_le 2 a @ to_be 2 b" 4 "[]"] assms(4)
    by (simp add: wstate_def to_le_def)
  show "build_fields ds p le_pair (Aligned []) = Inr (Aligned (to_le 2 b @ to_be 2 a))"
    using assms(1,2) a b by (simp add: bit_rev_def bit_total_def)
  have ra: "bit_get 16 True 4 (Whole (to_le 2 b @ to_be 2 a)) = Inr (Whole (to_be 2 b), V_Int (int (from_be (to_le 2 a))))"
    using bit_get_rev [of 4 16 "to_le 2 b @ to_be 2 a"] bit_get_aligned [of "to_le 2 a" 2 4 "to_be 2 b"] by (simp add: to_le_def)
  have rb: "bit_get 16 True 2 (Whole (to_be 2 b)) = Inr (Whole [], V_Int (int (from_be (to_le 2 b))))"
    using bit_get_rev [of 2 16 "to_be 2 b"] bit_get_aligned [of "to_le 2 b" 2 2 "[]"] by (simp add: to_le_def)
  show "\<exists>q'. dissect_fields le_pair q (Whole (to_le 2 b @ to_be 2 a)) = Inr (q', Whole []) \<and>
      own_val q' ''a'' = Some (V_Int (int (from_be (to_le 2 a)))) \<and> own_val q' ''b'' = Some (V_Int (int (from_be (to_le 2 b))))"
    using ra rb by (simp add: bit_rev_def bit_total_def Let_def own_val_store)
qed

lemma le_group_swapped_witness:
  "\<exists>p q'. build_fields [] p le_pair (Aligned []) = Inr (Aligned [2, 1, 0xA1, 0xA2]) \<and>
    dissect_fields le_pair sample_packet (Whole [2, 1, 0xA1, 0xA2]) = Inr (q', Whole []) \<and> own_val q' ''a'' = Some (V_Int 0xA2A1)"
proof -
  let ?p = "store ''b'' F_Three (V_Int (int 0x0102)) (store ''a'' F_Three (V_Int (int 0xA1A2)) sample_packet)"
  have v: "field_val ?p ''a'' = Inr (V_Int (int 0xA1A2))" "field_val ?p ''b'' = Inr (V_Int (int 0x0102))"
    by (simp_all add: field_val_def own_val_store)
  have o: "to_le 2 0x0102 @ to_be 2 0xA1A2 = [2, 1, 0xA1, 0xA2]" "from_be (to_le 2 0xA1A2) = 0xA2A1" by code_simp+
  from le_group_swapped [OF v, of "[]" sample_packet] show ?thesis unfolding o by auto
qed

section \<open>Names of NetBIOS\<close>

lemma low_nibble: "(x :: byte) AND 0xF = take_bit 4 x"
  by (simp add: take_bit_eq_mask mask_eq_exp_minus_1)

lemma nibble_shift: "take_bit 4 (0x41 + x - 1 :: byte) = take_bit 4 x"
proof -
  have "unat (take_bit 4 (0x40 + x)) = (0x40 + unat x) mod 256 mod 16"
    by (simp add: unsigned_take_bit_eq take_bit_eq_mod unat_word_ariths)
  also have "\<dots> = (0x40 + unat x) mod 16" by (rule mod_mod_cancel) simp
  also have "\<dots> = unat x mod 16" using mod_mult_self1 [of "unat x" 4 16] by (simp add: add.commute)
  also have "\<dots> = unat (take_bit 4 x)" by (simp only: unsigned_take_bit_eq) (simp add: take_bit_eq_mod)
  finally show ?thesis by (simp add: word_unat_eq_iff)
qed

lemma nibbles_join: "push_bit 4 ((0x41 + drop_bit 4 b - 1) AND 0xF) + ((0x41 + (b AND 0xF) - 1) AND 0xF) = (b :: byte)"
proof -
  have "take_bit 4 (drop_bit 4 b) = drop_bit 4 b" by (rule bit_word_eqI) (auto simp: bit_simps dest: bit_imp_le_length)
  then show ?thesis unfolding low_nibble nibble_shift by (simp add: bits_ident)
qed

lemma nibble_nonzero: "0x41 + drop_bit 4 (b :: byte) \<noteq> 0" "0x41 + (b AND 0xF) \<noteq> 0"
proof -
  have "unat (drop_bit 4 b) = unat b div 16" by (simp add: drop_bit_eq_div unat_div)
  then have "unat (drop_bit 4 b) < 16" using unsigned_less [of b] by (simp add: less_mult_imp_div_less)
  then have "unat (0x41 + drop_bit 4 b) = 65 + unat (drop_bit 4 b)" by (simp add: unat_word_ariths)
  then show "0x41 + drop_bit 4 b \<noteq> 0" by (metis add_is_0 unat_0 zero_neq_numeral)
  have "unat (b AND 0xF) < 16" by (simp only: low_nibble unsigned_take_bit_eq) (simp add: take_bit_eq_mod)
  then have "unat (0x41 + (b AND 0xF)) = 65 + unat (b AND 0xF)" by (simp add: unat_word_ariths)
  then show "0x41 + (b AND 0xF) \<noteq> 0" by (metis add_is_0 unat_0 zero_neq_numeral)
qed

lemma every_other_pairs:
  "every_other (concat (map (\<lambda>b. [f b, g b]) x)) = map f x"
  "every_other (drop (Suc 0) (concat (map (\<lambda>b. [f b, g b]) x))) = map g x"
proof -
  show "every_other (concat (map (\<lambda>b. [f b, g b]) x)) = map f x" by (induction x) simp_all
  have "every_other (c # concat (map (\<lambda>b. [f b, g b]) x)) = c # map g x" for c
    by (induction x arbitrary: c) simp_all
  then show "every_other (drop (Suc 0) (concat (map (\<lambda>b. [f b, g b]) x))) = map g x" by (cases x) simp_all
qed

lemma strip_none: "c \<notin> set s \<Longrightarrow> strip_byte c s = s"
proof -
  assume "c \<notin> set s"
  then have "dropWhile (\<lambda>x. x = c) s = s" "dropWhile (\<lambda>x. x = c) (rev s) = rev s"
    using hd_in_set [of s] hd_in_set [of "rev s"] by (auto simp: dropWhile_eq_self_iff)
  then show ?thesis by (simp add: strip_byte_def)
qed

lemma rstrip_blanks: "b = [] \<or> last b \<noteq> c \<Longrightarrow> rstrip_byte c (b @ replicate k c) = b"
proof -
  assume b: "b = [] \<or> last b \<noteq> c"
  then have "dropWhile (\<lambda>x. x = c) (rev b) = rev b" by (auto simp: dropWhile_eq_self_iff hd_rev)
  then show ?thesis by (simp add: rstrip_byte_def dropWhile_append)
qed

lemma netbios_m2i_pairs:
  "netbios_m2i (c # concat (map (\<lambda>b. [0x41 + drop_bit 4 b, 0x41 + (b AND 0xF)]) x)) = rstrip_byte 0x20 x"
proof -
  let ?w = "concat (map (\<lambda>b. [0x41 + drop_bit 4 b, 0x41 + (b AND 0xF)]) x) :: bytes"
  have "0 \<notin> set ?w" using nibble_nonzero by (auto simp: eq_commute [of 0])
  then have "netbios_m2i (c # ?w) = rstrip_byte 0x20 (map2 (\<lambda>a b. push_bit 4 ((a - 1) AND 0xF) + ((b - 1) AND 0xF))
      (every_other ?w) (every_other (drop (Suc 0) ?w)))"
    by (simp add: netbios_m2i_def strip_none Let_def)
  also have "map2 (\<lambda>a b. push_bit 4 ((a - 1) AND 0xF) + ((b - 1) AND 0xF)) (every_other ?w) (every_other (drop (Suc 0) ?w)) = x"
    unfolding every_other_pairs by (induction x) (simp_all only: list.map zip_Nil zip_Cons_Cons case_prod_conv nibbles_join)
  finally show ?thesis .
qed

text \<open>A name of NetBIOS comes back: any octets that fit into its half octets and do not end in a blank
  are written as letters and read as they were.\<close>

lemma netbios_roundtrip:
  assumes "length b \<le> n" "b = [] \<or> last b \<noteq> 0x20"
  shows "\<exists>w. add_field ds p (F_NetBIOS (2 * int n + 1)) (Aligned s) (V_Bytes b) = Inr (Aligned (s @ w)) \<and> length w = 2 * n + 1 \<and>
    get_field q (F_NetBIOS (2 * int n + 1)) (Whole (w @ rest)) = Inr (Whole rest, V_Bytes b)"
proof -
  let ?x = "b @ replicate (n - length b) 0x20"
  let ?w = "0x20 # concat (map (\<lambda>b. [0x41 + drop_bit 4 b, 0x41 + (b AND 0xF)]) ?x) :: bytes"
  have x: "take n (b @ replicate n 0x20) = ?x" using assms(1) by simp
  have l: "length ?w = 2 * n + 1"
  proof -
    have "length (concat (map (\<lambda>b. [0x41 + drop_bit 4 b, 0x41 + (b AND 0xF)]) y) :: bytes) = 2 * length y" for y :: bytes
      by (induction y) simp_all
    from this [of ?x] assms(1) show ?thesis by simp
  qed
  have "bytes_encode (if truthy (V_Bytes b) then V_Bytes b else V_Bytes []) = Inr b" by (simp add: bytes_encode_def)
  then have m: "netbios_i2m (2 * int n + 1) (V_Bytes b) = Inr ?w" using x by (simp add: netbios_i2m_def Let_def slice_to_def)
  have "bytes_pack (2 * int n + 1) ?w = Inr ?w" using l by (intro pack_fits) simp_all
  then have a: "add_field ds p (F_NetBIOS (2 * int n + 1)) (Aligned s) (V_Bytes b) = Inr (Aligned (s @ ?w))" by (simp add: m del: append.simps)
  have "int (length ?w) = 2 * int n + 1" using l by simp
  from strlen_front [of ?w netbios_m2i rest, unfolded this]
  have "get_field q (F_NetBIOS (2 * int n + 1)) (Whole (?w @ rest)) = Inr (Whole rest, V_Bytes (netbios_m2i ?w))"
    by (simp del: append.simps)
  also have "netbios_m2i ?w = b" unfolding netbios_m2i_pairs by (rule rstrip_blanks [OF assms(2)])
  finally show ?thesis using a l by blast
qed

lemma netbios_roundtrip_witness:
  "\<exists>w. add_field [] sample_packet (F_NetBIOS 31) (Aligned []) (V_Bytes [70, 79, 79]) = Inr (Aligned w) \<and>
    get_field sample_packet (F_NetBIOS 31) (Whole (w @ [9])) = Inr (Whole [9], V_Bytes [70, 79, 79])"
  using netbios_roundtrip [of "[70, 79, 79]" 15 "[]" sample_packet "[]" sample_packet "[9]"] by auto

end
