(* ===== verification/Spec2Isabelle.thy ===== *)
theory Spec2Isabelle
  imports Ber_Correct Checksums Hexdump In6_Source In6_Derived Route4_Correct Route6_Correct Pcap_Correct
    Net Ntlm_Payload Md4_Correct Ntlm_Invariant
    Dns_Message Atmt_Progress Erf_Correct Field_Limits
begin

text \<open>
  Verification of the Python code of the packet library \<open>wiry\<close> (\<open>src/python/wiry\<close>).

  \<^bold>\<open>The program.\<close> Packets of the library's own layers are built and dissected by a Rust
  extension; the Python code around it is the codecs, tables and tools a user calls: ASN.1 and
  BER, checksums and dumps, addresses, the routing tables of both IP versions with the choice of
  a source address, capture files, and the layers that are modelled in Python, of which NTLM
  and DNS are here; and the run time of automata. Every definition translates a function, method or class of a file
  named below; results of code that may raise are sums with the error on the left
  (\<^const>\<open>rbind\<close>), code that also keeps state is a function from a state to a result and the
  next state (\<^const>\<open>sbind\<close>), octet strings are lists of 8-bit words and text is a list of
  characters.

  \<^bold>\<open>Theories, in the order of their imports.\<close>

  \<^item> \<open>Prelude\<close>, \<open>Py_Text\<close>, \<open>Py_Str\<close>, \<open>Py_Socket\<close>, \<open>Py_Socket6\<close>: the vocabulary. Bit operations as
    arithmetic, integers and octets, results and stateful code; what the program uses of
    \<open>str\<close>, \<open>int\<close> and of the address functions of the standard library, with the round trips of
    the latter.
  \<^item> \<open>Ber_Prim\<close>, \<open>Ber_Elements\<close>, \<open>Mib\<close>, \<open>Asn1_Objects\<close>, \<open>Ber_Codec\<close> (\<open>asn1/ber.py\<close>,
    \<open>asn1/mib.py\<close>, \<open>asn1/asn1.py\<close>): lengths, tags and numbers, the decoding budget, the walk over
    the elements of a constructed value, the codecs and their objects. The state is the budget
    (\<^const>\<open>ber_budget\<close>, \<^const>\<open>charge\<close>). The decoder counts its nesting as the source does and
    raises past \<open>MAX_BER_DEPTH\<close>, which is also why it ends.
    \<open>Ber_Roundtrip\<close>, \<open>Ber_Framing\<close>, \<open>Ber_Budget\<close> and \<open>Ber_Correct\<close> prove: what is encoded is
    decoded, the walk is repeated decoding outside safe mode (and how they differ in it), the
    budget is restored whatever happens. \<open>Asn1_BitString\<close> and \<open>Mib_Register\<close>: the three
    attributes of a bit string agree, names of object identifiers are resolved completely.
  \<^item> \<open>Checksums\<close>, \<open>Align\<close>, \<open>Hexdump\<close>, \<open>Addr4\<close> (\<open>utils.py\<close>): the internet checksum against RFC 1071,
    Fletcher-16, the alignment behind \<open>hexdiff\<close> and how far from minimal it is, the dumps,
    IPv4 and hardware addresses.
  \<^item> \<open>In6\<close>, \<open>In6_Prefix\<close>, \<open>In6_Source\<close>, \<open>In6_Derived\<close> (\<open>utils6.py\<close>): IPv6 addresses as text and octets,
    prefixes, scopes, derived addresses and the selection of a source address, which is shown
    to follow RFC 6724 for the addresses whose scope the code knows, and to fail it for others.
  \<^item> \<open>Route_Read\<close>, \<open>Route4\<close>, \<open>Route6\<close> (\<open>route.py\<close>): reading the host's tables, changing them,
    looking routes up through a cache. \<open>Cached_Table\<close> is the contract between a table and its
    cache as a locale, interpreted on both tables; \<open>Route4_Correct\<close> and \<open>Route6_Correct\<close> show that
    the cache is transparent, that a lookup answers the longest prefix, and where it does not.
  \<^item> \<open>Pcapng\<close>, \<open>Pcap_Write\<close> (\<open>pcapio.py\<close>): blocks and options of pcapng, the writers and the parts of
    the readers that are not in the extension; \<open>Py_Float\<close>, \<open>Erf\<close>: Python's floats as rounded rationals, and
    ERF files with float times; \<open>Erf_Correct\<close>, \<open>Pcapng_Correct\<close>, \<open>Pcap_Correct\<close>: files
    are read back as they were written.
  \<^item> \<open>Net\<close> (\<open>volatile.py\<close>): ranges of addresses. A range made by the constructor is well formed,
    is the sequence of its addresses, and its \<open>repr\<close> makes it again.
  \<^item> \<open>Str_Buffer\<close>, \<open>Md4\<close> and \<open>Md4_Correct\<close> (\<open>_pysupport.py\<close>), \<open>Ntlm_Payload\<close> (\<open>layers/ntlm.py\<close>): the reordering buffer
    against an abstract map from stream positions to octets, MD4 against RFC 1320, the values
    of an NTLM message placed by offset and length, built and parsed again.

  \<^item> \<open>Ntlm_Crypto\<close>, \<open>Ntlm_Ssp\<close>, \<open>Ntlm_Steps\<close> (\<open>layers/ntlm.py\<close>, \<open>layers/gssapi.py\<close>): NTLM as a
    security provider. The state is the context (\<^const>\<open>new_context\<close>): the step it is at, the
    keys, the cipher handles and the messages kept. \<^const>\<open>gss_init\<close>, \<^const>\<open>gss_accept\<close> and
    \<^const>\<open>gss_passive\<close> are the steps of a client, a server and an observer, \<^const>\<open>gss_wrap\<close> and
    \<^const>\<open>gss_unwrap\<close> seal and open messages. \<open>Ntlm_Correct\<close>: a client and a server that share a
    hash complete with mirrored keys, and completing means a right proof. \<open>Ntlm_Invariant\<close>: calls as a
    step relation, and what every reachable context keeps.
  \<^item> \<open>Dns_Names\<close>, \<open>Dns_Records\<close> (\<open>layers/dns.py\<close>): names between text, labels and octets with compression
    pointers (\<^const>\<open>dns_encode\<close>, \<^const>\<open>dns_get_str\<close>), character strings, type bit maps, client subnets,
    the lengths of records and how a message is cut into its records. \<open>Dns_Correct\<close>: names come back, the
    reader follows pointers as RFC 1035 says and always returns; \<open>Dns_Bitmaps\<close> and \<open>Dns_Message\<close>: bit maps,
    records and subnets come back.
  \<^item> \<open>Atmt_Timers\<close>, \<open>Atmt_Class\<close>, \<open>Atmt_Run\<close> (\<open>automaton.py\<close>): timers, the decorators and the tables that the
    metaclass makes of a class (\<^const>\<open>class_tables\<close>), the run loop. The state of a machine is \<open>atmt\<close>; the
    generator of the source is \<^const>\<open>do_next\<close>, whose \<open>position\<close> says where it was suspended; the control
    thread is \<^const>\<open>control_command\<close> on the record \<open>control\<close>. Each call is given whether a command is
    pending and the rounds of the loop: the time that passed and what select returns. \<open>Atmt_Safe\<close>: a step
    relation with its reachable machines, which stay within the tables of their class.
    \<open>Atmt_Progress\<close>: the best priority decides, timeouts move the machine, a pending command may not.
  \<^item> \<open>Py_Fields\<close> (\<open>_pyfields.py\<close>, \<open>_pylayer.py\<close>): the fields of layers written in Python as the datatype
    \<open>fieldt\<close>, one constructor for a class of fields, with \<^const>\<open>add_field\<close> and \<^const>\<open>get_field\<close> for their
    methods; a packet (\<open>packet\<close>) with its dictionaries of values and the octets kept of it, built by
    \<^const>\<open>self_build\<close> and dissected by \<^const>\<open>do_dissect\<close>. \<open>Field_Wire\<close>: what octets a field stands for, over the
    contract \<open>wire_field\<close> of the elements of a list; \<open>Field_Bits\<close>: one step of a group of bit fields;
    \<open>Field_Packet\<close>: a packet that is built is dissected into its values, and one that is dissected is built
    from its octets; \<open>Field_Limits\<close>: bounds of lists, and values that do not come back.

  \<^bold>\<open>Bounds.\<close> Where the source loops on data, the recursion is structural or has a measure;
  loops that may not end are partial functions, and what is proved of them includes that they
  return. Integers are unbounded as in Python except where the source masks them: the words of
  MD4 and the octets of every buffer have their width.

  \<^bold>\<open>Parameters.\<close> What the operating system or the extension answers (the host's interfaces and
  routes, the index of a capture file, opcodes of \<open>difflib\<close>, digests and RC4, Unicode's case
  mappings, the clock and random octets) is an argument of the
  definitions that use it, and so are the functions of the author of an automaton (the record \<open>code\<close>), which
  keep a state of their own and do not reach into the fields of the machine.

  \<^bold>\<open>Not modelled.\<close> Printing, logging, threads, sockets and the operating system; the packets
  of \<open>__init__.py\<close>, which the extension builds; of \<open>_pyfields.py\<close> and \<open>_pylayer.py\<close> enumerations, flags,
  packets inside fields, what turns a user's value into a field's, and the chain of payloads; the
  field tables of the layers;
  the compression of built DNS messages, which edits packets in place, and the resolver; the pipes and super
  sockets of automata and their TCP server, keyword arguments of their functions, the rounding of times;
  the generated tables; the Rust crates, the generators, tests and fuzzers.
\<close>

end
